(* ===== verification/Prelude.thy ===== *)
theory Prelude
  imports Main "HOL-Library.Finite_Map" "HOL-Library.List_Lexorder"
    "HOL-Library.Char_ord" "HOL-Library.Product_Lexorder" "HOL-Library.Multiset"
begin

text \<open>
  Shared vocabulary of the development: results that may be an error, loops over a slice with
  its index, Go maps as finite maps whose keys are visited in sorted order, decimal numbers,
  and the string operations \<open>strings.Join\<close>, \<open>strings.Split\<close> and \<open>strings.ReplaceAll\<close> of a
  one-byte separator.  A Go \<open>string\<close> is a sequence of bytes, which is what Isabelle's
  \<open>string\<close> (a list of 8-bit characters) is; \<open><\<close> on both is the bytewise lexicographic order.
\<close>

named_theorems outcome_simps "how the error monad computes"
named_theorems loop_simps "lemmas about indexed loops"

section \<open>Results: an error on the left, a value on the right\<close>

text \<open>\<open>if err != nil { return err }; continue with the value\<close>.\<close>

definition ok_then :: "'e + 'a \<Rightarrow> ('a \<Rightarrow> 'e + 'b) \<Rightarrow> 'e + 'b" where
  "ok_then m f = (case m of Inl e \<Rightarrow> Inl e | Inr x \<Rightarrow> f x)"

lemma ok_then_Inl [simp, outcome_simps]: "ok_then (Inl e) f = Inl e"
  by (simp add: ok_then_def)

lemma ok_then_Inr [simp, outcome_simps]: "ok_then (Inr x) f = f x"
  by (simp add: ok_then_def)

lemma ok_then_eq_Inr: "ok_then m f = Inr y \<longleftrightarrow> (\<exists>x. m = Inr x \<and> f x = Inr y)"
  by (cases m) auto

lemma ok_then_eq_Inl:
  "ok_then m f = Inl e \<longleftrightarrow> m = Inl e \<or> (\<exists>x. m = Inr x \<and> f x = Inl e)"
  by (cases m) auto

lemma ok_then_assoc: "ok_then (ok_then m f) g = ok_then m (\<lambda>x. ok_then (f x) g)"
  by (cases m) auto

text \<open>\<open>if bad { return err }\<close> in front of the rest.\<close>

definition fail_if :: "bool \<Rightarrow> 'e \<Rightarrow> 'e + 'a \<Rightarrow> 'e + 'a" where
  "fail_if b e rest = (if b then Inl e else rest)"

lemma fail_if_unfold [code_unfold]: "fail_if b e rest = (if b then Inl e else rest)"
  by (simp add: fail_if_def)

lemma fail_if_eq_Inr [simp, outcome_simps]: "fail_if b e r = Inr x \<longleftrightarrow> \<not> b \<and> r = Inr x"
  by (simp add: fail_if_def)

lemma fail_if_eq_Inl: "fail_if b e r = Inl f \<longleftrightarrow> (b \<and> f = e) \<or> (\<not> b \<and> r = Inl f)"
  by (auto simp: fail_if_def)

lemma fail_if_True [simp, outcome_simps]: "fail_if True e r = Inl e"
  by (simp add: fail_if_def)

lemma fail_if_False [simp, outcome_simps]: "fail_if False e r = r"
  by (simp add: fail_if_def)

section \<open>Loops over a slice with its index\<close>

text \<open>\<open>for index, x := range xs { out = append(out, f(index, x)...) }\<close>.\<close>

fun ix_concat_from :: "nat \<Rightarrow> (nat \<Rightarrow> 'a \<Rightarrow> 'b list) \<Rightarrow> 'a list \<Rightarrow> 'b list" where
  "ix_concat_from i f [] = []"
| "ix_concat_from i f (x # xs) = f i x @ ix_concat_from (Suc i) f xs"

definition ix_concat :: "(nat \<Rightarrow> 'a \<Rightarrow> 'b list) \<Rightarrow> 'a list \<Rightarrow> 'b list" where
  "ix_concat f xs = ix_concat_from 0 f xs"

lemma ix_concat_from_eq_Nil:
  "ix_concat_from i f xs = [] \<longleftrightarrow> (\<forall>k < length xs. f (i + k) (xs ! k) = [])"
proof (induction xs arbitrary: i)
  case Nil
  then show ?case by simp
next
  case (Cons x xs)
  then show ?case by (simp add: All_less_Suc2)
qed

lemma ix_concat_eq_Nil [loop_simps]:
  "ix_concat f xs = [] \<longleftrightarrow> (\<forall>k < length xs. f k (xs ! k) = [])"
  by (simp add: ix_concat_def ix_concat_from_eq_Nil)

lemma set_ix_concat_from:
  "set (ix_concat_from i f xs) = (\<Union>k < length xs. set (f (i + k) (xs ! k)))"
proof (induction xs arbitrary: i)
  case Nil
  then show ?case by simp
next
  case (Cons x xs)
  have "(\<Union>k < Suc (length xs). set (f (i + k) ((x # xs) ! k)))
      = set (f i x) \<union> (\<Union>k < length xs. set (f (Suc i + k) (xs ! k)))"
    by (simp add: lessThan_Suc_eq_insert_0)
  with Cons show ?case by simp
qed

lemma set_ix_concat [loop_simps]: "set (ix_concat f xs) = (\<Union>k < length xs. set (f k (xs ! k)))"
  by (simp add: ix_concat_def set_ix_concat_from)

text \<open>The first error of a loop whose body may return early.\<close>

fun each_ok :: "('a \<Rightarrow> 'e + 'b) \<Rightarrow> 'a list \<Rightarrow> 'e + 'b list" where
  "each_ok f [] = Inr []"
| "each_ok f (x # xs) = ok_then (f x) (\<lambda>y. ok_then (each_ok f xs) (\<lambda>ys. Inr (y # ys)))"

lemma each_ok_cong [fundef_cong]:
  "xs = ys \<Longrightarrow> (\<And>x. x \<in> set ys \<Longrightarrow> f x = g x) \<Longrightarrow> each_ok f xs = each_ok g ys"
  by (induction ys arbitrary: xs) auto

lemma each_ok_Inr_iff:
  "each_ok f xs = Inr ys \<longleftrightarrow> list_all2 (\<lambda>x y. f x = Inr y) xs ys"
  by (induction xs arbitrary: ys) (auto simp: ok_then_eq_Inr list_all2_Cons1)

section \<open>Go maps\<close>

text \<open>
  A Go map is a finite map.  Where the code collects the keys and sorts them before it
  visits the entries, the model visits \<open>fm_keys\<close>.
\<close>

definition fm_keys :: "('k::linorder, 'v) fmap \<Rightarrow> 'k list" where
  "fm_keys m = sorted_list_of_fset (fmdom m)"

lemma set_fm_keys [simp]: "set (fm_keys m) = fset (fmdom m)"
  by (simp add: fm_keys_def)

lemma sorted_fm_keys [simp]: "sorted (fm_keys m)"
  by (simp add: fm_keys_def sorted_list_of_fset.rep_eq)

lemma distinct_fm_keys [simp]: "distinct (fm_keys m)"
  by (simp add: fm_keys_def sorted_list_of_fset.rep_eq)

lemma sorted_list_of_fset_of_list:
  "sorted_list_of_fset (fset_of_list xs) = sort (remdups xs)"
  by (simp add: sorted_list_of_fset.rep_eq fset_of_list.rep_eq sorted_list_of_set_sort_remdups)

lemma fm_keys_of_list [code]: "fm_keys (fmap_of_list xs) = sort (remdups (map fst xs))"
proof -
  have "fset (fmdom (fmap_of_list xs)) = set (map fst xs)"
    by (simp add: fset_of_list.rep_eq)
  then have "fm_keys (fmap_of_list xs) = sorted_list_of_set (set (map fst xs))"
    by (simp only: fm_keys_def sorted_list_of_fset.rep_eq)
  then show ?thesis
    by (simp only: sorted_list_of_set_sort_remdups)
qed

lemma fmdom_lookup_iff: "k \<in> fset (fmdom m) \<longleftrightarrow> (\<exists>v. fmlookup m k = Some v)"
  by (rule fmlookup_dom_iff)

definition fm_has :: "('k, 'v) fmap \<Rightarrow> 'k \<Rightarrow> bool" where
  "fm_has m k = (fmlookup m k \<noteq> None)"

section \<open>Decimal numbers: \<open>%d\<close>\<close>

definition digit_char :: "nat \<Rightarrow> char" where
  "digit_char d = char_of (48 + d mod 10)"

fun show_nat :: "nat \<Rightarrow> string" where
  "show_nat n = (if n < 10 then [digit_char n] else show_nat (n div 10) @ [digit_char (n mod 10)])"

declare show_nat.simps [simp del]

definition show_int :: "int \<Rightarrow> string" where
  "show_int i = (if i < 0 then CHR ''-'' # show_nat (nat (- i)) else show_nat (nat i))"

definition is_digit :: "char \<Rightarrow> bool" where
  "is_digit c = (48 \<le> (of_char c :: nat) \<and> of_char c \<le> (57 :: nat))"

lemma is_digit_digit_char [simp]: "is_digit (digit_char d)"
proof -
  have "48 + d mod 10 < 256" and "d mod 10 \<le> 9" by simp_all
  then show ?thesis by (simp add: is_digit_def digit_char_def)
qed

lemma show_nat_digits: "c \<in> set (show_nat n) \<Longrightarrow> is_digit c"
proof (induction n rule: show_nat.induct)
  case (1 n)
  then show ?case
    by (subst (asm) (2) show_nat.simps) (auto split: if_splits)
qed

lemma show_nat_nonempty [simp]: "show_nat n \<noteq> []"
  by (subst show_nat.simps) simp

section \<open>The string functions of the standard library the code uses\<close>

text \<open>\<open>strings.Join\<close>.\<close>

fun join :: "string \<Rightarrow> string list \<Rightarrow> string" where
  "join sep [] = []"
| "join sep [x] = x"
| "join sep (x # y # xs) = x @ sep @ join sep (y # xs)"

text \<open>\<open>strings.Split\<close> at a one-byte separator: always at least one part.\<close>

fun split_at :: "char \<Rightarrow> string \<Rightarrow> string list" where
  "split_at c [] = [[]]"
| "split_at c (x # xs) =
     (if x = c then [] # split_at c xs
      else case split_at c xs of [] \<Rightarrow> [[x]] | p # ps \<Rightarrow> (x # p) # ps)"

lemma split_at_nonempty [simp]: "split_at c xs \<noteq> []"
  by (induction xs) (auto split: list.splits)

lemma split_at_no_sep: "c \<notin> set p \<Longrightarrow> split_at c p = [p]"
  by (induction p) auto

lemma split_at_append:
  "c \<notin> set p \<Longrightarrow> split_at c (p @ c # rest) = p # split_at c rest"
  by (induction p) auto

text \<open>Joining the parts gives the string back.\<close>

lemma join_split_at: "join [c] (split_at c s) = s"
proof (induction s)
  case Nil
  then show ?case by simp
next
  case (Cons x xs)
  obtain p ps where p: "split_at c xs = p # ps"
    by (cases "split_at c xs") auto
  with Cons show ?case
    by (cases ps) auto
qed

text \<open>\<open>strings.ReplaceAll\<close> of a one-byte pattern.\<close>

definition replace_all :: "char \<Rightarrow> string \<Rightarrow> string \<Rightarrow> string" where
  "replace_all c w s = concat (map (\<lambda>x. if x = c then w else [x]) s)"

text \<open>\<open>strings.Contains\<close>.\<close>

fun starts_with :: "string \<Rightarrow> string \<Rightarrow> bool" where
  "starts_with [] s = True"
| "starts_with (p # ps) [] = False"
| "starts_with (p # ps) (x # xs) = (p = x \<and> starts_with ps xs)"

fun contains_str :: "string \<Rightarrow> string \<Rightarrow> bool" where
  "contains_str [] p = (p = [])"
| "contains_str (x # xs) p = (starts_with p (x # xs) \<or> contains_str xs p)"

lemma starts_with_iff: "starts_with p s \<longleftrightarrow> (\<exists>t. s = p @ t)"
  by (induction p s rule: starts_with.induct) auto

lemma contains_str_iff: "contains_str s p \<longleftrightarrow> (\<exists>a b. s = a @ p @ b)"
proof (induction s)
  case Nil
  then show ?case by simp
next
  case (Cons x xs)
  have "(\<exists>a b. x # xs = a @ p @ b) \<longleftrightarrow> (\<exists>b. x # xs = p @ b) \<or> (\<exists>a b. xs = a @ p @ b)"
    by (metis append_Cons append_Nil list.sel(3) neq_Nil_conv)
  with Cons show ?case
    by (simp add: starts_with_iff)
qed

end
