(* ===== verification/GoString.thy ===== *)
theory GoString
  imports Prelude "HOL-Library.Word"
begin

text \<open>
  The parts of Go's \<open>unicode/utf8\<close> and \<open>unicode\<close> packages the program uses, and
  \<open>trimUnicodeSpace\<close> of internal/domain/name.go (internal/record/value.go has the same function
  as \<open>trimRecordSpace\<close>, which is \<open>strings.TrimFunc\<close> with \<open>unicode.IsSpace\<close>).  A string is its
  bytes; a rune is a natural number; decoding an invalid byte gives \<open>RuneError\<close> (U+FFFD) and
  consumes one byte, as the library documents.  The lemmas show that a valid rune is determined
  by its own bytes, whatever follows or precedes it, from which the trimming function is shown
  to leave no white space at either end and to be idempotent.
\<close>

section \<open>\<open>utf8.DecodeRuneInString\<close> and \<open>utf8.DecodeLastRuneInString\<close>\<close>

abbreviation rune_error :: nat where "rune_error \<equiv> 65533"

abbreviation byte :: "char \<Rightarrow> nat" where "byte c \<equiv> of_char c"

text \<open>A byte that may start a rune: \<open>utf8.RuneStart\<close>.\<close>

definition rune_start :: "char \<Rightarrow> bool" where
  "rune_start c = (byte c < 128 \<or> 192 \<le> byte c)"

text \<open>The length of the sequence a first byte announces and the bounds of its second byte.\<close>

definition seq_shape :: "nat \<Rightarrow> (nat \<times> nat \<times> nat) option" where
  "seq_shape b =
     (if 194 \<le> b \<and> b \<le> 223 then Some (2, 128, 191)
      else if b = 224 then Some (3, 160, 191)
      else if b = 237 then Some (3, 128, 159)
      else if 225 \<le> b \<and> b \<le> 239 then Some (3, 128, 191)
      else if b = 240 then Some (4, 144, 191)
      else if 241 \<le> b \<and> b \<le> 243 then Some (4, 128, 191)
      else if b = 244 then Some (4, 128, 143)
      else None)"

definition seq_tail_ok :: "nat \<Rightarrow> nat \<Rightarrow> nat \<Rightarrow> string \<Rightarrow> bool" where
  "seq_tail_ok n lo hi tail =
     (length tail = n - 1 \<and> tail \<noteq> [] \<and> lo \<le> byte (hd tail) \<and> byte (hd tail) \<le> hi
      \<and> list_all (\<lambda>c. \<not> rune_start c) tail)"

fun decode_rune :: "string \<Rightarrow> nat \<times> nat" where
  "decode_rune [] = (rune_error, 0)"
| "decode_rune (c # rest) =
     (if byte c < 128 then (byte c, 1)
      else case seq_shape (byte c) of
        None \<Rightarrow> (rune_error, 1)
      | Some (n, lo, hi) \<Rightarrow>
          let tail = take (n - 1) rest in
          if seq_tail_ok n lo hi tail
          then (foldl (\<lambda>v c. v * 64 + byte c mod 64) (byte c mod 2 ^ (7 - n)) tail, n)
          else (rune_error, 1))"

definition decode_last :: "string \<Rightarrow> nat \<times> nat" where
  "decode_last s =
     (let n = length s in
      if n = 0 then (rune_error, 0)
      else if byte (last s) < 128 then (byte (last s), 1)
      else case find (\<lambda>j. rune_start (s ! j)) (rev [n - 4..<n - 1]) of
        None \<Rightarrow> (rune_error, 1)
      | Some j \<Rightarrow>
          let (r, size) = decode_rune (drop j s) in
          if j + size \<noteq> n then (rune_error, 1) else (r, size))"

text \<open>A rune that is encoded correctly at the head of the string.\<close>

definition decodes :: "string \<Rightarrow> nat \<Rightarrow> nat \<Rightarrow> bool" where
  "decodes s r k = (s \<noteq> [] \<and> decode_rune s = (r, k) \<and> (k > 1 \<or> r < 128))"

lemma seq_shape_length: "seq_shape b = Some (n, lo, hi) \<Longrightarrow> 2 \<le> n \<and> n \<le> 4"
  by (auto simp: seq_shape_def split: if_splits)

lemma seq_shape_start: "seq_shape (byte c) = Some (n, lo, hi) \<Longrightarrow> rune_start c"
  by (auto simp: seq_shape_def rune_start_def split: if_splits)

lemma decode_rune_size: "s \<noteq> [] \<Longrightarrow> 1 \<le> snd (decode_rune s) \<and> snd (decode_rune s) \<le> length s"
  by (cases s)
    (auto simp: Let_def seq_tail_ok_def min_def split: option.splits prod.splits if_splits
        dest!: seq_shape_length)

lemma decode_rune_valid_or_error:
  "s \<noteq> [] \<Longrightarrow> decodes s (fst (decode_rune s)) (snd (decode_rune s)) \<or> decode_rune s = (rune_error, 1)"
  by (cases s) (auto simp: decodes_def Let_def split: option.splits prod.splits if_splits
      dest!: seq_shape_length)

text \<open>The shape of a correctly encoded rune: one ASCII byte, or a first byte and its tail.\<close>

lemma decodes_cases:
  assumes "decodes s r k"
  obtains (ascii) c rest where "s = c # rest" "byte c < 128" "r = byte c" "k = 1"
  | (long) c rest lo hi where "s = c # rest" "\<not> byte c < 128"
      "seq_shape (byte c) = Some (k, lo, hi)" "seq_tail_ok k lo hi (take (k - 1) rest)"
      "r = foldl (\<lambda>v c. v * 64 + byte c mod 64) (byte c mod 2 ^ (7 - k)) (take (k - 1) rest)"
proof (cases s)
  case Nil
  then show ?thesis using assms by (simp add: decodes_def)
next
  case (Cons c rest)
  show ?thesis
  proof (cases "byte c < 128")
    case True
    then show ?thesis using assms Cons by (intro ascii[of c rest]) (auto simp: decodes_def)
  next
    case False
    then obtain n lo hi where sh: "seq_shape (byte c) = Some (n, lo, hi)"
      using assms Cons by (auto simp: decodes_def split: option.splits)
    then show ?thesis using assms Cons False
      by (intro long[of c rest lo hi]) (auto simp: decodes_def Let_def split: if_splits)
  qed
qed

lemma decodes_long:
  assumes "\<not> byte c < 128" "seq_shape (byte c) = Some (k, lo, hi)"
    "seq_tail_ok k lo hi (take (k - 1) rest)"
  shows "decodes (c # rest) (foldl (\<lambda>v c. v * 64 + byte c mod 64) (byte c mod 2 ^ (7 - k)) (take (k - 1) rest)) k"
  using assms seq_shape_length[OF assms(2)] by (simp add: decodes_def)

lemma decodes_prefix:
  assumes "decodes s r k" shows "decodes (take k s @ t) r k"
  using assms
proof (cases rule: decodes_cases)
  case (ascii c rest)
  then show ?thesis by (simp add: decodes_def)
next
  case (long c rest lo hi)
  have "2 \<le> k" using seq_shape_length[OF long(3)] by simp
  then obtain k' where k': "k = Suc k'" by (cases k) auto
  have "length (take k' rest) = k'" using long(4) k' by (simp add: seq_tail_ok_def)
  then have same: "take (k - 1) (take k' rest @ t) = take (k - 1) rest" using k' by simp
  have "decodes (c # (take k' rest @ t)) r k"
    unfolding long(5) same[symmetric] by (rule decodes_long[OF long(2,3)]) (simp only: same long(4))
  then show ?thesis using long(1) k' by simp
qed

lemma decodes_size: "decodes s r k \<Longrightarrow> 1 \<le> k \<and> k \<le> length s"
  using decode_rune_size[of s] by (auto simp: decodes_def)

lemma decodes_append_iff:
  assumes "k \<le> length s" shows "decodes (s @ t) r k \<longleftrightarrow> decodes s r k"
proof
  assume "decodes (s @ t) r k"
  from decodes_prefix[OF this, of "drop k s"] show "decodes s r k"
    using assms by simp
next
  assume "decodes s r k"
  from decodes_prefix[OF this, of "drop k s @ t"] show "decodes (s @ t) r k"
    by (metis append.assoc append_take_drop_id)
qed

lemma decodes_start: "decodes s r k \<Longrightarrow> rune_start (s ! 0)"
  by (erule decodes_cases) (auto simp: rune_start_def dest: seq_shape_start[unfolded rune_start_def])

lemma decodes_tail:
  assumes "decodes s r k" "0 < i" "i < k" shows "\<not> rune_start (s ! i)"
  using assms(1)
proof (cases rule: decodes_cases)
  case (ascii c rest)
  then show ?thesis using assms by simp
next
  case (long c rest lo hi)
  have "i - 1 < k - 1" using assms by simp
  moreover have "list_all (\<lambda>c. \<not> rune_start c) (take (k - 1) rest)" "length (take (k - 1) rest) = k - 1"
    using long(4) by (simp_all add: seq_tail_ok_def)
  ultimately have "\<not> rune_start (take (k - 1) rest ! (i - 1))" by (simp add: list_all_length)
  then show ?thesis using long(1) assms \<open>i - 1 < k - 1\<close> by (cases i) auto
qed

text \<open>A correctly encoded rune that ends the string is what decoding from the end finds.\<close>

lemma decode_last_suffix:
  assumes d: "decodes (drop (length s - k) s) r k" and k: "k \<le> length s"
  shows "decode_last s = (r, k)"
  using d
proof (cases rule: decodes_cases)
  case (ascii c rest)
  then have "length (c # rest) = 1" using k by (metis diff_diff_cancel length_drop)
  then have "drop (length s - k) s = [c]" using ascii by simp
  then have "s \<noteq> []" "last s = c"
    by auto (metis append_take_drop_id last_snoc)
  then show ?thesis using ascii by (simp add: decode_last_def)
next
  case (long c rest lo hi)
  have k2: "2 \<le> k" "k \<le> 4" using seq_shape_length[OF long(3)] by auto
  let ?n = "length s"
  have at: "drop (?n - k) s ! i = s ! (?n - k + i)" if "i < k" for i
    using that k by simp
  have st: "rune_start (s ! (?n - k))" using decodes_start[OF d] at[of 0] k2 by simp
  have cont: "\<not> rune_start (s ! j)" if "?n - k < j" "j < ?n" for j
    using decodes_tail[OF d, of "j - (?n - k)"] at[of "j - (?n - k)"] that by simp
  have "s \<noteq> []" using k k2 by auto
  moreover have "\<not> byte (last s) < 128"
    using cont[of "?n - 1"] k2 k \<open>s \<noteq> []\<close> by (auto simp: last_conv_nth rune_start_def)
  moreover have "find (\<lambda>j. rune_start (s ! j)) (rev [?n - 4..<?n - 1]) = Some (?n - k)"
  proof -
    have "[?n - 4..<?n - 1] = [?n - 4..<?n - k] @ [?n - k..<?n - 1]"
      using upt_add_eq_append[of "?n - 4" "?n - k" "k - 1"] k2 k by simp
    also have "[?n - k..<?n - 1] = (?n - k) # [Suc (?n - k)..<?n - 1]"
      using k2 k by (subst upt_conv_Cons) auto
    finally have "[?n - 4..<?n - 1] = [?n - 4..<?n - k] @ (?n - k) # [Suc (?n - k)..<?n - 1]" .
    moreover have "find P (xs @ x # ys) = Some x" if "\<forall>y \<in> set xs. \<not> P y" "P x"
      for P and x :: nat and xs ys
      using that by (induction xs) auto
    moreover have "\<forall>j \<in> set (rev [Suc (?n - k)..<?n - 1]). \<not> rune_start (s ! j)"
      using cont by auto
    ultimately show ?thesis using st by simp
  qed
  moreover have "decode_rune (drop (?n - k) s) = (r, k)" using d by (simp add: decodes_def)
  ultimately show ?thesis using k by (simp add: decode_last_def)
qed

lemma decode_last_valid:
  assumes "decode_last s = (r, k)" "s \<noteq> []" "r \<noteq> rune_error"
  shows "decodes (drop (length s - k) s) r k \<and> 1 \<le> k \<and> k \<le> length s"
proof (cases "byte (last s) < 128")
  case True
  then have "r = byte (last s)" "k = 1" using assms by (auto simp: decode_last_def)
  moreover have "drop (length s - 1) s = [last s]" using assms(2)
    by (metis append_butlast_last_id append_eq_conv_conj length_butlast)
  moreover have "0 < length s" using assms(2) by simp
  ultimately show ?thesis using True by (simp add: decodes_def Suc_leI)
next
  case False
  then obtain j where j: "find (\<lambda>j. rune_start (s ! j)) (rev [length s - 4..<length s - 1]) = Some j"
    and r: "decode_rune (drop j s) = (r, k)" "j + k = length s"
    using assms by (auto simp: decode_last_def Let_def split: option.splits prod.splits if_splits)
  have "j < length s - 1" using j by (auto simp: find_Some_iff rev_nth)
  then have "drop j s \<noteq> []" "2 \<le> k" using r by auto
  then have "decodes (drop j s) r k" using r(1) assms(3) by (simp add: decodes_def)
  moreover have "length s - k = j" using r by simp
  ultimately show ?thesis using r \<open>2 \<le> k\<close> by simp
qed

section \<open>\<open>range\<close> over a string, and character classes\<close>

function runes :: "string \<Rightarrow> nat list" where
  "runes [] = []"
| "runes (c # cs) = fst (decode_rune (c # cs)) # runes (drop (snd (decode_rune (c # cs))) (c # cs))"
  by pat_completeness auto
termination
proof (relation "measure length", goal_cases)
  case (2 c cs)
  then show ?case using decode_rune_size[of "c # cs"] by (simp del: decode_rune.simps)
qed simp

declare runes.simps(2) [simp del]

text \<open>\<open>utf8.RuneCountInString\<close>, \<open>unicode.IsSpace\<close>, \<open>unicode.IsControl\<close>.\<close>

definition rune_count :: "string \<Rightarrow> nat" where
  "rune_count s = length (runes s)"

definition is_space_rune :: "nat \<Rightarrow> bool" where
  "is_space_rune r =
     ((9 \<le> r \<and> r \<le> 13) \<or> r = 32 \<or> r = 133 \<or> r = 160 \<or> r = 5760 \<or> (8192 \<le> r \<and> r \<le> 8202)
      \<or> r = 8232 \<or> r = 8233 \<or> r = 8239 \<or> r = 8287 \<or> r = 12288)"

definition is_control_rune :: "nat \<Rightarrow> bool" where
  "is_control_rune r = (r < 32 \<or> (127 \<le> r \<and> r < 160))"

lemma rune_error_not_space [simp]: "\<not> is_space_rune rune_error"
  by (simp add: is_space_rune_def)

lemma rune_count_ascii:
  "list_all (\<lambda>c. byte c < 128) s \<Longrightarrow> rune_count s = length s"
  unfolding rune_count_def by (induction s) (auto simp: runes.simps(2))

section \<open>\<open>trimUnicodeSpace\<close>\<close>

text \<open>The two loops of the function: \<open>start\<close> moves right, \<open>end\<close> moves left.\<close>

function trim_start :: "string \<Rightarrow> nat \<Rightarrow> nat" where
  "trim_start value start =
     (if start < length value \<and> is_space_rune (fst (decode_rune (drop start value)))
      then trim_start value (start + snd (decode_rune (drop start value)))
      else start)"
  by auto
termination
proof (relation "measure (\<lambda>(value, start). length value - start)", goal_cases)
  case (2 v start)
  then show ?case using decode_rune_size[of "drop start v"] by auto
qed simp

function trim_end :: "string \<Rightarrow> nat \<Rightarrow> nat \<Rightarrow> nat" where
  "trim_end value start stop =
     (if start < stop \<and> is_space_rune (fst (decode_last (take stop value)))
      then trim_end value start (stop - snd (decode_last (take stop value)))
      else stop)"
  by auto
termination
proof (relation "measure (\<lambda>(value, start, stop). stop)", goal_cases)
  case (2 v start stop)
  then have "take stop v \<noteq> []"
    by (auto simp: decode_last_def)
  moreover obtain r k where "decode_last (take stop v) = (r, k)" by fastforce
  moreover have "r \<noteq> rune_error" using 2 calculation by auto
  ultimately show ?case using decode_last_valid[of "take stop v" r k] 2 by auto
qed simp

declare trim_start.simps [simp del] trim_end.simps [simp del]

definition trim_unicode_space :: "string \<Rightarrow> string" where
  "trim_unicode_space value =
     (let start = trim_start value 0; stop = trim_end value start (length value)
      in drop start (take stop value))"

text \<open>A string with no white space at its ends.\<close>

definition no_edge_space :: "string \<Rightarrow> bool" where
  "no_edge_space s =
     (\<not> is_space_rune (fst (decode_rune s)) \<and> \<not> is_space_rune (fst (decode_last s)))"

lemma trim_start_bound: "start \<le> length v \<Longrightarrow> start \<le> trim_start v start \<and> trim_start v start \<le> length v"
proof (induction v start rule: trim_start.induct)
  case (1 v start)
  show ?case
  proof (cases "start < length v \<and> is_space_rune (fst (decode_rune (drop start v)))")
    case True
    let ?k = "snd (decode_rune (drop start v))"
    have "trim_start v start = trim_start v (start + ?k)"
      using True by (subst trim_start.simps) simp
    moreover have "start + ?k \<le> length v"
      using True decode_rune_size[of "drop start v"] by auto
    ultimately show ?thesis using 1(1)[OF True] by simp
  next
    case False
    then show ?thesis using 1(2) by (subst (1 2) trim_start.simps) auto
  qed
qed

lemma trim_start_stops:
  "trim_start v start < length v \<Longrightarrow> \<not> is_space_rune (fst (decode_rune (drop (trim_start v start) v)))"
proof (induction v start rule: trim_start.induct)
  case (1 v start)
  show ?case
  proof (cases "start < length v \<and> is_space_rune (fst (decode_rune (drop start v)))")
    case True
    then have "trim_start v start = trim_start v (start + snd (decode_rune (drop start v)))"
      by (subst trim_start.simps) simp
    then show ?thesis using 1(1)[OF True] 1(2) by simp
  next
    case False
    then have "trim_start v start = start" by (subst trim_start.simps) auto
    then show ?thesis using False 1(2) by auto
  qed
qed

lemma trim_end_bound: "trim_end v start stop \<le> stop"
proof (induction v start stop rule: trim_end.induct)
  case (1 v start stop)
  then show ?case
    by (subst trim_end.simps) (auto intro: order_trans)
qed

lemma trim_end_stops:
  "start < trim_end v start stop \<Longrightarrow> \<not> is_space_rune (fst (decode_last (take (trim_end v start stop) v)))"
proof (induction v start stop rule: trim_end.induct)
  case (1 v start stop)
  show ?case
  proof (cases "start < stop \<and> is_space_rune (fst (decode_last (take stop v)))")
    case True
    then have "trim_end v start stop = trim_end v start (stop - snd (decode_last (take stop v)))"
      by (subst trim_end.simps) simp
    then show ?thesis using 1(1)[OF True] 1(2) by simp
  next
    case False
    then have "trim_end v start stop = stop" by (subst trim_end.simps) auto
    then show ?thesis using False 1(2) by auto
  qed
qed

lemma space_decodes:
  "is_space_rune (fst (decode_rune s)) \<Longrightarrow> decodes s (fst (decode_rune s)) (snd (decode_rune s))"
  using decode_rune_valid_or_error[of s] by (cases "s = []") auto

lemma trim_no_edge_space: "no_edge_space (trim_unicode_space v)"
proof -
  define st where "st = trim_start v 0"
  define en where "en = trim_end v st (length v)"
  define w where "w = drop st (take en v)"
  have bounds: "st \<le> length v" "en \<le> length v"
    unfolding st_def en_def using trim_start_bound[of 0 v] trim_end_bound by auto
  have w: "trim_unicode_space v = w"
    by (simp add: trim_unicode_space_def w_def st_def en_def Let_def)
  show ?thesis
  proof (cases "st < en")
    case False
    then have "w = []" by (simp add: w_def)
    then show ?thesis using w by (simp add: no_edge_space_def decode_last_def)
  next
    case True
    have split: "drop st v = w @ drop en v"
      using True bounds by (metis append_take_drop_id drop_append diff_is_0_eq drop0
          length_take less_imp_le_nat min.absorb2 w_def)
    have "\<not> is_space_rune (fst (decode_rune w))"
    proof
      assume s: "is_space_rune (fst (decode_rune w))"
      let ?r = "fst (decode_rune w)" and ?k = "snd (decode_rune w)"
      have d: "decodes w ?r ?k" by (rule space_decodes[OF s])
      then have "decodes (drop st v) ?r ?k"
        using decodes_size[OF d] by (simp add: split decodes_append_iff)
      then have "fst (decode_rune (drop st v)) = ?r" by (simp add: decodes_def)
      moreover have "\<not> is_space_rune (fst (decode_rune (drop st v)))"
        using trim_start_stops[of v 0] True bounds by (simp add: st_def)
      ultimately show False using s by simp
    qed
    moreover have "\<not> is_space_rune (fst (decode_last w))"
    proof
      assume s: "is_space_rune (fst (decode_last w))"
      obtain r k where rk: "decode_last w = (r, k)" by fastforce
      have "w \<noteq> []" using True bounds by (simp add: w_def)
      moreover have "r \<noteq> rune_error" using s rk by auto
      ultimately have d: "decodes (drop (length w - k) w) r k" and k: "1 \<le> k" "k \<le> length w"
        using decode_last_valid[OF rk] by auto
      have len: "length (take en v) = en" using bounds by simp
      have lw: "length w = en - st" using bounds by (simp add: w_def)
      have "drop (length w - k) w = drop (en - k) (take en v)"
        using k lw True by (simp add: w_def)
      then have "decode_last (take en v) = (r, k)"
        using decode_last_suffix[of "take en v" k r] d k lw len by (metis diff_le_self order_trans)
      moreover have "\<not> is_space_rune (fst (decode_last (take en v)))"
        using trim_end_stops[of st v "length v"] True by (simp add: en_def)
      ultimately show False using s rk by simp
    qed
    ultimately show ?thesis using w by (simp add: no_edge_space_def)
  qed
qed

lemma trim_fixed:
  assumes "no_edge_space s" shows "trim_unicode_space s = s"
proof -
  have "trim_start s 0 = 0" using assms by (subst trim_start.simps) (simp add: no_edge_space_def)
  moreover have "trim_end s 0 (length s) = length s"
    using assms by (subst trim_end.simps) (simp add: no_edge_space_def)
  ultimately show ?thesis by (simp add: trim_unicode_space_def)
qed

lemma trim_idem [simp]: "trim_unicode_space (trim_unicode_space v) = trim_unicode_space v"
  by (rule trim_fixed[OF trim_no_edge_space])

lemma trim_infix: "\<exists>a b. v = a @ trim_unicode_space v @ b"
proof -
  have "v = take st v @ drop st (take en v) @ drop en v" if "st \<le> en" for st en
    using that by (metis append_take_drop_id drop_take le_add_diff_inverse take_add append.assoc)
  moreover have "drop st (take en v) = []" if "en \<le> st" for st en using that by simp
  ultimately show ?thesis
    unfolding trim_unicode_space_def Let_def by (metis append_Nil nat_le_linear)
qed

lemma length_trim: "length (trim_unicode_space v) \<le> length v"
  using trim_infix[of v] by (metis add_leD1 le_add2 length_append order_trans)

section \<open>\<open>strings.TrimFunc(s, unicode.IsSpace)\<close>\<close>

text \<open>
  The library trims the left end first and then the right end of what is left;
  \<open>trimUnicodeSpace\<close> decodes its right end in the whole string.  The two agree because a rune
  that ends the string cannot reach across the boundary at which the left end stopped.
\<close>

definition trim_func :: "string \<Rightarrow> string" where
  "trim_func s = (let t = drop (trim_start s 0) s in take (trim_end t 0 (length t)) t)"

text \<open>A position of the string that is its start, its end, or follows a correctly encoded rune.\<close>

definition boundary :: "string \<Rightarrow> nat \<Rightarrow> bool" where
  "boundary s i = (i \<le> length s \<and> (i = 0 \<or> (\<exists>j r k. j + k = i \<and> decodes (drop j s) r k)))"

lemma boundary_trim_start:
  "boundary v start \<Longrightarrow> boundary v (trim_start v start)"
proof (induction v start rule: trim_start.induct)
  case (1 v start)
  show ?case
  proof (cases "start < length v \<and> is_space_rune (fst (decode_rune (drop start v)))")
    case True
    let ?k = "snd (decode_rune (drop start v))"
    have d: "decodes (drop start v) (fst (decode_rune (drop start v))) ?k"
      using True by (intro space_decodes) simp
    then have "boundary v (start + ?k)"
      using decodes_size[OF d] True unfolding boundary_def by auto
    moreover have "trim_start v start = trim_start v (start + ?k)"
      using True by (subst trim_start.simps) simp
    ultimately show ?thesis using 1(1)[OF True] by simp
  next
    case False
    then have "trim_start v start = start" by (subst trim_start.simps) auto
    then show ?thesis using 1(2) by simp
  qed
qed

lemma rune_within_boundary:
  assumes b: "boundary v st" and d: "decodes (drop j v) r k" and j: "j < st" and e: "st < j + k"
  shows False
proof -
  obtain j' r' k' where d': "j' + k' = st" "decodes (drop j' v) r' k'"
    using b j by (auto simp: boundary_def)
  have start: "rune_start (v ! i)" if "decodes (drop i v) x y" for i x y
    using decodes_start[OF that] decodes_size[OF that] by (cases "i \<le> length v") simp_all
  have inner: "\<not> rune_start (v ! m)" if "decodes (drop i v) x y" "i < m" "m < i + y" for i x y m
    using decodes_tail[OF that(1), of "m - i"] decodes_size[OF that(1)] that(2,3) by simp
  consider "j < j'" | "j = j'" | "j' < j" by linarith
  then show False
  proof cases
    case 1
    then show ?thesis using inner[OF d, of j'] start[OF d'(2)] e d'(1) by simp
  next
    case 2
    then show ?thesis using d d' e by (auto simp: decodes_def)
  next
    case 3
    then show ?thesis using inner[OF d'(2), of j] start[OF d] j d'(1) by simp
  qed
qed

lemma decode_last_drop:
  assumes b: "boundary v st" and e: "st < e" "e \<le> length v"
    and s: "is_space_rune (fst (decode_last (take e v))) \<or> is_space_rune (fst (decode_last (drop st (take e v))))"
  shows "decode_last (drop st (take e v)) = decode_last (take e v)
     \<and> snd (decode_last (take e v)) \<le> e - st"
proof -
  let ?w = "drop st (take e v)"
  have len: "length ?w = e - st" "length (take e v) = e" using e by simp_all
  consider (short) r k where "decode_last ?w = (r, k)" "is_space_rune r"
    | (long) r k where "decode_last (take e v) = (r, k)" "is_space_rune r"
    using s by (metis prod.collapse)
  then show ?thesis
  proof cases
    case short
    have "?w \<noteq> []" using len e by auto
    moreover have "r \<noteq> rune_error" using short by auto
    ultimately have d: "decodes (drop (e - st - k) ?w) r k" "k \<le> e - st"
      using decode_last_valid[OF short(1)] len by auto
    then have "decodes (drop (e - k) (take e v)) r k" using e by (simp add: add.commute)
    then have "decode_last (take e v) = (r, k)"
      using decode_last_suffix[of "take e v" k r] d(2) unfolding len by linarith
    then show ?thesis using short d by simp
  next
    case long
    have "take e v \<noteq> []" using len e by auto
    moreover have "r \<noteq> rune_error" using long by auto
    ultimately have d: "decodes (drop (e - k) (take e v)) r k" "1 \<le> k" "k \<le> e"
      using decode_last_valid[OF long(1)] len by auto
    have "drop (e - k) v = drop (e - k) (take e v) @ drop e v"
      using e d(3) by (metis append_take_drop_id diff_le_self drop_append
          drop_take diff_is_0_eq drop0 len(2))
    then have dv: "decodes (drop (e - k) v) r k"
      using d decodes_append_iff[of k "drop (e - k) (take e v)" "drop e v" r] e by simp
    have k: "k \<le> e - st"
    proof (rule ccontr)
      assume "\<not> k \<le> e - st"
      then have "e - k < st" "st < e - k + k" using e d(3) by linarith+
      then show False by (rule rune_within_boundary[OF b dv])
    qed
    have "drop (e - st - k) ?w = drop (e - k) (take e v)" using k e by (simp add: add.commute)
    then have "decode_last ?w = (r, k)"
      using decode_last_suffix[of ?w k r] d(1) len k by simp
    then show ?thesis using long k by simp
  qed
qed

lemma trim_end_drop:
  "boundary v st \<Longrightarrow> st \<le> e \<Longrightarrow> e \<le> length v \<Longrightarrow>
     trim_end v st e = st + trim_end (drop st v) 0 (e - st)"
proof (induction v st e rule: trim_end.induct)
  case (1 v st e)
  have w: "take (e - st) (drop st v) = drop st (take e v)" by (simp add: drop_take)
  let ?long = "decode_last (take e v)" and ?short = "decode_last (drop st (take e v))"
  show ?case
  proof (cases "st < e \<and> is_space_rune (fst ?long)")
    case True
    then have eq: "?short = ?long" and k: "snd ?long \<le> e - st"
      using decode_last_drop[OF 1(2)] 1(4) by auto
    have "trim_end v st e = trim_end v st (e - snd ?long)"
      using True by (subst trim_end.simps) simp
    also have "\<dots> = st + trim_end (drop st v) 0 (e - snd ?long - st)"
    proof -
      have "st \<le> e - snd ?long" "e - snd ?long \<le> length v" using True k 1(4) by auto
      then show ?thesis by (rule 1(1)[OF True 1(2)])
    qed
    also have "e - snd ?long - st = e - st - snd ?short" using eq k by simp
    also have "st + trim_end (drop st v) 0 (e - st - snd ?short) = st + trim_end (drop st v) 0 (e - st)"
      using True eq by (subst (2) trim_end.simps) (simp add: w)
    finally show ?thesis .
  next
    case False
    have "trim_end v st e = e" using False by (subst trim_end.simps) auto
    moreover have "\<not> (0 < e - st \<and> is_space_rune (fst ?short))"
      using False decode_last_drop[OF 1(2) _ 1(4)] by auto
    then have "trim_end (drop st v) 0 (e - st) = e - st"
      unfolding trim_end.simps[of "drop st v" 0 "e - st"] w by (simp only: if_False)
    ultimately show ?thesis using 1(3) by simp
  qed
qed

lemma trim_func_eq: "trim_func s = trim_unicode_space s"
proof -
  let ?st = "trim_start s 0"
  have b: "boundary s ?st" by (rule boundary_trim_start) (simp add: boundary_def)
  have "?st \<le> length s" using trim_start_bound[of 0 s] by simp
  then have "trim_end s ?st (length s) = ?st + trim_end (drop ?st s) 0 (length s - ?st)"
    using trim_end_drop[OF b] by simp
  then show ?thesis
    by (simp add: trim_func_def trim_unicode_space_def Let_def drop_take)
qed

section \<open>Properties\<close>

text \<open>\<open>trimUnicodeSpace\<close> computes what \<open>strings.TrimFunc\<close> with \<open>unicode.IsSpace\<close> computes, on every
  byte string: the result is a contiguous part of the input with no white-space rune at either
  end, and trimming it again changes nothing.\<close>

theorem trim_unicode_space_correct:
  "trim_unicode_space s = trim_func s \<and> no_edge_space (trim_unicode_space s)
     \<and> trim_unicode_space (trim_unicode_space s) = trim_unicode_space s
     \<and> (\<exists>a b. s = a @ trim_unicode_space s @ b)"
  by (simp add: trim_func_eq trim_no_edge_space trim_infix)

end
