(* ===== verification/Ids.thy ===== *)
theory Ids
  imports Prelude "HOL-Library.Word"
begin

text \<open>
  Typed identifiers: internal/id/id.go.  An identifier is a prefix and 26 characters of
  Crockford base 32 that spell 128 bits, the first 48 of them the creation time in
  milliseconds.  The bytes of \<open>raw\<close> are \<open>8 word\<close>s and the loops of \<open>encode\<close> work on them bit by
  bit as the code does; the clock and the random source are arguments.  The lemmas relate the
  two digit expansions (base 256 of \<open>raw\<close>, base 32 of the text) through the bits they share:
  the text is injective and preserves the order of the bytes, hence of the creation times.
\<close>

unbundle bit_operations_syntax

section \<open>The code\<close>

definition encoding :: string where
  "encoding = ''0123456789ABCDEFGHJKMNPQRSTVWXYZ''"

definition WorkspacePrefix :: string where "WorkspacePrefix = ''ws_''"
definition BasePrefix :: string where "BasePrefix = ''base_''"
definition TablePrefix :: string where "TablePrefix = ''tbl_''"
definition FieldPrefix :: string where "FieldPrefix = ''fld_''"
definition ViewPrefix :: string where "ViewPrefix = ''view_''"
definition RecordPrefix :: string where "RecordPrefix = ''rec_''"
definition AttachmentPrefix :: string where "AttachmentPrefix = ''att_''"
definition ChangePrefix :: string where "ChangePrefix = ''chg_''"
definition ActorPrefix :: string where "ActorPrefix = ''act_''"
definition TokenPrefix :: string where "TokenPrefix = ''tok_''"
definition OptionPrefix :: string where "OptionPrefix = ''opt_''"
definition MutationPrefix :: string where "MutationPrefix = ''mut_''"
definition RequestPrefix :: string where "RequestPrefix = ''req_''"
definition SelectionPrefix :: string where "SelectionPrefix = ''sel_''"

lemmas prefix_defs = WorkspacePrefix_def BasePrefix_def TablePrefix_def FieldPrefix_def
  ViewPrefix_def RecordPrefix_def AttachmentPrefix_def ChangePrefix_def ActorPrefix_def
  TokenPrefix_def OptionPrefix_def MutationPrefix_def RequestPrefix_def SelectionPrefix_def

text \<open>
  \<open>Valid\<close>.  A byte above 127 in the suffix is never a rune of \<open>encoding\<close>, so the loop over the
  runes of the suffix rejects exactly the suffixes with a byte outside \<open>encoding\<close>.
\<close>

definition Valid :: "string \<Rightarrow> string \<Rightarrow> bool" where
  "Valid prefix s =
     (if prefix = [] \<or> length s \<noteq> length prefix + 26 \<or> take (length prefix) s \<noteq> prefix then False
      else list_all (\<lambda>current. \<not> (of_char current > (127 :: nat) \<or> current \<notin> set encoding))
             (drop (length prefix) s))"

text \<open>One turn of the inner loop of \<open>encode\<close>: shift, then bring in the source bit.\<close>

definition encode_bit :: "8 word list \<Rightarrow> nat \<Rightarrow> 8 word \<Rightarrow> nat \<Rightarrow> 8 word" where
  "encode_bit raw i v b =
     (let sourceBit = int (i * 5 + b) - 2; v = push_bit 1 v in
      if sourceBit < 0 \<or> sourceBit \<ge> 128 then v
      else let byteIndex = nat sourceBit div 8; bitIndex = 7 - nat sourceBit mod 8 in
           v OR (drop_bit bitIndex (raw ! byteIndex) AND 1))"

definition encode_value :: "8 word list \<Rightarrow> nat \<Rightarrow> 8 word" where
  "encode_value raw i = foldl (encode_bit raw i) 0 [0..<5]"

definition encode :: "8 word list \<Rightarrow> string" where
  "encode raw = map (\<lambda>i. encoding ! unat (encode_value raw i)) [0..<26]"

text \<open>
  \<open>New\<close>.  The ten random bytes are \<open>None\<close> when the random source fails; \<open>raw\<close> is the six low
  bytes of the clock, most significant first, followed by them.
\<close>

definition timestamp_bytes :: "64 word \<Rightarrow> 8 word list" where
  "timestamp_bytes t =
     [ucast (drop_bit 40 t), ucast (drop_bit 32 t), ucast (drop_bit 24 t),
      ucast (drop_bit 16 t), ucast (drop_bit 8 t), ucast t]"

definition new_id :: "string \<Rightarrow> 64 word \<Rightarrow> 8 word list option \<Rightarrow> string + string" where
  "new_id prefix timestamp random =
     (if prefix = [] then Inl ''id prefix is required''
      else case random of
        None \<Rightarrow> Inl ''random source failed''
      | Some bytes \<Rightarrow> Inr (prefix @ encode (timestamp_bytes timestamp @ bytes)))"

section \<open>The alphabet\<close>

lemma length_encoding [simp]: "length encoding = 32"
  by (simp add: encoding_def)

lemma distinct_encoding: "distinct encoding"
  by (simp add: encoding_def)

lemma sorted_encoding: "i < j \<Longrightarrow> j < 32 \<Longrightarrow> encoding ! i < encoding ! j"
proof -
  have "sorted_wrt (<) encoding"
    unfolding encoding_def by code_simp
  then show "i < j \<Longrightarrow> j < 32 \<Longrightarrow> encoding ! i < encoding ! j"
    by (simp add: sorted_wrt_iff_nth_less)
qed

lemma encoding_ascii: "c \<in> set encoding \<Longrightarrow> of_char c \<le> (127 :: nat)"
  by (auto simp: encoding_def)

section \<open>Bits, bytes and base-32 digits\<close>

text \<open>The value of a digit list, most significant digit first.\<close>

definition horner :: "nat \<Rightarrow> nat list \<Rightarrow> nat" where
  "horner b ds = foldl (\<lambda>acc d. acc * b + d) 0 ds"

lemma horner_Nil [simp]: "horner b [] = 0"
  by (simp add: horner_def)

lemma horner_snoc [simp]: "horner b (ds @ [d]) = horner b ds * b + d"
  by (simp add: horner_def)

lemma horner_append: "horner b (xs @ ys) = horner b xs * b ^ length ys + horner b ys"
  by (induction ys rule: rev_induct) (simp_all add: algebra_simps flip: append_assoc)

lemma horner_bound: "\<forall>d \<in> set ds. d < b \<Longrightarrow> horner b ds < b ^ length ds"
proof (induction ds rule: rev_induct)
  case Nil
  then show ?case by simp
next
  case (snoc d ds)
  then have "horner b ds + 1 \<le> b ^ length ds" "d < b" by simp_all
  then have "(horner b ds + 1) * b \<le> b ^ length ds * b" "horner b ds * b + d < (horner b ds + 1) * b"
    by (auto simp only: mult_right_mono) simp
  then show ?case by (simp add: mult.commute)
qed

text \<open>Digit lists of one length compare as numbers the way they compare lexicographically.\<close>

lemma horner_less_iff:
  assumes "length xs = length ys" "\<forall>d \<in> set xs. d < b" "\<forall>d \<in> set ys. d < b"
  shows "horner b xs < horner b ys \<longleftrightarrow> xs < ys"
  using assms
proof (induction xs ys rule: list_induct2)
  case Nil
  then show ?case by simp
next
  case (Cons x xs y ys)
  have bx: "horner b xs < b ^ length ys" and by': "horner b ys < b ^ length ys"
    using horner_bound[of xs b] horner_bound[of ys b] Cons by simp_all
  have eqs: "horner b (x # xs) = x * b ^ length ys + horner b xs"
    "horner b (y # ys) = y * b ^ length ys + horner b ys"
    using horner_append[of b "[x]" xs] horner_append[of b "[y]" ys] Cons(1)
    by (simp_all add: horner_def)
  consider "x < y" | "x = y" | "y < x" by linarith
  then show ?case
  proof cases
    case 1
    then have "(x + 1) * b ^ length ys \<le> y * b ^ length ys" by (intro mult_right_mono) auto
    then show ?thesis using 1 bx eqs by simp
  next
    case 2
    then show ?thesis using Cons eqs by simp
  next
    case 3
    then have "(y + 1) * b ^ length ys \<le> x * b ^ length ys" by (intro mult_right_mono) auto
    then show ?thesis using 3 by' eqs by simp
  qed
qed

lemma horner_inject:
  assumes "length xs = length ys" "\<forall>d \<in> set xs. d < b" "\<forall>d \<in> set ys. d < b"
    "horner b xs = horner b ys"
  shows "xs = ys"
  using horner_less_iff[OF assms(1-3)] horner_less_iff[OF assms(1)[symmetric] assms(3,2)] assms(4)
  by (metis less_irrefl neq_iff)

text \<open>Grouping bits into digits of \<open>k\<close> bits each does not change the number.\<close>

lemma horner_group:
  "horner (2 ^ k) (map (\<lambda>j. horner 2 (map (\<lambda>t. f (j * k + t)) [0..<k])) [0..<n])
     = horner 2 (map f [0..<n * k])"
proof (induction n)
  case 0
  then show ?case by simp
next
  case (Suc n)
  have "[0..<Suc n * k] = [0..<n * k] @ map (\<lambda>t. n * k + t) [0..<k]"
    using upt_add_eq_append[of 0 "n * k" k] by (simp add: map_add_upt add.commute)
  then have "horner 2 (map f [0..<Suc n * k])
      = horner 2 (map f [0..<n * k]) * 2 ^ k + horner 2 (map (\<lambda>t. f (n * k + t)) [0..<k])"
    by (simp add: horner_append comp_def)
  with Suc show ?case by simp
qed

definition raw_bit :: "8 word list \<Rightarrow> nat \<Rightarrow> nat" where
  "raw_bit raw m = of_bool (bit (raw ! (m div 8)) (7 - m mod 8))"

lemma horner_rev: "horner b (rev (map g xs)) = horner_sum g b xs"
  by (induction xs) (simp_all add: mult.commute)

lemma byte_horner: "horner 2 (map (\<lambda>t. of_bool (bit (w :: 8 word) (7 - t))) [0..<8]) = unat w"
proof -
  have "unat w = take_bit 8 (unat w)"
    by (rule sym, rule take_bit_nat_eq_self) (use unsigned_less[of w] in simp)
  also have "\<dots> = horner_sum of_bool 2 (map (bit (unat w)) [0..<8])"
    by (simp add: horner_sum_bit_eq_take_bit)
  also have "\<dots> = horner 2 (map (\<lambda>t. of_bool (bit w (7 - t))) [0..<8])"
  proof -
    have "map (\<lambda>t. of_bool (bit w (7 - t))) [0..<8] = rev (map (\<lambda>t. of_bool (bit w t) :: nat) [0..<8])"
      by (rule nth_equalityI) (simp_all add: rev_nth)
    moreover have "horner_sum of_bool 2 (map (bit (unat w)) [0..<8])
        = horner_sum (\<lambda>t. of_bool (bit w t)) (2 :: nat) [0..<8]"
      by (simp add: horner_sum_eq_sum bit_unsigned_iff)
    ultimately show ?thesis by (simp only: horner_rev)
  qed
  finally show ?thesis ..
qed

lemma raw_horner:
  assumes "length raw = n"
  shows "horner 256 (map unat raw) = horner 2 (map (raw_bit raw) [0..<n * 8])"
proof -
  have "map unat raw = map (\<lambda>j. horner 2 (map (\<lambda>t. raw_bit raw (j * 8 + t)) [0..<8])) [0..<n]"
  proof (rule nth_equalityI)
    fix j assume "j < length (map unat raw)"
    then have "map (\<lambda>t. raw_bit raw (j * 8 + t)) [0..<8]
        = map (\<lambda>t. of_bool (bit (raw ! j) (7 - t))) [0..<8]"
      by (simp add: raw_bit_def)
    then have "horner 2 (map (\<lambda>t. raw_bit raw (j * 8 + t)) [0..<8]) = unat (raw ! j)"
      by (metis byte_horner)
    then show "map unat raw ! j
        = map (\<lambda>j. horner 2 (map (\<lambda>t. raw_bit raw (j * 8 + t)) [0..<8])) [0..<n] ! j"
      using \<open>j < length (map unat raw)\<close> assms by simp
  qed (simp add: assms)
  then show ?thesis using horner_group[of 8 "raw_bit raw" n] by simp
qed

text \<open>The bit that position \<open>m\<close> of the 130 encoded positions carries.\<close>

definition source_bit :: "8 word list \<Rightarrow> nat \<Rightarrow> nat" where
  "source_bit raw m = (if m < 2 \<or> 130 \<le> m then 0 else raw_bit raw (m - 2))"

lemma source_bit_less [simp]: "source_bit raw m < 2"
  by (simp add: source_bit_def raw_bit_def)

lemma unat_byte_less [simp]: "unat (w :: 8 word) < 256"
  using unsigned_less[of w] by simp

lemma unat_shift_or:
  assumes "unat (v :: 8 word) < 128" "unat b \<le> 1"
  shows "unat (push_bit 1 v OR b) = 2 * unat v + unat b"
proof -
  have "push_bit 1 v AND b = 0"
  proof (rule bit_word_eqI)
    fix n assume "n < LENGTH(8)"
    have "unat b = 0 \<or> unat b = 1" using assms(2) by linarith
    then have "b = 0 \<or> b = 1" by (metis unat_0 unat_1 word_unat_eq_iff len_num1 unsigned_0 unsigned_1)
    then show "bit (push_bit 1 v AND b) n = bit 0 n"
      unfolding bit_and_iff bit_push_bit_iff by (auto simp: bit_1_iff)
  qed
  then have "push_bit 1 v OR b = push_bit 1 v + b"
    by (simp add: disjunctive_add_eq_or)
  moreover have "unat (push_bit 1 v) = 2 * unat v"
    using assms(1) by (simp add: push_bit_eq_mult unat_word_ariths)
  ultimately show ?thesis using assms by (simp add: unat_word_ariths)
qed

lemma unat_encode_bit:
  assumes "unat v < 128"
  shows "unat (encode_bit raw i v t) = 2 * unat v + source_bit raw (i * 5 + t)"
proof -
  have shift: "unat (push_bit 1 v) = 2 * unat v"
    using assms by (simp add: push_bit_eq_mult unat_word_ariths)
  have low: "unat (drop_bit k w AND 1 :: 8 word) = of_bool (bit w k)" for k and w :: "8 word"
    by (simp add: and_one_eq mod_2_eq_odd bit_iff_odd_drop_bit)
  show ?thesis
  proof (cases "i * 5 + t < 2 \<or> 130 \<le> i * 5 + t")
    case True
    then show ?thesis using shift by (auto simp: encode_bit_def source_bit_def Let_def)
  next
    case False
    then have "\<not> (int (i * 5 + t) - 2 < 0 \<or> int (i * 5 + t) - 2 \<ge> 128)"
      "nat (int (i * 5 + t) - 2) = i * 5 + t - 2" by linarith+
    then have eq: "encode_bit raw i v t = push_bit 1 v OR
        (drop_bit (7 - (i * 5 + t - 2) mod 8) (raw ! ((i * 5 + t - 2) div 8)) AND 1)"
      by (simp only: encode_bit_def Let_def if_False)
    have "unat (drop_bit k w AND 1 :: 8 word) \<le> 1" for k and w :: "8 word"
      by (simp only: low) simp
    from unat_shift_or[OF assms this] show ?thesis
      using False by (simp only: eq low) (simp add: source_bit_def raw_bit_def)
  qed
qed

lemma encode_value_horner:
  "unat (encode_value raw i) = horner 2 (map (\<lambda>t. source_bit raw (i * 5 + t)) [0..<5])"
proof -
  have "unat (foldl (encode_bit raw i) 0 [0..<n])
      = horner 2 (map (\<lambda>t. source_bit raw (i * 5 + t)) [0..<n])" if "n \<le> 5" for n
    using that
  proof (induction n)
    case 0
    then show ?case by simp
  next
    case (Suc n)
    have "horner 2 (map (\<lambda>t. source_bit raw (i * 5 + t)) [0..<n]) < 2 ^ n"
      using horner_bound[of "map (\<lambda>t. source_bit raw (i * 5 + t)) [0..<n]" 2]
      by simp
    also have "(2 :: nat) ^ n \<le> 2 ^ 4" using Suc(2) by (intro power_increasing) auto
    finally show ?case using Suc by (simp add: unat_encode_bit algebra_simps)
  qed
  then show ?thesis by (simp add: encode_value_def)
qed

lemma encode_value_less: "unat (encode_value raw i) < 32"
  using horner_bound[of "map (\<lambda>t. source_bit raw (i * 5 + t)) [0..<5]" 2]
  by (simp add: encode_value_horner)

lemma encode_number:
  assumes "length raw = 16"
  shows "horner 32 (map (\<lambda>i. unat (encode_value raw i)) [0..<26]) = horner 256 (map unat raw)"
proof -
  have "horner 32 (map (\<lambda>i. unat (encode_value raw i)) [0..<26]) = horner 2 (map (source_bit raw) [0..<130])"
    using horner_group[of 5 "source_bit raw" 26] by (simp add: encode_value_horner)
  also have "[0..<130] = [0, 1] @ map (\<lambda>m. m + 2) [0..<128]"
    using upt_add_eq_append[of 0 2 128] by (simp add: map_add_upt upt_rec)
  also have "horner 2 (map (source_bit raw) \<dots>) = horner 2 (map (raw_bit raw) [0..<128])"
  proof -
    have "map (source_bit raw) (map (\<lambda>m. m + 2) [0..<128]) = map (raw_bit raw) [0..<128]"
      by (simp add: source_bit_def)
    moreover have "horner 2 (map (source_bit raw) [0, 1]) = 0"
      by (simp add: horner_def source_bit_def)
    ultimately show ?thesis by (simp only: map_append horner_append)
  qed
  also have "\<dots> = horner 256 (map unat raw)"
    using raw_horner[OF assms] by simp
  finally show ?thesis .
qed

text \<open>Comparing two texts compares their digits.\<close>

lemma map_encoding_less_iff:
  assumes "length xs = length ys" "\<forall>d \<in> set xs. d < 32" "\<forall>d \<in> set ys. d < 32"
  shows "map ((!) encoding) xs < map ((!) encoding) ys \<longleftrightarrow> xs < ys"
  using assms
proof (induction xs ys rule: list_induct2)
  case Nil
  then show ?case by simp
next
  case (Cons x xs y ys)
  have "encoding ! x < encoding ! y \<longleftrightarrow> x < y" "encoding ! x = encoding ! y \<longleftrightarrow> x = y"
    using Cons sorted_encoding[of x y] sorted_encoding[of y x]
    by (auto simp: neq_iff) (metis less_asym neq_iff)+
  then show ?case using Cons by simp
qed

section \<open>What identifiers promise\<close>

lemma length_encode [simp]: "length (encode raw) = 26"
  by (simp add: encode_def)

lemma set_encode: "set (encode raw) \<subseteq> set encoding"
  using encode_value_less by (auto simp: encode_def)

lemma Valid_iff:
  "Valid prefix s \<longleftrightarrow>
     prefix \<noteq> [] \<and> (\<exists>suffix. s = prefix @ suffix \<and> length suffix = 26 \<and> set suffix \<subseteq> set encoding)"
proof
  assume v: "Valid prefix s"
  then have "prefix \<noteq> []" "length s = length prefix + 26" "take (length prefix) s = prefix"
    "set (drop (length prefix) s) \<subseteq> set encoding"
    by (auto simp: Valid_def list_all_iff split: if_splits)
  then show "prefix \<noteq> [] \<and> (\<exists>suffix. s = prefix @ suffix \<and> length suffix = 26 \<and> set suffix \<subseteq> set encoding)"
    by (metis add_diff_cancel_left' append_take_drop_id length_drop)
next
  assume "prefix \<noteq> [] \<and> (\<exists>suffix. s = prefix @ suffix \<and> length suffix = 26 \<and> set suffix \<subseteq> set encoding)"
  then show "Valid prefix s" using encoding_ascii by (auto simp: Valid_def list_all_iff not_less)
qed

lemma encode_less_iff:
  assumes "length raw = 16" "length raw' = 16"
  shows "encode raw < encode raw' \<longleftrightarrow> map unat raw < map unat raw'"
proof -
  let ?d = "\<lambda>raw. map (\<lambda>i. unat (encode_value raw i)) [0..<26]"
  have "encode raw < encode raw' \<longleftrightarrow> ?d raw < ?d raw'"
    using map_encoding_less_iff[of "?d raw" "?d raw'"]
    by (auto simp: encode_def encode_value_less comp_def)
  also have "\<dots> \<longleftrightarrow> horner 32 (?d raw) < horner 32 (?d raw')"
    by (rule horner_less_iff[symmetric]) (auto simp: encode_value_less)
  also have "\<dots> \<longleftrightarrow> map unat raw < map unat raw'"
    using assms horner_less_iff[of "map unat raw" "map unat raw'" 256]
    by (auto simp: encode_number)
  finally show ?thesis .
qed

lemma length_timestamp_bytes [simp]: "length (timestamp_bytes t) = 6"
  by (simp add: timestamp_bytes_def)

text \<open>The six bytes spell the low 48 bits of the clock, so they are ordered as it is.\<close>

lemma timestamp_horner: "horner 256 (map unat (timestamp_bytes t)) = unat t mod 2 ^ 48"
proof -
  have byte: "unat (ucast (drop_bit k t) :: 8 word) = unat t div 2 ^ k mod 256" for k
  proof -
    have "unat (drop_bit k t) = unat t div 2 ^ k"
      by (metis drop_bit_eq_div unat_drop_bit_eq)
    then show ?thesis by (simp only: unsigned_ucast_eq take_bit_eq_mod) simp
  qed
  have step: "unat t mod 2 ^ (k + 8) = (unat t div 2 ^ k mod 256) * 2 ^ k + unat t mod 2 ^ k" for k
    using mod_mult2_eq[of "unat t" "2 ^ k" "2 ^ 8"] by (simp add: power_add mult.commute)
  have byte0: "unat (ucast t :: 8 word) = unat t mod 256" using byte[of 0] by simp
  show ?thesis
    using step[of 8] step[of 16] step[of 24] step[of 32] step[of 40]
    by (simp add: timestamp_bytes_def horner_def byte byte0)
qed

lemma timestamp_bytes_less_iff:
  assumes "unat t < 2 ^ 48" "unat t' < 2 ^ 48"
  shows "map unat (timestamp_bytes t) < map unat (timestamp_bytes t') \<longleftrightarrow> t < t'"
proof -
  have "horner 256 (map unat (timestamp_bytes t)) < horner 256 (map unat (timestamp_bytes t'))
      \<longleftrightarrow> map unat (timestamp_bytes t) < map unat (timestamp_bytes t')"
    by (rule horner_less_iff) auto
  then show ?thesis using assms by (simp add: timestamp_horner word_less_nat_alt)
qed

text \<open>Comparing lists whose first parts have one length.\<close>

lemma list_less_append:
  fixes xs ys :: "'a::linorder list"
  assumes "length xs = length ys" "xs < ys" shows "xs @ as < ys @ bs"
  using assms by (induction xs ys rule: list_induct2) auto

section \<open>Properties\<close>

text \<open>A generated identifier is valid for its prefix, and it determines what it was made from: two
  identifiers of one prefix are equal only if the low 48 bits of the clock and all ten random bytes
  agree.\<close>

theorem new_id_valid_unique:
  assumes "new_id prefix t (Some bytes) = Inr s" and "new_id prefix t' (Some bytes') = Inr s'"
    and "length bytes = 10" and "length bytes' = 10"
  shows "Valid prefix s
     \<and> (s = s' \<longrightarrow> unat t mod 2 ^ 48 = unat t' mod 2 ^ 48 \<and> bytes = bytes')"
proof -
  let ?raw = "timestamp_bytes t @ bytes" and ?raw' = "timestamp_bytes t' @ bytes'"
  have s: "prefix \<noteq> []" "s = prefix @ encode ?raw" "s' = prefix @ encode ?raw'"
    using assms by (auto simp: new_id_def split: if_splits)
  have valid: "Valid prefix s" using s set_encode by (auto simp: Valid_iff)
  have "?raw = ?raw'" if "s = s'"
  proof -
    have "encode ?raw = encode ?raw'" using s that by simp
    then have "\<not> map unat ?raw < map unat ?raw'" "\<not> map unat ?raw' < map unat ?raw"
      using encode_less_iff[of ?raw ?raw'] encode_less_iff[of ?raw' ?raw] assms(3,4) by auto
    then have "map unat ?raw = map unat ?raw'" by (metis neq_iff)
    then show ?thesis by (rule map_injective) (simp add: inj_def word_unat_eq_iff)
  qed
  then have "s = s' \<Longrightarrow> timestamp_bytes t = timestamp_bytes t' \<and> bytes = bytes'" by simp
  then show ?thesis using valid timestamp_horner by metis
qed

text \<open>C24: identifiers sort by creation time: an identifier made at an earlier millisecond (of the first
  \<open>2 ^ 48\<close>) is lexicographically smaller than any identifier of the same prefix made later,
  whatever the random bytes are.\<close>

theorem new_id_time_ordered:
  assumes "new_id prefix t (Some bytes) = Inr s" and "new_id prefix t' (Some bytes') = Inr s'"
    and "length bytes = 10" and "length bytes' = 10"
    and "t < t'" and "unat t' < 2 ^ 48"
  shows "s < s'"
proof -
  let ?raw = "timestamp_bytes t @ bytes" and ?raw' = "timestamp_bytes t' @ bytes'"
  have s: "s = prefix @ encode ?raw" "s' = prefix @ encode ?raw'"
    using assms by (auto simp: new_id_def split: if_splits)
  have "unat t < 2 ^ 48" using assms(5,6) by (simp add: word_less_nat_alt)
  then have "map unat (timestamp_bytes t) < map unat (timestamp_bytes t')"
    using assms by (simp add: timestamp_bytes_less_iff)
  then have "map unat ?raw < map unat ?raw'"
    by (simp add: list_less_append)
  then have "encode ?raw < encode ?raw'" using assms(3,4) by (simp add: encode_less_iff)
  moreover have "p @ x < p @ y \<longleftrightarrow> x < y" for p x y :: string by (induction p) auto
  ultimately show ?thesis using s by simp
qed

theorem new_id_valid_unique_witness:
  "\<exists>s. new_id RecordPrefix 1 (Some (replicate 10 7)) = Inr s \<and> Valid RecordPrefix s"
  using new_id_valid_unique[of RecordPrefix 1 "replicate 10 7" _ 1 "replicate 10 7"]
  by (simp add: new_id_def RecordPrefix_def)

theorem new_id_time_ordered_witness:
  "\<exists>s s'. new_id RecordPrefix 255 (Some (replicate 10 7)) = Inr s
      \<and> new_id RecordPrefix 256 (Some (replicate 10 0)) = Inr s' \<and> s < s'"
proof -
  obtain s s' where s: "new_id RecordPrefix 255 (Some (replicate 10 7)) = Inr s"
    "new_id RecordPrefix 256 (Some (replicate 10 0)) = Inr s'"
    by (simp add: new_id_def RecordPrefix_def)
  have "s < s'" by (rule new_id_time_ordered[OF s]) simp_all
  then show ?thesis using s by blast
qed

end
