(* ===== verification/Domain.thy ===== *)
theory Domain
  imports GoString Ids
begin

text \<open>
  The shared vocabulary of the program: internal/domain.  Error values and the ordering of
  validation issues (errors.go), the normalisation of names (name.go), the option palette
  (choice.go), the resource records and configurations (model.go, view_order.go) and the
  error of internal/record/model.go that carries record conflicts.

  Representation.  An \<open>int64\<close> and an \<open>int\<close> are Isabelle integers (revisions and sequences are
  counters that start at 1; the program has no arithmetic on them that approaches \<open>2 ^ 63\<close>), a
  \<open>time.Time\<close> is an integer instant, a pointer is an \<open>option\<close>, JSON values are the datatype
  \<open>json\<close>.  A \<open>float64\<close> is a rational, an infinity or NaN; the two zeros are one value.  The
  functions of golang.org/x/text and the few library functions whose results the program only
  passes on are the fields of the record \<open>lib\<close>, an argument of whatever uses them.
\<close>

section \<open>Values\<close>

datatype float64 = Fin rat | NaN | PosInf | NegInf

datatype json =
    JNull
  | JBool bool
  | JNum float64
  | JStr string
  | JArr "json list"
  | JObj "(string, json) fmap"

type_synonym vals = "(string, json) fmap"
type_synonym instant = int

text \<open>
  \<open>nfc\<close> is \<open>norm.NFC.String\<close>, \<open>fold_case\<close> is \<open>cases.Fold().String\<close>, \<open>url_parts\<close> is \<open>url.Parse\<close> (the
  scheme and the host, or nothing when it reports an error).
\<close>

record lib =
  nfc :: "string \<Rightarrow> string"
  fold_case :: "string \<Rightarrow> string"
  url_parts :: "string \<Rightarrow> (string \<times> string) option"

text \<open>
  What the functions give on ASCII text: NFC leaves it alone and folding lowers it.  The
  witnesses use this instance, with the part of \<open>url.Parse\<close> that splits \<open>scheme://host\<close>.
\<close>

definition lower_char :: "char \<Rightarrow> char" where
  "lower_char c = (if 65 \<le> byte c \<and> byte c \<le> 90 then char_of (byte c + 32) else c)"

definition ascii_url_parts :: "string \<Rightarrow> (string \<times> string) option" where
  "ascii_url_parts s =
     (if starts_with ''http://'' s then Some (''http'', takeWhile (\<lambda>c. c \<noteq> CHR ''/'') (drop 7 s))
      else if starts_with ''https://'' s then Some (''https'', takeWhile (\<lambda>c. c \<noteq> CHR ''/'') (drop 8 s))
      else Some ([], []))"

definition ascii_lib :: lib where
  "ascii_lib = \<lparr>nfc = (\<lambda>s. s), fold_case = map lower_char, url_parts = ascii_url_parts\<rparr>"

section \<open>Validation issues and errors: internal/domain/errors.go\<close>

record issue =
  path :: string
  code :: string
  message :: string

definition Issue :: "string \<Rightarrow> string \<Rightarrow> string \<Rightarrow> issue" where
  "Issue p c m = \<lparr>path = p, code = c, message = m\<rparr>"

lemma Issue_sel [simp]:
  "path (Issue p c m) = p" "code (Issue p c m) = c" "message (Issue p c m) = m"
  by (simp_all add: Issue_def)

lemma Issue_eq [simp]: "Issue p c m = Issue p' c' m' \<longleftrightarrow> p = p' \<and> c = c' \<and> m = m'"
  by (simp add: Issue_def)

text \<open>\<open>sort.SliceStable\<close> by path, then by code.\<close>

definition sort_issues :: "issue list \<Rightarrow> issue list" where
  "sort_issues issues = sort_key (\<lambda>i. (path i, code i)) issues"

record view_order =
  vo_table :: string
  vo_revision :: int
  vo_views :: "string list"

record conflict =
  cf_record :: string
  cf_expected :: int
  cf_current :: int
  cf_values :: vals
  cf_set :: "vals option"
  cf_unset :: "string list"

record field_conflict =
  fc_field :: string
  fc_expected :: int
  fc_current :: int

datatype app_error =
    NotFound
  | Unauthenticated
  | DependencyMissing
  | BadRequest string
  | Validation "issue list"
  | RevisionConflict string string int int
  | IdempotencyKeyReused
  | MutationReceiptExpired string
  | ResourceLimit string string string int
  | InvalidStateTransition string string string string
  | InvalidCursor
  | CursorExpired
  | QuerySnapshotExpired
  | UnsupportedOperator string string
  | UnsupportedSort string string
  | ViewConfigurationRequired string "string list"
  | UnsupportedFieldType string
  | UnsupportedConversion string string string
  | InvalidPreviewToken
  | ConversionPreviewStale
  | ViewOrderConflict string int view_order
  | RecordConflict string int "conflict list" "field_conflict list"
  | Internal string

type_synonym 'a res = "app_error + 'a"

definition NewValidationError :: "issue list \<Rightarrow> app_error" where
  "NewValidationError issues = Validation (sort_issues issues)"

text \<open>The \<open>Error()\<close> methods.\<close>

fun error_text :: "app_error \<Rightarrow> string" where
  "error_text NotFound = ''resource not found''"
| "error_text Unauthenticated = ''unauthenticated''"
| "error_text DependencyMissing = ''application dependency is not configured''"
| "error_text (BadRequest m) = (if m = '''' then ''bad request'' else m)"
| "error_text (Validation _) = ''request validation failed''"
| "error_text (RevisionConflict resource i expected current) =
     resource @ '' '' @ i @ '' revision is '' @ show_int current @ '', expected '' @ show_int expected"
| "error_text (MutationReceiptExpired _) =
     ''operation committed but its complete receipt has expired; reconciliation is required''"
| "error_text IdempotencyKeyReused = ''idempotency key was used for a different request''"
| "error_text (ResourceLimit resource _ _ limit) = resource @ '' limit '' @ show_int limit @ '' reached''"
| "error_text (InvalidStateTransition resource i action current) =
     ''cannot '' @ action @ '' '' @ resource @ '' '' @ i @ '' while it is '' @ current"
| "error_text InvalidCursor = ''cursor is invalid for this query''"
| "error_text CursorExpired = ''cursor has expired''"
| "error_text QuerySnapshotExpired = ''query snapshot has expired''"
| "error_text (UnsupportedOperator f operator) =
     ''operator '' @ operator @ '' is unsupported for Field '' @ f"
| "error_text (UnsupportedSort f t) = ''Field '' @ f @ '' of type '' @ t @ '' cannot be sorted''"
| "error_text (ViewConfigurationRequired v _) = ''View '' @ v @ '' references unavailable Fields''"
| "error_text (UnsupportedFieldType t) = ''Field type '' @ t @ '' is unsupported''"
| "error_text (UnsupportedConversion s t reason) =
     (if reason \<noteq> '''' then reason
      else ''Field type '' @ s @ '' cannot be converted to '' @ t)"
| "error_text InvalidPreviewToken = ''preview token is invalid for this conversion''"
| "error_text ConversionPreviewStale =
     ''record values changed after the conversion preview; run preview again''"
| "error_text (ViewOrderConflict _ _ _) =
     ''expectedOrderRevision does not match the current View Order revision''"
| "error_text (RecordConflict _ _ _ fcs) =
     (if length fcs > 0 then ''one or more Choice Fields have a revision conflict''
      else ''one or more records have a revision conflict'')"
| "error_text (Internal m) = m"

section \<open>Names: internal/domain/name.go\<close>

definition ResourceNameMaxCodePoints :: nat where "ResourceNameMaxCodePoints = 200"
definition FieldDescriptionMaxCodePoints :: nat where "FieldDescriptionMaxCodePoints = 200"

definition contains_control :: "string \<Rightarrow> bool" where
  "contains_control s = list_ex is_control_rune (runes s)"

definition normalize_name :: "lib \<Rightarrow> string \<Rightarrow> string \<Rightarrow> nat \<Rightarrow> string \<Rightarrow> string res" where
  "normalize_name L p s maxCodePoints label =
     (let normalized = nfc L (trim_unicode_space s) in
      fail_if (normalized = []) (NewValidationError [Issue p ''required'' (label @ '' is required'')])
     (fail_if (contains_control normalized)
        (NewValidationError [Issue p ''format'' (label @ '' cannot contain control characters'')])
     (fail_if (rune_count normalized > maxCodePoints)
        (NewValidationError [Issue p ''limit''
           (label @ '' exceeds '' @ show_nat maxCodePoints @ '' Unicode code points'')])
     (Inr normalized))))"

definition NormalizeResourceName :: "lib \<Rightarrow> string \<Rightarrow> string \<Rightarrow> string res" where
  "NormalizeResourceName L p s = normalize_name L p s ResourceNameMaxCodePoints ''name''"

definition NormalizeOptionName :: "lib \<Rightarrow> string \<Rightarrow> string \<Rightarrow> string res" where
  "NormalizeOptionName L p s = normalize_name L p s 100 ''option name''"

definition NormalizeTokenName :: "lib \<Rightarrow> string \<Rightarrow> string \<Rightarrow> string res" where
  "NormalizeTokenName L p s = normalize_name L p s 100 ''token name''"

definition NormalizeFieldDescription :: "lib \<Rightarrow> string \<Rightarrow> string \<Rightarrow> string res" where
  "NormalizeFieldDescription L p s =
     (let normalized = nfc L (trim_unicode_space s) in
      fail_if (contains_control normalized)
        (NewValidationError [Issue p ''format'' ''description cannot contain control characters''])
     (fail_if (rune_count normalized > FieldDescriptionMaxCodePoints)
        (NewValidationError [Issue p ''limit''
           (''description exceeds '' @ show_nat FieldDescriptionMaxCodePoints @ '' Unicode code points'')])
     (Inr normalized)))"

definition FoldKey :: "lib \<Rightarrow> string \<Rightarrow> string" where
  "FoldKey L s = fold_case L (nfc L s)"

lemmas name_defs = NormalizeResourceName_def NormalizeOptionName_def NormalizeTokenName_def

section \<open>The option palette: internal/domain/choice.go\<close>

definition SelectOptionColors :: "string list" where
  "SelectOptionColors =
     [''gray'', ''red'', ''orange'', ''yellow'', ''lime'', ''green'',
      ''cyan'', ''blue'', ''indigo'', ''purple'', ''pink'', ''brown'']"

definition ValidSelectOptionColor :: "string \<Rightarrow> bool" where
  "ValidSelectOptionColor color = List.member SelectOptionColors color"

section \<open>Resources: internal/domain/model.go\<close>

record select_option =
  so_id :: string
  so_name :: string
  so_color :: string

record deleted_option =
  do_id :: string
  do_name :: string
  do_color :: string
  do_deleted_at :: instant

record number_format =
  nf_thousands :: bool
  nf_decimals :: "int option"
  nf_currency :: string

text \<open>
  The configuration of a Field, by its type: \<open>SelectFieldConfig\<close>, \<open>AttachmentFieldConfig\<close>,
  \<open>NumberFieldConfig\<close>, \<open>EmptyFieldConfig\<close>.
\<close>

datatype field_config =
    SelectConfig "select_option list" "deleted_option list"
  | AttachmentConfig int
  | NumberConfig "number_format option"
  | EmptyConfig

record workspace =
  ws_id :: string
  ws_name :: string
  ws_revision :: int
  ws_created_at :: instant
  ws_updated_at :: instant

record base =
  bs_id :: string
  bs_workspace :: string
  bs_name :: string
  bs_revision :: int
  bs_created_at :: instant
  bs_updated_at :: instant

record tbl =
  tb_id :: string
  tb_base :: string
  tb_name :: string
  tb_primary_field :: string
  tb_revision :: int
  tb_created_at :: instant
  tb_updated_at :: instant
  tb_deleted_at :: "instant option"

record field =
  fd_id :: string
  fd_table :: string
  fd_name :: string
  fd_description :: string
  fd_position :: int
  fd_schema_version :: int
  fd_revision :: int
  fd_type :: string
  fd_config :: field_config
  fd_deleted_at :: "instant option"

record attachment =
  at_id :: string
  at_source :: string
  at_status :: string
  at_filename :: string
  at_mime :: string
  at_size :: "int option"
  at_storage_key :: string
  at_vault_path :: string
  at_hash :: string
  at_width :: "int option"
  at_height :: "int option"
  at_revision :: int
  at_created_at :: instant
  at_updated_at :: instant
  at_deleted_at :: "instant option"

record sort_spec =
  sp_field :: string
  sp_direction :: string
  sp_nulls :: string

text \<open>The \<open>json.RawMessage\<close> of a filter rule is empty or holds a JSON value.\<close>

datatype filter_node =
  FilterNode (fn_kind: string) (fn_operator: string) (fn_children: "filter_node list")
    (fn_field: string) (fn_value: "json option")

record grid_config =
  gc_projection :: "string list"
  gc_column_order :: "string list"
  gc_column_widths :: "(string, int) fmap"
  gc_frozen :: "string list"
  gc_row_height :: string
  gc_filter :: "filter_node option"
  gc_sort :: "sort_spec list"
  gc_manual_sort :: bool

record map_config =
  mc_location_field :: string
  mc_filter :: "filter_node option"
  mc_center :: "(float64 \<times> float64) option"
  mc_zoom :: "float64 option"

datatype view_config = GridConfig grid_config | MapConfig map_config

record view =
  vw_id :: string
  vw_table :: string
  vw_name :: string
  vw_type :: string
  vw_config :: view_config
  vw_default :: bool
  vw_revision :: int
  vw_created_at :: instant
  vw_updated_at :: instant
  vw_deleted_at :: "instant option"

record create_table_result =
  ct_table :: tbl
  ct_field :: field
  ct_view :: view

section \<open>Record data: internal/record/model.go\<close>

record rec =
  rc_id :: string
  rc_table :: string
  rc_revision :: int
  rc_values :: vals
  rc_created_at :: instant
  rc_updated_at :: instant
  rc_deleted_at :: "instant option"

record choice_option =
  co_id :: string
  co_name :: string
  co_color :: string

text \<open>\<open>Options\<close> is \<open>None\<close> when the slice is nil.\<close>

record choice_assignment =
  ca_field :: string
  ca_expected :: int
  ca_options :: "choice_option list option"

text \<open>
  \<open>Values\<close> and \<open>Set\<close> are \<open>None\<close> when the map is nil; the \<open>Present\<close> flags say whether the request
  had the member at all.
\<close>

record command =
  cm_kind :: string
  cm_record :: string
  cm_expected :: int
  cm_values :: "vals option"
  cm_set :: "vals option"
  cm_unset :: "string list"
  cm_choices :: "choice_assignment list"
  cm_values_present :: bool
  cm_set_present :: bool
  cm_unset_present :: bool
  cm_choices_present :: bool

text \<open>
  A Field as the record package sees it.  \<open>Config\<close> is the parsed configuration, or \<open>None\<close> when
  the stored bytes are rejected by \<open>json.Unmarshal\<close>.
\<close>

record field_def =
  fe_id :: string
  fe_type :: string
  fe_config :: "field_config option"
  fe_deleted_at :: "instant option"
  fe_primary :: bool
  fe_revision :: int
  fe_position :: int

type_synonym fields = "(string, field_def) fmap"

text \<open>
  A nil map reads like an empty one.
\<close>

abbreviation nil_map :: "('k, 'v) fmap option \<Rightarrow> ('k, 'v) fmap" where
  "nil_map m \<equiv> (case m of None \<Rightarrow> fmempty | Some x \<Rightarrow> x)"

section \<open>\<open>escapePointer\<close> and the one-issue helpers of internal/record/value.go\<close>

definition escape_pointer :: "string \<Rightarrow> string" where
  "escape_pointer s = replace_all (CHR ''/'') ''~1'' (replace_all (CHR ''~'') ''~0'' s)"

definition type_issue :: "string \<Rightarrow> string \<Rightarrow> issue list" where
  "type_issue p m = [Issue p ''type'' m]"

definition format_issue :: "string \<Rightarrow> string \<Rightarrow> issue list" where
  "format_issue p m = [Issue p ''format'' m]"

definition limit_issue :: "string \<Rightarrow> string \<Rightarrow> issue list" where
  "limit_issue p m = [Issue p ''limit'' m]"

definition invalid_reference_issue :: "string \<Rightarrow> string \<Rightarrow> issue list" where
  "invalid_reference_issue p m = [Issue p ''invalidReference'' m]"

lemmas issue_defs = type_issue_def format_issue_def limit_issue_def invalid_reference_issue_def

section \<open>Lemmas\<close>

lemma sort_issues_sorted: "sorted (map (\<lambda>i. (path i, code i)) (sort_issues xs))"
  by (simp add: sort_issues_def)

lemma set_sort_issues [simp]: "set (sort_issues xs) = set xs"
  by (simp add: sort_issues_def)

lemma mset_sort_issues [simp]: "mset (sort_issues xs) = mset xs"
  by (simp add: sort_issues_def)

text \<open>
  Issues of one path and code keep their order, and a list that is already in order is
  returned unchanged.
\<close>

lemma sort_issues_stable:
  "[i \<leftarrow> sort_issues xs. path i = p \<and> code i = c] = [i \<leftarrow> xs. path i = p \<and> code i = c]"
proof -
  have "[i \<leftarrow> sort_issues xs. (path i, code i) = (p, c)] = [i \<leftarrow> xs. (path i, code i) = (p, c)]"
    unfolding sort_issues_def by (rule sort_key_stable)
  then show ?thesis by simp
qed

text \<open>
  The order in which issues are collected does not matter when no two of them have the same
  path and code: the loops over Go maps, whose order is random, report one result.
\<close>

lemma sort_issues_permuted:
  assumes "mset xs = mset ys" "distinct (map (\<lambda>i. (path i, code i)) xs)"
  shows "sort_issues xs = sort_issues ys"
proof -
  let ?f = "\<lambda>i. (path i, code i)"
  have set: "set xs = set ys" using assms(1) by (rule mset_eq_setD)
  have "sort (map ?f (sort_key ?f xs)) = map ?f (sort_key ?f ys)"
    by (rule properties_for_sort) (simp_all add: assms(1))
  moreover have "sort (map ?f (sort_key ?f xs)) = map ?f (sort_key ?f xs)"
    by (rule properties_for_sort) simp_all
  ultimately have "map ?f (sort_key ?f xs) = map ?f (sort_key ?f ys)" by simp
  moreover have "inj_on ?f (set (sort_key ?f xs) \<union> set (sort_key ?f ys))"
    using assms(2) set by (simp add: distinct_map)
  ultimately show ?thesis unfolding sort_issues_def by (simp only: inj_on_map_eq_map)
qed

lemma normalize_name_cases:
  "normalize_name L p s n label = Inr r \<longleftrightarrow>
     r = nfc L (trim_unicode_space s) \<and> r \<noteq> [] \<and> \<not> contains_control r \<and> rune_count r \<le> n"
  by (auto simp: normalize_name_def Let_def not_less)

lemma normalize_name_error:
  "normalize_name L p s n label = Inl e \<Longrightarrow> \<exists>c m. e = Validation [Issue p c m]"
  by (auto simp: normalize_name_def Let_def fail_if_eq_Inl NewValidationError_def sort_issues_def
      split: if_splits)

text \<open>A JSON pointer segment: the escaped key has no slash, and no two keys escape alike.\<close>

definition escape_char :: "char \<Rightarrow> string" where
  "escape_char c = (if c = CHR ''~'' then ''~0'' else if c = CHR ''/'' then ''~1'' else [c])"

lemma escape_pointer_eq: "escape_pointer s = concat (map escape_char s)"
  unfolding escape_pointer_def replace_all_def by (induction s) (auto simp: escape_char_def)

lemma escape_pointer_no_slash: "CHR ''/'' \<notin> set (escape_pointer s)"
  by (auto simp: escape_pointer_eq escape_char_def split: if_splits)

lemma escape_char_append_inject:
  "escape_char a @ x = escape_char b @ y \<Longrightarrow> a = b \<and> x = y"
  by (auto simp: escape_char_def split: if_splits)

lemma escape_pointer_inject: "escape_pointer s = escape_pointer t \<Longrightarrow> s = t"
  unfolding escape_pointer_eq
proof (induction s arbitrary: t)
  case Nil
  then show ?case by (cases t) (auto simp: escape_char_def split: if_splits)
next
  case (Cons a s)
  then obtain b t' where t: "t = b # t'"
    by (cases t) (auto simp: escape_char_def split: if_splits)
  with Cons.prems have "a = b \<and> concat (map escape_char s) = concat (map escape_char t')"
    by (intro escape_char_append_inject) simp
  with Cons.IH t show ?case by auto
qed

text \<open>
  What the program relies on in NFC: it is idempotent, and it neither creates nor uncovers white
  space at the ends of a text (Unicode: no character other than white space has white space at
  an end of its canonical decomposition).
\<close>

definition lib_ok :: "lib \<Rightarrow> bool" where
  "lib_ok L =
     ((\<forall>s. nfc L (nfc L s) = nfc L s) \<and> (\<forall>s. no_edge_space s \<longrightarrow> no_edge_space (nfc L s)))"

lemma lib_ok_trim:
  assumes "lib_ok L"
  shows "nfc L (trim_unicode_space (nfc L (trim_unicode_space s))) = nfc L (trim_unicode_space s)"
proof -
  have "no_edge_space (nfc L (trim_unicode_space s))"
    using assms trim_no_edge_space by (auto simp: lib_ok_def)
  then show ?thesis using assms by (simp add: trim_fixed lib_ok_def)
qed

lemma lib_ok_ascii [simp]: "lib_ok ascii_lib"
  by (simp add: lib_ok_def ascii_lib_def)

section \<open>Properties\<close>

text \<open>An accepted resource name is not empty, has no control character, at most 200 code points
  and no white space at its ends, and it is a fixed point: normalising the stored name again, for
  whatever request path, gives the same name.\<close>

theorem resource_name_canonical:
  assumes "lib_ok L" and "NormalizeResourceName L p s = Inr r"
  shows "r \<noteq> [] \<and> \<not> contains_control r \<and> rune_count r \<le> 200 \<and> no_edge_space r
     \<and> NormalizeResourceName L q r = Inr r"
proof -
  have r: "r = nfc L (trim_unicode_space s)" "r \<noteq> []" "\<not> contains_control r" "rune_count r \<le> 200"
    using assms(2) by (auto simp: NormalizeResourceName_def normalize_name_cases ResourceNameMaxCodePoints_def)
  have "nfc L (trim_unicode_space r) = r" using lib_ok_trim[OF assms(1), of s] by (simp only: r(1))
  moreover have "no_edge_space r"
  proof -
    have "no_edge_space (nfc L (trim_unicode_space s))"
      using assms(1) trim_no_edge_space[of s] by (simp add: lib_ok_def)
    then show ?thesis by (simp only: r(1))
  qed
  ultimately show ?thesis using r(2-4)
    by (simp add: NormalizeResourceName_def normalize_name_cases ResourceNameMaxCodePoints_def)
qed

theorem resource_name_canonical_witness:
  "NormalizeResourceName ascii_lib ''/name'' '' My base '' = Inr ''My base''
     \<and> NormalizeResourceName ascii_lib ''/x'' ''My base'' = Inr ''My base''"
proof -
  have "trim_unicode_space '' My base '' = ''My base''" "\<not> contains_control ''My base''"
    "rune_count ''My base'' \<le> 200" by code_simp+
  then have n: "NormalizeResourceName ascii_lib ''/name'' '' My base '' = Inr ''My base''"
    by (simp add: NormalizeResourceName_def normalize_name_cases ResourceNameMaxCodePoints_def ascii_lib_def)
  then show ?thesis using resource_name_canonical[OF lib_ok_ascii n] by blast
qed

text \<open>The issues of a validation error are those that were collected, ordered by path and code;
  issues of one path and code keep their order, and collecting the issues in another order (as a
  loop over a Go map does) gives the same error whenever no two have the same path and code.\<close>

theorem validation_error_canonical:
  "\<exists>is. NewValidationError issues = Validation is \<and> mset is = mset issues
     \<and> sorted (map (\<lambda>i. (path i, code i)) is)
     \<and> (\<forall>p c. [i \<leftarrow> is. path i = p \<and> code i = c] = [i \<leftarrow> issues. path i = p \<and> code i = c])
     \<and> (\<forall>issues'. mset issues' = mset issues \<longrightarrow> distinct (map (\<lambda>i. (path i, code i)) issues) \<longrightarrow>
          NewValidationError issues' = NewValidationError issues)"
proof -
  have perm: "NewValidationError issues' = NewValidationError issues"
    if "mset issues' = mset issues" "distinct (map (\<lambda>i. (path i, code i)) issues)" for issues'
    using sort_issues_permuted[of issues issues'] that by (simp add: NewValidationError_def)
  show ?thesis
    by (rule exI[of _ "sort_issues issues"], intro conjI allI impI)
      (rule NewValidationError_def mset_sort_issues sort_issues_sorted sort_issues_stable perm; assumption)+
qed

theorem validation_error_canonical_witness:
  "NewValidationError [Issue ''/b'' ''limit'' [], Issue ''/a'' ''type'' []]
     = NewValidationError [Issue ''/a'' ''type'' [], Issue ''/b'' ''limit'' []]"
proof -
  let ?a = "[Issue ''/b'' ''limit'' [], Issue ''/a'' ''type'' []]"
  let ?b = "[Issue ''/a'' ''type'' [], Issue ''/b'' ''limit'' []]"
  have "mset ?a = mset ?b" "distinct (map (\<lambda>i. (path i, code i)) ?b)" by simp_all
  then show ?thesis using validation_error_canonical[of ?b] by blast
qed

end
