(* ===== verification/Mutation.thy ===== *)
theory Mutation
  imports Domain
begin

text \<open>
  What a mutation request must satisfy before it reaches the store, and how a record's change
  is described: \<open>validateCommands\<close> and \<open>validateTargetCommand\<close> (internal/record/service.go),
  \<open>validateChoices\<close> (internal/record/choice.go) and \<open>DiffRecordValues\<close> (internal/record/diff.go).
  The loops keep the maps the code keeps (\<open>targets\<close>, \<open>expectedFields\<close>, \<open>seen\<close>); the lemmas
  turn "no issue was reported" into a condition on the request as a whole.
\<close>

section \<open>\<open>validateTargetCommand\<close> and the loop of \<open>validateCommands\<close>\<close>

definition validate_target_command :: "string \<Rightarrow> command \<Rightarrow> issue list" where
  "validate_target_command p c =
     (if \<not> Valid RecordPrefix (cm_record c)
      then [Issue (p @ ''/recordId'') ''format'' ''recordId must be a typed Record ID''] else [])
   @ (if cm_expected c < 1
      then [Issue (p @ ''/expectedRevision'') ''required'' ''expectedRevision must be at least 1''] else [])"

definition command_issues :: "string \<Rightarrow> command \<Rightarrow> issue list" where
  "command_issues p c =
     (if cm_kind c = ''createRecord'' then
        (if \<not> cm_values_present c \<or> cm_values c = None
         then [Issue (p @ ''/values'') ''required'' ''values must be an object''] else [])
      else if cm_kind c = ''updateRecord'' then
        validate_target_command p c
        @ (if \<not> cm_set_present c \<and> \<not> cm_unset_present c \<and> length (cm_choices c) = 0
           then [Issue p ''required'' ''set, unsetFieldIds, or choices is required''] else [])
        @ (if cm_set_present c \<and> fmdom (nil_map (cm_set c)) = {||}
           then [Issue (p @ ''/set'') ''required'' ''set cannot be empty when supplied''] else [])
        @ (if cm_unset_present c \<and> length (cm_unset c) = 0
           then [Issue (p @ ''/unsetFieldIds'') ''required'' ''unsetFieldIds cannot be empty when supplied'']
           else [])
      else if cm_kind c = ''deleteRecord'' \<or> cm_kind c = ''restoreRecord'' then
        validate_target_command p c
      else [Issue (p @ ''/kind'') ''format'' ''unsupported mutation command''])"

fun validate_commands_loop :: "nat \<Rightarrow> (string, nat) fmap \<Rightarrow> command list \<Rightarrow> issue list" where
  "validate_commands_loop index targets [] = []"
| "validate_commands_loop index targets (c # cs) =
     (let p = ''/commands/'' @ show_nat index in
      command_issues p c
      @ (if cm_record c \<noteq> [] then
           case fmlookup targets (cm_record c) of
             Some first \<Rightarrow>
               [Issue (p @ ''/recordId'') ''duplicate''
                  (''Record is already targeted by command '' @ show_nat first)]
               @ validate_commands_loop (Suc index) targets cs
           | None \<Rightarrow> validate_commands_loop (Suc index) (fmupd (cm_record c) index targets) cs
         else validate_commands_loop (Suc index) targets cs))"

section \<open>\<open>validateChoices\<close>\<close>

definition choice_option_issues :: "lib \<Rightarrow> string \<Rightarrow> nat \<Rightarrow> choice_option \<Rightarrow> issue list" where
  "choice_option_issues L prefix j option =
     (let p = prefix @ ''/options/'' @ show_nat j in
      if co_id option \<noteq> [] then
        (if \<not> Valid OptionPrefix (co_id option)
         then [Issue (p @ ''/optionId'') ''format'' ''optionId must be a typed Option ID''] else [])
        @ (if co_name option \<noteq> [] \<or> co_color option \<noteq> []
           then [Issue p ''format'' ''use optionId or name/color, not both''] else [])
      else
        (case NormalizeOptionName L (p @ ''/name'') (co_name option) of
           Inl (Validation issues) \<Rightarrow> issues
         | _ \<Rightarrow> [])
        @ (if \<not> ValidSelectOptionColor (co_color option)
           then [Issue (p @ ''/color'') ''format'' ''unsupported option color''] else []))"

definition nil_slice :: "'a list option \<Rightarrow> 'a list" where
  "nil_slice xs = (case xs of None \<Rightarrow> [] | Some ys \<Rightarrow> ys)"

definition choice_issues ::
  "lib \<Rightarrow> command \<Rightarrow> string \<Rightarrow> (string, int) fmap \<Rightarrow> string list \<Rightarrow> choice_assignment \<Rightarrow> issue list" where
  "choice_issues L c p expectedFields seen choice =
     (if \<not> Valid FieldPrefix (ca_field choice)
      then [Issue (p @ ''/fieldId'') ''format'' ''fieldId must be a typed Field ID''] else [])
   @ (if ca_expected choice < 1
      then [Issue (p @ ''/expectedFieldRevision'') ''required'' ''expectedFieldRevision must be at least 1'']
      else [])
   @ (case fmlookup expectedFields (ca_field choice) of
        Some previous \<Rightarrow>
          if previous \<noteq> ca_expected choice
          then [Issue (p @ ''/expectedFieldRevision'') ''format''
                  ''one Field must use the same initial revision throughout the request'']
          else []
      | None \<Rightarrow> [])
   @ (if ca_field choice \<in> set seen \<or> fm_has (nil_map (cm_values c)) (ca_field choice)
         \<or> fm_has (nil_map (cm_set c)) (ca_field choice) \<or> ca_field choice \<in> set (cm_unset c)
      then [Issue (p @ ''/fieldId'') ''duplicate''
              ''Choice Field is duplicated or overlaps values/set/unsetFieldIds'']
      else [])
   @ (if ca_options choice = None
      then [Issue (p @ ''/options'') ''type'' ''options must be an array''] else [])
   @ (if length (nil_slice (ca_options choice)) > 100
      then [Issue (p @ ''/options'') ''limit'' ''at most 100 Option inputs per Field''] else [])
   @ ix_concat (choice_option_issues L p) (nil_slice (ca_options choice))"

text \<open>The loop over the choices of one command; \<open>i\<close> is the index of the next choice.\<close>

fun choices_loop ::
  "lib \<Rightarrow> command \<Rightarrow> string \<Rightarrow> nat \<Rightarrow> string list \<Rightarrow> (string, int) fmap \<Rightarrow> nat \<Rightarrow>
     choice_assignment list \<Rightarrow> issue list \<times> (string, int) fmap \<times> nat" where
  "choices_loop L c prefix i seen expectedFields optionCount [] = ([], expectedFields, optionCount)"
| "choices_loop L c prefix i seen expectedFields optionCount (choice # choices) =
     (let here = choice_issues L c (prefix @ ''/'' @ show_nat i) expectedFields seen choice;
          (rest, fields', count') =
            choices_loop L c prefix (Suc i) (ca_field choice # seen)
              (fmupd (ca_field choice) (ca_expected choice) expectedFields)
              (optionCount + length (nil_slice (ca_options choice))) choices
      in (here @ rest, fields', count'))"

definition choices_header_issues :: "string \<Rightarrow> command \<Rightarrow> issue list" where
  "choices_header_issues prefix c =
     (if cm_choices_present c \<and> length (cm_choices c) = 0
      then [Issue prefix ''required'' ''choices cannot be empty when supplied''] else [])
   @ (if length (cm_choices c) > 0 \<and> cm_kind c \<noteq> ''createRecord'' \<and> cm_kind c \<noteq> ''updateRecord''
      then [Issue prefix ''format'' ''choices is only valid for createRecord/updateRecord''] else [])
   @ (if length (cm_choices c) > 50
      then [Issue prefix ''limit'' ''at most 50 Choice Fields per command''] else [])"

fun validate_choices_loop ::
  "lib \<Rightarrow> nat \<Rightarrow> (string, int) fmap \<Rightarrow> nat \<Rightarrow> command list \<Rightarrow> issue list \<times> (string, int) fmap \<times> nat"
where
  "validate_choices_loop L index expectedFields optionCount [] = ([], expectedFields, optionCount)"
| "validate_choices_loop L index expectedFields optionCount (c # cs) =
     (let prefix = ''/commands/'' @ show_nat index @ ''/choices'';
          (here, fields', count') =
            choices_loop L c prefix 0 [] expectedFields optionCount (cm_choices c);
          (rest, fields'', count'') = validate_choices_loop L (Suc index) fields' count' cs
      in (choices_header_issues prefix c @ here @ rest, fields'', count''))"

definition validate_choices :: "lib \<Rightarrow> command list \<Rightarrow> issue list" where
  "validate_choices L commands =
     (let (issues, expectedFields, optionCount) = validate_choices_loop L 0 fmempty 0 commands in
      issues
      @ (if size (fmdom expectedFields) > 50
         then [Issue ''/commands'' ''limit'' ''at most 50 distinct Choice Fields per request''] else [])
      @ (if optionCount > 500
         then [Issue ''/commands'' ''limit'' ''at most 500 Option inputs per request''] else []))"

section \<open>\<open>validateCommands\<close>\<close>

definition validate_commands :: "lib \<Rightarrow> command list \<Rightarrow> unit res" where
  "validate_commands L commands =
     fail_if (length commands = 0)
       (NewValidationError [Issue ''/commands'' ''required'' ''at least one command is required''])
    (fail_if (length commands > 500)
       (NewValidationError [Issue ''/commands'' ''limit'' ''at most 500 commands are allowed''])
    (let issues = validate_commands_loop 0 fmempty commands @ validate_choices L commands in
     fail_if (length issues > 0) (NewValidationError issues)
    (Inr ())))"

section \<open>\<open>DiffRecordValues\<close>\<close>

text \<open>
  \<open>json.Marshal\<close> of a decoded JSON value fails exactly on a number that is not finite.  On
  values without such a number \<open>reflect.DeepEqual\<close> is equality.
\<close>

primrec json_finite :: "json \<Rightarrow> bool" where
  "json_finite JNull = True"
| "json_finite (JBool b) = True"
| "json_finite (JNum x) = (case x of Fin q \<Rightarrow> True | _ \<Rightarrow> False)"
| "json_finite (JStr s) = True"
| "json_finite (JArr xs) = list_all id (map json_finite xs)"
| "json_finite (JObj m) = fmpred (\<lambda>_ b. b) (fmmap json_finite m)"

definition marshal :: "string \<Rightarrow> string \<Rightarrow> json \<Rightarrow> json res" where
  "marshal what key v =
     (if json_finite v then Inr v else Inl (Internal (''encode '' @ what @ '' value for '' @ key)))"

record field_change =
  fch_field :: string
  fch_before :: "json option"
  fch_after :: "json option"

definition marshal_opt :: "string \<Rightarrow> string \<Rightarrow> json option \<Rightarrow> json option res" where
  "marshal_opt what key v =
     (case v of None \<Rightarrow> Inr None | Some x \<Rightarrow> ok_then (marshal what key x) (\<lambda>y. Inr (Some y)))"

text \<open>The body of the loop for one key; an unchanged key contributes nothing.\<close>

definition diff_key :: "vals \<Rightarrow> vals \<Rightarrow> string \<Rightarrow> field_change list res" where
  "diff_key before after key =
     (let beforeValue = fmlookup before key; afterValue = fmlookup after key in
      if beforeValue = afterValue then Inr []
      else ok_then (marshal_opt ''previous'' key beforeValue) (\<lambda>b.
           ok_then (marshal_opt ''new'' key afterValue) (\<lambda>a.
           Inr [\<lparr>fch_field = key, fch_before = b, fch_after = a\<rparr>])))"

definition diff_keys :: "vals \<Rightarrow> vals \<Rightarrow> string list" where
  "diff_keys before after = sort (remdups (fm_keys before @ fm_keys after))"

definition DiffRecordValues :: "vals \<Rightarrow> vals \<Rightarrow> field_change list res" where
  "DiffRecordValues before after =
     ok_then (each_ok (diff_key before after) (diff_keys before after)) (\<lambda>css. Inr (concat css))"

section \<open>What the loops accept\<close>

text \<open>A command on its own.\<close>

definition target_ok :: "command \<Rightarrow> bool" where
  "target_ok c = (Valid RecordPrefix (cm_record c) \<and> 1 \<le> cm_expected c)"

definition command_ok :: "command \<Rightarrow> bool" where
  "command_ok c =
     (if cm_kind c = ''createRecord'' then cm_values_present c \<and> cm_values c \<noteq> None
      else if cm_kind c = ''updateRecord'' then
        target_ok c \<and> (cm_set_present c \<or> cm_unset_present c \<or> cm_choices c \<noteq> [])
        \<and> (cm_set_present c \<longrightarrow> fmdom (nil_map (cm_set c)) \<noteq> {||})
        \<and> (cm_unset_present c \<longrightarrow> cm_unset c \<noteq> [])
      else (cm_kind c = ''deleteRecord'' \<or> cm_kind c = ''restoreRecord'') \<and> target_ok c)"

lemma command_issues_Nil_iff: "command_issues p c = [] \<longleftrightarrow> command_ok c"
  by (auto simp: command_issues_def command_ok_def validate_target_command_def target_ok_def
      not_less)

text \<open>The records the commands name, in order.\<close>

definition named_records :: "command list \<Rightarrow> string list" where
  "named_records cs = filter (\<lambda>r. r \<noteq> []) (map cm_record cs)"

lemma named_records_simps [simp]:
  "named_records [] = []"
  "named_records (c # cs) = (if cm_record c = [] then [] else [cm_record c]) @ named_records cs"
  by (simp_all add: named_records_def)

lemma validate_commands_loop_Nil_iff:
  "validate_commands_loop index targets cs = [] \<longleftrightarrow>
     list_all command_ok cs \<and> distinct (named_records cs)
     \<and> set (named_records cs) \<inter> fset (fmdom targets) = {}"
proof (induction cs arbitrary: index targets)
  case Nil
  then show ?case by simp
next
  case (Cons c cs)
  then show ?case
    by (cases "fmlookup targets (cm_record c)")
      (auto simp: Let_def command_issues_Nil_iff fmdom_notI dest: fmdomI)
qed

text \<open>An option input on its own.\<close>

definition choice_option_ok :: "lib \<Rightarrow> choice_option \<Rightarrow> bool" where
  "choice_option_ok L x =
     (if co_id x \<noteq> [] then Valid OptionPrefix (co_id x) \<and> co_name x = [] \<and> co_color x = []
      else (\<exists>n. NormalizeOptionName L [] (co_name x) = Inr n) \<and> ValidSelectOptionColor (co_color x))"

lemma choice_option_issues_Nil_iff:
  "choice_option_issues L p j x = [] \<longleftrightarrow> choice_option_ok L x"
proof -
  have "(case NormalizeOptionName L q (co_name x) of Inl (Validation issues) \<Rightarrow> issues | _ \<Rightarrow> []) = []
      \<longleftrightarrow> (\<exists>n. NormalizeOptionName L [] (co_name x) = Inr n)" for q
  proof (cases "NormalizeOptionName L q (co_name x)")
    case (Inl e)
    then obtain c m where e: "e = Validation [Issue q c m]"
      using normalize_name_error unfolding NormalizeOptionName_def by blast
    have "\<not> (\<exists>n. NormalizeOptionName L q (co_name x) = Inr n)"
      using Inl by simp
    then have "\<not> (\<exists>n. NormalizeOptionName L [] (co_name x) = Inr n)"
      unfolding NormalizeOptionName_def normalize_name_cases .
    then show ?thesis using Inl e by simp
  next
    case (Inr n)
    then have "\<exists>n. NormalizeOptionName L [] (co_name x) = Inr n"
      by (auto simp: NormalizeOptionName_def normalize_name_cases)
    then show ?thesis using Inr by simp
  qed
  then show ?thesis
    by (auto simp: choice_option_issues_def choice_option_ok_def Let_def)
qed

text \<open>
  A choice assignment on its own, and inside its command: it must not name a Field that an
  earlier choice or another part of the command names.
\<close>

definition choice_ok :: "lib \<Rightarrow> choice_assignment \<Rightarrow> bool" where
  "choice_ok L ch =
     (Valid FieldPrefix (ca_field ch) \<and> 1 \<le> ca_expected ch \<and> ca_options ch \<noteq> None
      \<and> length (nil_slice (ca_options ch)) \<le> 100
      \<and> list_all (choice_option_ok L) (nil_slice (ca_options ch)))"

definition names_field :: "command \<Rightarrow> string \<Rightarrow> bool" where
  "names_field c f =
     (fm_has (nil_map (cm_values c)) f \<or> fm_has (nil_map (cm_set c)) f \<or> f \<in> set (cm_unset c))"

definition agrees :: "(string, int) fmap \<Rightarrow> string \<times> int \<Rightarrow> bool" where
  "agrees m fr = (fmlookup m (fst fr) \<in> {None, Some (snd fr)})"

lemma choice_issues_Nil_iff:
  "choice_issues L c p expectedFields seen ch = [] \<longleftrightarrow>
     choice_ok L ch \<and> agrees expectedFields (ca_field ch, ca_expected ch)
     \<and> ca_field ch \<notin> set seen \<and> \<not> names_field c (ca_field ch)"
  by (auto simp: choice_issues_def choice_ok_def agrees_def names_field_def ix_concat_eq_Nil
      choice_option_issues_Nil_iff list_all_length not_less split: option.splits if_splits)

text \<open>The Field and revision pairs of a command, and the map and count the loops leave behind.\<close>

definition choice_pairs :: "choice_assignment list \<Rightarrow> (string \<times> int) list" where
  "choice_pairs chs = map (\<lambda>ch. (ca_field ch, ca_expected ch)) chs"

definition record_pairs :: "(string \<times> int) list \<Rightarrow> (string, int) fmap \<Rightarrow> (string, int) fmap" where
  "record_pairs frs m = fold (\<lambda>(f, r) m. fmupd f r m) frs m"

text \<open>No pair disagrees with the map as it is when the pair is reached.\<close>

fun consistent_from :: "(string, int) fmap \<Rightarrow> (string \<times> int) list \<Rightarrow> bool" where
  "consistent_from m [] = True"
| "consistent_from m (fr # frs) = (agrees m fr \<and> consistent_from (fmupd (fst fr) (snd fr) m) frs)"

definition count_options :: "choice_assignment list \<Rightarrow> nat" where
  "count_options chs = sum_list (map (\<lambda>ch. length (nil_slice (ca_options ch))) chs)"

lemma record_pairs_simps [simp]:
  "record_pairs [] m = m"
  "record_pairs ((f, r) # frs) m = record_pairs frs (fmupd f r m)"
  "record_pairs (frs @ frs') m = record_pairs frs' (record_pairs frs m)"
  by (simp_all add: record_pairs_def)

lemma fmdom_record_pairs:
  "fset (fmdom (record_pairs frs m)) = fset (fmdom m) \<union> set (map fst frs)"
proof (induction frs arbitrary: m)
  case Nil
  then show ?case by simp
next
  case (Cons fr frs)
  then show ?case by (cases fr) simp
qed

lemma consistent_from_append:
  "consistent_from m (xs @ ys) \<longleftrightarrow> consistent_from m xs \<and> consistent_from (record_pairs xs m) ys"
proof (induction xs arbitrary: m)
  case Nil
  then show ?case by simp
next
  case (Cons fr frs)
  then show ?case by (cases fr) simp
qed

lemma functional_insert:
  "(\<forall>x \<in> insert a A. \<forall>y \<in> insert a A. f x = f y \<longrightarrow> g x = g y) \<longleftrightarrow>
     (\<forall>y \<in> A. f y = f a \<longrightarrow> g y = g a) \<and> (\<forall>x \<in> A. \<forall>y \<in> A. f x = f y \<longrightarrow> g x = g y)"
  (is "?L \<longleftrightarrow> ?R")
proof
  assume r: ?R
  show ?L
  proof (intro ballI impI)
    fix x y assume "x \<in> insert a A" "y \<in> insert a A" "f x = f y"
    moreover have "y \<in> A \<Longrightarrow> f y = f a \<Longrightarrow> g y = g a" "x \<in> A \<Longrightarrow> f x = f a \<Longrightarrow> g x = g a"
      "x \<in> A \<Longrightarrow> y \<in> A \<Longrightarrow> f x = f y \<Longrightarrow> g x = g y" using r by blast+
    ultimately show "g x = g y" by (cases "x = a"; cases "y = a") simp_all
  qed
qed blast

lemma consistent_from_iff:
  "consistent_from m frs \<longleftrightarrow>
     (\<forall>fr \<in> set frs. agrees m fr)
     \<and> (\<forall>fr \<in> set frs. \<forall>fr' \<in> set frs. fst fr = fst fr' \<longrightarrow> snd fr = snd fr')"
proof (induction frs arbitrary: m)
  case Nil
  then show ?case by simp
next
  case (Cons fr frs)
  show ?case
  proof (cases "agrees m fr")
    case False
    then show ?thesis by simp
  next
    case True
    then have "agrees (fmupd (fst fr) (snd fr) m) fr' \<longleftrightarrow>
        agrees m fr' \<and> (fst fr' = fst fr \<longrightarrow> snd fr' = snd fr)" for fr'
      by (auto simp: agrees_def)
    with True show ?thesis
      by (simp only: consistent_from.simps Cons list.set functional_insert ball_conj_distrib
          ball_simps simp_thms) blast
  qed
qed

lemma choices_loop_state:
  "snd (choices_loop L c prefix i seen m n chs) = (record_pairs (choice_pairs chs) m, n + count_options chs)"
proof (induction chs arbitrary: i seen m n)
  case Nil
  then show ?case by (simp add: choice_pairs_def count_options_def)
next
  case (Cons ch chs)
  have "snd (choices_loop L c prefix i seen m n (ch # chs))
      = snd (choices_loop L c prefix (Suc i) (ca_field ch # seen)
              (fmupd (ca_field ch) (ca_expected ch) m)
              (n + length (nil_slice (ca_options ch))) chs)"
    by (simp add: Let_def split: prod.splits)
  then show ?case by (simp add: Cons choice_pairs_def count_options_def)
qed

text \<open>The same with the issues split off, in a form that rewrites.\<close>

lemma choices_loop_split:
  "\<exists>f. \<forall>p. choices_loop L c p 0 [] m n chs
      = (f p, record_pairs (choice_pairs chs) m, n + count_options chs)"
  by (rule exI[of _ "\<lambda>p. fst (choices_loop L c p 0 [] m n chs)"])
    (simp add: prod_eq_iff choices_loop_state)

lemma choices_loop_Nil_iff:
  "fst (choices_loop L c prefix i seen m n chs) = [] \<longleftrightarrow>
     list_all (choice_ok L) chs \<and> consistent_from m (choice_pairs chs)
     \<and> distinct (map ca_field chs) \<and> set (map ca_field chs) \<inter> set seen = {}
     \<and> list_all (\<lambda>ch. \<not> names_field c (ca_field ch)) chs"
proof (induction chs arbitrary: i seen m n)
  case Nil
  then show ?case by (simp add: choice_pairs_def)
next
  case (Cons ch chs)
  have "fst (choices_loop L c prefix i seen m n (ch # chs)) = [] \<longleftrightarrow>
      choice_issues L c (prefix @ ''/'' @ show_nat i) m seen ch = []
      \<and> fst (choices_loop L c prefix (Suc i) (ca_field ch # seen)
              (fmupd (ca_field ch) (ca_expected ch) m)
              (n + length (nil_slice (ca_options ch))) chs) = []"
    by (simp add: Let_def split: prod.splits)
  then show ?case
    by (auto simp: Cons choice_issues_Nil_iff choice_pairs_def)
qed

text \<open>The choices of a command, apart from their agreement with the rest of the request.\<close>

definition choices_ok :: "lib \<Rightarrow> command \<Rightarrow> bool" where
  "choices_ok L c =
     ((cm_choices_present c \<longrightarrow> cm_choices c \<noteq> [])
      \<and> (cm_choices c \<noteq> [] \<longrightarrow> cm_kind c = ''createRecord'' \<or> cm_kind c = ''updateRecord'')
      \<and> length (cm_choices c) \<le> 50 \<and> list_all (choice_ok L) (cm_choices c)
      \<and> distinct (map ca_field (cm_choices c))
      \<and> list_all (\<lambda>ch. \<not> names_field c (ca_field ch)) (cm_choices c))"

definition request_choices :: "command list \<Rightarrow> choice_assignment list" where
  "request_choices cs = concat (map cm_choices cs)"

lemma request_choices_simps [simp]:
  "request_choices [] = []"
  "request_choices (c # cs) = cm_choices c @ request_choices cs"
  by (simp_all add: request_choices_def)

lemma choice_pairs_append [simp]: "choice_pairs (xs @ ys) = choice_pairs xs @ choice_pairs ys"
  by (simp add: choice_pairs_def)

lemma count_options_append [simp]: "count_options (xs @ ys) = count_options xs + count_options ys"
  by (simp add: count_options_def)

lemma validate_choices_loop_state:
  "snd (validate_choices_loop L i m n cs)
     = (record_pairs (choice_pairs (request_choices cs)) m, n + count_options (request_choices cs))"
proof (induction cs arbitrary: i m n)
  case Nil
  then show ?case by (simp add: choice_pairs_def count_options_def)
next
  case (Cons c cs)
  obtain f where "\<And>p. choices_loop L c p 0 [] m n (cm_choices c)
      = (f p, record_pairs (choice_pairs (cm_choices c)) m, n + count_options (cm_choices c))"
    using choices_loop_split by blast
  then have "snd (validate_choices_loop L i m n (c # cs))
      = snd (validate_choices_loop L (Suc i) (record_pairs (choice_pairs (cm_choices c)) m)
              (n + count_options (cm_choices c)) cs)"
    by (simp add: Let_def split: prod.splits)
  then show ?case by (simp add: Cons)
qed

lemma validate_choices_loop_Nil_iff:
  "fst (validate_choices_loop L i m n cs) = [] \<longleftrightarrow>
     list_all (choices_ok L) cs \<and> consistent_from m (choice_pairs (request_choices cs))"
proof (induction cs arbitrary: i m n)
  case Nil
  then show ?case by (simp add: choice_pairs_def)
next
  case (Cons c cs)
  obtain f where f: "\<And>p. choices_loop L c p 0 [] m n (cm_choices c)
      = (f p, record_pairs (choice_pairs (cm_choices c)) m, n + count_options (cm_choices c))"
    using choices_loop_split by blast
  have here: "f p = [] \<longleftrightarrow> list_all (choice_ok L) (cm_choices c)
      \<and> consistent_from m (choice_pairs (cm_choices c)) \<and> distinct (map ca_field (cm_choices c))
      \<and> list_all (\<lambda>ch. \<not> names_field c (ca_field ch)) (cm_choices c)" for p
    using choices_loop_Nil_iff[of L c p 0 "[]" m n "cm_choices c"] f by simp
  have header: "choices_header_issues p c = [] \<longleftrightarrow>
      (cm_choices_present c \<longrightarrow> cm_choices c \<noteq> [])
      \<and> (cm_choices c \<noteq> [] \<longrightarrow> cm_kind c = ''createRecord'' \<or> cm_kind c = ''updateRecord'')
      \<and> length (cm_choices c) \<le> 50" for p
    by (auto simp: choices_header_issues_def not_less)
  have "fst (validate_choices_loop L i m n (c # cs)) = [] \<longleftrightarrow>
      (let p = ''/commands/'' @ show_nat i @ ''/choices'' in
       choices_header_issues p c = [] \<and> f p = []
       \<and> fst (validate_choices_loop L (Suc i) (record_pairs (choice_pairs (cm_choices c)) m)
                (n + count_options (cm_choices c)) cs) = [])"
    using f by (simp add: Let_def split: prod.splits)
  then show ?case
    by (simp add: Let_def header here Cons choices_ok_def consistent_from_append) blast
qed

text \<open>What a request must satisfy as a whole.\<close>

definition same_expected_revisions :: "command list \<Rightarrow> bool" where
  "same_expected_revisions cs =
     (\<forall>x \<in> set (request_choices cs). \<forall>y \<in> set (request_choices cs).
        ca_field x = ca_field y \<longrightarrow> ca_expected x = ca_expected y)"

definition request_ok :: "lib \<Rightarrow> command list \<Rightarrow> bool" where
  "request_ok L cs =
     (1 \<le> length cs \<and> length cs \<le> 500 \<and> list_all command_ok cs \<and> list_all (choices_ok L) cs
      \<and> distinct (named_records cs) \<and> same_expected_revisions cs
      \<and> card (set (map ca_field (request_choices cs))) \<le> 50 \<and> count_options (request_choices cs) \<le> 500)"

lemma validate_choices_Nil_iff:
  "validate_choices L cs = [] \<longleftrightarrow>
     list_all (choices_ok L) cs \<and> same_expected_revisions cs
     \<and> card (set (map ca_field (request_choices cs))) \<le> 50 \<and> count_options (request_choices cs) \<le> 500"
proof -
  obtain a b d where abd: "validate_choices_loop L 0 fmempty 0 cs = (a, b, d)" by (metis prod_cases3)
  have st: "b = record_pairs (choice_pairs (request_choices cs)) fmempty"
    "d = count_options (request_choices cs)"
    using validate_choices_loop_state[of L 0 fmempty 0 cs] abd by simp_all
  have "size (fmdom b) = card (set (map ca_field (request_choices cs)))"
    by (simp add: fcard.rep_eq st(1) fmdom_record_pairs choice_pairs_def image_image)
  moreover have "a = [] \<longleftrightarrow> list_all (choices_ok L) cs \<and> same_expected_revisions cs"
    using validate_choices_loop_Nil_iff[of L 0 fmempty 0 cs] abd
    by (auto simp: consistent_from_iff agrees_def choice_pairs_def same_expected_revisions_def)
  ultimately show ?thesis
    by (auto simp: validate_choices_def abd st(2) not_less)
qed

section \<open>Reading a difference\<close>

text \<open>Writing the new side, or the old side, of a list of changes into a map of values.\<close>

definition put :: "string \<Rightarrow> json option \<Rightarrow> vals \<Rightarrow> vals" where
  "put key v m = (case v of None \<Rightarrow> fmdrop key m | Some x \<Rightarrow> fmupd key x m)"

definition apply_changes :: "field_change list \<Rightarrow> vals \<Rightarrow> vals" where
  "apply_changes cs m = fold (\<lambda>c. put (fch_field c) (fch_after c)) cs m"

definition revert_changes :: "field_change list \<Rightarrow> vals \<Rightarrow> vals" where
  "revert_changes cs m = fold (\<lambda>c. put (fch_field c) (fch_before c)) cs m"

lemma fmlookup_put: "fmlookup (put k v m) k' = (if k' = k then v else fmlookup m k')"
  by (auto simp: put_def split: option.splits)

lemma marshal_opt_Inr: "marshal_opt what key v = Inr w \<Longrightarrow> w = v"
  by (auto simp: marshal_opt_def marshal_def ok_then_eq_Inr split: option.splits if_splits)

lemma diff_key_Inr:
  "diff_key b a key = Inr cs \<Longrightarrow>
     cs = (if fmlookup b key = fmlookup a key then []
           else [\<lparr>fch_field = key, fch_before = fmlookup b key, fch_after = fmlookup a key\<rparr>])"
  by (auto simp: diff_key_def Let_def ok_then_eq_Inr dest!: marshal_opt_Inr split: if_splits)

text \<open>The change the code reports for a key.\<close>

definition change_at :: "vals \<Rightarrow> vals \<Rightarrow> string \<Rightarrow> field_change" where
  "change_at b a key = \<lparr>fch_field = key, fch_before = fmlookup b key, fch_after = fmlookup a key\<rparr>"

definition changed_keys :: "vals \<Rightarrow> vals \<Rightarrow> string list" where
  "changed_keys b a = filter (\<lambda>key. fmlookup b key \<noteq> fmlookup a key) (diff_keys b a)"

lemma each_diff_key:
  "each_ok (diff_key b a) keys = Inr css \<Longrightarrow>
     concat css = map (change_at b a) (filter (\<lambda>key. fmlookup b key \<noteq> fmlookup a key) keys)"
  by (induction keys arbitrary: css) (auto simp: ok_then_eq_Inr change_at_def dest!: diff_key_Inr)

lemma diff_eq:
  "DiffRecordValues b a = Inr cs \<Longrightarrow> cs = map (change_at b a) (changed_keys b a)"
  by (auto simp: DiffRecordValues_def ok_then_eq_Inr changed_keys_def dest!: each_diff_key)

lemma set_diff_keys [simp]: "set (diff_keys b a) = fset (fmdom b) \<union> fset (fmdom a)"
  by (simp add: diff_keys_def)

lemma sorted_diff_keys: "sorted (diff_keys b a) \<and> distinct (diff_keys b a)"
  by (simp add: diff_keys_def)

lemma sorted_changed_keys: "sorted (changed_keys b a) \<and> distinct (changed_keys b a)"
  using sorted_diff_keys[of b a] by (simp add: changed_keys_def sorted_wrt_filter)

lemma set_changed_keys: "set (changed_keys b a) = {key. fmlookup b key \<noteq> fmlookup a key}"
  by (auto simp: changed_keys_def) (metis fmdom_notD)+

lemma fold_put_lookup:
  "distinct keys \<Longrightarrow>
     fmlookup (fold (\<lambda>k. put k (v k)) keys m) key = (if key \<in> set keys then v key else fmlookup m key)"
  by (induction keys arbitrary: m) (auto simp: fmlookup_put)

lemma apply_diff: "DiffRecordValues b a = Inr cs \<Longrightarrow> apply_changes cs b = a"
proof -
  assume "DiffRecordValues b a = Inr cs"
  then have cs: "cs = map (change_at b a) (changed_keys b a)" by (rule diff_eq)
  have "apply_changes cs b = fold (\<lambda>k. put k (fmlookup a k)) (changed_keys b a) b"
    by (simp add: cs apply_changes_def fold_map comp_def change_at_def)
  then show "apply_changes cs b = a"
    using sorted_changed_keys[of b a] by (intro fmap_ext) (simp add: fold_put_lookup set_changed_keys)
qed

lemma revert_diff: "DiffRecordValues b a = Inr cs \<Longrightarrow> revert_changes cs a = b"
proof -
  assume "DiffRecordValues b a = Inr cs"
  then have cs: "cs = map (change_at b a) (changed_keys b a)" by (rule diff_eq)
  have "revert_changes cs a = fold (\<lambda>k. put k (fmlookup b k)) (changed_keys b a) a"
    by (simp add: cs revert_changes_def fold_map comp_def change_at_def)
  then show "revert_changes cs a = b"
    using sorted_changed_keys[of b a] by (intro fmap_ext) (simp add: fold_put_lookup set_changed_keys)
qed

text \<open>It succeeds on the values the store holds, whose numbers are finite.\<close>

definition vals_finite :: "vals \<Rightarrow> bool" where
  "vals_finite m = fmpred (\<lambda>_ v. json_finite v) m"

lemma vals_finite_lookup: "vals_finite m \<Longrightarrow> fmlookup m k = Some v \<Longrightarrow> json_finite v"
  by (auto simp: vals_finite_def fmpred_iff)

lemma vals_finite_of_list:
  "list_all (\<lambda>kv. json_finite (snd kv)) xs \<Longrightarrow> vals_finite (fmap_of_list xs)"
  unfolding vals_finite_def by (rule fmpred_of_list) (auto simp: list_all_iff)

lemma marshal_opt_finite:
  "vals_finite m \<Longrightarrow> marshal_opt what k (fmlookup m k) = Inr (fmlookup m k)"
  by (auto simp: marshal_opt_def marshal_def split: option.splits dest: vals_finite_lookup)

lemma diff_succeeds:
  assumes "vals_finite b" "vals_finite a"
  shows "DiffRecordValues b a = Inr (map (change_at b a) (changed_keys b a))"
proof -
  have "diff_key b a k = Inr (if fmlookup b k = fmlookup a k then [] else [change_at b a k])" for k
    using assms by (simp add: diff_key_def Let_def marshal_opt_finite change_at_def)
  then have "each_ok (diff_key b a) ks
      = Inr (map (\<lambda>k. if fmlookup b k = fmlookup a k then [] else [change_at b a k]) ks)" for ks
    by (induction ks) simp_all
  then have "\<exists>cs. DiffRecordValues b a = Inr cs" by (simp add: DiffRecordValues_def)
  then show ?thesis using diff_eq by blast
qed

section \<open>Properties\<close>

text \<open>C15: \<open>validateCommands\<close> accepts a request exactly when it has between 1 and 500 commands,
  every command is well formed for its kind, no record is named twice, every choice assignment
  is well formed and names a Field nothing else of its command names, all choices of one Field
  expect the same revision, and at most 50 distinct choice Fields and 500 option inputs occur.\<close>

theorem validate_commands_accepts_iff:
  "validate_commands L cs = Inr () \<longleftrightarrow> request_ok L cs"
  by (auto simp: validate_commands_def request_ok_def Let_def validate_commands_loop_Nil_iff
      validate_choices_Nil_iff not_less Suc_le_eq)

text \<open>A rejected mutation request is always answered with a non-empty validation error whose
  issues are ordered by path and then by code.\<close>

theorem validate_commands_rejects_sorted:
  assumes "validate_commands L cs = Inl e"
  shows "\<exists>issues. e = Validation issues \<and> issues \<noteq> [] \<and> sorted (map (\<lambda>i. (path i, code i)) issues)"
proof -
  have "\<exists>xs. xs \<noteq> [] \<and> e = NewValidationError xs"
    using assms by (auto simp: validate_commands_def Let_def fail_if_def split: if_splits)
  then obtain xs where "xs \<noteq> []" and e: "e = Validation (sort_issues xs)"
    by (auto simp: NewValidationError_def)
  then have "sort_issues xs \<noteq> []" by (metis set_empty set_sort_issues)
  then show ?thesis using e sort_issues_sorted by blast
qed

definition sample_delete :: "string \<Rightarrow> command" where
  "sample_delete r =
     \<lparr>cm_kind = ''deleteRecord'', cm_record = r, cm_expected = 0, cm_values = None, cm_set = None,
      cm_unset = [], cm_choices = [], cm_values_present = False, cm_set_present = False,
      cm_unset_present = False, cm_choices_present = False\<rparr>"

theorem validate_commands_rejects_sorted_witness:
  "\<exists>issues. validate_commands ascii_lib [sample_delete ''rec_1''] = Inl (Validation issues)
     \<and> issues \<noteq> [] \<and> sorted (map (\<lambda>i. (path i, code i)) issues)"
proof -
  have "command_issues p (sample_delete ''rec_1'') \<noteq> []" for p
    by (simp add: command_issues_Nil_iff command_ok_def target_ok_def sample_delete_def)
  then obtain e where "validate_commands ascii_lib [sample_delete ''rec_1''] = Inl e"
    by (auto simp: validate_commands_def Let_def)
  then show ?thesis using validate_commands_rejects_sorted by fastforce
qed

text \<open>C23: the differences \<open>DiffRecordValues\<close> reports turn the old values into the new ones when
  their new sides are written, and the new into the old when their old sides are; their Fields
  are listed once each, in order, and every reported Field really differs.\<close>

theorem diff_record_values_roundtrip:
  assumes "DiffRecordValues before after = Inr cs"
  shows "apply_changes cs before = after \<and> revert_changes cs after = before
     \<and> sorted (map fch_field cs) \<and> distinct (map fch_field cs)
     \<and> (\<forall>c \<in> set cs. fch_before c \<noteq> fch_after c)"
proof -
  have cs: "cs = map (change_at before after) (changed_keys before after)" by (rule diff_eq[OF assms])
  have "map fch_field cs = changed_keys before after"
    by (simp add: cs comp_def change_at_def)
  moreover have "\<forall>c \<in> set cs. fch_before c \<noteq> fch_after c"
    by (auto simp: cs change_at_def set_changed_keys)
  ultimately show ?thesis
    using apply_diff[OF assms] revert_diff[OF assms] sorted_changed_keys[of before after] by simp
qed

theorem diff_record_values_roundtrip_witness:
  "\<exists>cs. DiffRecordValues (fmap_of_list [(''a'', JBool True), (''b'', JStr ''x'')])
           (fmap_of_list [(''b'', JStr ''y''), (''c'', JNull)]) = Inr cs
       \<and> length cs = 3
       \<and> apply_changes cs (fmap_of_list [(''a'', JBool True), (''b'', JStr ''x'')])
           = fmap_of_list [(''b'', JStr ''y''), (''c'', JNull)]"
  (is "\<exists>cs. DiffRecordValues ?b ?a = Inr cs \<and> _")
proof -
  have "vals_finite ?b" "vals_finite ?a"
    by (rule vals_finite_of_list, simp)+
  then have d: "DiffRecordValues ?b ?a = Inr (map (change_at ?b ?a) (changed_keys ?b ?a))"
    by (rule diff_succeeds)
  have "changed_keys ?b ?a = [''a'', ''b'', ''c'']"
    unfolding changed_keys_def diff_keys_def by code_simp
  then show ?thesis using d diff_record_values_roundtrip[OF d] by simp
qed

end
