(* ===== verification/Values.thy ===== *)
theory Values
  imports Domain
begin

text \<open>
  What a record stores: internal/record/value.go.  Every value is normalised against the Field
  it is written to; \<open>NormalizeCreateValues\<close> and \<open>NormalizeUpdatedValues\<close> build the canonical
  values of a record, the projection that queries compare, and the search text.  A value that is
  refused is a non-empty list of issues (\<open>Inl\<close>), the normalised value otherwise (\<open>Inr\<close>).  Loops
  over Go maps whose only effect is to collect issues visit the keys in sorted order here: their
  issues have distinct paths and are sorted before they are reported.  A failing type assertion
  of \<open>buildQueryProjection\<close> is a panic, modelled as \<open>None\<close>.
\<close>

type_synonym value_res = "issue list + json"

text \<open>Reading a key of a Go map: the nil value when it is absent.\<close>

definition fm_get :: "vals \<Rightarrow> string \<Rightarrow> json" where
  "fm_get m k = (case fmlookup m k of None \<Rightarrow> JNull | Some v \<Rightarrow> v)"

section \<open>Dates, options and small checks\<close>

text \<open>\<open>time.Parse("2006-01-02")\<close> followed by the comparison with the formatted result.\<close>

definition digit_value :: "char \<Rightarrow> nat" where
  "digit_value c = byte c - 48"

definition digits_value :: "string \<Rightarrow> nat" where
  "digits_value s = foldl (\<lambda>n c. n * 10 + digit_value c) 0 s"

definition leap_year :: "nat \<Rightarrow> bool" where
  "leap_year y = (y mod 4 = 0 \<and> (y mod 100 \<noteq> 0 \<or> y mod 400 = 0))"

definition days_in_month :: "nat \<Rightarrow> nat \<Rightarrow> nat" where
  "days_in_month y m =
     (if m = 2 then (if leap_year y then 29 else 28)
      else if m \<in> {4, 6, 9, 11} then 30 else 31)"

definition valid_date :: "string \<Rightarrow> bool" where
  "valid_date s =
     (length s = 10 \<and> s ! 4 = CHR ''-'' \<and> s ! 7 = CHR ''-''
      \<and> list_all is_digit (take 4 s) \<and> list_all is_digit (take 2 (drop 5 s))
      \<and> list_all is_digit (drop 8 s)
      \<and> (let y = digits_value (take 4 s); m = digits_value (take 2 (drop 5 s));
             d = digits_value (drop 8 s)
         in 1 \<le> m \<and> m \<le> 12 \<and> 1 \<le> d \<and> d \<le> days_in_month y m))"

definition select_options :: "field_config option \<Rightarrow> (string list \<times> string list) option" where
  "select_options raw =
     (case raw of
        None \<Rightarrow> None
      | Some (SelectConfig options deletedOptions) \<Rightarrow> Some (map so_id options, map do_id deletedOptions)
      | Some _ \<Rightarrow> Some ([], []))"

definition attachment_config :: "field_config option \<Rightarrow> int option" where
  "attachment_config raw =
     (case raw of None \<Rightarrow> None | Some (AttachmentConfig maxCount) \<Rightarrow> Some maxCount | Some _ \<Rightarrow> Some 0)"

fun json_strings :: "json list \<Rightarrow> string list" where
  "json_strings [] = []"
| "json_strings (JStr s # vs) = s # json_strings vs"
| "json_strings (_ # vs) = json_strings vs"

definition string_set :: "json \<Rightarrow> string list" where
  "string_set v = (case v of JArr vs \<Rightarrow> json_strings vs | _ \<Rightarrow> [])"

definition is_sha256 :: "string \<Rightarrow> bool" where
  "is_sha256 s =
     (length s = 64 \<and> list_all (\<lambda>c. is_digit c \<or> (97 \<le> byte c \<and> byte c \<le> 102)) s)"

definition fold_text :: "lib \<Rightarrow> string \<Rightarrow> string" where
  "fold_text L s = fold_case L (nfc L s)"

section \<open>\<open>normalizeAttachmentRef\<close> and \<open>normalizeAttachment\<close>\<close>

definition attachment_ref_keys :: "string list" where
  "attachment_ref_keys =
     [''id'', ''source'', ''filename'', ''mimeType'', ''size'', ''storageKey'', ''vaultPath'', ''hash'',
      ''width'', ''height'']"

definition unknown_key_issues :: "string list \<Rightarrow> string \<Rightarrow> string \<Rightarrow> vals \<Rightarrow> issue list" where
  "unknown_key_issues allowed p m input =
     map (\<lambda>key. Issue (p @ ''/'' @ escape_pointer key) ''unknownProperty'' m)
       (filter (\<lambda>key. key \<notin> set allowed) (fm_keys input))"

text \<open>One property of a reference: what it adds to the result, or its issues.\<close>

definition ref_id :: "string \<Rightarrow> vals \<Rightarrow> issue list + json" where
  "ref_id p input =
     (case fm_get input ''id'' of
        JStr s \<Rightarrow> if Valid AttachmentPrefix s then Inr (JStr s)
                  else Inl (type_issue (p @ ''/id'') ''id must be an Attachment ID'')
      | _ \<Rightarrow> Inl (type_issue (p @ ''/id'') ''id must be an Attachment ID''))"

definition ref_source :: "string \<Rightarrow> vals \<Rightarrow> issue list + json" where
  "ref_source p input =
     (case fm_get input ''source'' of
        JStr s \<Rightarrow> if s = ''managed'' \<or> s = ''vault'' then Inr (JStr s)
                  else Inl (format_issue (p @ ''/source'') ''source must be managed or vault'')
      | _ \<Rightarrow> Inl (format_issue (p @ ''/source'') ''source must be managed or vault''))"

definition ref_filename :: "lib \<Rightarrow> string \<Rightarrow> vals \<Rightarrow> issue list + json" where
  "ref_filename L p input =
     (case fm_get input ''filename'' of
        JStr s \<Rightarrow>
          (let filename = nfc L (trim_func s) in
           if filename = [] \<or> rune_count filename > 255 \<or> contains_control filename
              \<or> CHR ''/'' \<in> set filename \<or> CHR 0x5C \<in> set filename
           then Inl (format_issue (p @ ''/filename'') ''filename must be a safe non-empty file name'')
           else Inr (JStr filename))
      | _ \<Rightarrow> Inl (type_issue (p @ ''/filename'') ''filename must be a string''))"

definition add_part :: "string \<Rightarrow> issue list + json \<Rightarrow> vals \<times> issue list \<Rightarrow> vals \<times> issue list" where
  "add_part key part st =
     (case part of Inl more_issues \<Rightarrow> (fst st, snd st @ more_issues) | Inr v \<Rightarrow> (fmupd key v (fst st), snd st))"

text \<open>A property that may be absent.\<close>

definition add_optional ::
  "vals \<Rightarrow> (json \<Rightarrow> issue list + json) \<Rightarrow> string \<Rightarrow> vals \<times> issue list \<Rightarrow> vals \<times> issue list" where
  "add_optional input part key st =
     (case fmlookup input key of None \<Rightarrow> st | Some current \<Rightarrow> add_part key (part current) st)"

definition ref_text :: "string \<Rightarrow> string \<Rightarrow> json \<Rightarrow> issue list + json" where
  "ref_text p key current =
     (case current of JStr s \<Rightarrow> Inr (JStr (trim_func s))
      | _ \<Rightarrow> Inl (type_issue (p @ ''/'' @ key) ''property must be a string''))"

text \<open>
  The bound of the code is \<open>number > math.MaxInt64\<close>; as a \<open>float64\<close> the constant is \<open>2 ^ 63\<close>.
\<close>

definition ref_number :: "string \<Rightarrow> string \<Rightarrow> json \<Rightarrow> issue list + json" where
  "ref_number p key current =
     (case current of
        JNum (Fin q) \<Rightarrow>
          if q < 0 \<or> q \<noteq> of_int \<lfloor>q\<rfloor> \<or> q > 9223372036854775808
          then Inl (format_issue (p @ ''/'' @ key) ''property must be a non-negative integer'')
          else if (key = ''width'' \<or> key = ''height'') \<and> q = 0
          then Inl (format_issue (p @ ''/'' @ key) ''dimension must be positive'')
          else Inr current
      | _ \<Rightarrow> Inl (format_issue (p @ ''/'' @ key) ''property must be a non-negative integer''))"

definition ref_hash_issues :: "string \<Rightarrow> vals \<Rightarrow> issue list" where
  "ref_hash_issues p m =
     (case fmlookup m ''hash'' of
        Some (JStr h) \<Rightarrow>
          if h \<noteq> [] \<and> \<not> is_sha256 h
          then format_issue (p @ ''/hash'') ''hash must be a lowercase SHA-256 hexadecimal digest'' else []
      | _ \<Rightarrow> [])"

definition normalize_attachment_ref :: "lib \<Rightarrow> string \<Rightarrow> json \<Rightarrow> vals option \<times> issue list" where
  "normalize_attachment_ref L p v =
     (case v of
        JObj input \<Rightarrow>
          (let st0 = (fmempty, unknown_key_issues attachment_ref_keys p
                                 ''unknown AttachmentRef property'' input);
               st1 = add_part ''id'' (ref_id p input) st0;
               st2 = add_part ''source'' (ref_source p input) st1;
               st3 = add_part ''filename'' (ref_filename L p input) st2;
               st4 = fold (\<lambda>key. add_optional input (ref_text p key) key)
                       [''mimeType'', ''storageKey'', ''vaultPath'', ''hash''] st3;
               st5 = (fst st4, snd st4 @ ref_hash_issues p (fst st4));
               st6 = fold (\<lambda>key. add_optional input (ref_number p key) key)
                       [''size'', ''width'', ''height''] st5
           in (Some (fst st6), snd st6))
      | _ \<Rightarrow> (None, type_issue p ''AttachmentRef must be an object''))"

fun attachment_loop ::
  "lib \<Rightarrow> string \<Rightarrow> nat \<Rightarrow> string list \<Rightarrow> json list \<Rightarrow> json list \<times> issue list" where
  "attachment_loop L p index seen [] = ([], [])"
| "attachment_loop L p index seen (entry # entries) =
     (let entryPath = p @ ''/'' @ show_nat index;
          (ref, refIssues) = normalize_attachment_ref L entryPath entry
      in case ref of
           None \<Rightarrow> (let (rs, is) = attachment_loop L p (Suc index) seen entries in (rs, refIssues @ is))
         | Some m \<Rightarrow>
             (case fmlookup m ''id'' of
                Some (JStr attachmentID) \<Rightarrow>
                  if attachmentID \<in> set seen
                  then (let (rs, is) = attachment_loop L p (Suc index) seen entries
                        in (rs, refIssues
                              @ [Issue (entryPath @ ''/id'') ''duplicate''
                                   ''Attachment ID appears more than once''] @ is))
                  else (let (rs, is) = attachment_loop L p (Suc index) (attachmentID # seen) entries
                        in (JObj m # rs, refIssues @ is))
              | _ \<Rightarrow> (let (rs, is) = attachment_loop L p (Suc index) seen entries
                      in (rs, refIssues @ is))))"

definition normalize_attachment :: "lib \<Rightarrow> string \<Rightarrow> json \<Rightarrow> field_config option \<Rightarrow> value_res" where
  "normalize_attachment L p v rawConfig =
     (case v of
        JArr entries \<Rightarrow>
          (case attachment_config rawConfig of
             None \<Rightarrow> Inl (format_issue p ''Field configuration is invalid'')
           | Some configured \<Rightarrow>
               (let maxCount = (if configured \<noteq> 0 then configured else 10) in
                if maxCount < 1 \<or> maxCount > 100
                then Inl (format_issue p ''Field configuration is invalid'')
                else if int (length entries) > maxCount
                then Inl (limit_issue p (''value cannot contain more than '' @ show_int maxCount @ '' Attachments''))
                else (let (result, is) = attachment_loop L p 0 [] entries in
                      if length is > 0 then Inl is else Inr (JArr result))))
      | _ \<Rightarrow> Inl (type_issue p ''value must be an array of AttachmentRef objects or null''))"

section \<open>\<open>normalizeLocation\<close>\<close>

definition location_keys :: "string list" where
  "location_keys = [''label'', ''address'', ''lat'', ''lng'', ''provider'', ''precision'']"

definition location_limit :: "string \<Rightarrow> nat" where
  "location_limit key =
     (if key = ''label'' then 500 else if key = ''address'' then 2000
      else if key = ''provider'' then 100 else 0)"

text \<open>A text that is empty after normalisation is left out of the result.\<close>

definition add_location_text ::
  "lib \<Rightarrow> string \<Rightarrow> vals \<Rightarrow> string \<Rightarrow> vals \<times> issue list \<Rightarrow> vals \<times> issue list" where
  "add_location_text L p input key st =
     (case fmlookup input key of
        None \<Rightarrow> st
      | Some (JStr text) \<Rightarrow>
          (let normalized = nfc L (trim_func text) in
           if normalized = [] then st
           else if contains_control normalized
           then (fst st, snd st @ format_issue (p @ ''/'' @ key) ''property cannot contain control characters'')
           else if rune_count normalized > location_limit key
           then (fst st, snd st @ limit_issue (p @ ''/'' @ key) ''property exceeds its Unicode code point limit'')
           else (fmupd key (JStr normalized) (fst st), snd st))
      | Some _ \<Rightarrow> (fst st, snd st @ type_issue (p @ ''/'' @ key) ''property must be a string''))"

definition location_lat :: "string \<Rightarrow> json \<Rightarrow> issue list + json" where
  "location_lat p v =
     (case v of
        JNum (Fin q) \<Rightarrow>
          if q < - 90 \<or> q > 90
          then Inl (format_issue (p @ ''/lat'') ''lat must be a finite number from -90 to 90'') else Inr v
      | _ \<Rightarrow> Inl (format_issue (p @ ''/lat'') ''lat must be a finite number from -90 to 90''))"

definition location_lng :: "string \<Rightarrow> json \<Rightarrow> issue list + json" where
  "location_lng p v =
     (case v of
        JNum (Fin q) \<Rightarrow>
          if q < - 180 \<or> q > 180
          then Inl (format_issue (p @ ''/lng'') ''lng must be a finite number from -180 to 180'') else Inr v
      | _ \<Rightarrow> Inl (format_issue (p @ ''/lng'') ''lng must be a finite number from -180 to 180''))"

definition add_coordinates :: "string \<Rightarrow> vals \<Rightarrow> vals \<times> issue list \<Rightarrow> vals \<times> issue list" where
  "add_coordinates p input st =
     (case (fmlookup input ''lat'', fmlookup input ''lng'') of
        (None, None) \<Rightarrow> st
      | (Some _, None) \<Rightarrow>
          (fst st, snd st @ [Issue (p @ ''/lng'') ''required'' ''lat and lng must appear together''])
      | (None, Some _) \<Rightarrow>
          (fst st, snd st @ [Issue (p @ ''/lat'') ''required'' ''lat and lng must appear together''])
      | (Some lat, Some lng) \<Rightarrow>
          add_part ''lng'' (location_lng p lng) (add_part ''lat'' (location_lat p lat) st))"

definition location_precision :: "string \<Rightarrow> json \<Rightarrow> issue list + json" where
  "location_precision p v =
     (case v of
        JStr s \<Rightarrow>
          if s = ''exact'' \<or> s = ''rooftop'' \<or> s = ''approximate'' then Inr (JStr s)
          else Inl (format_issue (p @ ''/precision'') ''precision must be exact, rooftop, or approximate'')
      | _ \<Rightarrow> Inl (format_issue (p @ ''/precision'') ''precision must be exact, rooftop, or approximate''))"

definition normalize_location :: "lib \<Rightarrow> string \<Rightarrow> json \<Rightarrow> value_res" where
  "normalize_location L p v =
     (case v of
        JObj input \<Rightarrow>
          (let st0 = (fmempty, unknown_key_issues location_keys p ''unknown Location property'' input);
               st1 = fold (add_location_text L p input) [''label'', ''address'', ''provider''] st0;
               st2 = add_coordinates p input st1;
               (result, is) = add_optional input (location_precision p) ''precision'' st2;
               is' = (if is = [] \<and> \<not> fm_has result ''label'' \<and> \<not> fm_has result ''address''
                         \<and> \<not> fm_has result ''provider'' \<and> \<not> fm_has result ''lat''
                      then [Issue p ''required'' ''Location must contain text or a complete coordinate pair'']
                      else is)
           in if length is' > 0 then Inl is' else Inr (JObj result))
      | _ \<Rightarrow> Inl (type_issue p ''value must be a Location object or null''))"

section \<open>\<open>normalizeFieldValue\<close>\<close>

definition normalize_text :: "string \<Rightarrow> nat \<Rightarrow> json \<Rightarrow> value_res" where
  "normalize_text p limit v =
     (case v of
        JStr text \<Rightarrow>
          if rune_count text > limit
          then Inl (limit_issue p (''value exceeds '' @ show_nat limit @ '' Unicode code points''))
          else Inr (JStr text)
      | _ \<Rightarrow> Inl (type_issue p ''value must be a string or null''))"

definition normalize_url :: "lib \<Rightarrow> string \<Rightarrow> json \<Rightarrow> value_res" where
  "normalize_url L p v =
     (case v of
        JStr address \<Rightarrow>
          if address = [] \<or> rune_count address > 2048
          then Inl (format_issue p ''value must be a non-empty URL no longer than 2,048 characters'')
          else (case url_parts L address of
                  None \<Rightarrow> Inl (format_issue p ''value must be an absolute HTTP/HTTPS URL'')
                | Some (scheme, host) \<Rightarrow>
                    if host = [] \<or> (scheme \<noteq> ''http'' \<and> scheme \<noteq> ''https'')
                    then Inl (format_issue p ''value must be an absolute HTTP/HTTPS URL'')
                    else Inr (JStr address))
      | _ \<Rightarrow> Inl (type_issue p ''value must be an absolute HTTP/HTTPS URL or null''))"

definition normalize_select :: "string \<Rightarrow> json \<Rightarrow> json \<Rightarrow> field_config option \<Rightarrow> value_res" where
  "normalize_select p v previous config =
     (case v of
        JStr optionID \<Rightarrow>
          if \<not> Valid OptionPrefix optionID
          then Inl (type_issue p ''value must be an Option ID or null'')
          else (case select_options config of
                  None \<Rightarrow> Inl (format_issue p ''Field configuration is invalid'')
                | Some (active, deleted) \<Rightarrow>
                    if optionID \<in> set active then Inr (JStr optionID)
                    else if previous = JStr optionID \<and> optionID \<in> set deleted then Inr (JStr optionID)
                    else Inl (invalid_reference_issue p ''Option is unknown, foreign, or deleted''))
      | _ \<Rightarrow> Inl (type_issue p ''value must be an Option ID or null''))"

fun multi_select_loop ::
  "string \<Rightarrow> string list \<Rightarrow> string list \<Rightarrow> string list \<Rightarrow> nat \<Rightarrow> string list \<Rightarrow> json list \<Rightarrow>
     json list \<times> issue list" where
  "multi_select_loop p active deleted previousIDs index seen [] = ([], [])"
| "multi_select_loop p active deleted previousIDs index seen (entry # entries) =
     (let entryPath = p @ ''/'' @ show_nat index;
          badType = type_issue entryPath ''item must be an Option ID'';
          skip = (\<lambda>seen' is0. let (rs, is) = multi_select_loop p active deleted previousIDs
                                        (Suc index) seen' entries in (rs, is0 @ is))
      in case entry of
           JStr optionID \<Rightarrow>
             if \<not> Valid OptionPrefix optionID then skip seen badType
             else if optionID \<in> set seen
             then skip seen [Issue entryPath ''duplicate'' ''Option ID appears more than once'']
             else if optionID \<notin> set active \<and> \<not> (optionID \<in> set deleted \<and> optionID \<in> set previousIDs)
             then skip (optionID # seen)
                    (invalid_reference_issue entryPath ''Option is unknown, foreign, or deleted'')
             else (let (rs, is) = multi_select_loop p active deleted previousIDs
                                    (Suc index) (optionID # seen) entries
                   in (JStr optionID # rs, is))
         | _ \<Rightarrow> skip seen badType)"

definition normalize_multi_select :: "string \<Rightarrow> json \<Rightarrow> json \<Rightarrow> field_config option \<Rightarrow> value_res" where
  "normalize_multi_select p v previous config =
     (case v of
        JArr entries \<Rightarrow>
          if length entries > 100
          then Inl (limit_issue p ''value cannot contain more than 100 Option IDs'')
          else (case select_options config of
                  None \<Rightarrow> Inl (format_issue p ''Field configuration is invalid'')
                | Some (active, deleted) \<Rightarrow>
                    (let (result, is) =
                           multi_select_loop p active deleted (string_set previous) 0 [] entries in
                     if length is > 0 then Inl is else Inr (JArr result)))
      | _ \<Rightarrow> Inl (type_issue p ''value must be an array of Option IDs or null''))"

definition normalize_field_value :: "lib \<Rightarrow> string \<Rightarrow> json \<Rightarrow> json \<Rightarrow> field_def \<Rightarrow> value_res" where
  "normalize_field_value L p v previous f =
     (if v = JNull then Inr JNull
      else if fe_type f = ''text'' \<or> fe_type f = ''longText'' then
        normalize_text p (if fe_type f = ''longText'' then 100000 else 10000) v
      else if fe_type f = ''number'' then
        (case v of JNum (Fin q) \<Rightarrow> Inr v
         | _ \<Rightarrow> Inl (type_issue p ''value must be a finite number or null''))
      else if fe_type f = ''checkbox'' then
        (case v of JBool b \<Rightarrow> Inr v | _ \<Rightarrow> Inl (type_issue p ''value must be a boolean or null''))
      else if fe_type f = ''date'' then
        (case v of
           JStr date \<Rightarrow> if valid_date date then Inr v
                         else Inl (format_issue p ''value must be a valid Gregorian YYYY-MM-DD date'')
         | _ \<Rightarrow> Inl (format_issue p ''value must be a valid Gregorian YYYY-MM-DD date''))
      else if fe_type f = ''url'' then normalize_url L p v
      else if fe_type f = ''select'' then normalize_select p v previous (fe_config f)
      else if fe_type f = ''multiSelect'' then normalize_multi_select p v previous (fe_config f)
      else if fe_type f = ''attachment'' then normalize_attachment L p v (fe_config f)
      else if fe_type f = ''location'' then normalize_location L p v
      else Inl (invalid_reference_issue p ''Field Type is unsupported''))"

section \<open>\<open>buildQueryProjection\<close>\<close>

text \<open>The projected value of a Field and its search text; \<open>None\<close> where the code panics.\<close>

definition fold_location :: "lib \<Rightarrow> vals \<Rightarrow> vals" where
  "fold_location L loc =
     fmmap_keys (\<lambda>key current. case current of
         JStr text \<Rightarrow> if key \<noteq> ''precision'' then JStr (fold_text L text) else current
       | _ \<Rightarrow> current) loc"

definition project_value :: "lib \<Rightarrow> field_def \<Rightarrow> json \<Rightarrow> (json \<times> string list) option" where
  "project_value L f v =
     (if v = JNull then Some (JNull, [])
      else if fe_type f = ''text'' \<or> fe_type f = ''longText'' \<or> fe_type f = ''url'' then
        (case v of JStr s \<Rightarrow> Some (JStr (fold_text L s), [fold_text L s]) | _ \<Rightarrow> None)
      else if fe_type f = ''location'' then
        (case v of JObj loc \<Rightarrow> Some (JObj (fold_location L loc), []) | _ \<Rightarrow> None)
      else Some (v, []))"

fun project_loop :: "lib \<Rightarrow> fields \<Rightarrow> vals \<Rightarrow> string list \<Rightarrow> (vals \<times> string list) option" where
  "project_loop L fds vs [] = Some (fmempty, [])"
| "project_loop L fds vs (key # keys) =
     (case fmlookup fds key of
        None \<Rightarrow> project_loop L fds vs keys
      | Some f \<Rightarrow>
          if fe_deleted_at f \<noteq> None then project_loop L fds vs keys
          else (case project_value L f (fm_get vs key) of
                  None \<Rightarrow> None
                | Some (v, texts) \<Rightarrow>
                    (case project_loop L fds vs keys of
                       None \<Rightarrow> None
                     | Some (m, ts) \<Rightarrow> Some (fmupd key v m, texts @ ts))))"

definition build_query_projection :: "lib \<Rightarrow> vals \<Rightarrow> fields \<Rightarrow> (vals \<times> string) option" where
  "build_query_projection L vs fds =
     map_option (\<lambda>(m, ts). (m, join [char_of (10 :: nat)] ts)) (project_loop L fds vs (fm_keys vs))"

section \<open>\<open>NormalizeCreateValues\<close> and \<open>NormalizeUpdatedValues\<close>\<close>

definition unknown_field_issue :: "string \<Rightarrow> issue list" where
  "unknown_field_issue p =
     [Issue p ''invalidReference'' ''Field is unknown, belongs to another Table, or is deleted'']"

definition writable :: "fields \<Rightarrow> string \<Rightarrow> field_def option" where
  "writable fds fieldID =
     (case fmlookup fds fieldID of
        None \<Rightarrow> None
      | Some f \<Rightarrow> if fe_deleted_at f \<noteq> None \<or> \<not> Valid FieldPrefix fieldID then None else Some f)"

definition validate_writable_field :: "string \<Rightarrow> string \<Rightarrow> fields \<Rightarrow> issue list" where
  "validate_writable_field p fieldID fds =
     (case writable fds fieldID of None \<Rightarrow> unknown_field_issue p | Some _ \<Rightarrow> [])"

text \<open>
  The loop that both functions run over the sorted keys of the submitted values: normalised
  values are written into the target, issues are collected.
\<close>

definition write_value ::
  "lib \<Rightarrow> string \<Rightarrow> vals \<Rightarrow> vals \<Rightarrow> fields \<Rightarrow> string \<Rightarrow> vals \<times> issue list \<Rightarrow> vals \<times> issue list"
where
  "write_value L root submitted previous fds fieldID st =
     (let p = root @ escape_pointer fieldID in
      case writable fds fieldID of
        None \<Rightarrow> (fst st, snd st @ unknown_field_issue p)
      | Some f \<Rightarrow>
          (case normalize_field_value L p (fm_get submitted fieldID) (fm_get previous fieldID) f of
             Inl is \<Rightarrow> (fst st, snd st @ is)
           | Inr v \<Rightarrow> (fmupd fieldID v (fst st), snd st)))"

definition write_values ::
  "lib \<Rightarrow> string \<Rightarrow> vals \<Rightarrow> vals \<Rightarrow> fields \<Rightarrow> string list \<Rightarrow> vals \<times> issue list \<Rightarrow> vals \<times> issue list"
where
  "write_values L root submitted previous fds keys st =
     fold (write_value L root submitted previous fds) keys st"

definition finish_values ::
  "lib \<Rightarrow> fields \<Rightarrow> vals \<times> issue list \<Rightarrow> (vals \<times> vals \<times> string) option res" where
  "finish_values L fds st =
     fail_if (length (snd st) > 0) (NewValidationError (snd st))
       (Inr (map_option (\<lambda>(query, search). (fst st, query, search))
               (build_query_projection L (fst st) fds)))"

definition NormalizeCreateValues :: "lib \<Rightarrow> vals \<Rightarrow> fields \<Rightarrow> (vals \<times> vals \<times> string) option res" where
  "NormalizeCreateValues L vs fds =
     finish_values L fds (write_values L ''/values/'' vs fmempty fds (fm_keys vs) (fmempty, []))"

fun unset_loop ::
  "vals \<Rightarrow> fields \<Rightarrow> nat \<Rightarrow> string list \<Rightarrow> string list \<Rightarrow> vals \<times> issue list \<Rightarrow> vals \<times> issue list" where
  "unset_loop set' fds index seen [] st = st"
| "unset_loop set' fds index seen (fieldID # rest) st =
     (let p = ''/unsetFieldIds/'' @ show_nat index in
      if fieldID \<in> set seen
      then unset_loop set' fds (Suc index) seen rest
             (fst st, snd st @ [Issue p ''duplicate'' ''Field ID appears more than once''])
      else if fm_has set' fieldID
      then unset_loop set' fds (Suc index) (fieldID # seen) rest
             (fst st, snd st @ [Issue p ''duplicate'' ''Field ID also appears in set''])
      else if validate_writable_field p fieldID fds \<noteq> []
      then unset_loop set' fds (Suc index) (fieldID # seen) rest
             (fst st, snd st @ validate_writable_field p fieldID fds)
      else unset_loop set' fds (Suc index) (fieldID # seen) rest (fmdrop fieldID (fst st), snd st))"

definition NormalizeUpdatedValues ::
  "lib \<Rightarrow> vals \<Rightarrow> vals \<Rightarrow> string list \<Rightarrow> fields \<Rightarrow> (vals \<times> vals \<times> string) option res" where
  "NormalizeUpdatedValues L current set' unset fds =
     (let (target, is) = unset_loop set' fds 0 [] unset (current, []) in
      fail_if (length is > 0) (NewValidationError is)
        (finish_values L fds (write_values L ''/set/'' set' current fds (fm_keys set') (target, []))))"

section \<open>Steps that build a map and collect issues\<close>

lemma add_part_state:
  "snd (add_part key part st) = [] \<Longrightarrow> snd st = []"
  by (auto simp: add_part_def split: sum.splits)

lemma add_part_Inr [simp]: "add_part key (Inr v) st = (fmupd key v (fst st), snd st)"
  by (simp add: add_part_def)

lemma add_part_Nil_iff:
  assumes "\<And>is. part = Inl is \<Longrightarrow> is \<noteq> []"
  shows "snd (add_part key part st) = [] \<longleftrightarrow> snd st = [] \<and> (\<exists>v. part = Inr v)"
  using assms by (auto simp: add_part_def split: sum.splits)

lemma add_optional_Nil_iff:
  assumes "\<And>v is. part v = Inl is \<Longrightarrow> is \<noteq> []"
  shows "snd (add_optional input part key st) = [] \<longleftrightarrow>
     snd st = [] \<and> (\<forall>v. fmlookup input key = Some v \<longrightarrow> (\<exists>w. part v = Inr w))"
  using assms by (auto simp: add_optional_def add_part_def split: option.splits sum.splits)

text \<open>What a successful step leaves under its own key, and under the others.\<close>

definition part_value :: "vals \<Rightarrow> (json \<Rightarrow> issue list + json) \<Rightarrow> string \<Rightarrow> json option" where
  "part_value input part key =
     (case fmlookup input key of None \<Rightarrow> None
      | Some v \<Rightarrow> (case part v of Inl _ \<Rightarrow> None | Inr w \<Rightarrow> Some w))"

lemma add_optional_lookup:
  "fmlookup (fst (add_optional input part key st)) k =
     (if k = key \<and> part_value input part key \<noteq> None then part_value input part key
      else fmlookup (fst st) k)"
  by (auto simp: add_optional_def add_part_def part_value_def split: option.splits sum.splits)

lemma part_value_Some:
  "part_value input part key = Some w \<longleftrightarrow> (\<exists>v. fmlookup input key = Some v \<and> part v = Inr w)"
  by (auto simp: part_value_def split: option.splits sum.splits)

section \<open>Well-formed stored values\<close>

definition text_ok :: "lib \<Rightarrow> nat \<Rightarrow> string \<Rightarrow> bool" where
  "text_ok L n s =
     (s \<noteq> [] \<and> nfc L (trim_func s) = s \<and> \<not> contains_control s \<and> rune_count s \<le> n)"

definition is_text :: "(string \<Rightarrow> bool) \<Rightarrow> json \<Rightarrow> bool" where
  "is_text P v = (case v of JStr s \<Rightarrow> P s | _ \<Rightarrow> False)"

definition is_number :: "(rat \<Rightarrow> bool) \<Rightarrow> json \<Rightarrow> bool" where
  "is_number P v = (case v of JNum (Fin q) \<Rightarrow> P q | _ \<Rightarrow> False)"

text \<open>The value under a key, if there is one, satisfies the predicate.\<close>

definition opt_all :: "(json \<Rightarrow> bool) \<Rightarrow> vals \<Rightarrow> string \<Rightarrow> bool" where
  "opt_all P m key = (case fmlookup m key of None \<Rightarrow> True | Some v \<Rightarrow> P v)"

definition has :: "(json \<Rightarrow> bool) \<Rightarrow> vals \<Rightarrow> string \<Rightarrow> bool" where
  "has P m key = (case fmlookup m key of None \<Rightarrow> False | Some v \<Rightarrow> P v)"

definition keys_in :: "string list \<Rightarrow> vals \<Rightarrow> bool" where
  "keys_in allowed m = list_all (\<lambda>k. k \<in> set allowed) (fm_keys m)"

definition location_ok :: "lib \<Rightarrow> vals \<Rightarrow> bool" where
  "location_ok L m =
     (keys_in location_keys m
      \<and> opt_all (is_text (text_ok L 500)) m ''label''
      \<and> opt_all (is_text (text_ok L 2000)) m ''address''
      \<and> opt_all (is_text (text_ok L 100)) m ''provider''
      \<and> opt_all (is_number (\<lambda>q. - 90 \<le> q \<and> q \<le> 90)) m ''lat''
      \<and> opt_all (is_number (\<lambda>q. - 180 \<le> q \<and> q \<le> 180)) m ''lng''
      \<and> (fm_has m ''lat'' \<longleftrightarrow> fm_has m ''lng'')
      \<and> opt_all (is_text (\<lambda>s. s \<in> {''exact'', ''rooftop'', ''approximate''})) m ''precision''
      \<and> (fm_has m ''label'' \<or> fm_has m ''address'' \<or> fm_has m ''provider'' \<or> fm_has m ''lat''))"

definition filename_ok :: "lib \<Rightarrow> string \<Rightarrow> bool" where
  "filename_ok L s = (text_ok L 255 s \<and> CHR ''/'' \<notin> set s \<and> CHR 0x5C \<notin> set s)"

definition size_ok :: "rat \<Rightarrow> bool" where
  "size_ok q = (0 \<le> q \<and> q = of_int \<lfloor>q\<rfloor> \<and> q \<le> 9223372036854775808)"

definition attachment_ref_ok :: "lib \<Rightarrow> vals \<Rightarrow> bool" where
  "attachment_ref_ok L m =
     (keys_in attachment_ref_keys m
      \<and> has (is_text (Valid AttachmentPrefix)) m ''id''
      \<and> has (is_text (\<lambda>s. s = ''managed'' \<or> s = ''vault'')) m ''source''
      \<and> has (is_text (filename_ok L)) m ''filename''
      \<and> opt_all (is_text (\<lambda>s. trim_func s = s)) m ''mimeType''
      \<and> opt_all (is_text (\<lambda>s. trim_func s = s)) m ''storageKey''
      \<and> opt_all (is_text (\<lambda>s. trim_func s = s)) m ''vaultPath''
      \<and> opt_all (is_text (\<lambda>s. trim_func s = s \<and> (s = [] \<or> is_sha256 s))) m ''hash''
      \<and> opt_all (is_number size_ok) m ''size''
      \<and> opt_all (is_number (\<lambda>q. size_ok q \<and> q \<noteq> 0)) m ''width''
      \<and> opt_all (is_number (\<lambda>q. size_ok q \<and> q \<noteq> 0)) m ''height'')"

lemmas shape_defs = opt_all_def has_def is_text_def is_number_def

lemma keys_in_iff: "keys_in allowed m \<longleftrightarrow> (\<forall>k. k \<notin> set allowed \<longrightarrow> fmlookup m k = None)"
  by (auto simp: keys_in_def list_all_iff fmdom_lookup_iff)

lemma is_text_iff: "is_text P v \<longleftrightarrow> (\<exists>s. v = JStr s \<and> P s)"
  by (auto simp: is_text_def split: json.splits)

lemma is_number_iff: "is_number P v \<longleftrightarrow> (\<exists>q. v = JNum (Fin q) \<and> P q)"
  by (auto simp: is_number_def split: json.splits float64.splits)

lemma opt_all_iff: "opt_all P m key \<longleftrightarrow> (\<forall>v. fmlookup m key = Some v \<longrightarrow> P v)"
  by (auto simp: opt_all_def split: option.splits)

lemma has_iff: "has P m key \<longleftrightarrow> (\<exists>v. fmlookup m key = Some v \<and> P v)"
  by (auto simp: has_def split: option.splits)

lemma unknown_key_issues_Nil_iff: "unknown_key_issues allowed p m input = [] \<longleftrightarrow> keys_in allowed input"
proof -
  have "filter (\<lambda>key. key \<notin> set allowed) (fm_keys input) = [] \<longleftrightarrow>
      (\<forall>k. k \<in> fset (fmdom input) \<longrightarrow> k \<in> set allowed)"
    by (auto simp: filter_empty_conv)
  also have "\<dots> \<longleftrightarrow> keys_in allowed input"
    by (auto simp: keys_in_iff fmdom_lookup_iff)
  finally show ?thesis by (simp add: unknown_key_issues_def)
qed

subsection \<open>Locations\<close>

lemma location_text_part:
  "fmlookup (fst (add_location_text L p input key st)) k =
     (if k = key then
        (case fmlookup input key of
           Some (JStr s) \<Rightarrow>
             (let n = nfc L (trim_func s) in
              if n \<noteq> [] \<and> \<not> contains_control n \<and> rune_count n \<le> location_limit key
              then Some (JStr n) else fmlookup (fst st) k)
         | _ \<Rightarrow> fmlookup (fst st) k)
      else fmlookup (fst st) k)"
  by (auto simp: add_location_text_def Let_def split: option.splits json.splits)

lemma location_text_Nil_iff:
  "snd (add_location_text L p input key st) = [] \<longleftrightarrow>
     snd st = [] \<and>
     (\<forall>v. fmlookup input key = Some v \<longrightarrow>
        (\<exists>s. v = JStr s \<and> (let n = nfc L (trim_func s) in
           n = [] \<or> (\<not> contains_control n \<and> rune_count n \<le> location_limit key))))"
  by (auto simp: add_location_text_def Let_def issue_defs split: option.splits json.splits)

lemma location_lat_Inr:
  "location_lat p v = Inr w \<longleftrightarrow> w = v \<and> is_number (\<lambda>q. - 90 \<le> q \<and> q \<le> 90) v"
  by (auto simp: location_lat_def is_number_def not_less split: json.splits float64.splits)

lemma location_lng_Inr:
  "location_lng p v = Inr w \<longleftrightarrow> w = v \<and> is_number (\<lambda>q. - 180 \<le> q \<and> q \<le> 180) v"
  by (auto simp: location_lng_def is_number_def not_less split: json.splits float64.splits)

lemma location_coordinate_Inl:
  "location_lat p v = Inl is \<Longrightarrow> is \<noteq> []" "location_lng p v = Inl is \<Longrightarrow> is \<noteq> []"
  by (auto simp: location_lat_def location_lng_def issue_defs
      split: json.splits float64.splits if_splits)

lemma add_coordinates_Nil_iff:
  "snd (add_coordinates p input st) = [] \<longleftrightarrow>
     snd st = [] \<and> (fm_has input ''lat'' \<longleftrightarrow> fm_has input ''lng'')
     \<and> opt_all (is_number (\<lambda>q. - 90 \<le> q \<and> q \<le> 90)) input ''lat''
     \<and> opt_all (is_number (\<lambda>q. - 180 \<le> q \<and> q \<le> 180)) input ''lng''"
  by (cases "fmlookup input ''lat''"; cases "fmlookup input ''lng''")
    (auto simp: add_coordinates_def opt_all_def fm_has_def add_part_Nil_iff location_coordinate_Inl
      location_lat_Inr location_lng_Inr)

lemma add_coordinates_lookup:
  assumes "snd (add_coordinates p input st) = []"
  shows "fmlookup (fst (add_coordinates p input st)) k =
     (if (k = ''lat'' \<or> k = ''lng'') \<and> fm_has input k then fmlookup input k else fmlookup (fst st) k)"
proof (cases "fmlookup input ''lat''")
  case None
  then have "fmlookup input ''lng'' = None"
    using assms by (simp add: add_coordinates_Nil_iff fm_has_def)
  then show ?thesis using None by (auto simp: add_coordinates_def fm_has_def)
next
  case (Some a)
  then obtain b where b: "fmlookup input ''lng'' = Some b"
    using assms by (auto simp: add_coordinates_Nil_iff fm_has_def)
  have "location_lat p a = Inr a" "location_lng p b = Inr b"
    using assms Some b by (simp_all add: add_coordinates_Nil_iff opt_all_def location_lat_Inr location_lng_Inr)
  then show ?thesis using Some b by (auto simp: add_coordinates_def fm_has_def)
qed

text \<open>The state after all steps of \<open>normalizeLocation\<close> but the last check.\<close>

definition location_state :: "lib \<Rightarrow> string \<Rightarrow> vals \<Rightarrow> vals \<times> issue list" where
  "location_state L p input =
     add_optional input (location_precision p) ''precision''
       (add_coordinates p input
         (add_location_text L p input ''provider''
           (add_location_text L p input ''address''
             (add_location_text L p input ''label''
               (fmempty, unknown_key_issues location_keys p ''unknown Location property'' input)))))"

lemma normalize_location_JObj:
  "normalize_location L p (JObj input) = Inr w \<longleftrightarrow>
     snd (location_state L p input) = [] \<and> w = JObj (fst (location_state L p input))
     \<and> (\<exists>k \<in> {''label'', ''address'', ''provider'', ''lat''}. fm_has (fst (location_state L p input)) k)"
  by (auto simp: normalize_location_def location_state_def Let_def split: prod.splits if_splits)

lemma location_precision_Inl: "location_precision p v = Inl is \<Longrightarrow> is \<noteq> []"
  by (auto simp: location_precision_def issue_defs split: json.splits if_splits)

lemma location_precision_Inr:
  "location_precision p v = Inr w \<longleftrightarrow>
     w = v \<and> is_text (\<lambda>s. s \<in> {''exact'', ''rooftop'', ''approximate''}) v"
  by (auto simp: location_precision_def is_text_def split: json.splits)

lemma location_state_Nil_iff:
  "snd (location_state L p input) = [] \<longleftrightarrow>
     keys_in location_keys input
     \<and> (\<forall>key \<in> {''label'', ''address'', ''provider''}. \<forall>v. fmlookup input key = Some v \<longrightarrow>
          (\<exists>s. v = JStr s \<and> (let n = nfc L (trim_func s) in
             n = [] \<or> (\<not> contains_control n \<and> rune_count n \<le> location_limit key))))
     \<and> (fm_has input ''lat'' \<longleftrightarrow> fm_has input ''lng'')
     \<and> opt_all (is_number (\<lambda>q. - 90 \<le> q \<and> q \<le> 90)) input ''lat''
     \<and> opt_all (is_number (\<lambda>q. - 180 \<le> q \<and> q \<le> 180)) input ''lng''
     \<and> opt_all (is_text (\<lambda>s. s \<in> {''exact'', ''rooftop'', ''approximate''})) input ''precision''"
proof -
  have "snd (location_state L p input) = [] \<longleftrightarrow>
     keys_in location_keys input
     \<and> snd (add_location_text L p input ''label'' (fmempty, [])) = []
     \<and> snd (add_location_text L p input ''address'' (fmempty, [])) = []
     \<and> snd (add_location_text L p input ''provider'' (fmempty, [])) = []
     \<and> snd (add_coordinates p input (fmempty, [])) = []
     \<and> opt_all (is_text (\<lambda>s. s \<in> {''exact'', ''rooftop'', ''approximate''})) input ''precision''"
    unfolding location_state_def
    by (subst add_optional_Nil_iff, erule location_precision_Inl)
      (simp add: add_coordinates_Nil_iff location_text_Nil_iff unknown_key_issues_Nil_iff
        location_precision_Inr opt_all_iff conj_ac)
  then show ?thesis
    by (simp add: add_coordinates_Nil_iff location_text_Nil_iff conj_ac)
qed

text \<open>What a text key of the input becomes.\<close>

definition location_text_value :: "lib \<Rightarrow> vals \<Rightarrow> string \<Rightarrow> json option" where
  "location_text_value L input key =
     (case fmlookup input key of
        Some (JStr s) \<Rightarrow> (let n = nfc L (trim_func s) in if n = [] then None else Some (JStr n))
      | _ \<Rightarrow> None)"

lemma location_text_step:
  assumes "\<forall>v. fmlookup input key = Some v \<longrightarrow>
      (\<exists>s. v = JStr s \<and> (let n = nfc L (trim_func s) in
         n = [] \<or> (\<not> contains_control n \<and> rune_count n \<le> location_limit key)))"
    "fmlookup (fst st) key = None"
  shows "fmlookup (fst (add_location_text L p input key st)) k =
      (if k = key then location_text_value L input key else fmlookup (fst st) k)"
  using assms
  by (cases "fmlookup input key") (auto simp: location_text_part location_text_value_def Let_def)

lemma location_state_lookup:
  assumes "snd (location_state L p input) = []"
  shows "fmlookup (fst (location_state L p input)) k =
     (if k \<in> {''label'', ''address'', ''provider''} then location_text_value L input k
      else if k \<in> {''lat'', ''lng'', ''precision''} then fmlookup input k else None)"
proof -
  let ?t = "add_location_text L p input ''provider''
           (add_location_text L p input ''address''
             (add_location_text L p input ''label''
               (fmempty, unknown_key_issues location_keys p ''unknown Location property'' input)))"
  have c: "snd (add_coordinates p input ?t) = []"
    and pr: "\<forall>v. fmlookup input ''precision'' = Some v \<longrightarrow> (\<exists>w. location_precision p v = Inr w)"
    using assms unfolding location_state_def
    by (simp_all add: add_optional_Nil_iff[OF location_precision_Inl])
  have texts: "\<forall>key \<in> {''label'', ''address'', ''provider''}. \<forall>v. fmlookup input key = Some v \<longrightarrow>
          (\<exists>s. v = JStr s \<and> (let n = nfc L (trim_func s) in
             n = [] \<or> (\<not> contains_control n \<and> rune_count n \<le> location_limit key)))"
    using assms by (simp add: location_state_Nil_iff)
  have t: "fmlookup (fst ?t) k =
      (if k \<in> {''label'', ''address'', ''provider''} then location_text_value L input k else None)" for k
  proof -
    have step: "fmlookup (fst (add_location_text L p input key st)) k =
        (if k = key then location_text_value L input key else fmlookup (fst st) k)"
      if "key \<in> {''label'', ''address'', ''provider''}" "fmlookup (fst st) key = None" for key st k
      using texts that by (intro location_text_step) blast+
    show ?thesis by (simp add: step)
  qed
  have "part_value input (location_precision p) ''precision'' = fmlookup input ''precision''"
  proof (cases "fmlookup input ''precision''")
    case None
    then show ?thesis by (simp add: part_value_def)
  next
    case (Some a)
    then obtain w where "location_precision p a = Inr w" using pr by blast
    then show ?thesis using Some location_precision_Inr[of p a w] by (simp add: part_value_def)
  qed
  then show ?thesis
    unfolding location_state_def
    by (auto simp: add_optional_lookup add_coordinates_lookup[OF c] t fm_has_def)
qed

lemma normalize_location_ok:
  assumes L: "lib_ok L" and n: "normalize_location L p v = Inr w"
  shows "\<exists>m. w = JObj m \<and> location_ok L m"
proof -
  obtain input where v: "v = JObj input"
    using n by (cases v) (auto simp: normalize_location_def)
  define m where "m = fst (location_state L p input)"
  have st: "snd (location_state L p input) = []" and w: "w = JObj m"
    and ne: "\<exists>k \<in> {''label'', ''address'', ''provider'', ''lat''}. fm_has m k"
    using n v by (auto simp: normalize_location_JObj m_def)
  note lookup = location_state_lookup[OF st, folded m_def]
  note conds = st[unfolded location_state_Nil_iff]
  have txts: "opt_all (is_text (text_ok L (location_limit key))) m key"
    if key: "key \<in> {''label'', ''address'', ''provider''}" for key
  proof -
    have "is_text (text_ok L (location_limit key)) x" if x: "location_text_value L input key = Some x" for x
    proof -
      obtain s where s: "fmlookup input key = Some (JStr s)" "x = JStr (nfc L (trim_func s))"
        "nfc L (trim_func s) \<noteq> []"
        using x by (auto simp: location_text_value_def Let_def split: option.splits json.splits if_splits)
      moreover have "\<not> contains_control (nfc L (trim_func s)) \<and>
          rune_count (nfc L (trim_func s)) \<le> location_limit key"
        using conds key s by (auto simp: Let_def)
      ultimately show ?thesis
        using lib_ok_trim[OF L] by (simp add: is_text_def text_ok_def trim_func_eq)
    qed
    then show ?thesis using key by (auto simp: opt_all_iff lookup)
  qed
  have "keys_in location_keys m"
    by (auto simp: keys_in_iff lookup location_keys_def)
  moreover have "opt_all (is_text (text_ok L 500)) m ''label''"
    "opt_all (is_text (text_ok L 2000)) m ''address''" "opt_all (is_text (text_ok L 100)) m ''provider''"
    using txts[of "''label''"] txts[of "''address''"] txts[of "''provider''"]
    by (simp_all add: location_limit_def)
  moreover have "fm_has m ''lat'' \<longleftrightarrow> fm_has m ''lng''"
    using conds by (simp add: fm_has_def lookup)
  ultimately show ?thesis
    using w ne conds by (auto simp: location_ok_def opt_all_def lookup)
qed

lemma location_ok_fixed:
  assumes "location_ok L m" shows "normalize_location L p (JObj m) = Inr (JObj m)"
proof -
  have txts: "\<forall>v. fmlookup m key = Some v \<longrightarrow> is_text (text_ok L (location_limit key)) v"
    if "key \<in> {''label'', ''address'', ''provider''}" for key
    using assms that by (auto simp: location_ok_def opt_all_iff location_limit_def)
  have st: "snd (location_state L p m) = []"
  proof -
    have "\<exists>s. v = JStr s \<and> (let n = nfc L (trim_func s) in
             n = [] \<or> (\<not> contains_control n \<and> rune_count n \<le> location_limit key))"
      if "key \<in> {''label'', ''address'', ''provider''}" "fmlookup m key = Some v" for key v
      using txts[OF that(1)] that(2) by (auto simp: is_text_iff text_ok_def Let_def)
    then show ?thesis using assms unfolding location_state_Nil_iff location_ok_def by blast
  qed
  have a: "location_text_value L m key = fmlookup m key"
    if "key \<in> {''label'', ''address'', ''provider''}" for key
    using txts[OF that] by (auto simp: location_text_value_def is_text_iff text_ok_def split: option.splits)
  have b: "fmlookup m k = None"
    if "k \<notin> {''label'', ''address'', ''provider''}" "k \<notin> {''lat'', ''lng'', ''precision''}" for k
    using assms that by (auto simp: location_ok_def keys_in_iff location_keys_def)
  have "fst (location_state L p m) = m"
  proof (rule fmap_ext)
    fix k show "fmlookup (fst (location_state L p m)) k = fmlookup m k"
      unfolding location_state_lookup[OF st] using a[of k] b[of k] by simp
  qed
  then show ?thesis using st assms by (auto simp: normalize_location_JObj location_ok_def)
qed

subsection \<open>Attachment references\<close>

lemma ref_part_Inl:
  "ref_id p input = Inl is \<Longrightarrow> is \<noteq> []"
  "ref_source p input = Inl is \<Longrightarrow> is \<noteq> []"
  "ref_filename L p input = Inl is \<Longrightarrow> is \<noteq> []"
  "ref_text p key v = Inl is \<Longrightarrow> is \<noteq> []"
  "ref_number p key v = Inl is \<Longrightarrow> is \<noteq> []"
  by (auto simp: ref_id_def ref_source_def ref_filename_def ref_text_def ref_number_def issue_defs
      Let_def split: json.splits if_splits float64.splits)

lemma has_fm_get: "has (is_text P) m key \<longleftrightarrow> is_text P (fm_get m key)"
  by (auto simp: has_def fm_get_def is_text_def split: option.splits)

lemma ref_id_Inr: "ref_id p input = Inr w \<longleftrightarrow> w = fm_get input ''id'' \<and> is_text (Valid AttachmentPrefix) w"
  by (auto simp: ref_id_def is_text_def split: json.splits)

lemma ref_source_Inr:
  "ref_source p input = Inr w \<longleftrightarrow>
     w = fm_get input ''source'' \<and> is_text (\<lambda>s. s = ''managed'' \<or> s = ''vault'') w"
  by (auto simp: ref_source_def is_text_def split: json.splits)

lemma ref_filename_Inr:
  "ref_filename L p input = Inr w \<longleftrightarrow>
     (\<exists>s. fm_get input ''filename'' = JStr s \<and> w = JStr (nfc L (trim_func s))
        \<and> nfc L (trim_func s) \<noteq> [] \<and> rune_count (nfc L (trim_func s)) \<le> 255
        \<and> \<not> contains_control (nfc L (trim_func s))
        \<and> CHR ''/'' \<notin> set (nfc L (trim_func s)) \<and> CHR 0x5C \<notin> set (nfc L (trim_func s)))"
  by (auto simp: ref_filename_def Let_def not_less split: json.splits)

lemma ref_text_Inr: "ref_text p key v = Inr w \<longleftrightarrow> (\<exists>s. v = JStr s \<and> w = JStr (trim_func s))"
  by (auto simp: ref_text_def split: json.splits)

lemma ref_number_Inr:
  "ref_number p key v = Inr w \<longleftrightarrow>
     w = v \<and> is_number (\<lambda>q. size_ok q \<and> (key = ''width'' \<or> key = ''height'' \<longrightarrow> q \<noteq> 0)) v"
  by (auto simp: ref_number_def is_number_def size_ok_def not_less
      split: json.splits float64.splits if_splits)

definition ref_text_state :: "lib \<Rightarrow> string \<Rightarrow> vals \<Rightarrow> vals \<times> issue list" where
  "ref_text_state L p input =
     fold (\<lambda>key. add_optional input (ref_text p key) key) [''mimeType'', ''storageKey'', ''vaultPath'', ''hash'']
       (add_part ''filename'' (ref_filename L p input)
         (add_part ''source'' (ref_source p input)
           (add_part ''id'' (ref_id p input)
             (fmempty, unknown_key_issues attachment_ref_keys p ''unknown AttachmentRef property'' input))))"

definition ref_state :: "lib \<Rightarrow> string \<Rightarrow> vals \<Rightarrow> vals \<times> issue list" where
  "ref_state L p input =
     fold (\<lambda>key. add_optional input (ref_number p key) key) [''size'', ''width'', ''height'']
       (fst (ref_text_state L p input),
        snd (ref_text_state L p input) @ ref_hash_issues p (fst (ref_text_state L p input)))"

lemma normalize_attachment_ref_JObj:
  "normalize_attachment_ref L p (JObj input) = (Some (fst (ref_state L p input)), snd (ref_state L p input))"
  by (simp only: normalize_attachment_ref_def ref_state_def ref_text_state_def Let_def json.case)

lemma normalize_attachment_ref_None: "normalize_attachment_ref L p v = (None, is) \<Longrightarrow> is \<noteq> []"
  by (cases v) (auto simp: normalize_attachment_ref_JObj, auto simp: normalize_attachment_ref_def issue_defs)

lemma ref_text_state_Nil_iff:
  "snd (ref_text_state L p input) = [] \<longleftrightarrow>
     keys_in attachment_ref_keys input
     \<and> (\<exists>w. ref_id p input = Inr w) \<and> (\<exists>w. ref_source p input = Inr w)
     \<and> (\<exists>w. ref_filename L p input = Inr w)
     \<and> (\<forall>key \<in> {''mimeType'', ''storageKey'', ''vaultPath'', ''hash''}.
          \<forall>v. fmlookup input key = Some v \<longrightarrow> (\<exists>w. ref_text p key v = Inr w))"
  unfolding ref_text_state_def
  by (simp add: add_optional_Nil_iff ref_part_Inl add_part_Nil_iff unknown_key_issues_Nil_iff conj_ac)

lemma ref_state_Nil_iff:
  "snd (ref_state L p input) = [] \<longleftrightarrow>
     snd (ref_text_state L p input) = [] \<and> ref_hash_issues p (fst (ref_text_state L p input)) = []
     \<and> (\<forall>key \<in> {''size'', ''width'', ''height''}.
          \<forall>v. fmlookup input key = Some v \<longrightarrow> (\<exists>w. ref_number p key v = Inr w))"
  unfolding ref_state_def
  by (simp add: add_optional_Nil_iff ref_part_Inl conj_ac)

lemma fst_add_part:
  "fmlookup (fst (add_part key part st)) k =
     (case part of Inl is \<Rightarrow> fmlookup (fst st) k
      | Inr w \<Rightarrow> if k = key then Some w else fmlookup (fst st) k)"
  by (auto simp: add_part_def split: sum.splits)

text \<open>What the reference holds after a successful run.\<close>

definition ref_value :: "lib \<Rightarrow> vals \<Rightarrow> string \<Rightarrow> json option" where
  "ref_value L input k =
     (if k = ''id'' \<or> k = ''source'' then Some (fm_get input k)
      else if k = ''filename'' then
        (case fm_get input k of JStr s \<Rightarrow> Some (JStr (nfc L (trim_func s))) | v \<Rightarrow> Some v)
      else if k \<in> {''mimeType'', ''storageKey'', ''vaultPath'', ''hash''} then
        (case fmlookup input k of Some (JStr s) \<Rightarrow> Some (JStr (trim_func s)) | v \<Rightarrow> v)
      else if k \<in> {''size'', ''width'', ''height''} then fmlookup input k
      else None)"

lemma ref_value_text:
  "key \<in> {''mimeType'', ''storageKey'', ''vaultPath'', ''hash''} \<Longrightarrow>
     ref_value L input key =
       (case fmlookup input key of Some (JStr s) \<Rightarrow> Some (JStr (trim_func s)) | v \<Rightarrow> v)"
  by (elim insertE emptyE; simp add: ref_value_def)

lemma ref_value_number:
  "key \<in> {''size'', ''width'', ''height''} \<Longrightarrow> ref_value L input key = fmlookup input key"
  by (elim insertE emptyE; simp add: ref_value_def)

lemma part_value_ref_text:
  assumes "\<forall>v. fmlookup input key = Some v \<longrightarrow> (\<exists>w. ref_text p key v = Inr w)"
  shows "part_value input (ref_text p key) key =
     (case fmlookup input key of Some (JStr s) \<Rightarrow> Some (JStr (trim_func s)) | v \<Rightarrow> v)"
  using assms
  by (cases "fmlookup input key") (auto simp: part_value_def ref_text_def split: json.splits)

lemma part_value_ref_number:
  assumes "\<forall>v. fmlookup input key = Some v \<longrightarrow> (\<exists>w. ref_number p key v = Inr w)"
  shows "part_value input (ref_number p key) key = fmlookup input key"
proof (cases "fmlookup input key")
  case None
  then show ?thesis by (simp add: part_value_def)
next
  case (Some a)
  then obtain w where "ref_number p key a = Inr w" using assms by blast
  then show ?thesis using Some ref_number_Inr[of p key a w] by (simp add: part_value_def)
qed

lemma ref_text_state_lookup:
  assumes "snd (ref_text_state L p input) = []"
  shows "fmlookup (fst (ref_text_state L p input)) k =
     (if k \<in> {''size'', ''width'', ''height''} then None else ref_value L input k)"
proof -
  note c = assms[unfolded ref_text_state_Nil_iff]
  obtain a where a: "ref_id p input = Inr a" "a = fm_get input ''id''" using c ref_id_Inr by blast
  obtain b where b: "ref_source p input = Inr b" "b = fm_get input ''source''" using c ref_source_Inr by blast
  obtain f where f: "ref_filename L p input = Inr f" using c by blast
  then obtain s where s: "fm_get input ''filename'' = JStr s" "f = JStr (nfc L (trim_func s))"
    using ref_filename_Inr by blast
  have texts: "part_value input (ref_text p key) key =
     (case fmlookup input key of Some (JStr s) \<Rightarrow> Some (JStr (trim_func s)) | v \<Rightarrow> v)"
    if "key \<in> {''mimeType'', ''storageKey'', ''vaultPath'', ''hash''}" for key
  proof -
    have "\<forall>key \<in> {''mimeType'', ''storageKey'', ''vaultPath'', ''hash''}.
          \<forall>v. fmlookup input key = Some v \<longrightarrow> (\<exists>w. ref_text p key v = Inr w)" using c by (elim conjE)
    from bspec[OF this that] show ?thesis by (rule part_value_ref_text)
  qed
  show ?thesis
    unfolding ref_text_state_def
    by (simp add: add_optional_lookup fst_add_part a b f texts ref_value_def s)
qed

lemma ref_state_lookup:
  assumes "snd (ref_state L p input) = []"
  shows "fmlookup (fst (ref_state L p input)) k = ref_value L input k"
proof -
  note c = assms[unfolded ref_state_Nil_iff]
  have nums: "part_value input (ref_number p key) key = fmlookup input key"
    if "key \<in> {''size'', ''width'', ''height''}" for key
  proof -
    have "\<forall>key \<in> {''size'', ''width'', ''height''}.
          \<forall>v. fmlookup input key = Some v \<longrightarrow> (\<exists>w. ref_number p key v = Inr w)" using c by (elim conjE)
    from bspec[OF this that] show ?thesis by (rule part_value_ref_number)
  qed
  have t: "fmlookup (fst (ref_text_state L p input)) k =
     (if k \<in> {''size'', ''width'', ''height''} then None else ref_value L input k)" for k
    using c by (intro ref_text_state_lookup) simp
  show ?thesis
    unfolding ref_state_def by (simp add: add_optional_lookup nums t) (simp add: ref_value_def)
qed

lemma ref_hash_issues_Nil_iff:
  "ref_hash_issues p m = [] \<longleftrightarrow>
     (\<forall>h. fmlookup m ''hash'' = Some (JStr h) \<longrightarrow> h = [] \<or> is_sha256 h)"
  by (auto simp: ref_hash_issues_def issue_defs split: option.splits json.splits)

lemma trim_func_idem [simp]: "trim_func (trim_func s) = trim_func s"
  by (simp add: trim_func_eq)

lemma normalize_attachment_ref_ok:
  assumes L: "lib_ok L" and n: "normalize_attachment_ref L p v = (Some m, [])"
  shows "attachment_ref_ok L m"
proof -
  obtain input where v: "v = JObj input"
    using n by (cases v) (auto simp: normalize_attachment_ref_def)
  have m: "m = fst (ref_state L p input)" and st: "snd (ref_state L p input) = []"
    using n v by (simp_all add: normalize_attachment_ref_JObj)
  note lookup = ref_state_lookup[OF st, folded m]
  note c = st[unfolded ref_state_Nil_iff ref_text_state_Nil_iff]
  have tst: "snd (ref_text_state L p input) = []" using st by (simp add: ref_state_Nil_iff)
  have ct: "\<forall>key \<in> {''mimeType'', ''storageKey'', ''vaultPath'', ''hash''}.
          \<forall>v. fmlookup input key = Some v \<longrightarrow> (\<exists>w. ref_text p key v = Inr w)"
    using c by (elim conjE)
  have cn: "\<forall>key \<in> {''size'', ''width'', ''height''}.
          \<forall>v. fmlookup input key = Some v \<longrightarrow> (\<exists>w. ref_number p key v = Inr w)"
    using c by (elim conjE)
  have "is_text (Valid AttachmentPrefix) (fm_get input ''id'')" using c by (auto simp: ref_id_Inr)
  moreover have "is_text (\<lambda>s. s = ''managed'' \<or> s = ''vault'') (fm_get input ''source'')"
    using c by (auto simp: ref_source_Inr)
  moreover have "has (is_text (filename_ok L)) m ''filename''"
  proof -
    obtain w where "ref_filename L p input = Inr w" using c by blast
    then obtain s where s: "fm_get input ''filename'' = JStr s" and
      n: "nfc L (trim_func s) \<noteq> []" "rune_count (nfc L (trim_func s)) \<le> 255"
        "\<not> contains_control (nfc L (trim_func s))" "CHR ''/'' \<notin> set (nfc L (trim_func s))"
        "CHR 0x5C \<notin> set (nfc L (trim_func s))"
      by (auto simp: ref_filename_Inr)
    have "fmlookup m ''filename'' = Some (JStr (nfc L (trim_func s)))"
      by (simp add: lookup ref_value_def s)
    then show ?thesis using n lib_ok_trim[OF L, of s]
      by (simp add: has_def is_text_def filename_ok_def text_ok_def trim_func_eq)
  qed
  moreover have txts: "opt_all (is_text (\<lambda>s. trim_func s = s)) m key"
    if "key \<in> {''mimeType'', ''storageKey'', ''vaultPath'', ''hash''}" for key
  proof -
    have "\<forall>v. fmlookup input key = Some v \<longrightarrow> (\<exists>w. ref_text p key v = Inr w)" by (rule bspec[OF ct that])
    then have "fmlookup input key = None \<or> (\<exists>s. fmlookup input key = Some (JStr s))"
      by (cases "fmlookup input key") (auto simp: ref_text_Inr)
    then show ?thesis by (auto simp: opt_all_def lookup ref_value_text[OF that] is_text_def)
  qed
  moreover have "opt_all (is_text (\<lambda>s. trim_func s = s \<and> (s = [] \<or> is_sha256 s))) m ''hash''"
  proof -
    have "ref_hash_issues p (fst (ref_text_state L p input)) = []" using c by (elim conjE)
    then have "\<forall>h. fmlookup m ''hash'' = Some (JStr h) \<longrightarrow> h = [] \<or> is_sha256 h"
      by (simp add: ref_hash_issues_Nil_iff lookup ref_text_state_lookup[OF tst])
    then show ?thesis using txts[of "''hash''"] by (auto simp: opt_all_iff is_text_iff)
  qed
  moreover have nums: "opt_all (is_number (\<lambda>q. size_ok q \<and> (key = ''width'' \<or> key = ''height'' \<longrightarrow> q \<noteq> 0))) m key"
    if "key \<in> {''size'', ''width'', ''height''}" for key
  proof -
    have "\<forall>v. fmlookup input key = Some v \<longrightarrow> (\<exists>w. ref_number p key v = Inr w)" by (rule bspec[OF cn that])
    then show ?thesis by (auto simp: opt_all_iff lookup ref_value_number[OF that] ref_number_Inr)
  qed
  moreover have "keys_in attachment_ref_keys m"
    by (auto simp: keys_in_iff lookup ref_value_def attachment_ref_keys_def)
  ultimately show ?thesis
    using nums[of "''size''"] nums[of "''width''"] nums[of "''height''"]
    by (simp add: attachment_ref_ok_def has_fm_get has_def lookup ref_value_def)
qed

lemma attachment_ref_ok_fixed:
  assumes "attachment_ref_ok L m" shows "normalize_attachment_ref L p (JObj m) = (Some m, [])"
proof -
  note ok = assms[unfolded attachment_ref_ok_def has_fm_get]
  obtain f where f: "fm_get m ''filename'' = JStr f" "filename_ok L f"
    using ok by (auto simp: is_text_iff)
  have txts: "\<forall>v. fmlookup m key = Some v \<longrightarrow> (\<exists>s. v = JStr s \<and> trim_func s = s)"
    if "key \<in> {''mimeType'', ''storageKey'', ''vaultPath'', ''hash''}" for key
    using ok that by (auto simp: opt_all_iff is_text_iff)
  have nums: "\<forall>v. fmlookup m key = Some v \<longrightarrow>
      is_number (\<lambda>q. size_ok q \<and> (key = ''width'' \<or> key = ''height'' \<longrightarrow> q \<noteq> 0)) v"
    if "key \<in> {''size'', ''width'', ''height''}" for key
    using ok that by (auto simp: opt_all_iff)
  have tst: "snd (ref_text_state L p m) = []"
  proof -
    have "\<exists>w. ref_text p key v = Inr w"
      if "key \<in> {''mimeType'', ''storageKey'', ''vaultPath'', ''hash''}" "fmlookup m key = Some v" for key v
      using txts[OF that(1)] that(2) by (auto simp: ref_text_Inr)
    moreover have "\<exists>w. ref_id p m = Inr w" "\<exists>w. ref_source p m = Inr w" "\<exists>w. ref_filename L p m = Inr w"
      using ok f by (simp_all add: ref_id_Inr ref_source_Inr ref_filename_Inr filename_ok_def text_ok_def)
    ultimately show ?thesis using ok by (auto simp: ref_text_state_Nil_iff)
  qed
  have val: "ref_value L m k = fmlookup m k" for k
  proof -
    have idsrc: "fmlookup m ''id'' = Some (fm_get m ''id'')" "fmlookup m ''source'' = Some (fm_get m ''source'')"
      "fmlookup m ''filename'' = Some (JStr f)"
      using ok f by (auto simp: is_text_iff fm_get_def split: option.splits)
    have t: "(case fmlookup m k of Some (JStr s) \<Rightarrow> Some (JStr (trim_func s)) | v \<Rightarrow> v) = fmlookup m k"
      if "k \<in> {''mimeType'', ''storageKey'', ''vaultPath'', ''hash''}"
      using txts[OF that] by (cases "fmlookup m k") auto
    have none: "fmlookup m k = None" if "k \<notin> set attachment_ref_keys" using ok that by (simp add: keys_in_iff)
    show ?thesis
      using idsrc f t none unfolding ref_value_def
      by (auto simp: filename_ok_def text_ok_def attachment_ref_keys_def)
  qed
  have st: "snd (ref_state L p m) = []"
  proof -
    have "\<exists>w. ref_number p key v = Inr w"
      if "key \<in> {''size'', ''width'', ''height''}" "fmlookup m key = Some v" for key v
      using nums[OF that(1)] that(2) by (auto simp: ref_number_Inr)
    moreover have "ref_hash_issues p (fst (ref_text_state L p m)) = []"
      using ok by (auto simp: ref_hash_issues_Nil_iff ref_text_state_lookup[OF tst] val opt_all_iff is_text_iff)
    ultimately show ?thesis using tst by (auto simp: ref_state_Nil_iff)
  qed
  have "fst (ref_state L p m) = m"
    by (rule fmap_ext) (simp add: ref_state_lookup[OF st] val)
  then show ?thesis using st by (simp add: normalize_attachment_ref_JObj)
qed

subsection \<open>Arrays of options and of references\<close>

definition option_usable :: "string list \<Rightarrow> string list \<Rightarrow> string list \<Rightarrow> string \<Rightarrow> bool" where
  "option_usable active deleted previousIDs s =
     (Valid OptionPrefix s \<and> (s \<in> set active \<or> (s \<in> set deleted \<and> s \<in> set previousIDs)))"

lemma json_strings_JStr [simp]: "json_strings (map JStr ss) = ss"
  by (induction ss) auto

lemma multi_select_loop_iff:
  "multi_select_loop p active deleted prev i seen es = (rs, []) \<longleftrightarrow>
     rs = es \<and> list_all (is_text (option_usable active deleted prev)) es
     \<and> distinct (json_strings es) \<and> set (json_strings es) \<inter> set seen = {}"
proof (induction es arbitrary: i seen rs)
  case Nil
  then show ?case by auto
next
  case (Cons e es)
  show ?case
  proof (cases "is_text (option_usable active deleted prev) e \<and> \<not> is_text (\<lambda>s. s \<in> set seen) e")
    case False
    then show ?thesis
      by (cases e) (auto simp: Let_def issue_defs is_text_def option_usable_def split: prod.splits if_splits)
  next
    case True
    then obtain s where e: "e = JStr s" "option_usable active deleted prev s" "s \<notin> set seen"
      by (auto simp: is_text_iff)
    have "multi_select_loop p active deleted prev i seen (e # es) = (rs, []) \<longleftrightarrow>
        (\<exists>rs'. rs = e # rs' \<and> multi_select_loop p active deleted prev (Suc i) (s # seen) es = (rs', []))"
      using e by (auto simp: Let_def option_usable_def split: prod.splits)
    then show ?thesis using e by (auto simp: Cons is_text_def)
  qed
qed

definition ref_id_of :: "json \<Rightarrow> string" where
  "ref_id_of v =
     (case v of JObj m \<Rightarrow> (case fmlookup m ''id'' of Some (JStr s) \<Rightarrow> s | _ \<Rightarrow> []) | _ \<Rightarrow> [])"

definition is_ref :: "lib \<Rightarrow> json \<Rightarrow> bool" where
  "is_ref L v = (case v of JObj m \<Rightarrow> attachment_ref_ok L m | _ \<Rightarrow> False)"

lemma is_ref_iff: "is_ref L v \<longleftrightarrow> (\<exists>m. v = JObj m \<and> attachment_ref_ok L m)"
  by (auto simp: is_ref_def split: json.splits)

lemma attachment_ref_ok_id:
  "attachment_ref_ok L m \<Longrightarrow> fmlookup m ''id'' = Some (JStr (ref_id_of (JObj m)))"
  by (auto simp: attachment_ref_ok_def has_def is_text_def ref_id_of_def split: option.splits json.splits)

lemma attachment_loop_Nil:
  assumes "lib_ok L"
  shows "attachment_loop L p i seen es = (rs, []) \<Longrightarrow>
     length rs = length es \<and> list_all (is_ref L) rs \<and> distinct (map ref_id_of rs)
     \<and> set (map ref_id_of rs) \<inter> set seen = {}"
proof (induction es arbitrary: i seen rs)
  case Nil
  then show ?case by simp
next
  case (Cons e es)
  obtain ref is0 where n: "normalize_attachment_ref L (p @ ''/'' @ show_nat i) e = (ref, is0)" by fastforce
  have "is0 = []"
    using Cons.prems n
    by (cases ref) (auto simp: Let_def split: prod.splits option.splits json.splits if_splits)
  moreover have "ref \<noteq> None" using normalize_attachment_ref_None[of L _ e is0] n \<open>is0 = []\<close> by metis
  ultimately obtain m where m: "normalize_attachment_ref L (p @ ''/'' @ show_nat i) e = (Some m, [])"
    using n by auto
  then have ok: "attachment_ref_ok L m" by (rule normalize_attachment_ref_ok[OF assms])
  note idm = attachment_ref_ok_id[OF ok]
  obtain rs' where rs': "rs = JObj m # rs'" "ref_id_of (JObj m) \<notin> set seen"
    "attachment_loop L p (Suc i) (ref_id_of (JObj m) # seen) es = (rs', [])"
    using Cons.prems m idm by (auto simp: Let_def split: prod.splits if_splits)
  then show ?case using Cons.IH[OF rs'(3)] ok by (auto simp: is_ref_iff)
qed

lemma attachment_loop_fixed:
  "list_all (is_ref L) es \<Longrightarrow> distinct (map ref_id_of es) \<Longrightarrow> set (map ref_id_of es) \<inter> set seen = {} \<Longrightarrow>
     attachment_loop L p i seen es = (es, [])"
proof (induction es arbitrary: i seen)
  case Nil
  then show ?case by simp
next
  case (Cons e es)
  then obtain m where m: "e = JObj m" "attachment_ref_ok L m" by (auto simp: is_ref_iff)
  have "attachment_loop L p (Suc i) (ref_id_of e # seen) es = (es, [])"
    using Cons by (intro Cons.IH) auto
  then show ?case
    using m attachment_ref_ok_fixed[OF m(2)] attachment_ref_ok_id[OF m(2)] Cons.prems
    by (simp add: Let_def)
qed

subsection \<open>Values of every Field type\<close>

text \<open>The options a Field knows, active or deleted.\<close>

definition known_option :: "field_def \<Rightarrow> string \<Rightarrow> bool" where
  "known_option f s =
     (Valid OptionPrefix s \<and>
      (case select_options (fe_config f) of
         None \<Rightarrow> False | Some (active, deleted) \<Rightarrow> s \<in> set active \<or> s \<in> set deleted))"

definition max_attachments :: "field_def \<Rightarrow> nat" where
  "max_attachments f =
     (case attachment_config (fe_config f) of
        None \<Rightarrow> 0
      | Some n \<Rightarrow> if n = 0 then 10 else if 1 \<le> n \<and> n \<le> 100 then nat n else 0)"

definition url_ok :: "lib \<Rightarrow> string \<Rightarrow> bool" where
  "url_ok L s =
     (s \<noteq> [] \<and> rune_count s \<le> 2048 \<and>
      (case url_parts L s of None \<Rightarrow> False
       | Some (scheme, host) \<Rightarrow> host \<noteq> [] \<and> (scheme = ''http'' \<or> scheme = ''https'')))"

definition is_array :: "(json list \<Rightarrow> bool) \<Rightarrow> json \<Rightarrow> bool" where
  "is_array P v = (case v of JArr vs \<Rightarrow> P vs | _ \<Rightarrow> False)"

definition value_ok :: "lib \<Rightarrow> field_def \<Rightarrow> json \<Rightarrow> bool" where
  "value_ok L f v =
     (v = JNull \<or>
      (if fe_type f = ''text'' then is_text (\<lambda>s. rune_count s \<le> 10000) v
       else if fe_type f = ''longText'' then is_text (\<lambda>s. rune_count s \<le> 100000) v
       else if fe_type f = ''number'' then is_number (\<lambda>q. True) v
       else if fe_type f = ''checkbox'' then v = JBool True \<or> v = JBool False
       else if fe_type f = ''date'' then is_text valid_date v
       else if fe_type f = ''url'' then is_text (url_ok L) v
       else if fe_type f = ''select'' then is_text (known_option f) v
       else if fe_type f = ''multiSelect'' then
         is_array (\<lambda>vs. length vs \<le> 100 \<and> select_options (fe_config f) \<noteq> None
                       \<and> list_all (is_text (known_option f)) vs \<and> distinct (json_strings vs)) v
       else if fe_type f = ''attachment'' then
         is_array (\<lambda>vs. length vs \<le> max_attachments f \<and> 1 \<le> max_attachments f
                       \<and> list_all (is_ref L) vs \<and> distinct (map ref_id_of vs)) v
       else if fe_type f = ''location'' then (case v of JObj m \<Rightarrow> location_ok L m | _ \<Rightarrow> False)
       else False))"

lemma normalize_text_Inr:
  "normalize_text p n v = Inr w \<longleftrightarrow> w = v \<and> is_text (\<lambda>s. rune_count s \<le> n) v"
  by (auto simp: normalize_text_def is_text_def not_less split: json.splits)

lemma normalize_url_Inr: "normalize_url L p v = Inr w \<longleftrightarrow> w = v \<and> is_text (url_ok L) v"
  by (auto simp: normalize_url_def is_text_def url_ok_def not_less split: json.splits option.splits)

lemma normalize_select_Inr:
  "normalize_select p v prev config = Inr w \<longleftrightarrow>
     w = v \<and> is_text (\<lambda>s. Valid OptionPrefix s \<and>
       (case select_options config of None \<Rightarrow> False
        | Some (active, deleted) \<Rightarrow> s \<in> set active \<or> (prev = JStr s \<and> s \<in> set deleted))) v"
  by (auto simp: normalize_select_def is_text_def split: json.splits option.splits if_splits)

lemma normalize_multi_select_Inr:
  "normalize_multi_select p v prev config = Inr w \<longleftrightarrow>
     w = v \<and> is_array (\<lambda>vs. length vs \<le> 100 \<and>
       (case select_options config of None \<Rightarrow> False
        | Some (active, deleted) \<Rightarrow>
            list_all (is_text (option_usable active deleted (string_set prev))) vs
            \<and> distinct (json_strings vs))) v"
proof (cases v)
  case (JArr vs)
  show ?thesis
  proof (cases "select_options config")
    case None
    then show ?thesis using JArr by (simp add: normalize_multi_select_def is_array_def)
  next
    case (Some ad)
    obtain active deleted where ad: "ad = (active, deleted)" by fastforce
    obtain rs iss where l: "multi_select_loop p active deleted (string_set prev) 0 [] vs = (rs, iss)"
      by fastforce
    then have "iss = [] \<longleftrightarrow> rs = vs \<and> iss = [] \<and>
        list_all (is_text (option_usable active deleted (string_set prev))) vs \<and> distinct (json_strings vs)"
      using multi_select_loop_iff[of p active deleted "string_set prev" 0 "[]" vs rs]
        multi_select_loop_iff[of p active deleted "string_set prev" 0 "[]" vs vs] by auto
    then show ?thesis using JArr Some ad l
        multi_select_loop_iff[of p active deleted "string_set prev" 0 "[]" vs vs]
      by (auto simp: normalize_multi_select_def is_array_def not_less)
  qed
qed (auto simp: normalize_multi_select_def is_array_def)

lemma normalize_attachment_ok:
  assumes L: "lib_ok L" and n: "normalize_attachment L p v (fe_config f) = Inr w"
  shows "is_array (\<lambda>vs. length vs \<le> max_attachments f \<and> 1 \<le> max_attachments f
           \<and> list_all (is_ref L) vs \<and> distinct (map ref_id_of vs)) w"
proof -
  obtain es where v: "v = JArr es" using n by (cases v) (auto simp: normalize_attachment_def)
  obtain n0 where n0: "attachment_config (fe_config f) = Some n0"
    using n v by (auto simp: normalize_attachment_def split: option.splits)
  define n1 where "n1 = (if n0 \<noteq> 0 then n0 else 10)"
  obtain rs iss where l: "attachment_loop L p 0 [] es = (rs, iss)" by fastforce
  have b: "1 \<le> n1" "n1 \<le> 100" "int (length es) \<le> n1" "iss = []" "w = JArr rs"
    using n v n0 l by (auto simp: normalize_attachment_def Let_def n1_def split: if_splits)
  have "max_attachments f = nat n1" using n0 b by (auto simp: max_attachments_def n1_def)
  then show ?thesis
    using attachment_loop_Nil[OF L, of p 0 "[]" es rs] l b by (auto simp: is_array_def)
qed

lemma normalize_attachment_fixed:
  assumes "is_array (\<lambda>vs. length vs \<le> max_attachments f \<and> 1 \<le> max_attachments f
           \<and> list_all (is_ref L) vs \<and> distinct (map ref_id_of vs)) w"
  shows "normalize_attachment L p w (fe_config f) = Inr w"
proof -
  obtain vs where w: "w = JArr vs" using assms by (cases w) (auto simp: is_array_def)
  note a = assms[unfolded w is_array_def, simplified]
  obtain n0 where n0: "attachment_config (fe_config f) = Some n0"
    using a by (cases "attachment_config (fe_config f)") (auto simp: max_attachments_def)
  have "attachment_loop L p 0 [] vs = (vs, [])" using a by (intro attachment_loop_fixed) auto
  then show ?thesis using a n0 w
    by (auto simp: normalize_attachment_def Let_def max_attachments_def split: if_splits)
qed

lemmas normalize_Inr_simps = normalize_text_Inr normalize_url_Inr normalize_select_Inr
  normalize_multi_select_Inr

lemma is_text_mono: "is_text P v \<Longrightarrow> (\<And>s. P s \<Longrightarrow> Q s) \<Longrightarrow> is_text Q v"
  by (auto simp: is_text_iff)

lemma multi_known:
  assumes "is_array (\<lambda>vs. length vs \<le> 100 \<and>
       (case select_options (fe_config f) of None \<Rightarrow> False
        | Some (active, deleted) \<Rightarrow>
            list_all (is_text (option_usable active deleted prev)) vs \<and> distinct (json_strings vs))) w"
  shows "is_array (\<lambda>vs. length vs \<le> 100 \<and> select_options (fe_config f) \<noteq> None
                       \<and> list_all (is_text (known_option f)) vs \<and> distinct (json_strings vs)) w"
  using assms
  by (auto simp: is_array_def list_all_iff known_option_def option_usable_def
      split: json.splits option.splits elim!: is_text_mono)

lemma multi_fixed:
  assumes "is_array (\<lambda>vs. length vs \<le> 100 \<and> select_options (fe_config f) \<noteq> None
                       \<and> list_all (is_text (known_option f)) vs \<and> distinct (json_strings vs)) w"
  shows "normalize_multi_select p w w (fe_config f) = Inr w"
proof -
  obtain vs where w: "w = JArr vs" using assms by (cases w) (auto simp: is_array_def)
  obtain active deleted where sel: "select_options (fe_config f) = Some (active, deleted)"
    using assms w by (auto simp: is_array_def)
  have strs: "JStr s \<in> set vs \<Longrightarrow> s \<in> set (json_strings vs)" for s
    by (induction vs rule: json_strings.induct) auto
  have "is_text (option_usable active deleted (string_set w)) x" if "x \<in> set vs" for x
    using assms that w sel strs
    by (auto simp: is_array_def list_all_iff is_text_iff option_usable_def known_option_def string_set_def)
  then show ?thesis
    using assms w sel by (auto simp: normalize_multi_select_Inr is_array_def list_all_iff)
qed

definition field_types :: "string list" where
  "field_types =
     [''text'', ''longText'', ''number'', ''checkbox'', ''date'', ''url'', ''select'', ''multiSelect'',
      ''attachment'', ''location'']"

lemma normalize_simple_types:
  assumes "v \<noteq> JNull"
  shows "fe_type f = ''text'' \<Longrightarrow> normalize_field_value L p v prev f = normalize_text p 10000 v"
    "fe_type f = ''longText'' \<Longrightarrow> normalize_field_value L p v prev f = normalize_text p 100000 v"
    "fe_type f = ''number'' \<Longrightarrow>
       normalize_field_value L p v prev f = Inr w \<longleftrightarrow> w = v \<and> is_number (\<lambda>q. True) v"
    "fe_type f = ''checkbox'' \<Longrightarrow>
       normalize_field_value L p v prev f = Inr w \<longleftrightarrow> w = v \<and> (v = JBool True \<or> v = JBool False)"
    "fe_type f = ''date'' \<Longrightarrow>
       normalize_field_value L p v prev f = Inr w \<longleftrightarrow> w = v \<and> is_text valid_date v"
    "fe_type f = ''url'' \<Longrightarrow> normalize_field_value L p v prev f = normalize_url L p v"
    "fe_type f = ''select'' \<Longrightarrow> normalize_field_value L p v prev f = normalize_select p v prev (fe_config f)"
    "fe_type f = ''multiSelect'' \<Longrightarrow>
       normalize_field_value L p v prev f = normalize_multi_select p v prev (fe_config f)"
    "fe_type f = ''attachment'' \<Longrightarrow>
       normalize_field_value L p v prev f = normalize_attachment L p v (fe_config f)"
    "fe_type f = ''location'' \<Longrightarrow> normalize_field_value L p v prev f = normalize_location L p v"
  using assms
  by (simp_all add: normalize_field_value_def)
    (auto simp: is_number_def is_text_def split: json.splits float64.splits)

lemma normalize_unknown_type:
  "v \<noteq> JNull \<Longrightarrow> fe_type f \<notin> set field_types \<Longrightarrow> \<exists>is. normalize_field_value L p v prev f = Inl is"
  by (simp add: normalize_field_value_def field_types_def)

lemma normalize_JNull [simp]: "normalize_field_value L p JNull prev f = Inr JNull"
  by (simp add: normalize_field_value_def)

lemma normalize_location_obj: "normalize_location L p v = Inr w \<Longrightarrow> w \<noteq> JNull"
  by (auto simp: normalize_location_def Let_def split: json.splits prod.splits if_splits)

lemma normalize_field_value_ok:
  assumes L: "lib_ok L" and n: "normalize_field_value L p v prev f = Inr w"
  shows "value_ok L f w"
proof (cases "v = JNull")
  case True
  then show ?thesis using n by (simp add: value_ok_def)
next
  case False
  note types = normalize_simple_types[OF False, of f L p prev]
  have "fe_type f \<in> set field_types"
    by (rule ccontr) (use normalize_unknown_type[OF False, of f L p prev] n in auto)
  then consider "fe_type f = ''text''" | "fe_type f = ''longText''" | "fe_type f = ''number''"
    | "fe_type f = ''checkbox''" | "fe_type f = ''date''" | "fe_type f = ''url''"
    | "fe_type f = ''select''" | "fe_type f = ''multiSelect''" | "fe_type f = ''attachment''"
    | "fe_type f = ''location''" unfolding field_types_def by auto
  then show ?thesis
  proof cases
    case 7
    then have "is_text (known_option f) w"
      using n types(7) by (auto simp: normalize_select_Inr known_option_def split: option.splits elim!: is_text_mono)
    then show ?thesis using 7 by (simp add: value_ok_def)
  next
    case 8
    then have "is_array (\<lambda>vs. length vs \<le> 100 \<and> select_options (fe_config f) \<noteq> None
                       \<and> list_all (is_text (known_option f)) vs \<and> distinct (json_strings vs)) w"
      using n types(8) multi_known by (auto simp: normalize_multi_select_Inr)
    then show ?thesis using 8 by (simp add: value_ok_def)
  next
    case 9
    then have "is_array (\<lambda>vs. length vs \<le> max_attachments f \<and> 1 \<le> max_attachments f
           \<and> list_all (is_ref L) vs \<and> distinct (map ref_id_of vs)) w"
      using n types(9) by (intro normalize_attachment_ok[OF L]) simp
    then show ?thesis using 9 by (simp add: value_ok_def)
  next
    case 10
    then obtain m where "w = JObj m" "location_ok L m"
      using normalize_location_ok[OF L, of p v w] n types(10) by auto
    then show ?thesis using 10 by (simp add: value_ok_def)
  qed (use n types in \<open>simp_all add: normalize_text_Inr normalize_url_Inr value_ok_def\<close>)
qed

lemma value_ok_fixed:
  assumes "value_ok L f w" shows "normalize_field_value L p w w f = Inr w"
proof (cases "w = JNull")
  case False
  note types = normalize_simple_types[OF False, of f L p w]
  note ok = assms[unfolded value_ok_def]
  have "fe_type f \<in> set field_types" using ok False by (auto simp: field_types_def split: if_splits)
  then consider "fe_type f = ''text''" | "fe_type f = ''longText''" | "fe_type f = ''number''"
    | "fe_type f = ''checkbox''" | "fe_type f = ''date''" | "fe_type f = ''url''"
    | "fe_type f = ''select''" | "fe_type f = ''multiSelect''" | "fe_type f = ''attachment''"
    | "fe_type f = ''location''" unfolding field_types_def by auto
  then show ?thesis
  proof cases
    case 7
    then have "is_text (known_option f) w" using ok False by simp
    then show ?thesis
      using 7 types(7) by (auto simp: normalize_select_Inr known_option_def is_text_iff split: option.splits)
  next
    case 8
    then show ?thesis using ok False types(8) multi_fixed by simp
  next
    case 9
    then show ?thesis using ok False types(9) normalize_attachment_fixed by simp
  next
    case 10
    then show ?thesis using ok False types(10) location_ok_fixed by (simp split: json.splits)
  qed (use ok False types in \<open>simp_all add: normalize_text_Inr normalize_url_Inr\<close>)
qed simp

section \<open>Whole records\<close>

text \<open>Every value of an active Field is well formed for it.\<close>

definition record_ok :: "lib \<Rightarrow> fields \<Rightarrow> vals \<Rightarrow> bool" where
  "record_ok L fds m =
     (\<forall>k v f. fmlookup m k = Some v \<longrightarrow> fmlookup fds k = Some f \<longrightarrow> fe_deleted_at f = None \<longrightarrow> value_ok L f v)"

lemma record_ok_code [code]:
  "record_ok L fds m \<longleftrightarrow>
     fmpred (\<lambda>k v. case fmlookup fds k of None \<Rightarrow> True
                   | Some f \<Rightarrow> fe_deleted_at f \<noteq> None \<or> value_ok L f v) m"
  by (auto simp: record_ok_def fmpred_iff split: option.splits) (metis option.distinct(1))

lemma writable_Some:
  "writable fds k = Some f \<longleftrightarrow> fmlookup fds k = Some f \<and> fe_deleted_at f = None \<and> Valid FieldPrefix k"
  by (auto simp: writable_def split: option.splits if_splits)

lemma normalize_part_Inl:
  "normalize_text p n v = Inl is \<Longrightarrow> is \<noteq> []"
  "normalize_url L p v = Inl is \<Longrightarrow> is \<noteq> []"
  "normalize_select p v prev c = Inl is \<Longrightarrow> is \<noteq> []"
  "normalize_multi_select p v prev c = Inl is \<Longrightarrow> is \<noteq> []"
  "normalize_attachment L p v c = Inl is \<Longrightarrow> is \<noteq> []"
  "normalize_location L p v = Inl is \<Longrightarrow> is \<noteq> []"
       apply (auto simp: normalize_text_def issue_defs split: json.splits if_splits)[1]
      apply (auto simp: normalize_url_def issue_defs split: json.splits if_splits option.splits prod.splits)[1]
     apply (auto simp: normalize_select_def issue_defs split: json.splits if_splits option.splits prod.splits)[1]
    apply (auto simp: normalize_multi_select_def issue_defs Let_def
        split: json.splits if_splits option.splits prod.splits)[1]
   apply (auto simp: normalize_attachment_def issue_defs Let_def
        split: json.splits if_splits option.splits prod.splits)[1]
  apply (cases v; auto simp: normalize_location_def issue_defs Let_def split: prod.splits if_splits)
  done

lemma normalize_Inl_nonempty: "normalize_field_value L p v prev f = Inl is \<Longrightarrow> is \<noteq> []"
  by (auto simp: normalize_field_value_def issue_defs dest: normalize_part_Inl
      split: if_splits json.splits float64.splits)

text \<open>What a run without issues did with one key.\<close>

definition written :: "lib \<Rightarrow> string \<Rightarrow> vals \<Rightarrow> vals \<Rightarrow> fields \<Rightarrow> string \<Rightarrow> json \<Rightarrow> bool" where
  "written L root sub prev fds k w =
     (\<exists>f. writable fds k = Some f \<and>
        normalize_field_value L (root @ escape_pointer k) (fm_get sub k) (fm_get prev k) f = Inr w)"

lemma write_value_ok:
  assumes "snd (write_value L root sub prev fds k st) = []"
  shows "snd st = [] \<and> (\<exists>w. written L root sub prev fds k w
            \<and> write_value L root sub prev fds k st = (fmupd k w (fst st), []))"
proof (cases "writable fds k")
  case None
  then show ?thesis using assms by (simp add: write_value_def Let_def unknown_field_issue_def)
next
  case (Some f)
  then show ?thesis using assms
    by (cases "normalize_field_value L (root @ escape_pointer k) (fm_get sub k) (fm_get prev k) f")
      (auto simp: write_value_def Let_def written_def dest: normalize_Inl_nonempty)
qed

lemma write_values_mono:
  "snd (write_values L root sub prev fds keys st) = [] \<Longrightarrow> snd st = []"
  unfolding write_values_def
proof (induction keys arbitrary: st)
  case (Cons k keys)
  then have "snd (write_value L root sub prev fds k st) = []" by simp
  then show ?case using write_value_ok by blast
qed simp

lemma write_values_ok:
  assumes "snd (write_values L root sub prev fds keys st) = []" "distinct keys"
  shows "(\<forall>k \<in> set keys. \<exists>w. written L root sub prev fds k w
            \<and> fmlookup (fst (write_values L root sub prev fds keys st)) k = Some w)
     \<and> (\<forall>k. k \<notin> set keys \<longrightarrow>
            fmlookup (fst (write_values L root sub prev fds keys st)) k = fmlookup (fst st) k)"
  using assms
proof (induction keys arbitrary: st)
  case Nil
  then show ?case by (simp add: write_values_def)
next
  case (Cons k keys)
  let ?st = "write_value L root sub prev fds k st"
  have eq: "write_values L root sub prev fds (k # keys) st = write_values L root sub prev fds keys ?st"
    by (simp add: write_values_def)
  have none: "snd (write_values L root sub prev fds keys ?st) = []" using Cons.prems eq by simp
  obtain w where w: "written L root sub prev fds k w" "?st = (fmupd k w (fst st), [])"
    using write_value_ok[OF write_values_mono[OF none]] by blast
  have IH: "(\<forall>k \<in> set keys. \<exists>w. written L root sub prev fds k w
            \<and> fmlookup (fst (write_values L root sub prev fds keys ?st)) k = Some w)
     \<and> (\<forall>k. k \<notin> set keys \<longrightarrow>
            fmlookup (fst (write_values L root sub prev fds keys ?st)) k = fmlookup (fst ?st) k)"
    using Cons.prems none by (intro Cons.IH) simp_all
  show ?case unfolding eq using IH w Cons.prems(2) by auto
qed

text \<open>The projection is defined on well-formed records: the type assertions hold.\<close>

lemma project_value_ok: "value_ok L f v \<Longrightarrow> project_value L f v \<noteq> None"
  by (auto simp: value_ok_def project_value_def is_text_def split: json.splits if_splits)

lemma project_loop_ok:
  assumes "record_ok L fds m" "\<forall>k \<in> set keys. fmlookup m k \<noteq> None"
  shows "project_loop L fds m keys \<noteq> None"
  using assms(2)
proof (induction keys)
  case Nil
  then show ?case by simp
next
  case (Cons k keys)
  then obtain v where v: "fmlookup m k = Some v" by auto
  show ?case
  proof (cases "fmlookup fds k")
    case None
    then show ?thesis using Cons by simp
  next
    case (Some f)
    have "project_value L f v \<noteq> None" if "fe_deleted_at f = None"
      using assms(1) v Some that by (intro project_value_ok) (auto simp: record_ok_def)
    then show ?thesis using Cons Some v
      by (cases "fe_deleted_at f") (auto simp: fm_get_def split: option.splits)
  qed
qed

lemma build_query_projection_ok: "record_ok L fds m \<Longrightarrow> build_query_projection L m fds \<noteq> None"
  using project_loop_ok[of L fds m "fm_keys m"]
  by (auto simp: build_query_projection_def fmdom_lookup_iff)

lemma finish_values_ok:
  assumes "finish_values L fds st = Inr r" "record_ok L fds (fst st)"
  shows "snd st = [] \<and> (\<exists>query search. r = Some (fst st, query, search))"
  using assms build_query_projection_ok[OF assms(2)] by (auto simp: finish_values_def)

lemma unset_loop_mono: "snd (unset_loop set' fds i seen ks st) = [] \<Longrightarrow> snd st = []"
proof (induction set' fds i seen ks st rule: unset_loop.induct)
  case (2 set' fds i seen k ks st)
  then show ?case by (simp add: Let_def split: if_splits)
qed simp

lemma unset_loop_ok:
  "snd (unset_loop set' fds i seen ks st) = [] \<Longrightarrow>
     fst (unset_loop set' fds i seen ks st) = fmdrop_set (set ks) (fst st)
     \<and> (\<forall>k \<in> set ks. \<not> fm_has set' k \<and> writable fds k \<noteq> None)"
proof (induction set' fds i seen ks st rule: unset_loop.induct)
  case (1 set' fds i seen st)
  then show ?case by (simp add: fmap_ext)
next
  case (2 set' fds i seen k ks st)
  let ?p = "''/unsetFieldIds/'' @ show_nat i"
  have c: "k \<notin> set seen" "\<not> fm_has set' k" "validate_writable_field ?p k fds = []"
    using 2(5) by (auto simp: Let_def dest!: unset_loop_mono split: if_splits)
  then have "unset_loop set' fds i seen (k # ks) st
      = unset_loop set' fds (Suc i) (k # seen) ks (fmdrop k (fst st), snd st)"
    by (simp add: Let_def)
  moreover have "writable fds k \<noteq> None"
    using c(3) by (auto simp: validate_writable_field_def unknown_field_issue_def split: option.splits)
  ultimately show ?case using 2 c
    by (auto intro!: fmap_ext)
qed

lemma written_value_ok:
  "lib_ok L \<Longrightarrow> written L root sub prev fds k w \<Longrightarrow> fmlookup fds k = Some f \<Longrightarrow> value_ok L f w"
  by (auto simp: written_def writable_Some intro: normalize_field_value_ok)

lemma record_ok_write:
  assumes L: "lib_ok L" and ok: "record_ok L fds (fst st)"
    and none: "snd (write_values L root sub prev fds keys st) = []" and d: "distinct keys"
  shows "record_ok L fds (fst (write_values L root sub prev fds keys st))"
  unfolding record_ok_def
proof (intro allI impI)
  fix k v f
  assume a: "fmlookup (fst (write_values L root sub prev fds keys st)) k = Some v"
    "fmlookup fds k = Some f" "fe_deleted_at f = None"
  note w = write_values_ok[OF none d]
  show "value_ok L f v"
  proof (cases "k \<in> set keys")
    case True
    then obtain x where "written L root sub prev fds k x" "v = x" using w a(1) by fastforce
    then show ?thesis using written_value_ok[OF L _ a(2)] by blast
  next
    case False
    then have "fmlookup (fst st) k = Some v" using w a(1) by simp
    then show ?thesis using ok a(2,3) by (auto simp: record_ok_def)
  qed
qed

lemma record_ok_drop: "record_ok L fds m \<Longrightarrow> record_ok L fds (fmdrop_set A m)"
  by (auto simp: record_ok_def split: if_splits)

section \<open>Properties\<close>

text \<open>C20: a successful \<open>NormalizeCreateValues\<close> never panics and returns a record that holds exactly
  the submitted Fields, all of them active Fields of the table, each with a value that is well
  formed for its Field: texts within their limits, finite numbers, real dates, HTTP addresses,
  known and distinct options, distinct well-formed attachment references within the Field's
  count, complete locations.\<close>

theorem create_values_well_formed:
  assumes "lib_ok L" and "NormalizeCreateValues L vs fds = Inr r"
  shows "\<exists>m query search. r = Some (m, query, search) \<and> fmdom m = fmdom vs \<and> record_ok L fds m
     \<and> (\<forall>k \<in> fset (fmdom m). writable fds k \<noteq> None)"
proof -
  let ?st = "write_values L ''/values/'' vs fmempty fds (fm_keys vs) (fmempty, [])"
  have none: "snd ?st = []"
    using assms(2) by (auto simp: NormalizeCreateValues_def finish_values_def)
  note w = write_values_ok[OF none distinct_fm_keys]
  have ok: "record_ok L fds (fst ?st)"
    by (rule record_ok_write[OF assms(1) _ none distinct_fm_keys]) (simp add: record_ok_def)
  obtain query search where "r = Some (fst ?st, query, search)"
    using finish_values_ok[OF assms(2)[unfolded NormalizeCreateValues_def] ok] by blast
  moreover have dom: "fmlookup (fst ?st) k \<noteq> None \<longleftrightarrow> k \<in> fset (fmdom vs)" for k
    using w by (cases "k \<in> fset (fmdom vs)") force+
  then have "fmdom (fst ?st) = fmdom vs"
    by (intro fset_eqI) (simp add: fmlookup_dom_iff fmdom_lookup_iff)
  moreover have "writable fds k \<noteq> None" if "k \<in> fset (fmdom vs)" for k
    using w that by (auto simp: written_def)
  ultimately show ?thesis using ok by auto
qed

text \<open>C19: updating a well-formed record yields a well-formed record, without a panic: the unset Fields
  are gone, the set Fields hold well-formed values, and every other Field keeps its value.\<close>

theorem update_values_well_formed:
  assumes "lib_ok L" and "record_ok L fds current"
    and "NormalizeUpdatedValues L current set' unset fds = Inr r"
  shows "\<exists>m query search. r = Some (m, query, search) \<and> record_ok L fds m
     \<and> (\<forall>k \<in> set unset. fmlookup m k = None \<and> writable fds k \<noteq> None)
     \<and> (\<forall>k \<in> fset (fmdom set'). fmlookup m k \<noteq> None \<and> writable fds k \<noteq> None)
     \<and> (\<forall>k. k \<notin> set unset \<longrightarrow> k \<notin> fset (fmdom set') \<longrightarrow> fmlookup m k = fmlookup current k)"
proof -
  let ?u = "unset_loop set' fds 0 [] unset (current, [])"
  have u: "snd ?u = []" using assms(3)
    by (auto simp: NormalizeUpdatedValues_def split: prod.splits)
  note un = unset_loop_ok[OF u]
  let ?st = "write_values L ''/set/'' set' current fds (fm_keys set') (fst ?u, [])"
  have fin: "finish_values L fds ?st = Inr r"
    using assms(3) u by (auto simp: NormalizeUpdatedValues_def split: prod.splits)
  then have none: "snd ?st = []" by (auto simp: finish_values_def)
  note w = write_values_ok[OF none distinct_fm_keys]
  have "record_ok L fds (fst ?u)" using assms(2) un by (simp add: record_ok_drop)
  then have ok: "record_ok L fds (fst ?st)"
    by (intro record_ok_write[OF assms(1) _ none distinct_fm_keys]) simp
  obtain query search where "r = Some (fst ?st, query, search)"
    using finish_values_ok[OF fin ok] by blast
  moreover have "fmlookup (fst ?st) k = None \<and> writable fds k \<noteq> None" if "k \<in> set unset" for k
  proof -
    have "k \<notin> set (fm_keys set')" using un that by (auto simp: fm_has_def fmdom_lookup_iff)
    then show ?thesis using w un that by simp
  qed
  moreover have "fmlookup (fst ?st) k \<noteq> None \<and> writable fds k \<noteq> None" if k: "k \<in> fset (fmdom set')" for k
  proof -
    obtain x where "written L ''/set/'' set' current fds k x" "fmlookup (fst ?st) k = Some x"
      using conjunct1[OF w] k by auto
    then show ?thesis by (auto simp: written_def)
  qed
  moreover have "fmlookup (fst ?st) k = fmlookup current k"
    if "k \<notin> set unset" "k \<notin> fset (fmdom set')" for k
    using w un that by simp
  ultimately show ?thesis using ok by auto
qed

text \<open>C21: a stored value written back unchanged is accepted and stays the same, whatever its Field
  type: normalising a normalised value against itself is the identity.\<close>

theorem normalized_value_stable:
  assumes "lib_ok L" and "normalize_field_value L p v previous f = Inr w"
  shows "normalize_field_value L q w w f = Inr w"
  by (rule value_ok_fixed[OF normalize_field_value_ok[OF assms]])


text \<open>Concrete Fields and values at which the properties apply.\<close>

definition sample_id :: "string \<Rightarrow> char \<Rightarrow> string" where
  "sample_id prefix c = prefix @ replicate 26 c"

definition sample_field :: "string \<Rightarrow> string \<Rightarrow> field_config \<Rightarrow> field_def" where
  "sample_field i t c =
     \<lparr>fe_id = i, fe_type = t, fe_config = Some c, fe_deleted_at = None, fe_primary = False,
      fe_revision = 1, fe_position = 0\<rparr>"

definition sample_options :: field_config where
  "sample_options =
     SelectConfig [\<lparr>so_id = sample_id ''opt_'' (CHR ''A''), so_name = ''a'', so_color = ''red''\<rparr>]
       [\<lparr>do_id = sample_id ''opt_'' (CHR ''B''), do_name = ''b'', do_color = ''red'', do_deleted_at = 5\<rparr>]"

definition sample_fields :: fields where
  "sample_fields = fmap_of_list
     [(sample_id ''fld_'' (CHR ''1''), sample_field (sample_id ''fld_'' (CHR ''1'')) ''text'' EmptyConfig),
      (sample_id ''fld_'' (CHR ''2''), sample_field (sample_id ''fld_'' (CHR ''2'')) ''multiSelect'' sample_options)]"

definition sample_values :: vals where
  "sample_values = fmap_of_list
     [(sample_id ''fld_'' (CHR ''1''), JStr ''Hello''),
      (sample_id ''fld_'' (CHR ''2''), JArr [JStr (sample_id ''opt_'' (CHR ''A''))])]"

definition succeeds :: "'e + 'a \<Rightarrow> bool" where
  "succeeds r = (case r of Inl _ \<Rightarrow> False | Inr _ \<Rightarrow> True)"

lemma succeedsE: "succeeds r \<Longrightarrow> \<exists>x. r = Inr x"
  by (auto simp: succeeds_def split: sum.splits)

theorem create_values_well_formed_witness:
  "\<exists>m query search. NormalizeCreateValues ascii_lib sample_values sample_fields = Inr (Some (m, query, search))
     \<and> fmdom m = fmdom sample_values \<and> record_ok ascii_lib sample_fields m"
proof -
  have "succeeds (NormalizeCreateValues ascii_lib sample_values sample_fields)" by code_simp
  then obtain r where r: "NormalizeCreateValues ascii_lib sample_values sample_fields = Inr r"
    using succeedsE by blast
  show ?thesis using create_values_well_formed[OF lib_ok_ascii r] r by blast
qed

theorem update_values_well_formed_witness:
  "\<exists>m query search.
     NormalizeUpdatedValues ascii_lib sample_values
       (fmap_of_list [(sample_id ''fld_'' (CHR ''1''), JStr ''Bye'')]) [sample_id ''fld_'' (CHR ''2'')]
       sample_fields = Inr (Some (m, query, search))
     \<and> record_ok ascii_lib sample_fields m \<and> fmlookup m (sample_id ''fld_'' (CHR ''2'')) = None"
proof -
  have ok: "record_ok ascii_lib sample_fields sample_values" by code_simp
  have "succeeds (NormalizeUpdatedValues ascii_lib sample_values
       (fmap_of_list [(sample_id ''fld_'' (CHR ''1''), JStr ''Bye'')]) [sample_id ''fld_'' (CHR ''2'')]
       sample_fields)" by code_simp
  then obtain r where r: "NormalizeUpdatedValues ascii_lib sample_values
       (fmap_of_list [(sample_id ''fld_'' (CHR ''1''), JStr ''Bye'')]) [sample_id ''fld_'' (CHR ''2'')]
       sample_fields = Inr r"
    using succeedsE by blast
  obtain m query search where m: "r = Some (m, query, search)" "record_ok ascii_lib sample_fields m"
    "\<forall>k \<in> set [sample_id ''fld_'' (CHR ''2'')]. fmlookup m k = None \<and> writable sample_fields k \<noteq> None"
    using update_values_well_formed[OF lib_ok_ascii ok r] by blast
  then have "fmlookup m (sample_id ''fld_'' (CHR ''2'')) = None" by simp
  with m(2) r[unfolded m(1)] show ?thesis by (intro exI conjI)
qed

definition sample_location :: json where
  "sample_location = JObj (fmap_of_list
     [(''label'', JStr '' Home ''), (''lat'', JNum (Fin 10)), (''lng'', JNum (Fin 20))])"

theorem normalized_value_stable_witness:
  "\<exists>m. normalize_field_value ascii_lib ''/values/x'' sample_location JNull
         (sample_field ''x'' ''location'' EmptyConfig) = Inr (JObj m)
     \<and> is_text (\<lambda>s. s = ''Home'') (fm_get m ''label'')
     \<and> normalize_field_value ascii_lib ''/set/x'' (JObj m) (JObj m) (sample_field ''x'' ''location'' EmptyConfig)
         = Inr (JObj m)"
proof -
  let ?f = "sample_field ''x'' ''location'' EmptyConfig"
  have "(case normalize_field_value ascii_lib ''/values/x'' sample_location JNull ?f of
           Inr (JObj m) \<Rightarrow> is_text (\<lambda>s. s = ''Home'') (fm_get m ''label'') | _ \<Rightarrow> False)"
    by code_simp
  then obtain m where m: "normalize_field_value ascii_lib ''/values/x'' sample_location JNull ?f = Inr (JObj m)"
    "is_text (\<lambda>s. s = ''Home'') (fm_get m ''label'')" by (auto split: sum.splits json.splits)
  from normalized_value_stable[OF lib_ok_ascii m(1)] m show ?thesis by (intro exI conjI)
qed


end
