(* ===== verification/Cursor.thy ===== *)
theory Cursor
  imports Domain
begin

text \<open>
  Signed cursors: internal/cursor/signer.go.  A cursor is four parts joined with dots: the
  version, the purpose, the payload and its HMAC, the last two in unpadded URL base 64.
  \<open>hmac\<close> is HMAC-SHA-256 (an argument: nothing below needs its strength, which would say that
  only a holder of the key can produce the fourth part); the JSON encoding of the payload type is
  the pair \<open>marshal\<close>, \<open>unmarshal\<close>.  Base 64 is defined here in full: the encoder of
  \<open>base64.RawURLEncoding\<close> and its decoder, which skips CR and LF and ignores the spare bits of
  the last character.

  What a client of the signer may rely on is the locale \<open>token_codec\<close>; the page services are
  written against it.
\<close>

section \<open>\<open>base64.RawURLEncoding\<close>\<close>

definition b64_alphabet :: string where
  "b64_alphabet = ''ABCDEFGHIJKLMNOPQRSTUVWXYZabcdefghijklmnopqrstuvwxyz0123456789-_''"

definition b64_char :: "nat \<Rightarrow> char" where
  "b64_char d = b64_alphabet ! d"

fun index_in :: "'a list \<Rightarrow> 'a \<Rightarrow> nat option" where
  "index_in [] y = None"
| "index_in (x # xs) y = (if x = y then Some 0 else map_option Suc (index_in xs y))"

definition b64_index :: "char \<Rightarrow> nat option" where
  "b64_index c = index_in b64_alphabet c"

fun b64_digits :: "nat list \<Rightarrow> nat list" where
  "b64_digits [] = []"
| "b64_digits [a] = [a div 4, a mod 4 * 16]"
| "b64_digits [a, b] = [a div 4, a mod 4 * 16 + b div 16, b mod 16 * 4]"
| "b64_digits (a # b # c # rest) =
     [a div 4, a mod 4 * 16 + b div 16, b mod 16 * 4 + c div 64, c mod 64] @ b64_digits rest"

fun b64_bytes :: "nat list \<Rightarrow> nat list option" where
  "b64_bytes [] = Some []"
| "b64_bytes [d0] = None"
| "b64_bytes [d0, d1] = Some [d0 * 4 + d1 div 16]"
| "b64_bytes [d0, d1, d2] = Some [d0 * 4 + d1 div 16, d1 mod 16 * 16 + d2 div 4]"
| "b64_bytes (d0 # d1 # d2 # d3 # rest) =
     map_option (\<lambda>bs. [d0 * 4 + d1 div 16, d1 mod 16 * 16 + d2 div 4, d2 mod 4 * 64 + d3] @ bs)
       (b64_bytes rest)"

definition b64_encode :: "string \<Rightarrow> string" where
  "b64_encode s = map b64_char (b64_digits (map of_char s))"

fun all_some :: "'a option list \<Rightarrow> 'a list option" where
  "all_some [] = Some []"
| "all_some (x # xs) =
     (case x of None \<Rightarrow> None | Some a \<Rightarrow> map_option (\<lambda>as. a # as) (all_some xs))"

definition b64_decode :: "string \<Rightarrow> string option" where
  "b64_decode s =
     (case all_some (map b64_index (filter (\<lambda>c. byte c \<noteq> 10 \<and> byte c \<noteq> 13) s)) of
        None \<Rightarrow> None
      | Some ds \<Rightarrow> map_option (map char_of) (b64_bytes ds))"

section \<open>The signer\<close>

definition version :: string where "version = ''v1''"

record 'p codec =
  hmac :: "string \<Rightarrow> string \<Rightarrow> string"
  marshal_payload :: "'p \<Rightarrow> string option"
  unmarshal_payload :: "string \<Rightarrow> 'p option"

text \<open>A \<open>Signer\<close> is its key; \<open>NewSigner\<close> refuses a key that is not 32 bytes long.\<close>

definition NewSigner :: "string \<Rightarrow> string + string" where
  "NewSigner key =
     (if length key \<noteq> 32 then Inl ''cursor key must be exactly 32 bytes'' else Inr key)"

definition derive_purpose_key :: "'p codec \<Rightarrow> string \<Rightarrow> string \<Rightarrow> string" where
  "derive_purpose_key C key purpose = hmac C key (''loomtable-cursor/'' @ purpose)"

text \<open>\<open>Encode\<close>: \<open>Inl\<close> is the error text.\<close>

definition cursor_encode :: "'p codec \<Rightarrow> string \<Rightarrow> string \<Rightarrow> 'p \<Rightarrow> string + string" where
  "cursor_encode C key purpose payload =
     (if length key \<noteq> 32 \<or> purpose = [] then Inl ''invalid cursor''
      else case marshal_payload C payload of
        None \<Rightarrow> Inl ''payload cannot be encoded''
      | Some encodedPayload \<Rightarrow>
          (let payloadPart = b64_encode encodedPayload;
               message = version @ ''.'' @ purpose @ ''.'' @ payloadPart;
               signature = hmac C (derive_purpose_key C key purpose) message
           in Inr (message @ ''.'' @ b64_encode signature)))"

text \<open>\<open>Decode\<close>: \<open>None\<close> is \<open>ErrInvalid\<close>.\<close>

definition cursor_decode :: "'p codec \<Rightarrow> string \<Rightarrow> string \<Rightarrow> string \<Rightarrow> 'p option" where
  "cursor_decode C key purpose token =
     (if length key \<noteq> 32 \<or> purpose = [] then None
      else let parts = split_at (CHR ''.'') token in
      if length parts \<noteq> 4 \<or> parts ! 0 \<noteq> version \<or> parts ! 1 \<noteq> purpose then None
      else let message = join ''.'' (take 3 parts);
               expected = hmac C (derive_purpose_key C key purpose) message in
      case b64_decode (parts ! 3) of
        None \<Rightarrow> None
      | Some provided \<Rightarrow>
          if provided \<noteq> expected then None
          else (case b64_decode (parts ! 2) of
                  None \<Rightarrow> None
                | Some payload \<Rightarrow> unmarshal_payload C payload))"

section \<open>Base 64 round trip\<close>

lemma index_in_nth: "distinct xs \<Longrightarrow> i < length xs \<Longrightarrow> index_in xs (xs ! i) = Some i"
  by (induction xs arbitrary: i) (auto simp: nth_Cons split: nat.splits)

lemma length_b64_alphabet [simp]: "length b64_alphabet = 64"
  by (simp add: b64_alphabet_def)

lemma b64_index_char: "d < 64 \<Longrightarrow> b64_index (b64_char d) = Some d"
  unfolding b64_index_def b64_char_def by (rule index_in_nth) (simp_all add: b64_alphabet_def)

lemma b64_alphabet_plain:
  "c \<in> set b64_alphabet \<Longrightarrow> byte c \<noteq> 10 \<and> byte c \<noteq> 13 \<and> c \<noteq> CHR ''.''"
  unfolding b64_alphabet_def by auto

lemma b64_char_plain: "d < 64 \<Longrightarrow> byte (b64_char d) \<noteq> 10 \<and> byte (b64_char d) \<noteq> 13 \<and> b64_char d \<noteq> CHR ''.''"
  unfolding b64_char_def by (rule b64_alphabet_plain) simp

lemma b64_digits_less: "\<forall>b \<in> set bs. b < 256 \<Longrightarrow> \<forall>d \<in> set (b64_digits bs). d < 64"
  by (induction bs rule: b64_digits.induct) (auto simp: less_mult_imp_div_less)

lemma b64_bytes_digits: "\<forall>b \<in> set bs. b < 256 \<Longrightarrow> b64_bytes (b64_digits bs) = Some bs"
proof (induction bs rule: b64_digits.induct)
  case (3 a b)
  have "b div 16 < 16" using 3 by (simp add: less_mult_imp_div_less)
  then
  have "(a mod 4 * 16 + b div 16) div 16 = a mod 4" "(a mod 4 * 16 + b div 16) mod 16 = b div 16"
    by (simp_all add: div_add1_eq)
  then show ?case using 3 by simp
next
  case (4 a b c rest)
  have "b div 16 < 16" "c div 64 < 4" using 4 by (simp_all add: less_mult_imp_div_less)
  then
  have "(a mod 4 * 16 + b div 16) div 16 = a mod 4" "(a mod 4 * 16 + b div 16) mod 16 = b div 16"
    "(b mod 16 * 4 + c div 64) div 4 = b mod 16" "(b mod 16 * 4 + c div 64) mod 4 = c div 64"
    by (simp_all add: div_add1_eq)
  then show ?case using 4 by simp
qed simp_all

lemma all_some_map: "\<forall>x \<in> set xs. f (g x) = Some x \<Longrightarrow> all_some (map f (map g xs)) = Some xs"
  by (induction xs) auto

lemma b64_round_trip: "b64_decode (b64_encode s) = Some s"
proof -
  let ?ds = "b64_digits (map of_char s)"
  have small: "\<forall>d \<in> set ?ds. d < 64" by (rule b64_digits_less) auto
  have "filter (\<lambda>c. byte c \<noteq> 10 \<and> byte c \<noteq> 13) (map b64_char ?ds) = map b64_char ?ds"
    using small b64_char_plain by (auto simp: filter_id_conv)
  moreover have "all_some (map b64_index (map b64_char ?ds)) = Some ?ds"
    using small by (intro all_some_map) (auto simp: b64_index_char)
  moreover have "b64_bytes ?ds = Some (map of_char s)" by (rule b64_bytes_digits) auto
  ultimately show ?thesis by (simp add: b64_decode_def b64_encode_def comp_def)
qed

lemma b64_encode_no_dot: "CHR ''.'' \<notin> set (b64_encode s)"
proof -
  have "\<forall>d \<in> set (b64_digits (map of_char s)). d < 64" by (rule b64_digits_less) auto
  then show ?thesis using b64_char_plain by (fastforce simp: b64_encode_def)
qed

section \<open>The parts of a token\<close>

lemma version_no_dot: "CHR ''.'' \<notin> set version"
  by (simp add: version_def)

lemma split_token:
  assumes "CHR ''.'' \<notin> set purpose" "CHR ''.'' \<notin> set a" "CHR ''.'' \<notin> set b"
  shows "split_at (CHR ''.'') (version @ ''.'' @ purpose @ ''.'' @ a @ ''.'' @ b) = [version, purpose, a, b]"
  using assms version_no_dot by (simp add: split_at_append split_at_no_sep)

text \<open>An accepted token is its message, a dot, and a part that decodes to the MAC of the message.\<close>

lemma cursor_decode_authentic:
  assumes "cursor_decode C key purpose token = Some p"
  shows "\<exists>payloadPart macPart payload.
     token = version @ ''.'' @ purpose @ ''.'' @ payloadPart @ ''.'' @ macPart
     \<and> b64_decode macPart = Some (hmac C (derive_purpose_key C key purpose)
                                     (version @ ''.'' @ purpose @ ''.'' @ payloadPart))
     \<and> b64_decode payloadPart = Some payload \<and> unmarshal_payload C payload = Some p"
proof -
  define parts where "parts = split_at (CHR ''.'') token"
  have l: "length parts = 4" "parts ! 0 = version" "parts ! 1 = purpose"
    using assms by (auto simp: cursor_decode_def Let_def parts_def split: if_splits)
  then obtain a b where parts: "parts = [version, purpose, a, b]"
    by (auto simp: length_Suc_conv numeral_eq_Suc)
  have "token = join ''.'' parts" by (simp add: parts_def join_split_at)
  then have token: "token = version @ ''.'' @ purpose @ ''.'' @ a @ ''.'' @ b" by (simp add: parts)
  have "b64_decode b = Some (hmac C (derive_purpose_key C key purpose)
            (version @ ''.'' @ purpose @ ''.'' @ a))"
    "\<exists>payload. b64_decode a = Some payload \<and> unmarshal_payload C payload = Some p"
    using assms parts
    by (auto simp: cursor_decode_def Let_def parts_def split: if_splits option.splits)
  with token show ?thesis by blast
qed

text \<open>The other direction: everything a token needs to be accepted.\<close>

lemma cursor_decode_accepts:
  assumes "length key = 32" "purpose \<noteq> []" "CHR ''.'' \<notin> set purpose"
    "CHR ''.'' \<notin> set payloadPart" "CHR ''.'' \<notin> set macPart"
    "b64_decode macPart = Some (hmac C (derive_purpose_key C key purpose)
                                 (version @ ''.'' @ purpose @ ''.'' @ payloadPart))"
    "b64_decode payloadPart = Some payload"
  shows "cursor_decode C key purpose (version @ ''.'' @ purpose @ ''.'' @ payloadPart @ ''.'' @ macPart)
     = unmarshal_payload C payload"
  using split_token[OF assms(3-5)] assms by (simp add: cursor_decode_def Let_def)

lemma cursor_round_trip:
  assumes "cursor_encode C key purpose p = Inr token" "CHR ''.'' \<notin> set purpose"
    "\<And>s. marshal_payload C p = Some s \<Longrightarrow> unmarshal_payload C s = Some p"
  shows "cursor_decode C key purpose token = Some p"
proof -
  obtain s where k: "length key = 32" "purpose \<noteq> []" "marshal_payload C p = Some s"
    using assms(1) by (auto simp: cursor_encode_def Let_def split: if_splits option.splits)
  let ?m = "version @ ''.'' @ purpose @ ''.'' @ b64_encode s"
  have token: "token = version @ ''.'' @ purpose @ ''.'' @ b64_encode s @ ''.''
      @ b64_encode (hmac C (derive_purpose_key C key purpose) ?m)"
    using assms(1) k by (simp add: cursor_encode_def Let_def)
  have "cursor_decode C key purpose token = unmarshal_payload C s"
    unfolding token using k assms(2)
    by (intro cursor_decode_accepts) (simp_all add: b64_encode_no_dot b64_round_trip)
  then show ?thesis using assms(3)[OF k(3)] by simp
qed

lemma cursor_purpose_separated:
  assumes "cursor_encode C key purpose p = Inr token" "CHR ''.'' \<notin> set purpose" "purpose' \<noteq> purpose"
  shows "cursor_decode C' key' purpose' token = None"
proof -
  obtain s where k: "marshal_payload C p = Some s"
    using assms(1) by (auto simp: cursor_encode_def Let_def split: if_splits option.splits)
  then have "split_at (CHR ''.'') token = [version, purpose, b64_encode s, b64_encode
      (hmac C (derive_purpose_key C key purpose) (version @ ''.'' @ purpose @ ''.'' @ b64_encode s))]"
    using assms(1) split_token[OF assms(2), of "b64_encode s"]
    by (auto simp: cursor_encode_def Let_def b64_encode_no_dot split: if_splits)
  then show ?thesis using assms(3) by (simp add: cursor_decode_def Let_def)
qed

section \<open>What a client relies on\<close>

text \<open>
  A source of tokens: an issued token is accepted for the purpose it was issued for, and for no
  other.  \<open>sound p\<close> says that the payload survives its own encoding.
\<close>

locale token_codec =
  fixes enc :: "string \<Rightarrow> 'p \<Rightarrow> 'e + string"
    and dec :: "string \<Rightarrow> string \<Rightarrow> 'p option"
    and sound :: "'p \<Rightarrow> bool"
    and purposes :: "string set"
  assumes issued: "purpose \<in> purposes \<Longrightarrow> sound p \<Longrightarrow> enc purpose p = Inr t \<Longrightarrow> dec purpose t = Some p"
    and separated: "purpose \<in> purposes \<Longrightarrow> purpose' \<noteq> purpose \<Longrightarrow> enc purpose p = Inr t \<Longrightarrow>
                      dec purpose' t = None"
begin

lemma accepted_purpose:
  "purpose \<in> purposes \<Longrightarrow> enc purpose p = Inr t \<Longrightarrow> dec purpose' t = Some q \<Longrightarrow> purpose' = purpose"
  using separated by fastforce

lemma issued_inject:
  "purpose \<in> purposes \<Longrightarrow> purpose' \<in> purposes \<Longrightarrow> sound p \<Longrightarrow> sound q \<Longrightarrow>
     enc purpose p = Inr t \<Longrightarrow> enc purpose' q = Inr t \<Longrightarrow> purpose' = purpose \<and> q = p"
  using issued accepted_purpose by (metis option.inject)

text \<open>A test on the payload of an issued token is a test on what was put in.\<close>

lemma issued_passes:
  "purpose \<in> purposes \<Longrightarrow> sound p \<Longrightarrow> enc purpose p = Inr t \<Longrightarrow>
     (case dec purpose' t of None \<Rightarrow> False | Some q \<Rightarrow> P q) \<longleftrightarrow> purpose' = purpose \<and> P p"
  using issued separated by (cases "purpose' = purpose") auto

end

definition codec_sound :: "'p codec \<Rightarrow> 'p \<Rightarrow> bool" where
  "codec_sound C p = (\<forall>s. marshal_payload C p = Some s \<longrightarrow> unmarshal_payload C s = Some p)"

definition dotless :: "string set" where
  "dotless = {purpose. CHR ''.'' \<notin> set purpose}"

interpretation signer: token_codec "cursor_encode C key" "cursor_decode C key" "codec_sound C" dotless
  for C key
proof unfold_locales
  show "cursor_decode C key purpose t = Some p"
    if "purpose \<in> dotless" "codec_sound C p" "cursor_encode C key purpose p = Inr t" for purpose p t
    using cursor_round_trip[OF that(3)] that(1,2) by (simp add: dotless_def codec_sound_def)
  show "cursor_decode C key purpose' t = None"
    if "purpose \<in> dotless" "purpose' \<noteq> purpose" "cursor_encode C key purpose p = Inr t" for purpose purpose' p t
    using cursor_purpose_separated[OF that(3)] that(1,2) by (simp add: dotless_def)
qed

section \<open>Properties\<close>

text \<open>C31: a cursor that was issued is accepted under the key and the purpose it was issued for, with
  exactly the payload that was put in, and is rejected for every other purpose, even under another
  key; and one cursor is never issued for two payloads.\<close>

theorem cursor_issued_accepted:
  assumes "cursor_encode C key purpose p = Inr token" and "CHR ''.'' \<notin> set purpose"
    and "codec_sound C p"
  shows "cursor_decode C key purpose token = Some p
     \<and> (\<forall>key' purpose'. purpose' \<noteq> purpose \<longrightarrow> cursor_decode C key' purpose' token = None)
     \<and> (\<forall>q. codec_sound C q \<longrightarrow> cursor_encode C key purpose q = Inr token \<longrightarrow> q = p)"
proof (intro conjI allI impI)
  have d: "purpose \<in> dotless" using assms(2) by (simp add: dotless_def)
  show "cursor_decode C key purpose token = Some p" by (rule signer.issued[OF d assms(3,1)])
  show "cursor_decode C key' purpose' token = None" if "purpose' \<noteq> purpose" for key' purpose'
    by (rule cursor_purpose_separated[OF assms(1,2) that])
  show "q = p" if "codec_sound C q" "cursor_encode C key purpose q = Inr token" for q
    using signer.issued_inject[OF d d assms(3) that(1) assms(1) that(2)] by simp
qed

text \<open>C32: a cursor is accepted only if it is authentic: it has exactly four parts, names the version and
  the purpose asked for, and its last part is the MAC, under the key derived for that purpose, of
  everything before it.\<close>

theorem cursor_accepted_authentic:
  assumes "cursor_decode C key purpose token = Some p"
  shows "length key = 32 \<and> (\<exists>payloadPart macPart payload.
     token = version @ ''.'' @ purpose @ ''.'' @ payloadPart @ ''.'' @ macPart
     \<and> b64_decode macPart = Some (hmac C (derive_purpose_key C key purpose)
                                     (version @ ''.'' @ purpose @ ''.'' @ payloadPart))
     \<and> b64_decode payloadPart = Some payload \<and> unmarshal_payload C payload = Some p)"
proof -
  have "length key = 32" using assms by (auto simp: cursor_decode_def split: if_splits)
  then show ?thesis using cursor_decode_authentic[OF assms] by blast
qed

text \<open>A codec of strings with a toy MAC, at which the properties apply.\<close>

definition sample_codec :: "string codec" where
  "sample_codec =
     \<lparr>hmac = (\<lambda>k m. rev m @ k), marshal_payload = (\<lambda>s. Some s), unmarshal_payload = (\<lambda>s. Some s)\<rparr>"

lemma sample_codec_sound: "codec_sound sample_codec p"
  by (simp add: codec_sound_def sample_codec_def)

lemma sample_cursor: "\<exists>t. cursor_encode sample_codec (replicate 32 (CHR ''k'')) ''change'' ''7'' = Inr t"
  by (simp add: cursor_encode_def sample_codec_def Let_def)

theorem cursor_issued_accepted_witness:
  "\<exists>t. cursor_encode sample_codec (replicate 32 (CHR ''k'')) ''change'' ''7'' = Inr t
     \<and> cursor_decode sample_codec (replicate 32 (CHR ''k'')) ''change'' t = Some ''7''
     \<and> cursor_decode sample_codec (replicate 32 (CHR ''k'')) ''query'' t = None"
proof -
  obtain t where t: "cursor_encode sample_codec (replicate 32 (CHR ''k'')) ''change'' ''7'' = Inr t"
    using sample_cursor by blast
  show ?thesis using cursor_issued_accepted[OF t _ sample_codec_sound] t by auto
qed

theorem cursor_accepted_authentic_witness:
  "\<exists>t macPart. cursor_decode sample_codec (replicate 32 (CHR ''k'')) ''change'' t = Some ''7''
     \<and> (\<exists>payloadPart. t = version @ ''.'' @ ''change'' @ ''.'' @ payloadPart @ ''.'' @ macPart)"
proof -
  obtain t where t: "cursor_encode sample_codec (replicate 32 (CHR ''k'')) ''change'' ''7'' = Inr t"
    using sample_cursor by blast
  have d: "cursor_decode sample_codec (replicate 32 (CHR ''k'')) ''change'' t = Some ''7''"
    using t by (intro signer.issued sample_codec_sound) (simp_all add: dotless_def)
  show ?thesis using cursor_accepted_authentic[OF d] d by blast
qed

end
