(* ===== verification/Query.thy ===== *)
theory Query
  imports Values
begin

text \<open>
  The plan of a record query: the pure part of internal/record/query.go.  \<open>build_query_plan\<close>
  merges the request with the defaults of the View, checks the projection, the filter tree and the
  sort against the Fields of the Table, normalises the values they compare with and computes the
  fingerprint and the schema hash that bind a cursor to the query.

  The code normalises the filter and the sort in place; here the walk returns the node it
  leaves.  The filter value of a rule is the JSON value its bytes hold.  A nil slice and an empty
  one are one value: \<open>append([]T(nil), xs...)\<close> is nil when \<open>xs\<close> is empty, so the tests for nil of
  the code are tests for emptiness.  SHA-256 over the canonical JSON text of a struct is the
  argument \<open>digest\<close>, a function of the struct; \<open>None\<close> is an error of \<open>json.Marshal\<close>.
\<close>

section \<open>Requests, metadata, plans\<close>

record query_request =
  qr_view :: string
  qr_view_present :: bool
  qr_lifecycle :: string
  qr_cursor :: string
  qr_limit :: int
  qr_projection :: "string list"
  qr_projection_present :: bool
  qr_filter :: "filter_node option"
  qr_filter_present :: bool
  qr_sort :: "sort_spec list"
  qr_sort_present :: bool
  qr_search :: string
  qr_search_present :: bool
  qr_scope_token :: string
  qr_excluded :: "string list"

record query_metadata =
  qm_table :: string
  qm_primary :: string
  qm_fields :: fields
  qm_view :: "view option"

record query_plan =
  qp_lifecycle :: string
  qp_limit :: int
  qp_projection :: "string list"
  qp_filter :: "filter_node option"
  qp_sort :: "sort_spec list"
  qp_manual_sort :: bool
  qp_search :: string
  qp_fields :: fields
  qp_fingerprint :: string
  qp_schema_hash :: string

record canonical_query =
  cq_view :: string
  cq_lifecycle :: string
  cq_limit :: int
  cq_projection :: "string list"
  cq_filter :: "filter_node option"
  cq_sort :: "sort_spec list"
  cq_search :: string

record canonical_schema =
  cs_view_revision :: int
  cs_fields :: "(string \<times> int) list"

record digest =
  digest_query :: "canonical_query \<Rightarrow> string option"
  digest_schema :: "canonical_schema \<Rightarrow> string option"

definition default_query_limit :: int where "default_query_limit = 100"
definition max_query_limit :: int where "max_query_limit = 500"
definition query_cursor_ttl :: int where "query_cursor_ttl = 30 * 60"

section \<open>Small helpers\<close>

definition required_query_issue :: "string \<Rightarrow> string \<Rightarrow> issue" where
  "required_query_issue p m = Issue p ''required'' m"

definition query_value_type_error :: "string \<Rightarrow> string \<Rightarrow> app_error" where
  "query_value_type_error p m = NewValidationError [Issue (p @ ''/value'') ''type'' m]"

definition field_owns_option :: "field_def \<Rightarrow> string \<Rightarrow> bool" where
  "field_owns_option f optionID =
     (case select_options (fe_config f) of
        None \<Rightarrow> False
      | Some (active, deleted) \<Rightarrow> List.member active optionID \<or> List.member deleted optionID)"

text \<open>The test \<open>!id.Valid || !exists || DeletedAt != nil\<close> and the Field it lets through.\<close>

definition active_field :: "fields \<Rightarrow> string \<Rightarrow> field_def option" where
  "active_field fs fieldID =
     (case fmlookup fs fieldID of
        None \<Rightarrow> None
      | Some f \<Rightarrow> if \<not> Valid FieldPrefix fieldID \<or> fe_deleted_at f \<noteq> None then None else Some f)"

fun compact_strings :: "string list \<Rightarrow> string list" where
  "compact_strings (x # y # xs) =
     (if x = y then compact_strings (y # xs) else x # compact_strings (y # xs))"
| "compact_strings xs = xs"

definition view_configuration_error :: "query_metadata \<Rightarrow> string list \<Rightarrow> app_error" where
  "view_configuration_error meta fieldIDs =
     ViewConfigurationRequired (case qm_view meta of None \<Rightarrow> '''' | Some v \<Rightarrow> vw_id v)
       (compact_strings (sort fieldIDs))"

text \<open>\<open>cloneFilter\<close> copies a tree; without a heap it is the identity, node by node.\<close>

fun clone_node :: "filter_node \<Rightarrow> filter_node" where
  "clone_node (FilterNode k op cs f v) = FilterNode k op (map clone_node cs) f v"

definition clone_filter :: "filter_node option \<Rightarrow> filter_node option" where
  "clone_filter f = map_option clone_node f"

definition view_query_defaults ::
  "query_metadata \<Rightarrow> string list \<times> filter_node option \<times> sort_spec list" where
  "view_query_defaults meta =
     (case qm_view meta of
        None \<Rightarrow> ([], None, [])
      | Some v \<Rightarrow>
          (case vw_config v of
             GridConfig config \<Rightarrow> (gc_projection config, clone_filter (gc_filter config), gc_sort config)
           | MapConfig config \<Rightarrow> ([], clone_filter (mc_filter config), [])))"

definition manual_sort :: "query_metadata \<Rightarrow> sort_spec list \<Rightarrow> bool" where
  "manual_sort meta sortSpecs =
     (case qm_view meta of
        None \<Rightarrow> False
      | Some v \<Rightarrow>
          if length sortSpecs > 0 then False
          else (case vw_config v of GridConfig config \<Rightarrow> gc_manual_sort config | MapConfig _ \<Rightarrow> False))"

text \<open>The Fields of the map that are not deleted, by position and then by ID.\<close>

definition fm_values :: "('k::linorder, 'v) fmap \<Rightarrow> 'v list" where
  "fm_values m = map (\<lambda>k. the (fmlookup m k)) (fm_keys m)"

definition active_field_ids :: "fields \<Rightarrow> string list" where
  "active_field_ids fs =
     map fe_id (sort_key (\<lambda>f. (fe_position f, fe_id f))
       (filter (\<lambda>f. fe_deleted_at f = None) (fm_values fs)))"

section \<open>Projection\<close>

record walk_state =
  wk_count :: nat
  wk_invalid :: "string list"
  wk_issues :: "issue list"

definition no_walk :: walk_state where
  "no_walk = \<lparr>wk_count = 0, wk_invalid = [], wk_issues = []\<rparr>"

definition add_issues :: "issue list \<Rightarrow> walk_state \<Rightarrow> walk_state" where
  "add_issues new st = st\<lparr>wk_issues := wk_issues st @ new\<rparr>"

definition add_invalid :: "string \<Rightarrow> walk_state \<Rightarrow> walk_state" where
  "add_invalid i st = st\<lparr>wk_invalid := wk_invalid st @ [i]\<rparr>"

text \<open>A reference to a Field that is not there: an issue of the request, unless the View has it.\<close>

definition unavailable :: "bool \<Rightarrow> string \<Rightarrow> string \<Rightarrow> walk_state \<Rightarrow> walk_state" where
  "unavailable fromView fieldID p st =
     (let st' = add_invalid fieldID st in
      if fromView then st'
      else add_issues [Issue p ''invalidReference'' ''Field is foreign, unknown, or deleted''] st')"

text \<open>How each of the three checks ends.\<close>

definition walk_result :: "query_metadata \<Rightarrow> bool \<Rightarrow> walk_state \<Rightarrow> 'a \<Rightarrow> 'a res" where
  "walk_result meta fromView st x =
     fail_if (fromView \<and> length (wk_invalid st) > 0) (view_configuration_error meta (wk_invalid st))
    (fail_if (length (wk_issues st) > 0) (NewValidationError (wk_issues st))
    (Inr x))"

fun projection_loop ::
  "fields \<Rightarrow> bool \<Rightarrow> nat \<Rightarrow> string list \<Rightarrow> string list \<Rightarrow> walk_state \<Rightarrow> walk_state" where
  "projection_loop fs fromView index seen [] st = st"
| "projection_loop fs fromView index seen (fieldID # rest) st =
     (let p = ''/projection/'' @ show_nat index in
      if List.member seen fieldID then
        projection_loop fs fromView (Suc index) seen rest
          (add_issues [Issue p ''duplicate'' ''Field ID appears more than once''] st)
      else
        projection_loop fs fromView (Suc index) (fieldID # seen) rest
          (case active_field fs fieldID of None \<Rightarrow> unavailable fromView fieldID p st | Some _ \<Rightarrow> st))"

definition validate_projection :: "string list \<Rightarrow> query_metadata \<Rightarrow> bool \<Rightarrow> unit res" where
  "validate_projection projection meta fromView =
     fail_if (length projection > 500)
       (NewValidationError [Issue ''/projection'' ''limit'' ''projection cannot contain more than 500 Fields''])
    (walk_result meta fromView (projection_loop (qm_fields meta) fromView 0 [] projection no_walk) ())"

section \<open>Filters\<close>

definition text_operators :: "string list" where
  "text_operators =
     [''is'', ''isNot'', ''contains'', ''notContains'', ''startsWith'', ''endsWith'', ''isEmpty'', ''isNotEmpty'']"

definition order_operators :: "string list" where
  "order_operators =
     [''is'', ''isNot'', ''greaterThan'', ''greaterOrEqual'', ''lessThan'', ''lessOrEqual'', ''isEmpty'', ''isNotEmpty'']"

definition allowed_operators :: "string \<Rightarrow> string list" where
  "allowed_operators t =
     (if t = ''text'' \<or> t = ''longText'' \<or> t = ''url'' then text_operators
      else if t = ''number'' \<or> t = ''date'' then order_operators
      else if t = ''checkbox'' then [''is'', ''isNot'']
      else if t = ''select'' then [''is'', ''isNot'', ''isEmpty'', ''isNotEmpty'']
      else if t = ''multiSelect'' then [''includes'', ''excludes'', ''isEmpty'', ''isNotEmpty'']
      else if t = ''location'' \<or> t = ''attachment'' then [''isEmpty'', ''isNotEmpty'']
      else [])"

definition empty_operator :: "string \<Rightarrow> bool" where
  "empty_operator op = (op = ''isEmpty'' \<or> op = ''isNotEmpty'')"

definition rule_value :: "lib \<Rightarrow> string \<Rightarrow> field_def \<Rightarrow> json \<Rightarrow> json res" where
  "rule_value L p f v =
     (let t = fe_type f in
      if t = ''text'' \<or> t = ''longText'' \<or> t = ''url'' then
        (case v of JStr s \<Rightarrow> Inr (JStr (FoldKey L s))
         | _ \<Rightarrow> Inl (query_value_type_error p ''value must be a string''))
      else if t = ''number'' then
        (case v of JNum (Fin q) \<Rightarrow> Inr (JNum (Fin q))
         | _ \<Rightarrow> Inl (query_value_type_error p ''value must be a finite number''))
      else if t = ''checkbox'' then
        (case v of JBool b \<Rightarrow> Inr (JBool b)
         | _ \<Rightarrow> Inl (query_value_type_error p ''value must be a boolean''))
      else if t = ''date'' then
        (case v of JStr s \<Rightarrow>
             if valid_date s then Inr (JStr s)
             else Inl (NewValidationError [Issue (p @ ''/value'') ''format'' ''value must be a YYYY-MM-DD date''])
         | _ \<Rightarrow> Inl (NewValidationError [Issue (p @ ''/value'') ''format'' ''value must be a YYYY-MM-DD date'']))
      else if t = ''select'' \<or> t = ''multiSelect'' then
        (case v of JStr s \<Rightarrow>
             if \<not> Valid OptionPrefix s then Inl (query_value_type_error p ''value must be an Option ID'')
             else if \<not> field_owns_option f s then
               Inl (NewValidationError [Issue (p @ ''/value'') ''invalidReference''
                      ''Option does not belong to this Field''])
             else Inr (JStr s)
         | _ \<Rightarrow> Inl (query_value_type_error p ''value must be an Option ID''))
      else Inr JNull)"

definition validate_filter_rule :: "lib \<Rightarrow> string \<Rightarrow> filter_node \<Rightarrow> field_def \<Rightarrow> filter_node res" where
  "validate_filter_rule L p node f =
     (let op = fn_operator node in
      if \<not> List.member (allowed_operators (fe_type f)) op then Inl (UnsupportedOperator (fe_id f) op)
      else if empty_operator op then
        (if fn_value node \<noteq> None
         then Inl (NewValidationError
                [Issue (p @ ''/value'') ''format'' ''value must be omitted for an empty operator''])
         else Inr node)
      else (case fn_value node of
          None \<Rightarrow> Inl (NewValidationError [required_query_issue (p @ ''/value'') ''value is required for this operator''])
        | Some JNull \<Rightarrow> Inl (NewValidationError [required_query_issue (p @ ''/value'') ''value is required for this operator''])
        | Some v \<Rightarrow> ok_then (rule_value L p f v)
            (\<lambda>v'. Inr (FilterNode (fn_kind node) op (fn_children node) (fn_field node) (Some v')))))"

definition group_issues :: "string \<Rightarrow> filter_node \<Rightarrow> issue list" where
  "group_issues p node =
     (if fn_operator node = [] then [required_query_issue (p @ ''/operator'') ''operator is required'']
      else if fn_operator node \<noteq> ''and'' \<and> fn_operator node \<noteq> ''or''
      then [Issue (p @ ''/operator'') ''format'' ''group operator must be and or or''] else [])
     @ (if length (fn_children node) = 0
        then [required_query_issue (p @ ''/children'') ''children must contain at least one node''] else [])
     @ (if fn_field node \<noteq> [] \<or> fn_value node \<noteq> None
        then [Issue p ''format'' ''group cannot contain rule properties''] else [])"

text \<open>\<open>case "rule"\<close> of the walk.\<close>

definition walk_rule ::
  "lib \<Rightarrow> fields \<Rightarrow> bool \<Rightarrow> filter_node \<Rightarrow> string \<Rightarrow> walk_state \<Rightarrow> (filter_node \<times> walk_state) res" where
  "walk_rule L fs fromView node p st0 =
     (let st = (if length (fn_children node) > 0
                then add_issues [Issue (p @ ''/children'') ''format'' ''rule cannot contain children''] st0 else st0)
      in
      if fn_field node = [] then
        Inr (node, add_issues [required_query_issue (p @ ''/fieldId'') ''fieldId is required''] st)
      else if fn_operator node = [] then
        Inr (node, add_issues [required_query_issue (p @ ''/operator'') ''operator is required''] st)
      else (case active_field fs (fn_field node) of
          None \<Rightarrow> Inr (node, unavailable fromView (fn_field node) (p @ ''/fieldId'') st)
        | Some f \<Rightarrow> ok_then (validate_filter_rule L p node f) (\<lambda>node'. Inr (node', st))))"

definition max_filter_depth :: nat where "max_filter_depth = 8"
definition max_filter_nodes :: nat where "max_filter_nodes = 100"

fun walk_node ::
  "lib \<Rightarrow> fields \<Rightarrow> bool \<Rightarrow> filter_node \<Rightarrow> string \<Rightarrow> nat \<Rightarrow> walk_state \<Rightarrow> (filter_node \<times> walk_state) res"
and walk_children ::
  "lib \<Rightarrow> fields \<Rightarrow> bool \<Rightarrow> nat \<Rightarrow> filter_node list \<Rightarrow> string \<Rightarrow> nat \<Rightarrow> walk_state \<Rightarrow>
     (filter_node list \<times> walk_state) res"
where
  "walk_node L fs fromView (FilterNode kind op cs fieldID v) p depth st0 =
     (let node = FilterNode kind op cs fieldID v;
          st = st0\<lparr>wk_count := wk_count st0 + 1\<rparr>
      in
      if depth > max_filter_depth then
        Inr (node, add_issues [Issue p ''limit'' ''Filter depth cannot exceed 8''] st)
      else if wk_count st > max_filter_nodes then
        Inr (node, add_issues [Issue p ''limit'' ''Filter cannot contain more than 100 nodes''] st)
      else if kind = [] then
        Inr (node, add_issues [required_query_issue (p @ ''/kind'') ''kind is required''] st)
      else if kind = ''group'' then
        ok_then (walk_children L fs fromView 0 cs p depth (add_issues (group_issues p node) st))
          (\<lambda>(cs', st'). Inr (FilterNode kind op cs' fieldID v, st'))
      else if kind = ''rule'' then walk_rule L fs fromView node p st
      else Inr (node, add_issues [Issue (p @ ''/kind'') ''format'' ''kind must be group or rule''] st))"
| "walk_children L fs fromView index [] p depth st = Inr ([], st)"
| "walk_children L fs fromView index (c # cs) p depth st =
     ok_then (walk_node L fs fromView c (p @ ''/children/'' @ show_nat index) (depth + 1) st)
       (\<lambda>(c', st'). ok_then (walk_children L fs fromView (Suc index) cs p depth st')
          (\<lambda>(cs', st''). Inr (c' # cs', st'')))"

definition validate_filter ::
  "lib \<Rightarrow> filter_node option \<Rightarrow> query_metadata \<Rightarrow> bool \<Rightarrow> filter_node option res" where
  "validate_filter L filt meta fromView =
     (case filt of
        None \<Rightarrow> Inr None
      | Some node \<Rightarrow>
          ok_then (walk_node L (qm_fields meta) fromView node ''/filter'' 1 no_walk)
            (\<lambda>(node', st). walk_result meta fromView st (Some node')))"

text \<open>The exported \<open>ValidateFilter\<close>.\<close>

definition ValidateFilter :: "lib \<Rightarrow> filter_node option \<Rightarrow> fields \<Rightarrow> filter_node option res" where
  "ValidateFilter L filt fs =
     validate_filter L filt \<lparr>qm_table = [], qm_primary = [], qm_fields = fs, qm_view = None\<rparr> False"

section \<open>Sort and search\<close>

definition sort_issues_of :: "string \<Rightarrow> sort_spec \<Rightarrow> issue list" where
  "sort_issues_of p spec =
     (if sp_direction spec \<noteq> ''asc'' \<and> sp_direction spec \<noteq> ''desc''
      then [Issue (p @ ''/direction'') ''format'' ''direction must be asc or desc''] else [])
     @ (if sp_nulls spec \<noteq> [] \<and> sp_nulls spec \<noteq> ''first'' \<and> sp_nulls spec \<noteq> ''last''
        then [Issue (p @ ''/nulls'') ''format'' ''nulls must be first or last''] else [])"

definition default_nulls :: "sort_spec \<Rightarrow> sort_spec" where
  "default_nulls spec = (if sp_nulls spec = [] then spec\<lparr>sp_nulls := ''last''\<rparr> else spec)"

definition unsortable :: "field_def \<Rightarrow> bool" where
  "unsortable f = (fe_type f = ''multiSelect'' \<or> fe_type f = ''location'' \<or> fe_type f = ''attachment'')"

fun sort_loop ::
  "fields \<Rightarrow> bool \<Rightarrow> nat \<Rightarrow> string list \<Rightarrow> sort_spec list \<Rightarrow> walk_state \<Rightarrow> (sort_spec list \<times> walk_state) res" where
  "sort_loop fs fromView index seen [] st = Inr ([], st)"
| "sort_loop fs fromView index seen (spec # rest) st =
     (let p = ''/sort/'' @ show_nat index;
          next = (\<lambda>seen' spec' st'. ok_then (sort_loop fs fromView (Suc index) seen' rest st')
                    (\<lambda>(rest', st''). Inr (spec' # rest', st'')))
      in
      if List.member seen (sp_field spec) then
        next seen spec (add_issues [Issue (p @ ''/fieldId'') ''duplicate'' ''Field ID appears more than once''] st)
      else (case active_field fs (sp_field spec) of
          None \<Rightarrow> next (sp_field spec # seen) spec (unavailable fromView (sp_field spec) (p @ ''/fieldId'') st)
        | Some f \<Rightarrow>
            if unsortable f then Inl (UnsupportedSort (fe_id f) (fe_type f))
            else next (sp_field spec # seen) (default_nulls spec) (add_issues (sort_issues_of p spec) st)))"

definition normalize_sort :: "sort_spec list \<Rightarrow> query_metadata \<Rightarrow> bool \<Rightarrow> sort_spec list res" where
  "normalize_sort specs meta fromView =
     fail_if (length specs > 10)
       (NewValidationError [Issue ''/sort'' ''limit'' ''sort cannot contain more than 10 Fields''])
    (ok_then (sort_loop (qm_fields meta) fromView 0 [] specs no_walk)
       (\<lambda>(specs', st). walk_result meta fromView st specs'))"

definition normalize_search :: "lib \<Rightarrow> string \<Rightarrow> string res" where
  "normalize_search L s =
     (let t = nfc L (trim_func s) in
      fail_if (rune_count t > 500)
        (NewValidationError [Issue ''/search'' ''limit'' ''search cannot exceed 500 Unicode code points''])
     (Inr (FoldKey L t)))"

section \<open>Fingerprint and schema hash\<close>

definition canonical_of :: "string \<Rightarrow> query_plan \<Rightarrow> canonical_query" where
  "canonical_of viewID plan =
     \<lparr>cq_view = viewID, cq_lifecycle = qp_lifecycle plan, cq_limit = qp_limit plan,
      cq_projection = qp_projection plan, cq_filter = qp_filter plan, cq_sort = qp_sort plan,
      cq_search = qp_search plan\<rparr>"

definition query_fingerprint :: "digest \<Rightarrow> string \<Rightarrow> query_plan \<Rightarrow> string res" where
  "query_fingerprint D viewID plan =
     (case digest_query D (canonical_of viewID plan) of
        None \<Rightarrow> Inl (Internal ''canonicalize query'')
      | Some h \<Rightarrow> Inr h)"

fun node_fields :: "filter_node \<Rightarrow> string list" where
  "node_fields (FilterNode kind op cs fieldID v) =
     (if kind = ''rule'' \<and> fieldID \<noteq> [] then [fieldID] else []) @ concat (map node_fields cs)"

definition collect_filter_fields :: "filter_node option \<Rightarrow> string list" where
  "collect_filter_fields f = (case f of None \<Rightarrow> [] | Some node \<Rightarrow> node_fields node)"

definition search_fields :: "fields \<Rightarrow> string list" where
  "search_fields fs =
     filter (\<lambda>k. case fmlookup fs k of
               None \<Rightarrow> False
             | Some f \<Rightarrow> fe_deleted_at f = None
                 \<and> (fe_type f = ''text'' \<or> fe_type f = ''longText'' \<or> fe_type f = ''url''))
       (fm_keys fs)"

definition schema_references :: "query_metadata \<Rightarrow> query_plan \<Rightarrow> string list" where
  "schema_references meta plan =
     sort (remdups (qp_projection plan @ collect_filter_fields (qp_filter plan) @ map sp_field (qp_sort plan)
       @ (if qp_search plan \<noteq> [] then search_fields (qm_fields meta) else [])))"

text \<open>A reference to a Field that is not in the map reads the zero \<open>FieldDefinition\<close>.\<close>

definition field_revision :: "fields \<Rightarrow> string \<Rightarrow> int" where
  "field_revision fs k = (case fmlookup fs k of None \<Rightarrow> 0 | Some f \<Rightarrow> fe_revision f)"

definition view_revision :: "query_metadata \<Rightarrow> int" where
  "view_revision meta = (case qm_view meta of None \<Rightarrow> 0 | Some v \<Rightarrow> vw_revision v)"

definition schema_of :: "query_metadata \<Rightarrow> query_plan \<Rightarrow> canonical_schema" where
  "schema_of meta plan =
     \<lparr>cs_view_revision = view_revision meta,
      cs_fields = map (\<lambda>k. (k, field_revision (qm_fields meta) k)) (schema_references meta plan)\<rparr>"

definition query_schema_hash :: "digest \<Rightarrow> query_metadata \<Rightarrow> query_plan \<Rightarrow> string res" where
  "query_schema_hash D meta plan =
     (case digest_schema D (schema_of meta plan) of
        None \<Rightarrow> Inl (Internal ''canonicalize query schema'')
      | Some h \<Rightarrow> Inr h)"

section \<open>\<open>buildQueryPlan\<close>\<close>

definition seal_plan :: "digest \<Rightarrow> string \<Rightarrow> query_metadata \<Rightarrow> query_plan \<Rightarrow> query_plan res" where
  "seal_plan D viewID meta plan =
     ok_then (query_fingerprint D viewID plan) (\<lambda>fp.
     let plan1 = plan\<lparr>qp_fingerprint := fp\<rparr> in
     ok_then (query_schema_hash D meta plan1) (\<lambda>h.
     Inr (plan1\<lparr>qp_schema_hash := h\<rparr>)))"

text \<open>The checks, once projection, filter and sort are chosen; each flag says that it is the View's.\<close>

definition checked_plan ::
  "lib \<Rightarrow> digest \<Rightarrow> query_request \<Rightarrow> query_metadata \<Rightarrow> string \<Rightarrow> int \<Rightarrow> string list \<times> bool
     \<Rightarrow> filter_node option \<times> bool \<Rightarrow> sort_spec list \<times> bool \<Rightarrow> query_plan res" where
  "checked_plan L D request meta lifecycle limit projection filt0 sort0 =
     ok_then (validate_projection (fst projection) meta (snd projection)) (\<lambda>_.
     ok_then (validate_filter L (fst filt0) meta (snd filt0)) (\<lambda>filt.
     ok_then (normalize_sort (fst sort0) meta (snd sort0)) (\<lambda>sortSpecs.
     ok_then (normalize_search L (qr_search request)) (\<lambda>search.
     seal_plan D (qr_view request) meta
       \<lparr>qp_lifecycle = lifecycle, qp_limit = limit, qp_projection = fst projection, qp_filter = filt,
        qp_sort = sortSpecs, qp_manual_sort = manual_sort meta sortSpecs, qp_search = search,
        qp_fields = qm_fields meta, qp_fingerprint = [], qp_schema_hash = []\<rparr>))))"

text \<open>What the request leaves open comes from the View; each flag says that it did.\<close>

definition query_lifecycle :: "query_request \<Rightarrow> string" where
  "query_lifecycle request = (if qr_lifecycle request = [] then ''active'' else qr_lifecycle request)"

definition query_limit :: "query_request \<Rightarrow> int" where
  "query_limit request = (if qr_limit request = 0 then default_query_limit else qr_limit request)"

definition from_view :: "query_metadata \<Rightarrow> bool \<Rightarrow> bool \<Rightarrow> bool" where
  "from_view meta present viewHasIt = (\<not> present \<and> qm_view meta \<noteq> None \<and> viewHasIt)"

definition query_projection :: "query_request \<Rightarrow> query_metadata \<Rightarrow> string list \<times> bool" where
  "query_projection request meta =
     (let (viewProjection, _, _) = view_query_defaults meta;
          projection = (if qr_projection_present request then qr_projection request else viewProjection)
      in (if projection = [] then active_field_ids (qm_fields meta) else projection,
          from_view meta (qr_projection_present request) (viewProjection \<noteq> [])))"

definition query_filter :: "query_request \<Rightarrow> query_metadata \<Rightarrow> filter_node option \<times> bool" where
  "query_filter request meta =
     (let (_, viewFilter, _) = view_query_defaults meta
      in (if qr_filter_present request then clone_filter (qr_filter request) else viewFilter,
          from_view meta (qr_filter_present request) (viewFilter \<noteq> None)))"

definition query_sort :: "query_request \<Rightarrow> query_metadata \<Rightarrow> sort_spec list \<times> bool" where
  "query_sort request meta =
     (let (_, _, viewSort) = view_query_defaults meta
      in (if qr_sort_present request then qr_sort request else viewSort,
          from_view meta (qr_sort_present request) (viewSort \<noteq> [])))"

definition build_query_plan :: "lib \<Rightarrow> digest \<Rightarrow> query_request \<Rightarrow> query_metadata \<Rightarrow> query_plan res" where
  "build_query_plan L D request meta =
     fail_if (qm_table meta = []) (Internal ''query metadata does not identify the requested Table'')
    (let lifecycle = query_lifecycle request in
     fail_if (lifecycle \<noteq> ''active'' \<and> lifecycle \<noteq> ''deleted'' \<and> lifecycle \<noteq> ''all'')
       (NewValidationError [Issue ''/lifecycle'' ''format'' ''lifecycle must be active, deleted, or all''])
    (let limit = query_limit request in
     fail_if (limit < 1 \<or> limit > max_query_limit)
       (NewValidationError [Issue ''/limit'' ''limit'' ''limit must be from 1 to 500''])
    (checked_plan L D request meta lifecycle limit
       (query_projection request meta) (query_filter request meta) (query_sort request meta))))"

section \<open>What is accepted, stated without the walk\<close>

fun filter_nodes :: "filter_node \<Rightarrow> nat" where
  "filter_nodes (FilterNode k op cs f v) = Suc (sum_list (map filter_nodes cs))"

text \<open>The height of a tree: a rule has height 1.\<close>

fun filter_height :: "filter_node \<Rightarrow> nat" where
  "filter_height (FilterNode k op cs f v) = Suc (foldr (\<lambda>c h. max (filter_height c) h) cs 0)"

definition value_fits :: "field_def \<Rightarrow> json \<Rightarrow> bool" where
  "value_fits f v =
     (let t = fe_type f in
      if t = ''text'' \<or> t = ''longText'' \<or> t = ''url'' then (case v of JStr _ \<Rightarrow> True | _ \<Rightarrow> False)
      else if t = ''number'' then (case v of JNum (Fin _) \<Rightarrow> True | _ \<Rightarrow> False)
      else if t = ''checkbox'' then (case v of JBool _ \<Rightarrow> True | _ \<Rightarrow> False)
      else if t = ''date'' then (case v of JStr s \<Rightarrow> valid_date s | _ \<Rightarrow> False)
      else (case v of JStr s \<Rightarrow> Valid OptionPrefix s \<and> field_owns_option f s | _ \<Rightarrow> False))"

definition canon_value :: "lib \<Rightarrow> field_def \<Rightarrow> json \<Rightarrow> json" where
  "canon_value L f v =
     (case v of
        JStr s \<Rightarrow>
          if fe_type f = ''text'' \<or> fe_type f = ''longText'' \<or> fe_type f = ''url'' then JStr (FoldKey L s) else v
      | _ \<Rightarrow> v)"

definition rule_fits :: "field_def \<Rightarrow> string \<Rightarrow> json option \<Rightarrow> bool" where
  "rule_fits f op v =
     (List.member (allowed_operators (fe_type f)) op
      \<and> (if empty_operator op then v = None else \<exists>x. v = Some x \<and> value_fits f x))"

fun filter_wf :: "fields \<Rightarrow> filter_node \<Rightarrow> bool" where
  "filter_wf fs (FilterNode kind op cs fieldID v) =
     (if kind = ''group'' then
        (op = ''and'' \<or> op = ''or'') \<and> cs \<noteq> [] \<and> fieldID = [] \<and> v = None \<and> list_all (filter_wf fs) cs
      else kind = ''rule'' \<and> cs = []
        \<and> (case active_field fs fieldID of None \<Rightarrow> False | Some f \<Rightarrow> rule_fits f op v))"

fun canon_filter :: "lib \<Rightarrow> fields \<Rightarrow> filter_node \<Rightarrow> filter_node" where
  "canon_filter L fs (FilterNode kind op cs fieldID v) =
     FilterNode kind op (map (canon_filter L fs) cs) fieldID
       (if kind = ''rule''
        then (case active_field fs fieldID of None \<Rightarrow> v | Some f \<Rightarrow> map_option (canon_value L f) v)
        else v)"

section \<open>Lemmas\<close>

lemma active_field_Some:
  "active_field fs k = Some f \<longleftrightarrow> fmlookup fs k = Some f \<and> Valid FieldPrefix k \<and> fe_deleted_at f = None"
  by (auto simp: active_field_def split: option.splits)

lemma allowed_not_empty: "List.member (allowed_operators t) op \<Longrightarrow> op \<noteq> []"
  by (auto simp: allowed_operators_def text_operators_def order_operators_def split: if_splits)

lemma allowed_value_type:
  "List.member (allowed_operators t) op \<Longrightarrow> \<not> empty_operator op \<Longrightarrow>
     t = ''text'' \<or> t = ''longText'' \<or> t = ''url'' \<or> t = ''number'' \<or> t = ''checkbox'' \<or> t = ''date''
     \<or> t = ''select'' \<or> t = ''multiSelect''"
  by (auto simp: allowed_operators_def empty_operator_def split: if_splits)

lemma rule_value_iff:
  assumes "fe_type f = ''text'' \<or> fe_type f = ''longText'' \<or> fe_type f = ''url'' \<or> fe_type f = ''number''
     \<or> fe_type f = ''checkbox'' \<or> fe_type f = ''date'' \<or> fe_type f = ''select'' \<or> fe_type f = ''multiSelect''"
  shows "rule_value L p f v = Inr v' \<longleftrightarrow> value_fits f v \<and> v' = canon_value L f v"
  using assms
  by (elim disjE)
    (auto simp: rule_value_def value_fits_def canon_value_def Let_def split: json.splits float64.splits if_splits)

lemma validate_filter_rule_iff:
  "validate_filter_rule L p node f = Inr node' \<longleftrightarrow>
     rule_fits f (fn_operator node) (fn_value node)
     \<and> node' = FilterNode (fn_kind node) (fn_operator node) (fn_children node) (fn_field node)
                 (map_option (canon_value L f) (fn_value node))"
  (is "?l \<longleftrightarrow> ?r")
proof (cases "List.member (allowed_operators (fe_type f)) (fn_operator node)
    \<and> \<not> empty_operator (fn_operator node)")
  case True
  then have t: "rule_value L p f v = Inr v' \<longleftrightarrow> value_fits f v \<and> v' = canon_value L f v" for v v'
    using allowed_value_type[of "fe_type f" "fn_operator node"] by (intro rule_value_iff) blast
  have n: "\<not> value_fits f JNull" by (simp add: value_fits_def Let_def)
  show ?thesis
  proof (cases "fn_value node")
    case None
    then show ?thesis using True by (simp add: validate_filter_rule_def rule_fits_def Let_def)
  next
    case (Some v)
    then show ?thesis using True t n
      by (cases v) (auto simp: validate_filter_rule_def rule_fits_def Let_def ok_then_eq_Inr)
  qed
next
  case False
  then show ?thesis
    by (cases node) (auto simp: validate_filter_rule_def rule_fits_def Let_def)
qed

text \<open>A walk that has nothing to report so far.\<close>

definition clean :: "bool \<Rightarrow> walk_state \<Rightarrow> bool" where
  "clean fromView st = (wk_issues st = [] \<and> (fromView \<longrightarrow> wk_invalid st = []))"

lemma clean_add_issues [simp]: "clean v (add_issues new st) \<longleftrightarrow> clean v st \<and> new = []"
  by (auto simp: clean_def add_issues_def)

lemma clean_unavailable [simp]: "\<not> clean v (unavailable v k p st)"
  by (simp add: clean_def unavailable_def add_issues_def add_invalid_def Let_def)

lemma clean_count [simp]: "clean v (st\<lparr>wk_count := n\<rparr>) \<longleftrightarrow> clean v st"
  by (simp add: clean_def)

lemma clean_no_walk [simp]: "clean v no_walk"
  by (simp add: clean_def no_walk_def)

lemma count_add_issues [simp]: "wk_count (add_issues new st) = wk_count st"
  by (simp add: add_issues_def)

lemma add_no_issues [simp]: "add_issues [] st = st"
  by (simp add: add_issues_def)

lemma walk_result_Inr: "walk_result meta v st x = Inr y \<longleftrightarrow> clean v st \<and> y = x"
  by (auto simp: walk_result_def clean_def)

lemma group_issues_Nil:
  "group_issues p (FilterNode k op cs f v) = []
     \<longleftrightarrow> (op = ''and'' \<or> op = ''or'') \<and> cs \<noteq> [] \<and> f = [] \<and> v = None"
  by (auto simp: group_issues_def)

lemma walk_rule_clean:
  assumes "walk_rule L fs fv (FilterNode k op cs fieldID v) p st = Inr (n', st')" "clean fv st'"
  shows "clean fv st \<and> cs = [] \<and> st' = st
     \<and> (\<exists>f. active_field fs fieldID = Some f \<and> rule_fits f op v
          \<and> n' = FilterNode k op cs fieldID (map_option (canon_value L f) v))"
  using assms
  by (auto simp: walk_rule_def Let_def ok_then_eq_Inr validate_filter_rule_iff
      split: if_splits option.splits)

lemma walk_rule_accepts:
  assumes "active_field fs fieldID = Some f" "rule_fits f op v"
  shows "walk_rule L fs fv (FilterNode k op [] fieldID v) p st
     = Inr (FilterNode k op [] fieldID (map_option (canon_value L f) v), st)"
proof -
  have "fieldID \<noteq> []" using assms(1) by (auto simp: active_field_Some Valid_def)
  moreover have "op \<noteq> []" using assms(2) allowed_not_empty by (auto simp: rule_fits_def)
  moreover have "validate_filter_rule L p (FilterNode k op [] fieldID v) f
      = Inr (FilterNode k op [] fieldID (map_option (canon_value L f) v))"
    using assms(2) by (simp add: validate_filter_rule_iff)
  ultimately show ?thesis using assms(1) by (simp add: walk_rule_def Let_def)
qed

abbreviation children_height :: "filter_node list \<Rightarrow> nat" where
  "children_height cs \<equiv> foldr (\<lambda>c h. max (filter_height c) h) cs 0"

lemma walk_sound:
  "walk_node L fs fv node p d st = Inr (n', st') \<Longrightarrow> clean fv st' \<Longrightarrow>
     clean fv st \<and> filter_wf fs node \<and> d + filter_height node \<le> 9
     \<and> wk_count st' = wk_count st + filter_nodes node \<and> wk_count st' \<le> 100 \<and> n' = canon_filter L fs node"
  "walk_children L fs fv i cs p d st = Inr (cs', st') \<Longrightarrow> clean fv st' \<Longrightarrow>
     clean fv st \<and> list_all (filter_wf fs) cs \<and> (cs = [] \<or> d + 1 + children_height cs \<le> 9)
     \<and> wk_count st' = wk_count st + sum_list (map filter_nodes cs)
     \<and> (cs = [] \<and> st' = st \<or> wk_count st' \<le> 100) \<and> cs' = map (canon_filter L fs) cs"
proof (induction L fs fv node p d st and L fs fv i cs p d st
    arbitrary: n' st' and cs' st' rule: walk_node_walk_children.induct)
  case (1 L fs fv kind op cs fieldID v p d st)
  let ?st = "st\<lparr>wk_count := wk_count st + 1\<rparr>"
  let ?node = "FilterNode kind op cs fieldID v"
  from "1.prems" have b: "d \<le> 8" "wk_count st + 1 \<le> 100" "kind = ''group'' \<or> kind = ''rule''"
    by (auto simp: Let_def max_filter_depth_def max_filter_nodes_def split: if_splits)
  show ?case
  proof (cases "kind = ''group''")
    case True
    then obtain cs' where w: "walk_children L fs fv 0 cs p d (add_issues (group_issues p ?node) ?st) = Inr (cs', st')"
      and n': "n' = FilterNode kind op cs' fieldID v"
      using "1.prems"(1) b
      by (auto simp: Let_def ok_then_eq_Inr max_filter_depth_def max_filter_nodes_def)
    have "clean fv (add_issues (group_issues p ?node) ?st) \<and> list_all (filter_wf fs) cs
       \<and> (cs = [] \<or> d + 1 + children_height cs \<le> 9)
       \<and> wk_count st' = wk_count (add_issues (group_issues p ?node) ?st) + sum_list (map filter_nodes cs)
       \<and> (cs = [] \<and> st' = add_issues (group_issues p ?node) ?st \<or> wk_count st' \<le> 100)
       \<and> cs' = map (canon_filter L fs) cs"
      using b True w "1.prems"(2)
      by (intro "1.IH"[OF refl refl]) (simp_all add: max_filter_depth_def max_filter_nodes_def)
    then show ?thesis using True b n' by (auto simp: group_issues_Nil)
  next
    case False
    with b have "kind = ''rule''" by blast
    moreover from this have w: "walk_rule L fs fv ?node p ?st = Inr (n', st')"
      using "1.prems"(1) b by (auto simp: Let_def max_filter_depth_def max_filter_nodes_def)
    ultimately show ?thesis using walk_rule_clean[OF w "1.prems"(2)] b by auto
  qed
next
  case 2
  then show ?case by simp
next
  case (3 L fs fv index c cs p d st)
  from "3.prems"(1) obtain c' st1 cs1
    where c: "walk_node L fs fv c (p @ ''/children/'' @ show_nat index) (d + 1) st = Inr (c', st1)"
      and cs: "walk_children L fs fv (Suc index) cs p d st1 = Inr (cs1, st')" and cs': "cs' = c' # cs1"
    by (auto simp: ok_then_eq_Inr)
  have r: "clean fv st1 \<and> list_all (filter_wf fs) cs \<and> (cs = [] \<or> d + 1 + children_height cs \<le> 9)
     \<and> wk_count st' = wk_count st1 + sum_list (map filter_nodes cs)
     \<and> (cs = [] \<and> st' = st1 \<or> wk_count st' \<le> 100) \<and> cs1 = map (canon_filter L fs) cs"
    by (rule "3.IH"(2)[OF cs "3.prems"(2)])
  then have "clean fv st1" by blast
  from "3.IH"(1)[OF c this] r show ?case by (auto simp: cs' max_def)
qed

lemma walk_complete:
  "clean fv st \<Longrightarrow> filter_wf fs node \<Longrightarrow> d + filter_height node \<le> 9 \<Longrightarrow>
     wk_count st + filter_nodes node \<le> 100 \<Longrightarrow>
     walk_node L fs fv node p d st
       = Inr (canon_filter L fs node, st\<lparr>wk_count := wk_count st + filter_nodes node\<rparr>)"
  "clean fv st \<Longrightarrow> list_all (filter_wf fs) cs \<Longrightarrow> d + 1 + children_height cs \<le> 9 \<Longrightarrow>
     wk_count st + sum_list (map filter_nodes cs) \<le> 100 \<Longrightarrow>
     walk_children L fs fv i cs p d st
       = Inr (map (canon_filter L fs) cs, st\<lparr>wk_count := wk_count st + sum_list (map filter_nodes cs)\<rparr>)"
proof (induction L fs fv node p d st and L fs fv i cs p d st rule: walk_node_walk_children.induct)
  case (1 L fs fv kind op cs fieldID v p d st)
  let ?st = "st\<lparr>wk_count := wk_count st + 1\<rparr>"
  let ?node = "FilterNode kind op cs fieldID v"
  have b: "\<not> d > max_filter_depth" "\<not> wk_count ?st > max_filter_nodes"
    using "1.prems"(3,4) by (simp_all add: max_filter_depth_def max_filter_nodes_def)
  show ?case
  proof (cases "kind = ''group''")
    case True
    have g: "add_issues (group_issues p ?node) ?st = ?st"
    proof -
      have "group_issues p ?node = []" unfolding group_issues_Nil using "1.prems"(2) True by simp
      then show ?thesis by simp
    qed
    have "walk_children L fs fv 0 cs p d (add_issues (group_issues p ?node) ?st)
        = Inr (map (canon_filter L fs) cs, (add_issues (group_issues p ?node) ?st)
            \<lparr>wk_count := wk_count (add_issues (group_issues p ?node) ?st) + sum_list (map filter_nodes cs)\<rparr>)"
      using b True "1.prems" g by (intro "1.IH"[OF refl refl]) simp_all
    then show ?thesis using b True g by (simp add: Let_def)
  next
    case False
    with "1.prems"(2) obtain f where r: "kind = ''rule''" "cs = []" "active_field fs fieldID = Some f"
      "rule_fits f op v" by (auto split: option.splits)
    then show ?thesis using b by (simp add: Let_def walk_rule_accepts)
  qed
next
  case 2
  then show ?case by simp
next
  case (3 L fs fv index c cs p d st)
  have c: "walk_node L fs fv c (p @ ''/children/'' @ show_nat index) (d + 1) st
      = Inr (canon_filter L fs c, st\<lparr>wk_count := wk_count st + filter_nodes c\<rparr>)"
    using "3.prems" by (intro "3.IH"(1)) auto
  have "walk_children L fs fv (Suc index) cs p d (st\<lparr>wk_count := wk_count st + filter_nodes c\<rparr>)
      = Inr (map (canon_filter L fs) cs, (st\<lparr>wk_count := wk_count st + filter_nodes c\<rparr>)
          \<lparr>wk_count := wk_count (st\<lparr>wk_count := wk_count st + filter_nodes c\<rparr>) + sum_list (map filter_nodes cs)\<rparr>)"
    using "3.prems" by (intro "3.IH"(2)) auto
  with c show ?case by simp
qed

text \<open>The three checks, each as a condition on its input.\<close>

lemma validate_filter_iff:
  "validate_filter L (Some node) meta fv = Inr r \<longleftrightarrow>
     filter_wf (qm_fields meta) node \<and> filter_height node \<le> max_filter_depth
     \<and> filter_nodes node \<le> max_filter_nodes \<and> r = Some (canon_filter L (qm_fields meta) node)"
  (is "?l \<longleftrightarrow> ?r")
proof
  assume ?l
  then obtain n' st where w: "walk_node L (qm_fields meta) fv node ''/filter'' 1 no_walk = Inr (n', st)"
    and c: "clean fv st" and r: "r = Some n'"
    by (auto simp: validate_filter_def ok_then_eq_Inr walk_result_Inr)
  from walk_sound(1)[OF w c] r show ?r
    by (auto simp: no_walk_def max_filter_depth_def max_filter_nodes_def)
next
  assume ?r
  then have w: "walk_node L (qm_fields meta) fv node ''/filter'' 1 no_walk
     = Inr (canon_filter L (qm_fields meta) node, no_walk\<lparr>wk_count := wk_count no_walk + filter_nodes node\<rparr>)"
    by (intro walk_complete(1)) (simp_all add: no_walk_def max_filter_depth_def max_filter_nodes_def clean_def)
  show ?l using \<open>?r\<close> by (simp add: validate_filter_def w[unfolded One_nat_def] walk_result_Inr)
qed

lemma validate_filter_None: "validate_filter L None meta fv = Inr r \<longleftrightarrow> r = None"
  by (auto simp: validate_filter_def)

lemma projection_loop_clean:
  "clean fv (projection_loop fs fv i seen ps st) \<longleftrightarrow>
     clean fv st \<and> distinct ps \<and> set ps \<inter> set seen = {} \<and> (\<forall>k \<in> set ps. active_field fs k \<noteq> None)"
proof (induction ps arbitrary: i seen st)
  case Nil
  then show ?case by simp
next
  case (Cons k ps)
  then show ?case
    by (cases "k \<in> set seen"; cases "active_field fs k") (auto simp: Let_def)
qed

lemma validate_projection_iff:
  "validate_projection ps meta fv = Inr u \<longleftrightarrow>
     length ps \<le> 500 \<and> distinct ps \<and> (\<forall>k \<in> set ps. active_field (qm_fields meta) k \<noteq> None)"
  by (auto simp: validate_projection_def walk_result_Inr projection_loop_clean)

definition sort_ok :: "fields \<Rightarrow> sort_spec \<Rightarrow> bool" where
  "sort_ok fs spec =
     ((case active_field fs (sp_field spec) of None \<Rightarrow> False | Some f \<Rightarrow> \<not> unsortable f)
      \<and> (sp_direction spec = ''asc'' \<or> sp_direction spec = ''desc'')
      \<and> (sp_nulls spec = [] \<or> sp_nulls spec = ''first'' \<or> sp_nulls spec = ''last''))"

lemma sort_issues_of_Nil:
  "sort_issues_of p spec = [] \<longleftrightarrow>
     (sp_direction spec = ''asc'' \<or> sp_direction spec = ''desc'')
      \<and> (sp_nulls spec = [] \<or> sp_nulls spec = ''first'' \<or> sp_nulls spec = ''last'')"
  by (auto simp: sort_issues_of_def)

lemma loop_next:
  "(ok_then m (\<lambda>(rest', st''). Inr (x # rest', st'')) = Inr (xs, st') \<and> clean fv st') \<longleftrightarrow>
     (\<exists>rest. (m = Inr (rest, st') \<and> clean fv st') \<and> xs = x # rest)"
  by (auto simp: ok_then_eq_Inr)

lemma sort_loop_iff:
  "(sort_loop fs fv i seen specs st = Inr (specs', st') \<and> clean fv st') \<longleftrightarrow>
     clean fv st \<and> distinct (map sp_field specs) \<and> sp_field ` set specs \<inter> set seen = {}
     \<and> list_all (sort_ok fs) specs \<and> specs' = map default_nulls specs \<and> st' = st"
proof (induction specs arbitrary: i seen st specs')
  case Nil
  then show ?case by auto
next
  case (Cons spec specs)
  let ?step = "sort_loop fs fv i seen (spec # specs) st"
  consider (seen) "sp_field spec \<in> set seen"
    | (gone) "sp_field spec \<notin> set seen" "active_field fs (sp_field spec) = None"
    | (bad) f where "sp_field spec \<notin> set seen" "active_field fs (sp_field spec) = Some f" "unsortable f"
    | (good) f where "sp_field spec \<notin> set seen" "active_field fs (sp_field spec) = Some f" "\<not> unsortable f"
    by (cases "active_field fs (sp_field spec)") blast+
  then show ?case
  proof cases
    case seen
    then have "\<not> (?step = Inr (specs', st') \<and> clean fv st')"
      by (simp add: Let_def loop_next Cons)
    with seen show ?thesis by simp
  next
    case gone
    then have "\<not> (?step = Inr (specs', st') \<and> clean fv st')"
      by (simp add: Let_def loop_next Cons)
    with gone show ?thesis by (simp add: sort_ok_def)
  next
    case bad
    then show ?thesis by (simp add: Let_def sort_ok_def)
  next
    case good
    then have "(?step = Inr (specs', st') \<and> clean fv st') \<longleftrightarrow>
        clean fv st \<and> sort_issues_of (''/sort/'' @ show_nat i) spec = []
        \<and> distinct (map sp_field specs) \<and> sp_field ` set specs \<inter> set (sp_field spec # seen) = {}
        \<and> list_all (sort_ok fs) specs \<and> specs' = default_nulls spec # map default_nulls specs \<and> st' = st"
      by (simp add: Let_def loop_next Cons) (auto simp: add_issues_def)
    also have "\<dots> \<longleftrightarrow> clean fv st \<and> distinct (map sp_field (spec # specs))
        \<and> sp_field ` set (spec # specs) \<inter> set seen = {} \<and> list_all (sort_ok fs) (spec # specs)
        \<and> specs' = map default_nulls (spec # specs) \<and> st' = st"
    proof -
      have "sp_field ` set specs \<inter> set (sp_field spec # seen) = {} \<longleftrightarrow>
          sp_field spec \<notin> sp_field ` set specs \<and> sp_field ` set specs \<inter> set seen = {}" by auto
      then show ?thesis using good
        unfolding sort_issues_of_Nil sort_ok_def by simp blast
    qed
    finally show ?thesis .
  qed
qed

lemma normalize_sort_iff:
  "normalize_sort specs meta fv = Inr specs' \<longleftrightarrow>
     length specs \<le> 10 \<and> distinct (map sp_field specs) \<and> list_all (sort_ok (qm_fields meta)) specs
     \<and> specs' = map default_nulls specs"
  using sort_loop_iff[of "qm_fields meta" fv 0 "[]" specs no_walk]
  by (auto simp: normalize_sort_def ok_then_eq_Inr walk_result_Inr)

lemma set_compact_strings: "set (compact_strings xs) = set xs"
  by (induction xs rule: compact_strings.induct) auto

lemma compact_strings_sorted: "sorted xs \<Longrightarrow> sorted (compact_strings xs) \<and> distinct (compact_strings xs)"
proof (induction xs rule: compact_strings.induct)
  case (1 x y xs)
  then have r: "sorted (compact_strings (y # xs))" "distinct (compact_strings (y # xs))" by (cases "x = y"; simp)+
  show ?case
  proof (cases "x = y")
    case True
    with r show ?thesis by simp
  next
    case False
    have "\<forall>z \<in> set (compact_strings (y # xs)). x < z"
      using False "1.prems" by (auto simp: set_compact_strings)
    with r False show ?thesis by (auto simp: less_imp_le)
  qed
qed auto

lemma clone_node_id [simp]: "clone_node n = n"
  by (induction n rule: clone_node.induct) (simp add: map_idI)

lemma clone_filter_id [simp]: "clone_filter f = f"
  by (cases f) (simp_all add: clone_filter_def)

text \<open>The canonical form of an accepted filter is accepted again.\<close>

lemma value_fits_canon: "value_fits f v \<Longrightarrow> value_fits f (canon_value L f v)"
  by (auto simp: value_fits_def canon_value_def Let_def split: json.splits if_splits)

lemma rule_fits_canon: "rule_fits f op v \<Longrightarrow> rule_fits f op (map_option (canon_value L f) v)"
  using value_fits_canon by (auto simp: rule_fits_def split: if_splits)

lemma filter_wf_canon: "filter_wf fs n \<Longrightarrow> filter_wf fs (canon_filter L fs n)"
proof (induction fs n rule: filter_wf.induct)
  case (1 fs kind op cs fieldID v)
  show ?case
  proof (cases "kind = ''group''")
    case True
    with 1 show ?thesis by (auto simp: list_all_iff)
  next
    case False
    with "1.prems" show ?thesis by (auto simp: rule_fits_canon split: option.splits)
  qed
qed

lemma filter_nodes_canon [simp]: "filter_nodes (canon_filter L fs n) = filter_nodes n"
  by (induction L fs n rule: canon_filter.induct) (simp add: comp_def cong: map_cong)

lemma filter_height_canon [simp]: "filter_height (canon_filter L fs n) = filter_height n"
proof (induction L fs n rule: canon_filter.induct)
  case (1 L fs kind op cs fieldID v)
  then have "foldr (\<lambda>c h. max (filter_height c) h) (map (canon_filter L fs) cs) 0
      = foldr (\<lambda>c h. max (filter_height c) h) cs 0"
    by (induction cs) simp_all
  then show ?case by simp
qed

lemmas plan_checks =
  validate_projection_iff validate_filter_iff normalize_sort_iff ok_then_eq_Inr

lemma seal_plan_Inr:
  assumes "seal_plan D v meta plan0 = Inr plan"
  shows "plan = plan0\<lparr>qp_fingerprint := qp_fingerprint plan, qp_schema_hash := qp_schema_hash plan\<rparr>"
    "query_fingerprint D v plan = Inr (qp_fingerprint plan)"
    "query_schema_hash D meta plan = Inr (qp_schema_hash plan)"
proof -
  obtain fp h where fp: "query_fingerprint D v plan0 = Inr fp"
    and h: "query_schema_hash D meta (plan0\<lparr>qp_fingerprint := fp\<rparr>) = Inr h"
    and plan: "plan = plan0\<lparr>qp_fingerprint := fp, qp_schema_hash := h\<rparr>"
    using assms by (auto simp: seal_plan_def Let_def ok_then_eq_Inr)
  have q: "query_fingerprint D v plan = query_fingerprint D v plan0"
    by (simp add: query_fingerprint_def canonical_of_def plan)
  have s: "query_schema_hash D meta plan = query_schema_hash D meta (plan0\<lparr>qp_fingerprint := fp\<rparr>)"
    by (simp add: query_schema_hash_def schema_of_def schema_references_def plan)
  show "plan = plan0\<lparr>qp_fingerprint := qp_fingerprint plan, qp_schema_hash := qp_schema_hash plan\<rparr>"
    by (simp add: plan)
  show "query_fingerprint D v plan = Inr (qp_fingerprint plan)" by (simp only: q fp) (simp add: plan)
  show "query_schema_hash D meta plan = Inr (qp_schema_hash plan)" by (simp only: s h) (simp add: plan)
qed

text \<open>What an accepted plan has passed.\<close>

definition plan_checked :: "lib \<Rightarrow> digest \<Rightarrow> query_request \<Rightarrow> query_metadata \<Rightarrow> query_plan \<Rightarrow> bool" where
  "plan_checked L D request meta plan =
     ((\<exists>pv. validate_projection (qp_projection plan) meta pv = Inr ())
      \<and> (\<exists>filt0 fv. validate_filter L filt0 meta fv = Inr (qp_filter plan))
      \<and> (\<exists>sort0 sv. normalize_sort sort0 meta sv = Inr (qp_sort plan))
      \<and> normalize_search L (qr_search request) = Inr (qp_search plan)
      \<and> qp_fields plan = qm_fields meta \<and> qp_manual_sort plan = manual_sort meta (qp_sort plan)
      \<and> query_fingerprint D (qr_view request) plan = Inr (qp_fingerprint plan)
      \<and> query_schema_hash D meta plan = Inr (qp_schema_hash plan))"

lemma checked_plan_Inr:
  assumes "checked_plan L D request meta lifecycle limit projection filt0 sort0 = Inr plan"
  shows "plan_checked L D request meta plan \<and> qp_lifecycle plan = lifecycle \<and> qp_limit plan = limit
     \<and> qp_projection plan = fst projection
     \<and> validate_filter L (fst filt0) meta (snd filt0) = Inr (qp_filter plan)"
proof -
  obtain filt sortSpecs search where
    v: "validate_projection (fst projection) meta (snd projection) = Inr ()"
      "validate_filter L (fst filt0) meta (snd filt0) = Inr filt"
      "normalize_sort (fst sort0) meta (snd sort0) = Inr sortSpecs"
      "normalize_search L (qr_search request) = Inr search"
    and s: "seal_plan D (qr_view request) meta
       \<lparr>qp_lifecycle = lifecycle, qp_limit = limit, qp_projection = fst projection, qp_filter = filt,
        qp_sort = sortSpecs, qp_manual_sort = manual_sort meta sortSpecs, qp_search = search,
        qp_fields = qm_fields meta, qp_fingerprint = [], qp_schema_hash = []\<rparr> = Inr plan"
    using assms by (auto simp: checked_plan_def ok_then_eq_Inr)
  note p = seal_plan_Inr[OF s]
  have "qp_lifecycle plan = lifecycle" "qp_limit plan = limit" "qp_projection plan = fst projection"
    "qp_filter plan = filt" "qp_sort plan = sortSpecs" "qp_search plan = search"
    "qp_fields plan = qm_fields meta" "qp_manual_sort plan = manual_sort meta sortSpecs"
    by (subst p(1), simp)+
  with v p(2,3) show ?thesis unfolding plan_checked_def by auto
qed

lemma build_query_plan_Inr:
  assumes "build_query_plan L D request meta = Inr plan"
  shows "plan_checked L D request meta plan \<and> 1 \<le> qp_limit plan \<and> qp_limit plan \<le> 500
     \<and> (qp_lifecycle plan = ''active'' \<or> qp_lifecycle plan = ''deleted'' \<or> qp_lifecycle plan = ''all'')
     \<and> qp_projection plan = fst (query_projection request meta)
     \<and> validate_filter L (fst (query_filter request meta)) meta (snd (query_filter request meta))
         = Inr (qp_filter plan)"
proof -
  have c: "checked_plan L D request meta (query_lifecycle request) (query_limit request)
      (query_projection request meta) (query_filter request meta) (query_sort request meta) = Inr plan"
    and b: "query_lifecycle request = ''active'' \<or> query_lifecycle request = ''deleted''
      \<or> query_lifecycle request = ''all''" "1 \<le> query_limit request" "query_limit request \<le> 500"
    using assms by (auto simp: build_query_plan_def Let_def max_query_limit_def)
  from checked_plan_Inr[OF c] b show ?thesis by simp
qed

text \<open>Two different inputs with one digest.\<close>

definition collides :: "('a \<Rightarrow> string option) \<Rightarrow> bool" where
  "collides f = (\<exists>x y h. x \<noteq> y \<and> f x = Some h \<and> f y = Some h)"

lemma collides_or_eq: "f x = Some h \<Longrightarrow> f y = Some h \<Longrightarrow> collides f \<or> x = y"
  by (auto simp: collides_def)

section \<open>Properties\<close>

text \<open>C25: a filter is accepted exactly when its tree is at most 8 deep and has at most 100 nodes, every
  group is a non-empty \<open>and\<close> or \<open>or\<close> without rule properties, and every rule has no children, names
  an active Field of the Table, an operator its type allows and a value of its type; the result is the
  same tree with the text values folded, whether the filter came from the request or from the View.\<close>

theorem filter_accepted_iff:
  "validate_filter L filt meta fromView = Inr r \<longleftrightarrow>
     (case filt of
        None \<Rightarrow> r = None
      | Some node \<Rightarrow> filter_wf (qm_fields meta) node \<and> filter_height node \<le> 8 \<and> filter_nodes node \<le> 100
          \<and> r = Some (canon_filter L (qm_fields meta) node))"
proof (cases filt)
  case None
  then show ?thesis by (simp add: validate_filter_None)
next
  case (Some node)
  then show ?thesis by (simp add: validate_filter_iff max_filter_depth_def max_filter_nodes_def)
qed

text \<open>An accepted query plan is within its bounds: 1 to 500 records, a projection of at most 500
  distinct Fields and a sort by at most 10 distinct Fields of a sortable type, every Field it mentions
  active, every sort direction and null order decided, a filter tree of at most 8 levels and 100
  nodes.\<close>

theorem query_plan_bounds:
  assumes "build_query_plan L D request meta = Inr plan"
  shows "1 \<le> qp_limit plan \<and> qp_limit plan \<le> 500
     \<and> length (qp_projection plan) \<le> 500 \<and> distinct (qp_projection plan)
     \<and> (\<forall>k \<in> set (qp_projection plan). active_field (qm_fields meta) k \<noteq> None)
     \<and> length (qp_sort plan) \<le> 10 \<and> distinct (map sp_field (qp_sort plan))
     \<and> list_all (\<lambda>s. sort_ok (qm_fields meta) s \<and> sp_nulls s \<noteq> []) (qp_sort plan)
     \<and> (case qp_filter plan of None \<Rightarrow> True
        | Some f \<Rightarrow> \<exists>node. f = canon_filter L (qm_fields meta) node \<and> filter_wf (qm_fields meta) node
            \<and> filter_height node \<le> 8 \<and> filter_nodes node \<le> 100)"
proof -
  note b = build_query_plan_Inr[OF assms]
  then have c: "plan_checked L D request meta plan" by blast
  obtain pv where p: "validate_projection (qp_projection plan) meta pv = Inr ()"
    using c unfolding plan_checked_def by blast
  obtain filt0 fv where f: "validate_filter L filt0 meta fv = Inr (qp_filter plan)"
    using c unfolding plan_checked_def by blast
  obtain sort0 sv where s: "normalize_sort sort0 meta sv = Inr (qp_sort plan)"
    using c unfolding plan_checked_def by blast
  have fn: "sp_field (default_nulls x) = sp_field x" for x by (simp add: default_nulls_def)
  have "length (qp_sort plan) \<le> 10" "distinct (map sp_field (qp_sort plan))"
    "list_all (\<lambda>s. sort_ok (qm_fields meta) s \<and> sp_nulls s \<noteq> []) (qp_sort plan)"
    using s fn by (auto simp: normalize_sort_iff comp_def list_all_iff sort_ok_def default_nulls_def)
  moreover have "case qp_filter plan of None \<Rightarrow> True
        | Some f \<Rightarrow> \<exists>node. f = canon_filter L (qm_fields meta) node \<and> filter_wf (qm_fields meta) node
            \<and> filter_height node \<le> 8 \<and> filter_nodes node \<le> 100"
    using f by (cases filt0)
      (auto simp: validate_filter_None validate_filter_iff max_filter_depth_def max_filter_nodes_def)
  ultimately show ?thesis using b p by (simp add: validate_projection_iff)
qed


text \<open>A View over the sample Fields, and a request that sorts, filters and searches.\<close>

definition sample_rule :: filter_node where
  "sample_rule = FilterNode ''rule'' ''contains'' [] (sample_id ''fld_'' (CHR ''1'')) (Some (JStr ''He''))"

definition sample_request :: query_request where
  "sample_request =
     \<lparr>qr_view = [], qr_view_present = False, qr_lifecycle = [], qr_cursor = [], qr_limit = 0,
      qr_projection = [], qr_projection_present = False,
      qr_filter = Some (FilterNode ''group'' ''and'' [sample_rule] [] None), qr_filter_present = True,
      qr_sort = [\<lparr>sp_field = sample_id ''fld_'' (CHR ''1''), sp_direction = ''asc'', sp_nulls = []\<rparr>],
      qr_sort_present = True, qr_search = '' he '', qr_search_present = True, qr_scope_token = [],
      qr_excluded = []\<rparr>"

definition sample_meta :: query_metadata where
  "sample_meta = \<lparr>qm_table = ''tbl'', qm_primary = [], qm_fields = sample_fields, qm_view = None\<rparr>"

definition sample_digest :: digest where
  "sample_digest = \<lparr>digest_query = (\<lambda>q. Some (cq_lifecycle q)), digest_schema = (\<lambda>_. Some ''s'')\<rparr>"

lemma sample_plan: "succeeds (build_query_plan ascii_lib sample_digest sample_request sample_meta)"
  by code_simp

theorem query_plan_bounds_witness:
  "\<exists>plan. build_query_plan ascii_lib sample_digest sample_request sample_meta = Inr plan
     \<and> qp_limit plan \<le> 500 \<and> distinct (qp_projection plan)"
proof -
  obtain plan where p: "build_query_plan ascii_lib sample_digest sample_request sample_meta = Inr plan"
    using succeedsE[OF sample_plan] by blast
  show ?thesis using query_plan_bounds[OF p] p by blast
qed


end
