(* ===== verification/Config.thy ===== *)
theory Config
  imports Query
begin

text \<open>
  The configurations of Fields and Views: the normalisers of internal/catalog/service.go.  A raw
  configuration is what the request decoder hands over, one constructor per Go type that the code
  asserts; \<open>RawNil\<close> is a missing one.  Option IDs come from the ID generator of the service, an
  argument: \<open>gen n prefix\<close> is the \<open>n\<close>-th ID drawn, or nothing when the generator fails; the number
  of draws is threaded.

  Maps: \<open>seenIDs\<close> and \<open>seenNames\<close> are the lists of their keys.  \<open>normalizedInput.Options\<close> of
  \<open>normalizeNewSelectConfig\<close> holds the name and color of each option that is appended to \<open>options\<close>,
  at the same point of the loop, and is computed from \<open>options\<close>.
\<close>

type_synonym id_source = "nat \<Rightarrow> string \<Rightarrow> string option"

record option_input =
  oi_id :: "string option"
  oi_name :: string
  oi_color :: string

datatype raw_config =
    RawSelect "option_input list"
  | RawAttachment int
  | RawNumber "number_format option"
  | RawEmpty
  | RawGrid grid_config
  | RawMap map_config
  | RawNil

definition field_limit_per_table :: nat where "field_limit_per_table = 500"
definition max_active_options :: nat where "max_active_options = 500"
definition max_total_options :: nat where "max_total_options = 5000"

text \<open>The types whose configuration is an empty object.\<close>

definition plain_type :: "string \<Rightarrow> bool" where
  "plain_type t = (t = ''text'' \<or> t = ''longText'' \<or> t = ''checkbox'' \<or> t = ''date'' \<or> t = ''url''
     \<or> t = ''location'')"

definition select_type :: "string \<Rightarrow> bool" where
  "select_type t = (t = ''select'' \<or> t = ''multiSelect'')"

definition config_error :: "string \<Rightarrow> string \<Rightarrow> string \<Rightarrow> app_error" where
  "config_error p c m = NewValidationError [Issue p c m]"

section \<open>Number and attachment Fields\<close>

definition is_currency_code :: "string \<Rightarrow> bool" where
  "is_currency_code s = (length s = 3 \<and> list_all (\<lambda>c. 65 \<le> byte c \<and> byte c \<le> 90) s)"

definition normalize_number_field_config :: "raw_config \<Rightarrow> field_config res" where
  "normalize_number_field_config raw =
     (case raw of
        RawNumber None \<Rightarrow> Inr (NumberConfig None)
      | RawNumber (Some format) \<Rightarrow>
          fail_if (case nf_decimals format of None \<Rightarrow> False | Some d \<Rightarrow> d < 0 \<or> d > 10)
            (config_error ''/config/format/decimals'' ''limit'' ''decimals must be from 0 to 10'')
         (fail_if (nf_currency format \<noteq> [] \<and> \<not> is_currency_code (nf_currency format))
            (config_error ''/config/format/currency'' ''format'' ''currency must be an ISO 4217 code'')
         (Inr (NumberConfig (Some format))))
      | _ \<Rightarrow> Inl (config_error ''/config'' ''type'' ''config must contain an optional format object''))"

definition normalize_attachment_field_config :: "raw_config \<Rightarrow> field_config res" where
  "normalize_attachment_field_config raw =
     (case raw of
        RawAttachment n \<Rightarrow>
          (let maxCount = (if n = 0 then 10 else n) in
           fail_if (maxCount < 1 \<or> maxCount > 100)
             (config_error ''/config/maxCount'' ''limit'' ''maxCount must be from 1 to 100'')
          (Inr (AttachmentConfig maxCount)))
      | _ \<Rightarrow> Inl (config_error ''/config'' ''type'' ''config must contain an optional maxCount''))"

section \<open>Select Fields\<close>

record select_state =
  ss_draws :: nat
  ss_new :: nat
  ss_names :: "string list"
  ss_ids :: "string list"
  ss_active :: "select_option list"
  ss_issues :: "issue list"

definition select_start :: "nat \<Rightarrow> select_state" where
  "select_start draws =
     \<lparr>ss_draws = draws, ss_new = 0, ss_names = [], ss_ids = [], ss_active = [], ss_issues = []\<rparr>"

definition select_issues :: "issue list \<Rightarrow> select_state \<Rightarrow> select_state" where
  "select_issues new st = st\<lparr>ss_issues := ss_issues st @ new\<rparr>"

text \<open>What both loops do first: the name, the color, and that no other option has the name.\<close>

definition option_checks ::
  "lib \<Rightarrow> string \<Rightarrow> option_input \<Rightarrow> select_state \<Rightarrow> issue list + string" where
  "option_checks L p opt st =
     (case NormalizeOptionName L (p @ ''/name'') (oi_name opt) of
        Inl e \<Rightarrow> Inl (case e of Validation issues \<Rightarrow> issues | _ \<Rightarrow> [])
      | Inr name \<Rightarrow>
          if \<not> ValidSelectOptionColor (oi_color opt)
          then Inl [Issue (p @ ''/color'') ''format'' ''unsupported option color'']
          else if List.member (ss_names st) (FoldKey L name)
          then Inl [Issue (p @ ''/name'') ''duplicate'' ''active option names must be unique'']
          else Inr name)"

definition draw_option :: "id_source \<Rightarrow> select_state \<Rightarrow> (string \<times> select_state) res" where
  "draw_option gen st =
     (case gen (ss_draws st) OptionPrefix of
        None \<Rightarrow> Inl (Internal ''generate option ID'')
      | Some i \<Rightarrow> Inr (i, st\<lparr>ss_draws := ss_draws st + 1\<rparr>))"

definition keep_option :: "string \<Rightarrow> string \<Rightarrow> string \<Rightarrow> select_state \<Rightarrow> select_state" where
  "keep_option optionID name color st =
     st\<lparr>ss_ids := optionID # ss_ids st,
        ss_active := ss_active st @ [\<lparr>so_id = optionID, so_name = name, so_color = color\<rparr>]\<rparr>"

fun new_options_loop ::
  "lib \<Rightarrow> id_source \<Rightarrow> nat \<Rightarrow> option_input list \<Rightarrow> select_state \<Rightarrow> select_state res" where
  "new_options_loop L gen index [] st = Inr st"
| "new_options_loop L gen index (opt # rest) st =
     (let p = ''/config/options/'' @ show_nat index in
      if oi_id opt \<noteq> None then
        new_options_loop L gen (Suc index) rest
          (select_issues [Issue (p @ ''/id'') ''invalidReference''
             ''an option ID cannot be supplied when creating a Field''] st)
      else (case option_checks L p opt st of
          Inl issues \<Rightarrow> new_options_loop L gen (Suc index) rest (select_issues issues st)
        | Inr name \<Rightarrow>
            ok_then (draw_option gen (st\<lparr>ss_names := FoldKey L name # ss_names st\<rparr>)) (\<lambda>(i, st').
            new_options_loop L gen (Suc index) rest (keep_option i name (oi_color opt) st'))))"

definition option_limit_error :: app_error where
  "option_limit_error =
     config_error ''/config/options'' ''limit'' ''at most 500 active options are allowed''"

definition normalize_new_select_config ::
  "lib \<Rightarrow> id_source \<Rightarrow> nat \<Rightarrow> option_input list \<Rightarrow> (field_config \<times> option_input list) res" where
  "normalize_new_select_config L gen draws input =
     fail_if (length input > max_active_options) option_limit_error
    (ok_then (new_options_loop L gen 0 input (select_start draws)) (\<lambda>st.
     fail_if (length (ss_issues st) > 0) (NewValidationError (ss_issues st))
    (Inr (SelectConfig (ss_active st) [],
          map (\<lambda>c. \<lparr>oi_id = None, oi_name = so_name c, oi_color = so_color c\<rparr>) (ss_active st)))))"

text \<open>
  The ID of an option of an update: a fresh one, or one that the Field has.  The state counts
  the new options.
\<close>

definition updated_option_id ::
  "id_source \<Rightarrow> string list \<Rightarrow> string list \<Rightarrow> string \<Rightarrow> option_input \<Rightarrow> select_state
     \<Rightarrow> ((issue list + string) \<times> select_state) res" where
  "updated_option_id gen activeIDs deletedIDs p opt st =
     (case oi_id opt of
        None \<Rightarrow> ok_then (draw_option gen (st\<lparr>ss_new := ss_new st + 1\<rparr>)) (\<lambda>(i, st'). Inr (Inr i, st'))
      | Some i \<Rightarrow>
          Inr (if \<not> Valid OptionPrefix i
               then Inl [Issue (p @ ''/id'') ''format'' ''id must be a typed Option ID'']
               else if List.member (ss_ids st) i
               then Inl [Issue (p @ ''/id'') ''duplicate'' ''option ID is duplicated'']
               else if \<not> List.member activeIDs i \<and> \<not> List.member deletedIDs i
               then Inl [Issue (p @ ''/id'') ''invalidReference'' ''option ID does not belong to this Field'']
               else Inr i, st))"

fun updated_options_loop ::
  "lib \<Rightarrow> id_source \<Rightarrow> string list \<Rightarrow> string list \<Rightarrow> nat \<Rightarrow> option_input list \<Rightarrow> select_state
     \<Rightarrow> select_state res" where
  "updated_options_loop L gen activeIDs deletedIDs index [] st = Inr st"
| "updated_options_loop L gen activeIDs deletedIDs index (opt # rest) st =
     (let p = ''/config/options/'' @ show_nat index in
      case option_checks L p opt st of
        Inl issues \<Rightarrow>
          updated_options_loop L gen activeIDs deletedIDs (Suc index) rest (select_issues issues st)
      | Inr name \<Rightarrow>
          ok_then (updated_option_id gen activeIDs deletedIDs p opt
                     (st\<lparr>ss_names := FoldKey L name # ss_names st\<rparr>)) (\<lambda>(r, st').
          updated_options_loop L gen activeIDs deletedIDs (Suc index) rest
            (case r of Inl issues \<Rightarrow> select_issues issues st'
             | Inr i \<Rightarrow> keep_option i name (oi_color opt) st')))"

definition retire_option :: "instant \<Rightarrow> select_option \<Rightarrow> deleted_option" where
  "retire_option now opt =
     \<lparr>do_id = so_id opt, do_name = so_name opt, do_color = so_color opt, do_deleted_at = now\<rparr>"

definition updated_deleted_options ::
  "instant \<Rightarrow> string list \<Rightarrow> select_option list \<Rightarrow> deleted_option list \<Rightarrow> deleted_option list" where
  "updated_deleted_options now seenIDs options deletedOptions =
     sort_key (\<lambda>d. (do_deleted_at d, do_id d))
       (filter (\<lambda>d. \<not> List.member seenIDs (do_id d)) deletedOptions
        @ map (retire_option now) (filter (\<lambda>c. \<not> List.member seenIDs (so_id c)) options))"

definition normalize_updated_select_config ::
  "lib \<Rightarrow> id_source \<Rightarrow> nat \<Rightarrow> instant \<Rightarrow> select_option list \<Rightarrow> deleted_option list
     \<Rightarrow> option_input list \<Rightarrow> field_config res" where
  "normalize_updated_select_config L gen draws now options deletedOptions input =
     fail_if (length input > max_active_options) option_limit_error
    (let activeIDs = map so_id options; deletedIDs = map do_id deletedOptions in
     ok_then (updated_options_loop L gen activeIDs deletedIDs 0 input (select_start draws)) (\<lambda>st.
     let issues = ss_issues st
           @ (if length (remdups activeIDs) + length (remdups deletedIDs) + ss_new st > max_total_options
              then [Issue ''/config/options'' ''limit'' ''a Field may contain at most 5000 total options''] else [])
     in
     fail_if (length issues > 0) (NewValidationError issues)
    (Inr (SelectConfig (ss_active st)
            (updated_deleted_options now (ss_ids st) options deletedOptions)))))"

section \<open>\<open>normalizeNewFieldConfig\<close> and \<open>normalizeUpdatedFieldConfig\<close>\<close>

text \<open>The second component is the configuration that enters the request fingerprint.\<close>

definition normalize_new_field_config ::
  "lib \<Rightarrow> id_source \<Rightarrow> nat \<Rightarrow> string \<Rightarrow> raw_config \<Rightarrow> (field_config \<times> raw_config) res" where
  "normalize_new_field_config L gen draws fieldType raw =
     (if fieldType = ''number'' then
        ok_then (normalize_number_field_config raw) (\<lambda>c. Inr (c, raw))
      else if plain_type fieldType then
        (case raw of RawEmpty \<Rightarrow> Inr (EmptyConfig, RawEmpty)
         | _ \<Rightarrow> Inl (config_error ''/config'' ''type'' ''config must be an empty object''))
      else if fieldType = ''attachment'' then
        ok_then (normalize_attachment_field_config raw) (\<lambda>c.
          Inr (c, case c of AttachmentConfig n \<Rightarrow> RawAttachment n | _ \<Rightarrow> raw))
      else if select_type fieldType then
        (case raw of
           RawSelect input \<Rightarrow>
             ok_then (normalize_new_select_config L gen draws input) (\<lambda>(c, n). Inr (c, RawSelect n))
         | _ \<Rightarrow> Inl (config_error ''/config'' ''type'' ''config must contain an options array''))
      else Inl (config_error ''/type'' ''format'' ''unsupported Field type''))"

definition normalize_updated_field_config ::
  "lib \<Rightarrow> id_source \<Rightarrow> nat \<Rightarrow> instant \<Rightarrow> field \<Rightarrow> raw_config \<Rightarrow> field_config res" where
  "normalize_updated_field_config L gen draws now current raw =
     (let t = fd_type current in
      if t = ''number'' then normalize_number_field_config raw
      else if plain_type t then
        (case raw of RawEmpty \<Rightarrow> Inr EmptyConfig
         | _ \<Rightarrow> Inl (config_error ''/config'' ''type'' ''config must be an empty object''))
      else if t = ''attachment'' then normalize_attachment_field_config raw
      else if select_type t then
        (case raw of
           RawSelect input \<Rightarrow>
             (case fd_config current of
                SelectConfig options deletedOptions \<Rightarrow>
                  normalize_updated_select_config L gen draws now options deletedOptions input
              | _ \<Rightarrow> Inl (Internal (''decode current '' @ t @ '' Field config'')))
         | _ \<Rightarrow> Inl (config_error ''/config'' ''type'' ''config must contain an options array''))
      else Inl (Internal ''unsupported persisted Field type''))"

section \<open>View configurations\<close>

type_synonym field_map = "(string, field) fmap"

text \<open>\<open>fieldByID\<close>: a later Field replaces an earlier one.\<close>

definition fields_by_id :: "field list \<Rightarrow> field_map" where
  "fields_by_id fs = fmap_of_list (rev (map (\<lambda>f. (fd_id f, f)) fs))"

definition view_field :: "field_map \<Rightarrow> string \<Rightarrow> field option" where
  "view_field fs fieldID =
     (case fmlookup fs fieldID of
        None \<Rightarrow> None
      | Some f \<Rightarrow> if fd_deleted_at f \<noteq> None \<or> \<not> Valid FieldPrefix fieldID then None else Some f)"

definition view_field_issue :: "string \<Rightarrow> issue" where
  "view_field_issue p = Issue p ''invalidReference'' ''Field must be active and belong to the View Table''"

fun field_id_list_loop :: "field_map \<Rightarrow> string \<Rightarrow> nat \<Rightarrow> string list \<Rightarrow> string list \<Rightarrow> issue list" where
  "field_id_list_loop fs p index seen [] = []"
| "field_id_list_loop fs p index seen (fieldID # rest) =
     (let itemPath = p @ ''/'' @ show_nat index in
      (if view_field fs fieldID = None then [view_field_issue itemPath] else [])
      @ (if List.member seen fieldID then [Issue itemPath ''duplicate'' ''Field ID is duplicated''] else [])
      @ field_id_list_loop fs p (Suc index) (fieldID # seen) rest)"

definition validate_field_id_list :: "string \<Rightarrow> string list \<Rightarrow> field_map \<Rightarrow> issue list" where
  "validate_field_id_list p ids fs = field_id_list_loop fs p 0 [] ids"

definition column_width_issue :: "field_map \<Rightarrow> (string, int) fmap \<Rightarrow> string \<Rightarrow> issue list" where
  "column_width_issue fs widths fieldID =
     (let p = ''/config/columnWidths/'' @ escape_pointer fieldID in
      (if view_field fs fieldID = None then [view_field_issue p] else [])
      @ (case fmlookup widths fieldID of
           None \<Rightarrow> []
         | Some width \<Rightarrow>
             if width < 80 \<or> width > 1000
             then [Issue p ''limit'' ''column width must be between 80 and 1000''] else []))"

definition column_width_issues :: "field_map \<Rightarrow> (string, int) fmap \<Rightarrow> issue list" where
  "column_width_issues fs widths = concat (map (column_width_issue fs widths) (fm_keys widths))"

definition unsortable_type :: "string \<Rightarrow> bool" where
  "unsortable_type t = (t = ''multiSelect'' \<or> t = ''location'' \<or> t = ''attachment'')"

fun view_sort_loop ::
  "field_map \<Rightarrow> nat \<Rightarrow> string list \<Rightarrow> sort_spec list \<Rightarrow> (sort_spec list \<times> issue list) res" where
  "view_sort_loop fs index seen [] = Inr ([], [])"
| "view_sort_loop fs index seen (spec # rest) =
     (let p = ''/config/sort/'' @ show_nat index;
          f = view_field fs (sp_field spec)
      in
      fail_if (case f of None \<Rightarrow> False | Some x \<Rightarrow> unsortable_type (fd_type x))
        (case f of None \<Rightarrow> NotFound | Some x \<Rightarrow> UnsupportedSort (fd_id x) (fd_type x))
     (ok_then (view_sort_loop fs (Suc index) (sp_field spec # seen) rest) (\<lambda>(rest', issues).
      Inr (default_nulls spec # rest',
           (if f = None then [view_field_issue (p @ ''/fieldId'')] else [])
           @ (if List.member seen (sp_field spec)
              then [Issue (p @ ''/fieldId'') ''duplicate'' ''Sort Field is duplicated''] else [])
           @ sort_issues_of p spec @ issues))))"

text \<open>The Fields as \<open>ValidateFilter\<close> sees them: the configuration is encoded and decoded again.\<close>

definition to_field_def :: "field \<Rightarrow> field_def" where
  "to_field_def f =
     \<lparr>fe_id = fd_id f, fe_type = fd_type f, fe_config = Some (fd_config f), fe_deleted_at = fd_deleted_at f,
      fe_primary = False, fe_revision = fd_revision f, fe_position = fd_position f\<rparr>"

definition validate_view_filter :: "lib \<Rightarrow> filter_node option \<Rightarrow> field_map \<Rightarrow> filter_node option res" where
  "validate_view_filter L filt fs =
     (case filt of
        None \<Rightarrow> Inr None
      | Some _ \<Rightarrow>
          (case ValidateFilter L filt (fmmap to_field_def fs) of
             Inl (Validation issues) \<Rightarrow>
               Inl (NewValidationError (map (\<lambda>i. i\<lparr>path := ''/config'' @ path i\<rparr>) issues))
           | r \<Rightarrow> r))"

definition normalize_grid_view_config :: "lib \<Rightarrow> grid_config \<Rightarrow> field_map \<Rightarrow> grid_config res" where
  "normalize_grid_view_config L config fs =
     ok_then (view_sort_loop fs 0 [] (gc_sort config)) (\<lambda>(sortSpecs, sortIssues).
     let issues =
           (if length (gc_projection config) > field_limit_per_table
            then [Issue ''/config/projection'' ''limit'' ''at most 500 projected Fields are allowed''] else [])
           @ validate_field_id_list ''/config/projection'' (gc_projection config) fs
           @ validate_field_id_list ''/config/columnOrder'' (gc_column_order config) fs
           @ validate_field_id_list ''/config/frozenFieldIds'' (gc_frozen config) fs
           @ column_width_issues fs (gc_column_widths config)
           @ (if gc_row_height config = ''compact'' \<or> gc_row_height config = ''standard''
                 \<or> gc_row_height config = ''comfortable'' then []
              else [Issue ''/config/rowHeight'' ''format'' ''unsupported row height''])
           @ (if length (gc_sort config) > 10
              then [Issue ''/config/sort'' ''limit'' ''at most 10 Sort entries are allowed''] else [])
           @ sortIssues
     in
     fail_if (length issues > 0) (NewValidationError issues)
    (ok_then (validate_view_filter L (gc_filter config) fs) (\<lambda>filt.
     Inr (config\<lparr>gc_sort := sortSpecs, gc_filter := filt\<rparr>))))"

text \<open>The \<open>float64\<close> constant 85.0511287798066 of the code, exactly.\<close>

definition max_latitude :: rat where
  "max_latitude = 5984941123127767 / 70368744177664"

definition outside :: "rat \<Rightarrow> float64 \<Rightarrow> bool" where
  "outside bound x = (case x of Fin q \<Rightarrow> q < - bound \<or> q > bound | _ \<Rightarrow> True)"

definition bad_zoom :: "float64 \<Rightarrow> bool" where
  "bad_zoom x = (case x of Fin q \<Rightarrow> q < 0 | _ \<Rightarrow> True)"

definition validate_map_view_config :: "lib \<Rightarrow> map_config \<Rightarrow> field_map \<Rightarrow> map_config res" where
  "validate_map_view_config L config fs =
     (let issues =
        (case view_field fs (mc_location_field config) of
           None \<Rightarrow> [Issue ''/config/locationFieldId'' ''invalidReference''
                      ''Location Field must be active and belong to the View Table'']
         | Some f \<Rightarrow>
             if fd_type f \<noteq> ''location''
             then [Issue ''/config/locationFieldId'' ''invalidReference'' ''Field must have type location''] else [])
        @ (if (mc_center config = None) \<noteq> (mc_zoom config = None)
           then [Issue ''/config'' ''required'' ''center and zoom must be supplied together''] else [])
        @ (case mc_center config of
             None \<Rightarrow> []
           | Some (lat, lng) \<Rightarrow>
               (if outside max_latitude lat
                then [Issue ''/config/center/lat'' ''format'' ''latitude is outside the renderable range''] else [])
               @ (if outside 180 lng
                  then [Issue ''/config/center/lng'' ''format'' ''longitude must be between -180 and 180''] else []))
        @ (case mc_zoom config of
             None \<Rightarrow> []
           | Some z \<Rightarrow> if bad_zoom z
               then [Issue ''/config/zoom'' ''format'' ''zoom must be a finite non-negative number''] else [])
      in
      fail_if (length issues > 0) (NewValidationError issues)
     (ok_then (validate_view_filter L (mc_filter config) fs) (\<lambda>filt.
      Inr (config\<lparr>mc_filter := filt\<rparr>))))"

definition normalize_view_config :: "lib \<Rightarrow> string \<Rightarrow> raw_config \<Rightarrow> field list \<Rightarrow> view_config res" where
  "normalize_view_config L viewType raw fs =
     (if viewType = ''grid'' then
        (case raw of
           RawGrid config \<Rightarrow>
             ok_then (normalize_grid_view_config L config (fields_by_id fs)) (\<lambda>c. Inr (GridConfig c))
         | _ \<Rightarrow> Inl (config_error ''/config'' ''type'' ''config must be a Grid View configuration''))
      else if viewType = ''map'' then
        (case raw of
           RawMap config \<Rightarrow>
             ok_then (validate_map_view_config L config (fields_by_id fs)) (\<lambda>c. Inr (MapConfig c))
         | _ \<Rightarrow> Inl (config_error ''/config'' ''type'' ''config must be a Map View configuration''))
      else Inl (config_error ''/type'' ''format'' ''unsupported View type''))"

section \<open>What a configuration promises\<close>

text \<open>A name that \<open>NormalizeOptionName\<close> returned.\<close>

definition option_name_ok :: "lib \<Rightarrow> string \<Rightarrow> bool" where
  "option_name_ok L name =
     (name \<noteq> [] \<and> \<not> contains_control name \<and> rune_count name \<le> 100 \<and> nfc L (trim_unicode_space name) = name)"

definition active_options_ok :: "lib \<Rightarrow> select_option list \<Rightarrow> bool" where
  "active_options_ok L active =
     (distinct (map so_id active) \<and> distinct (map (\<lambda>x. FoldKey L (so_name x)) active)
      \<and> list_all (\<lambda>x. Valid OptionPrefix (so_id x) \<and> option_name_ok L (so_name x)
                     \<and> ValidSelectOptionColor (so_color x)) active)"

text \<open>
  A select configuration: at most 500 active options and 5000 in all, one ID per option, one active
  option per folded name, the deleted ones in the order in which they were deleted.
\<close>

definition select_config_ok :: "lib \<Rightarrow> select_option list \<Rightarrow> deleted_option list \<Rightarrow> bool" where
  "select_config_ok L active deleted =
     (active_options_ok L active \<and> length active \<le> max_active_options
      \<and> length active + length deleted \<le> max_total_options
      \<and> distinct (map do_id deleted) \<and> so_id ` set active \<inter> do_id ` set deleted = {}
      \<and> list_all (\<lambda>d. Valid OptionPrefix (do_id d)) deleted
      \<and> sorted (map (\<lambda>d. (do_deleted_at d, do_id d)) deleted))"

definition field_config_ok :: "lib \<Rightarrow> string \<Rightarrow> field_config \<Rightarrow> bool" where
  "field_config_ok L t c =
     (case c of
        NumberConfig fmt \<Rightarrow> t = ''number''
          \<and> (case fmt of None \<Rightarrow> True
             | Some f \<Rightarrow> (case nf_decimals f of None \<Rightarrow> True | Some d \<Rightarrow> 0 \<le> d \<and> d \<le> 10)
                 \<and> (nf_currency f = [] \<or> is_currency_code (nf_currency f)))
      | AttachmentConfig n \<Rightarrow> t = ''attachment'' \<and> 1 \<le> n \<and> n \<le> 100
      | EmptyConfig \<Rightarrow> plain_type t
      | SelectConfig active deleted \<Rightarrow> select_type t \<and> select_config_ok L active deleted)"

text \<open>What the service needs of its ID generator: valid IDs, each one once, none of those in use.\<close>

definition fresh_source :: "id_source \<Rightarrow> string set \<Rightarrow> bool" where
  "fresh_source gen used =
     ((\<forall>n i. gen n OptionPrefix = Some i \<longrightarrow> Valid OptionPrefix i \<and> i \<notin> used)
      \<and> (\<forall>n m i. gen n OptionPrefix = Some i \<longrightarrow> gen m OptionPrefix = Some i \<longrightarrow> n = m))"

section \<open>Lemmas\<close>

lemma option_checks_Inr:
  assumes "lib_ok L" "option_checks L p opt st = Inr name"
  shows "option_name_ok L name \<and> ValidSelectOptionColor (oi_color opt) \<and> FoldKey L name \<notin> set (ss_names st)"
  using assms lib_ok_trim[OF assms(1)]
  by (auto simp: option_checks_def NormalizeOptionName_def normalize_name_cases option_name_ok_def
      split: sum.splits if_splits)

lemma option_checks_Inl: "option_checks L p opt st = Inl issues \<Longrightarrow> issues \<noteq> []"
  by (auto simp: option_checks_def NormalizeOptionName_def split: sum.splits if_splits
      dest!: normalize_name_error)

text \<open>
  The invariant of the two loops: \<open>known\<close> are the IDs of the Field, \<open>d0\<close> is where drawing began.
\<close>

definition drawn :: "id_source \<Rightarrow> nat \<Rightarrow> nat \<Rightarrow> string set" where
  "drawn gen d0 d1 = {i. \<exists>n. d0 \<le> n \<and> n < d1 \<and> gen n OptionPrefix = Some i}"

definition select_inv :: "lib \<Rightarrow> id_source \<Rightarrow> string set \<Rightarrow> nat \<Rightarrow> select_state \<Rightarrow> bool" where
  "select_inv L gen known d0 st =
     (active_options_ok L (ss_active st) \<and> d0 \<le> ss_draws st
      \<and> set (ss_ids st) = so_id ` set (ss_active st)
      \<and> set (ss_ids st) \<subseteq> known \<union> drawn gen d0 (ss_draws st)
      \<and> (\<lambda>x. FoldKey L (so_name x)) ` set (ss_active st) \<subseteq> set (ss_names st))"

lemma select_inv_start: "select_inv L gen known d0 (select_start d0)"
  by (simp add: select_inv_def select_start_def active_options_ok_def)

lemma select_inv_issues [simp]: "select_inv L gen known d0 (select_issues new st) = select_inv L gen known d0 st"
  by (simp add: select_inv_def select_issues_def)

lemma select_issues_sel [simp]:
  "ss_active (select_issues new st) = ss_active st" "ss_issues (select_issues new st) = ss_issues st @ new"
  "ss_new (select_issues new st) = ss_new st"
  by (simp_all add: select_issues_def)

lemma keep_option_sel [simp]:
  "ss_active (keep_option i name color st) = ss_active st @ [\<lparr>so_id = i, so_name = name, so_color = color\<rparr>]"
  "ss_issues (keep_option i name color st) = ss_issues st" "ss_new (keep_option i name color st) = ss_new st"
  by (simp_all add: keep_option_def)

lemma select_inv_new [simp]: "select_inv L gen known d0 (st\<lparr>ss_new := n\<rparr>) = select_inv L gen known d0 st"
  by (simp add: select_inv_def)

lemma select_inv_name: "select_inv L gen known d0 st \<Longrightarrow> select_inv L gen known d0 (st\<lparr>ss_names := k # ss_names st\<rparr>)"
  by (auto simp: select_inv_def)

lemma drawn_mono: "a \<le> b \<Longrightarrow> drawn gen d0 a \<subseteq> drawn gen d0 b"
  by (auto simp: drawn_def)

lemma draw_option_inv:
  assumes "fresh_source gen known" "select_inv L gen known d0 st" "draw_option gen st = Inr (i, st')"
  shows "select_inv L gen known d0 st' \<and> Valid OptionPrefix i \<and> i \<notin> set (ss_ids st') \<and> i \<notin> known
     \<and> i \<in> drawn gen d0 (ss_draws st')
     \<and> ss_names st' = ss_names st \<and> ss_active st' = ss_active st \<and> ss_issues st' = ss_issues st
     \<and> ss_new st' = ss_new st"
proof -
  have i: "gen (ss_draws st) OptionPrefix = Some i" and st': "st' = st\<lparr>ss_draws := ss_draws st + 1\<rparr>"
    using assms(3) by (auto simp: draw_option_def split: option.splits)
  have v: "Valid OptionPrefix i" "i \<notin> known" using assms(1) i unfolding fresh_source_def by blast+
  have "i \<notin> drawn gen d0 (ss_draws st)"
    using assms(1) i unfolding fresh_source_def drawn_def by blast
  then have "i \<notin> set (ss_ids st)" using assms(2) v by (auto simp: select_inv_def)
  moreover have "i \<in> drawn gen d0 (ss_draws st')"
    using assms(2) i by (auto simp: drawn_def st' select_inv_def)
  moreover have "select_inv L gen known d0 st'"
    using assms(2) drawn_mono[of "ss_draws st" "ss_draws st'" gen d0] by (auto simp: select_inv_def st')
  ultimately show ?thesis using v by (simp add: st')
qed

lemma keep_option_inv:
  assumes "select_inv L gen known d0 st" "i \<notin> set (ss_ids st)" "Valid OptionPrefix i"
    "i \<in> known \<union> drawn gen d0 (ss_draws st)" "option_name_ok L name" "ValidSelectOptionColor color"
    "FoldKey L name \<notin> (\<lambda>x. FoldKey L (so_name x)) ` set (ss_active st)" "FoldKey L name \<in> set (ss_names st)"
  shows "select_inv L gen known d0 (keep_option i name color st)"
  using assms by (auto simp: select_inv_def keep_option_def active_options_ok_def)

lemma new_options_loop_inv:
  assumes "lib_ok L" "fresh_source gen {}"
  shows "select_inv L gen {} d0 st \<Longrightarrow> new_options_loop L gen i opts st = Inr st' \<Longrightarrow>
     select_inv L gen {} d0 st' \<and> length (ss_active st') \<le> length (ss_active st) + length opts"
proof (induction opts arbitrary: i st)
  case Nil
  then show ?case by simp
next
  case (Cons opt opts)
  let ?p = "''/config/options/'' @ show_nat i"
  have skip: ?case if "new_options_loop L gen (Suc i) opts (select_issues new st) = Inr st'" for new
  proof -
    have "select_inv L gen {} d0 (select_issues new st)" using Cons.prems(1) by simp
    from Cons.IH[OF this that] show ?thesis by simp
  qed
  show ?case
  proof (cases "oi_id opt = None")
    case False
    with Cons.prems(2) skip show ?thesis by (simp add: Let_def)
  next
    case no_id: True
    show ?thesis
    proof (cases "option_checks L ?p opt st")
      case (Inl issues)
      with no_id Cons.prems(2) skip show ?thesis by (simp add: Let_def)
    next
      case (Inr name)
      let ?st = "st\<lparr>ss_names := FoldKey L name # ss_names st\<rparr>"
      obtain oid st1 where d: "draw_option gen ?st = Inr (oid, st1)"
        and r: "new_options_loop L gen (Suc i) opts (keep_option oid name (oi_color opt) st1) = Inr st'"
        using Cons.prems(2) no_id Inr by (auto simp: Let_def ok_then_eq_Inr)
      note n = option_checks_Inr[OF assms(1) Inr]
      note v = draw_option_inv[OF assms(2) select_inv_name[OF Cons.prems(1)] d]
      have "FoldKey L name \<notin> (\<lambda>x. FoldKey L (so_name x)) ` set (ss_active st1)"
        using n Cons.prems(1) v by (auto simp: select_inv_def)
      with n v have "select_inv L gen {} d0 (keep_option oid name (oi_color opt) st1)"
        by (intro keep_option_inv) simp_all
      from Cons.IH[OF this r] v show ?thesis by simp
    qed
  qed
qed

text \<open>The active options that are new to the Field.\<close>

definition new_active :: "string set \<Rightarrow> select_state \<Rightarrow> nat" where
  "new_active known st = length (filter (\<lambda>x. so_id x \<notin> known) (ss_active st))"

lemma updated_option_id_inv:
  assumes "fresh_source gen (set as \<union> set ds)" "select_inv L gen (set as \<union> set ds) d0 st"
    "updated_option_id gen as ds p opt st = Inr (Inr i, st')"
  shows "select_inv L gen (set as \<union> set ds) d0 st' \<and> Valid OptionPrefix i \<and> i \<notin> set (ss_ids st')
     \<and> i \<in> (set as \<union> set ds) \<union> drawn gen d0 (ss_draws st') \<and> ss_names st' = ss_names st
     \<and> ss_active st' = ss_active st \<and> ss_issues st' = ss_issues st
     \<and> ss_new st' = ss_new st + (if i \<in> set as \<union> set ds then 0 else 1)
     \<and> (case oi_id opt of None \<Rightarrow> i \<notin> set as \<union> set ds | Some j \<Rightarrow> i = j)"
proof (cases "oi_id opt")
  case None
  then have d: "draw_option gen (st\<lparr>ss_new := ss_new st + 1\<rparr>) = Inr (i, st')"
    using assms(3) by (auto simp: updated_option_id_def ok_then_eq_Inr)
  have "select_inv L gen (set as \<union> set ds) d0 (st\<lparr>ss_new := ss_new st + 1\<rparr>)" using assms(2) by simp
  from draw_option_inv[OF assms(1) this d] None show ?thesis by auto
next
  case (Some j)
  then show ?thesis using assms
    by (auto simp: updated_option_id_def split: if_splits)
qed

lemma updated_option_id_issue:
  "updated_option_id gen as ds p opt st = Inr (Inl issues, st') \<Longrightarrow> st' = st \<and> issues \<noteq> []"
  by (auto simp: updated_option_id_def ok_then_eq_Inr split: option.splits if_splits)

lemma updated_options_loop_inv:
  assumes "lib_ok L" "fresh_source gen (set as \<union> set ds)"
  shows "select_inv L gen (set as \<union> set ds) d0 st \<Longrightarrow> new_active (set as \<union> set ds) st \<le> ss_new st \<Longrightarrow>
     updated_options_loop L gen as ds i opts st = Inr st' \<Longrightarrow>
     select_inv L gen (set as \<union> set ds) d0 st' \<and> new_active (set as \<union> set ds) st' \<le> ss_new st'
     \<and> length (ss_active st') \<le> length (ss_active st) + length opts"
proof (induction opts arbitrary: i st)
  case Nil
  then show ?case by simp
next
  case (Cons opt opts)
  let ?K = "set as \<union> set ds"
  let ?p = "''/config/options/'' @ show_nat i"
  have skip: ?case if "updated_options_loop L gen as ds (Suc i) opts (select_issues new st1) = Inr st'"
    "select_inv L gen ?K d0 st1" "ss_active st1 = ss_active st" "ss_new st1 = ss_new st" for new st1
  proof -
    have "select_inv L gen ?K d0 (select_issues new st1)" using that(2) by simp
    moreover have "new_active ?K (select_issues new st1) \<le> ss_new (select_issues new st1)"
      using Cons.prems(2) that(3,4) by (simp add: new_active_def)
    ultimately show ?thesis using Cons.IH[OF _ _ that(1)] that(3) by simp
  qed
  show ?case
  proof (cases "option_checks L ?p opt st")
    case (Inl issues)
    then show ?thesis using Cons.prems(3) by (intro skip[of issues st]) (simp_all add: Let_def Cons.prems(1))
  next
    case (Inr name)
    let ?st = "st\<lparr>ss_names := FoldKey L name # ss_names st\<rparr>"
    have inv: "select_inv L gen ?K d0 ?st" by (rule select_inv_name[OF Cons.prems(1)])
    obtain r st1 where u: "updated_option_id gen as ds ?p opt ?st = Inr (r, st1)"
      and l: "updated_options_loop L gen as ds (Suc i) opts
         (case r of Inl issues \<Rightarrow> select_issues issues st1 | Inr oid \<Rightarrow> keep_option oid name (oi_color opt) st1)
         = Inr st'"
      using Cons.prems(3) Inr by (auto simp: Let_def ok_then_eq_Inr)
    show ?thesis
    proof (cases r)
      case (Inl issues)
      then have "st1 = ?st" using updated_option_id_issue u by blast
      then show ?thesis using l Inl inv by (intro skip[of issues st1]) simp_all
    next
      case (Inr oid)
      note n = option_checks_Inr[OF assms(1) \<open>option_checks L ?p opt st = Inr name\<close>]
      note v = updated_option_id_inv[OF assms(2) inv u[unfolded Inr]]
      have "FoldKey L name \<notin> (\<lambda>x. FoldKey L (so_name x)) ` set (ss_active st1)"
        using n Cons.prems(1) v by (auto simp: select_inv_def)
      with n v have k: "select_inv L gen ?K d0 (keep_option oid name (oi_color opt) st1)"
        by (intro keep_option_inv) simp_all
      have "new_active ?K (keep_option oid name (oi_color opt) st1)
          \<le> ss_new (keep_option oid name (oi_color opt) st1)"
        using v Cons.prems(2) by (simp add: new_active_def)
      from Cons.IH[OF k this] l Inr v show ?thesis by simp
    qed
  qed
qed

text \<open>When no issue is left, the active options are those of the request, in its order.\<close>

definition option_matches :: "lib \<Rightarrow> string set \<Rightarrow> option_input \<Rightarrow> select_option \<Rightarrow> bool" where
  "option_matches L known opt x =
     (so_name x = nfc L (trim_unicode_space (oi_name opt)) \<and> so_color x = oi_color opt
      \<and> (case oi_id opt of None \<Rightarrow> so_id x \<notin> known | Some i \<Rightarrow> so_id x = i \<and> i \<in> known))"

lemma option_checks_name: "option_checks L p opt st = Inr name \<Longrightarrow> name = nfc L (trim_unicode_space (oi_name opt))"
  by (auto simp: option_checks_def NormalizeOptionName_def normalize_name_cases split: sum.splits if_splits)

lemma updated_options_loop_issues:
  "updated_options_loop L gen as ds i opts st = Inr st' \<Longrightarrow> \<exists>new. ss_issues st' = ss_issues st @ new"
proof (induction opts arbitrary: i st)
  case Nil
  then show ?case by simp
next
  case (Cons opt opts)
  show ?case
  proof (cases "option_checks L (''/config/options/'' @ show_nat i) opt st")
    case (Inl issues)
    then show ?thesis using Cons.IH[of "Suc i" "select_issues issues st"] Cons.prems by (auto simp: Let_def)
  next
    case (Inr name)
    then obtain r st1 where u: "updated_option_id gen as ds (''/config/options/'' @ show_nat i) opt
          (st\<lparr>ss_names := FoldKey L name # ss_names st\<rparr>) = Inr (r, st1)"
      and l: "updated_options_loop L gen as ds (Suc i) opts
         (case r of Inl issues \<Rightarrow> select_issues issues st1 | Inr oid \<Rightarrow> keep_option oid name (oi_color opt) st1)
         = Inr st'"
      using Cons.prems by (auto simp: Let_def ok_then_eq_Inr)
    have "ss_issues st1 = ss_issues st"
      using u by (auto simp: updated_option_id_def draw_option_def ok_then_eq_Inr split: option.splits)
    then show ?thesis using Cons.IH[OF l] by (cases r) auto
  qed
qed

lemma updated_options_loop_matches:
  assumes "lib_ok L" "fresh_source gen (set as \<union> set ds)"
  shows "select_inv L gen (set as \<union> set ds) d0 st \<Longrightarrow> ss_issues st' = [] \<Longrightarrow>
     updated_options_loop L gen as ds i opts st = Inr st' \<Longrightarrow>
     \<exists>new. ss_active st' = ss_active st @ new \<and> list_all2 (option_matches L (set as \<union> set ds)) opts new"
proof (induction opts arbitrary: i st)
  case Nil
  then show ?case by simp
next
  case (Cons opt opts)
  let ?K = "set as \<union> set ds"
  let ?p = "''/config/options/'' @ show_nat i"
  obtain name where c: "option_checks L ?p opt st = Inr name"
  proof (cases "option_checks L ?p opt st")
    case (Inl issues)
    then obtain new where "ss_issues st' = ss_issues (select_issues issues st) @ new"
      using updated_options_loop_issues Cons.prems(3) by (fastforce simp: Let_def)
    then show ?thesis using Cons.prems(2) option_checks_Inl[OF Inl] by simp
  qed (use that in blast)
  let ?st = "st\<lparr>ss_names := FoldKey L name # ss_names st\<rparr>"
  have inv: "select_inv L gen ?K d0 ?st" by (rule select_inv_name[OF Cons.prems(1)])
  obtain r st1 where u: "updated_option_id gen as ds ?p opt ?st = Inr (r, st1)"
    and l: "updated_options_loop L gen as ds (Suc i) opts
       (case r of Inl issues \<Rightarrow> select_issues issues st1 | Inr oid \<Rightarrow> keep_option oid name (oi_color opt) st1)
       = Inr st'"
    using Cons.prems(3) c by (auto simp: Let_def ok_then_eq_Inr)
  obtain oid where r: "r = Inr oid"
  proof (cases r)
    case (Inl issues)
    then have "issues \<noteq> []" using updated_option_id_issue u by blast
    then show ?thesis using updated_options_loop_issues[OF l] Cons.prems(2) Inl by auto
  qed (use that in blast)
  note n = option_checks_Inr[OF assms(1) c]
  note v = updated_option_id_inv[OF assms(2) inv u[unfolded r]]
  have "FoldKey L name \<notin> (\<lambda>x. FoldKey L (so_name x)) ` set (ss_active st1)"
    using n Cons.prems(1) v by (auto simp: select_inv_def)
  with n v have k: "select_inv L gen ?K d0 (keep_option oid name (oi_color opt) st1)"
    by (intro keep_option_inv) simp_all
  let ?x = "\<lparr>so_id = oid, so_name = name, so_color = oi_color opt\<rparr>"
  from Cons.IH[OF k Cons.prems(2)] l r obtain new where
    new: "ss_active st' = ss_active st1 @ ?x # new" "list_all2 (option_matches L ?K) opts new"
    by auto
  have "option_matches L ?K opt ?x"
  proof (cases "oi_id opt")
    case None
    then show ?thesis using v option_checks_name[OF c] by (simp add: option_matches_def)
  next
    case (Some j)
    then have "j \<in> ?K" using u r by (auto simp: updated_option_id_def split: if_splits)
    then show ?thesis using Some v option_checks_name[OF c] by (simp add: option_matches_def)
  qed
  with new v show ?case by (intro exI[of _ "?x # new"]) simp
qed

lemma updated_deleted_options_ids:
  assumes "distinct (map so_id options @ map do_id deletedOptions)"
  shows "distinct (map do_id (updated_deleted_options now seen options deletedOptions))"
    "set (map do_id (updated_deleted_options now seen options deletedOptions))
       = set (map so_id options @ map do_id deletedOptions) - set seen"
    "sorted (map (\<lambda>d. (do_deleted_at d, do_id d)) (updated_deleted_options now seen options deletedOptions))"
proof -
  let ?xs = "filter (\<lambda>d. \<not> List.member seen (do_id d)) deletedOptions
     @ map (retire_option now) (filter (\<lambda>c. \<not> List.member seen (so_id c)) options)"
  have ids: "map do_id ?xs = map do_id (filter (\<lambda>d. \<not> List.member seen (do_id d)) deletedOptions)
      @ map so_id (filter (\<lambda>c. \<not> List.member seen (so_id c)) options)"
    by (simp add: retire_option_def comp_def)
  have "distinct (map do_id ?xs)"
    unfolding ids using assms by (auto simp: distinct_map intro: inj_on_subset)
  then show "distinct (map do_id (updated_deleted_options now seen options deletedOptions))"
    unfolding updated_deleted_options_def
    by (metis (no_types, lifting) distinct_map distinct_sort set_sort)
  have "set (map do_id ?xs) = set (map so_id options @ map do_id deletedOptions) - set seen"
    unfolding ids by auto
  then show "set (map do_id (updated_deleted_options now seen options deletedOptions))
       = set (map so_id options @ map do_id deletedOptions) - set seen"
    unfolding updated_deleted_options_def set_map set_sort .
  show "sorted (map (\<lambda>d. (do_deleted_at d, do_id d)) (updated_deleted_options now seen options deletedOptions))"
    by (simp add: updated_deleted_options_def)
qed

text \<open>An update of a select configuration that was accepted, in one lemma.\<close>

lemma normalize_updated_select_config_Inr:
  assumes "lib_ok L" "fresh_source gen (so_id ` set options \<union> do_id ` set deletedOptions)"
    "normalize_updated_select_config L gen draws now options deletedOptions input = Inr c"
  obtains st where
    "c = SelectConfig (ss_active st) (updated_deleted_options now (ss_ids st) options deletedOptions)"
    "select_inv L gen (so_id ` set options \<union> do_id ` set deletedOptions) draws st"
    "new_active (so_id ` set options \<union> do_id ` set deletedOptions) st \<le> ss_new st"
    "length (ss_active st) \<le> length input" "length input \<le> max_active_options"
    "length (remdups (map so_id options)) + length (remdups (map do_id deletedOptions)) + ss_new st
       \<le> max_total_options"
    "list_all2 (option_matches L (so_id ` set options \<union> do_id ` set deletedOptions)) input (ss_active st)"
proof -
  let ?as = "map so_id options" let ?ds = "map do_id deletedOptions"
  obtain st where l: "updated_options_loop L gen ?as ?ds 0 input (select_start draws) = Inr st"
    and i: "ss_issues st = []" and n: "length input \<le> max_active_options"
    and t: "length (remdups ?as) + length (remdups ?ds) + ss_new st \<le> max_total_options"
    and c: "c = SelectConfig (ss_active st) (updated_deleted_options now (ss_ids st) options deletedOptions)"
    using assms(3) by (auto simp: normalize_updated_select_config_def Let_def ok_then_eq_Inr split: if_splits)
  have f: "fresh_source gen (set ?as \<union> set ?ds)" using assms(2) by simp
  have s0: "new_active (set ?as \<union> set ?ds) (select_start draws) \<le> ss_new (select_start draws)"
    "ss_active (select_start draws) = []" by (simp_all add: new_active_def select_start_def)
  note inv = updated_options_loop_inv[OF assms(1) f select_inv_start s0(1) l]
  note m = updated_options_loop_matches[OF assms(1) f select_inv_start i l]
  have K: "set ?as \<union> set ?ds = so_id ` set options \<union> do_id ` set deletedOptions" by simp
  show ?thesis
  proof (rule that[OF c])
    show "length (ss_active st) \<le> length input" using inv s0(2) by simp
    show "list_all2 (option_matches L (so_id ` set options \<union> do_id ` set deletedOptions)) input (ss_active st)"
      using m unfolding K s0(2) by simp
  qed (use inv[unfolded K] n t in blast)+
qed

lemma length_partition:
  "distinct (map f xs) \<Longrightarrow> finite K \<Longrightarrow>
     length xs + card (K - f ` set xs) = length (filter (\<lambda>x. f x \<notin> K) xs) + card K"
proof (induction xs)
  case Nil
  then show ?case by simp
next
  case (Cons x xs)
  show ?case
  proof (cases "f x \<in> K")
    case True
    have "f x \<in> K - f ` set xs" using True Cons.prems(1) by auto
    moreover have "K - f ` set (x # xs) = K - f ` set xs - {f x}" by auto
    ultimately have c: "card (K - f ` set xs) = Suc (card (K - f ` set (x # xs)))"
      using Cons.prems(2) card.remove[of "K - f ` set xs" "f x"] by (simp only: finite_Diff)
    have "length xs + card (K - f ` set xs) = length (filter (\<lambda>x. f x \<notin> K) xs) + card K"
      using Cons by simp
    moreover have "length (filter (\<lambda>x. f x \<notin> K) (x # xs)) = length (filter (\<lambda>x. f x \<notin> K) xs)"
      "length (x # xs) = Suc (length xs)" using True by simp_all
    ultimately show ?thesis using c by linarith
  next
    case False
    then have "K - f ` set (x # xs) = K - f ` set xs" by auto
    then show ?thesis using Cons False by simp
  qed
qed

text \<open>The IDs of all options, active and deleted.\<close>

definition config_ids :: "field_config \<Rightarrow> string set" where
  "config_ids c =
     (case c of SelectConfig active deleted \<Rightarrow> so_id ` set active \<union> do_id ` set deleted | _ \<Rightarrow> {})"

lemma updated_select_config_ok:
  assumes "lib_ok L" "select_config_ok L options deletedOptions"
    "fresh_source gen (so_id ` set options \<union> do_id ` set deletedOptions)"
    "normalize_updated_select_config L gen draws now options deletedOptions input = Inr c"
  shows "\<exists>active deleted. c = SelectConfig active deleted \<and> select_config_ok L active deleted
     \<and> so_id ` set options \<union> do_id ` set deletedOptions \<subseteq> so_id ` set active \<union> do_id ` set deleted"
proof -
  let ?K = "so_id ` set options \<union> do_id ` set deletedOptions"
  obtain st where c: "c = SelectConfig (ss_active st) (updated_deleted_options now (ss_ids st) options deletedOptions)"
    and inv: "select_inv L gen ?K draws st" and n: "new_active ?K st \<le> ss_new st"
    and l: "length (ss_active st) \<le> length input" "length input \<le> max_active_options"
    and t: "length (remdups (map so_id options)) + length (remdups (map do_id deletedOptions)) + ss_new st
       \<le> max_total_options"
    using normalize_updated_select_config_Inr[OF assms(1,3,4)] .
  let ?D = "updated_deleted_options now (ss_ids st) options deletedOptions"
  have d: "distinct (map so_id options @ map do_id deletedOptions)"
    using assms(2) by (auto simp: select_config_ok_def active_options_ok_def)
  note D = updated_deleted_options_ids[OF d, of now "ss_ids st"]
  have ids: "set (ss_ids st) = so_id ` set (ss_active st)" "active_options_ok L (ss_active st)"
    using inv by (simp_all add: select_inv_def)
  have Dset: "do_id ` set ?D = ?K - so_id ` set (ss_active st)" using D(2) ids(1) by simp
  have "length ?D = card (do_id ` set ?D)" using D(1) distinct_card by force
  moreover have "card ?K = length (remdups (map so_id options)) + length (remdups (map do_id deletedOptions))"
  proof -
    have "card ?K = length (map so_id options @ map do_id deletedOptions)"
      using distinct_card[OF d] by simp
    then show ?thesis using d by (simp add: distinct_remdups_id)
  qed
  moreover have "distinct (map so_id (ss_active st))" using ids(2) by (simp add: active_options_ok_def)
  ultimately have "length (ss_active st) + length ?D \<le> max_total_options"
    using length_partition[of so_id "ss_active st" ?K] n t unfolding Dset new_active_def by simp
  moreover have "list_all (\<lambda>d. Valid OptionPrefix (do_id d)) ?D"
  proof -
    have "\<forall>i \<in> ?K. Valid OptionPrefix i"
      using assms(2) by (auto simp: select_config_ok_def active_options_ok_def list_all_iff)
    moreover have "do_id d \<in> ?K" if "d \<in> set ?D" for d using Dset that by blast
    ultimately show ?thesis by (simp add: list_all_iff)
  qed
  ultimately have "select_config_ok L (ss_active st) ?D"
    using l D(1,3) ids(2) Dset unfolding select_config_ok_def by auto
  then show ?thesis using c Dset by blast
qed

lemma field_config_ok_simps:
  "field_config_ok L t (NumberConfig fmt) \<longleftrightarrow> t = ''number''
     \<and> (case fmt of None \<Rightarrow> True
        | Some f \<Rightarrow> (case nf_decimals f of None \<Rightarrow> True | Some d \<Rightarrow> 0 \<le> d \<and> d \<le> 10)
            \<and> (nf_currency f = [] \<or> is_currency_code (nf_currency f)))"
  "field_config_ok L t (AttachmentConfig n) \<longleftrightarrow> t = ''attachment'' \<and> 1 \<le> n \<and> n \<le> 100"
  "field_config_ok L t EmptyConfig \<longleftrightarrow> plain_type t"
  "field_config_ok L t (SelectConfig active deleted) \<longleftrightarrow> select_type t \<and> select_config_ok L active deleted"
  by (simp_all add: field_config_ok_def)

lemma config_ids_no_select: "field_config_ok L t c \<Longrightarrow> \<not> select_type t \<Longrightarrow> config_ids c = {}"
  by (auto simp: field_config_ok_def config_ids_def split: field_config.splits)

lemma normalize_number_ok:
  "normalize_number_field_config raw = Inr c \<Longrightarrow> field_config_ok L ''number'' c"
  by (auto simp: normalize_number_field_config_def field_config_ok_simps
      split: raw_config.splits option.splits)

lemma normalize_attachment_config_ok:
  "normalize_attachment_field_config raw = Inr c \<Longrightarrow> field_config_ok L ''attachment'' c"
  by (auto simp: normalize_attachment_field_config_def field_config_ok_simps Let_def
      split: raw_config.splits)

lemma normalize_new_select_config_ok:
  assumes "lib_ok L" "fresh_source gen {}" "normalize_new_select_config L gen draws input = Inr (c, fp)"
  shows "\<exists>active. c = SelectConfig active [] \<and> select_config_ok L active []"
proof -
  obtain st where l: "new_options_loop L gen 0 input (select_start draws) = Inr st"
    and c: "c = SelectConfig (ss_active st) []" and n: "length input \<le> max_active_options"
    using assms(3) by (auto simp: normalize_new_select_config_def ok_then_eq_Inr)
  from new_options_loop_inv[OF assms(1,2) select_inv_start l] n show ?thesis
    by (auto simp: c select_config_ok_def select_inv_def select_start_def max_total_options_def
        max_active_options_def)
qed

text \<open>What the checks of View configurations accept.\<close>

definition field_ids_ok :: "field_map \<Rightarrow> string list \<Rightarrow> bool" where
  "field_ids_ok fs ids = (distinct ids \<and> (\<forall>k \<in> set ids. view_field fs k \<noteq> None))"

definition view_sort_ok :: "field_map \<Rightarrow> sort_spec \<Rightarrow> bool" where
  "view_sort_ok fs spec =
     ((case view_field fs (sp_field spec) of None \<Rightarrow> False | Some f \<Rightarrow> \<not> unsortable_type (fd_type f))
      \<and> (sp_direction spec = ''asc'' \<or> sp_direction spec = ''desc'')
      \<and> (sp_nulls spec = [] \<or> sp_nulls spec = ''first'' \<or> sp_nulls spec = ''last''))"

definition view_filter_ok :: "field_map \<Rightarrow> filter_node option \<Rightarrow> bool" where
  "view_filter_ok fs filt =
     (case filt of
        None \<Rightarrow> True
      | Some n \<Rightarrow> filter_wf (fmmap to_field_def fs) n \<and> filter_height n \<le> 8 \<and> filter_nodes n \<le> 100)"

definition grid_config_ok :: "field_map \<Rightarrow> grid_config \<Rightarrow> bool" where
  "grid_config_ok fs g =
     (length (gc_projection g) \<le> 500 \<and> field_ids_ok fs (gc_projection g)
      \<and> field_ids_ok fs (gc_column_order g) \<and> field_ids_ok fs (gc_frozen g)
      \<and> (\<forall>k w. fmlookup (gc_column_widths g) k = Some w \<longrightarrow> view_field fs k \<noteq> None \<and> 80 \<le> w \<and> w \<le> 1000)
      \<and> (gc_row_height g = ''compact'' \<or> gc_row_height g = ''standard'' \<or> gc_row_height g = ''comfortable'')
      \<and> length (gc_sort g) \<le> 10 \<and> distinct (map sp_field (gc_sort g)) \<and> list_all (view_sort_ok fs) (gc_sort g)
      \<and> view_filter_ok fs (gc_filter g))"

definition inside :: "rat \<Rightarrow> float64 \<Rightarrow> bool" where
  "inside bound x = (\<exists>q. x = Fin q \<and> - bound \<le> q \<and> q \<le> bound)"

definition map_config_ok :: "field_map \<Rightarrow> map_config \<Rightarrow> bool" where
  "map_config_ok fs m =
     ((\<exists>f. view_field fs (mc_location_field m) = Some f \<and> fd_type f = ''location'')
      \<and> (case (mc_center m, mc_zoom m) of
           (None, None) \<Rightarrow> True
         | (Some (lat, lng), Some z) \<Rightarrow> inside max_latitude lat \<and> inside 180 lng \<and> (\<exists>q. z = Fin q \<and> 0 \<le> q)
         | _ \<Rightarrow> False)
      \<and> view_filter_ok fs (mc_filter m))"

definition canon_view_filter :: "lib \<Rightarrow> field_map \<Rightarrow> filter_node option \<Rightarrow> filter_node option" where
  "canon_view_filter L fs filt = map_option (canon_filter L (fmmap to_field_def fs)) filt"

lemma view_field_active: "active_field (fmmap to_field_def fs) k = map_option to_field_def (view_field fs k)"
  by (auto simp: active_field_def view_field_def to_field_def_def split: option.splits)

lemma field_id_list_loop_Nil:
  "field_id_list_loop fs p i seen ids = [] \<longleftrightarrow>
     distinct ids \<and> set ids \<inter> set seen = {} \<and> (\<forall>k \<in> set ids. view_field fs k \<noteq> None)"
  by (induction ids arbitrary: i seen) (auto simp: Let_def)

lemma validate_field_id_list_Nil: "validate_field_id_list p ids fs = [] \<longleftrightarrow> field_ids_ok fs ids"
  by (simp add: validate_field_id_list_def field_id_list_loop_Nil field_ids_ok_def)

lemma fm_keys_all: "(\<forall>k \<in> set (fm_keys m). Q k) \<longleftrightarrow> (\<forall>k v. fmlookup m k = Some v \<longrightarrow> Q k)"
  unfolding set_fm_keys by (metis fmdom_lookup_iff)

lemma column_width_issues_Nil:
  "column_width_issues fs widths = [] \<longleftrightarrow>
     (\<forall>k w. fmlookup widths k = Some w \<longrightarrow> view_field fs k \<noteq> None \<and> 80 \<le> w \<and> w \<le> 1000)"
proof -
  have "column_width_issues fs widths = [] \<longleftrightarrow> (\<forall>k \<in> set (fm_keys widths). column_width_issue fs widths k = [])"
    unfolding column_width_issues_def concat_eq_Nil_conv set_map by blast
  also have "\<dots> \<longleftrightarrow> (\<forall>k w. fmlookup widths k = Some w \<longrightarrow> column_width_issue fs widths k = [])"
    by (rule fm_keys_all)
  also have "\<dots> \<longleftrightarrow> (\<forall>k w. fmlookup widths k = Some w \<longrightarrow> view_field fs k \<noteq> None \<and> 80 \<le> w \<and> w \<le> 1000)"
    by (intro iff_allI imp_cong refl) (auto simp: column_width_issue_def Let_def not_less)
  finally show ?thesis .
qed

lemma view_sort_loop_ok:
  "view_sort_loop fs i seen specs = Inr (specs', []) \<longleftrightarrow>
     distinct (map sp_field specs) \<and> sp_field ` set specs \<inter> set seen = {} \<and> list_all (view_sort_ok fs) specs
     \<and> specs' = map default_nulls specs"
proof (induction specs arbitrary: i seen specs')
  case Nil
  then show ?case by auto
next
  case (Cons spec specs)
  have "view_sort_loop fs i seen (spec # specs) = Inr (specs', []) \<longleftrightarrow>
     (case view_field fs (sp_field spec) of None \<Rightarrow> False | Some f \<Rightarrow> \<not> unsortable_type (fd_type f))
     \<and> sp_field spec \<notin> set seen \<and> sort_issues_of (''/config/sort/'' @ show_nat i) spec = []
     \<and> (\<exists>rest. view_sort_loop fs (Suc i) (sp_field spec # seen) specs = Inr (rest, [])
          \<and> specs' = default_nulls spec # rest)"
    by (auto simp: Let_def ok_then_eq_Inr split: option.splits)
  also have "\<dots> \<longleftrightarrow> view_sort_ok fs spec \<and> sp_field spec \<notin> set seen
     \<and> distinct (map sp_field specs) \<and> sp_field ` set specs \<inter> set (sp_field spec # seen) = {}
     \<and> list_all (view_sort_ok fs) specs \<and> specs' = default_nulls spec # map default_nulls specs"
    unfolding Cons view_sort_ok_def sort_issues_of_Nil by auto
  also have "\<dots> \<longleftrightarrow> distinct (map sp_field (spec # specs)) \<and> sp_field ` set (spec # specs) \<inter> set seen = {}
     \<and> list_all (view_sort_ok fs) (spec # specs) \<and> specs' = map default_nulls (spec # specs)"
    by auto
  finally show ?case .
qed

lemma validate_view_filter_iff:
  "validate_view_filter L filt fs = Inr r \<longleftrightarrow> view_filter_ok fs filt \<and> r = canon_view_filter L fs filt"
proof (cases filt)
  case None
  then show ?thesis by (auto simp: validate_view_filter_def view_filter_ok_def canon_view_filter_def)
next
  case (Some n)
  have "validate_view_filter L filt fs = Inr r \<longleftrightarrow> ValidateFilter L (Some n) (fmmap to_field_def fs) = Inr r"
    using Some by (auto simp: validate_view_filter_def split: sum.splits app_error.splits)
  then show ?thesis using Some
    by (simp add: ValidateFilter_def validate_filter_iff view_filter_ok_def canon_view_filter_def
        max_filter_depth_def max_filter_nodes_def)
qed

lemma normalize_grid_view_config_iff:
  "normalize_grid_view_config L g fs = Inr c \<longleftrightarrow>
     grid_config_ok fs g
     \<and> c = g\<lparr>gc_sort := map default_nulls (gc_sort g), gc_filter := canon_view_filter L fs (gc_filter g)\<rparr>"
proof -
  have "normalize_grid_view_config L g fs = Inr c \<longleftrightarrow>
     (\<exists>specs' filt. view_sort_loop fs 0 [] (gc_sort g) = Inr (specs', [])
        \<and> length (gc_projection g) \<le> 500
        \<and> validate_field_id_list ''/config/projection'' (gc_projection g) fs = []
        \<and> validate_field_id_list ''/config/columnOrder'' (gc_column_order g) fs = []
        \<and> validate_field_id_list ''/config/frozenFieldIds'' (gc_frozen g) fs = []
        \<and> column_width_issues fs (gc_column_widths g) = []
        \<and> (gc_row_height g = ''compact'' \<or> gc_row_height g = ''standard'' \<or> gc_row_height g = ''comfortable'')
        \<and> length (gc_sort g) \<le> 10
        \<and> validate_view_filter L (gc_filter g) fs = Inr filt \<and> c = g\<lparr>gc_sort := specs', gc_filter := filt\<rparr>)"
    by (auto simp: normalize_grid_view_config_def ok_then_eq_Inr Let_def field_limit_per_table_def)
  then show ?thesis
    unfolding view_sort_loop_ok validate_field_id_list_Nil column_width_issues_Nil validate_view_filter_iff
      grid_config_ok_def
    by auto
qed

lemma outside_inside: "outside b x \<longleftrightarrow> \<not> inside b x"
  by (cases x) (auto simp: outside_def inside_def)

lemma bad_zoom_iff: "bad_zoom x \<longleftrightarrow> \<not> (\<exists>q. x = Fin q \<and> 0 \<le> q)"
  by (cases x) (auto simp: bad_zoom_def)

lemma validate_map_view_config_iff:
  "validate_map_view_config L m fs = Inr c \<longleftrightarrow>
     map_config_ok fs m \<and> c = m\<lparr>mc_filter := canon_view_filter L fs (mc_filter m)\<rparr>"
  by (cases "mc_center m"; cases "mc_zoom m"; cases "view_field fs (mc_location_field m)")
    (auto simp: validate_map_view_config_def Let_def ok_then_eq_Inr validate_view_filter_iff map_config_ok_def
      outside_inside bad_zoom_iff split: if_splits)

section \<open>Properties\<close>

lemma new_config_ok:
  assumes "lib_ok L" and "fresh_source gen {}"
    and "normalize_new_field_config L gen draws fieldType raw = Inr (c, fp)"
  shows "field_config_ok L fieldType c"
proof -
  consider "fieldType = ''number''" | "plain_type fieldType" | "fieldType = ''attachment''"
    | "select_type fieldType"
    using assms(3) by (auto simp: normalize_new_field_config_def split: if_splits)
  then show ?thesis
  proof cases
    case 1
    then show ?thesis using assms(3) normalize_number_ok
      by (auto simp: normalize_new_field_config_def ok_then_eq_Inr)
  next
    case 2
    then have "fieldType \<noteq> ''number''" by (auto simp: plain_type_def)
    with 2 show ?thesis using assms(3)
      by (auto simp: normalize_new_field_config_def field_config_ok_simps split: raw_config.splits)
  next
    case 3
    then show ?thesis using assms(3) normalize_attachment_config_ok
      by (auto simp: normalize_new_field_config_def ok_then_eq_Inr plain_type_def)
  next
    case 4
    then have n: "fieldType \<noteq> ''number''" "\<not> plain_type fieldType" "fieldType \<noteq> ''attachment''"
      by (auto simp: plain_type_def select_type_def)
    with 4 assms(3) obtain input fp' where "normalize_new_select_config L gen draws input = Inr (c, fp')"
      by (auto simp: normalize_new_field_config_def ok_then_eq_Inr split: raw_config.splits)
    from normalize_new_select_config_ok[OF assms(1,2) this] 4 show ?thesis
      by (auto simp: field_config_ok_simps)
  qed
qed

text \<open>Whatever configuration is accepted for a new Field is one the Field type allows: an empty one,
  a number format within its bounds, 1 to 100 attachments, or at most 500 options with valid distinct
  IDs, canonical names that are unique up to case, colors of the palette and no deleted option.\<close>

theorem new_field_config_ok:
  assumes "lib_ok L" and "fresh_source gen {}"
    and "normalize_new_field_config L gen draws fieldType raw = Inr (c, fp)"
  shows "field_config_ok L fieldType c"
  by (rule new_config_ok[OF assms])

lemma updated_config_ok:
  assumes "lib_ok L" and "field_config_ok L (fd_type current) (fd_config current)"
    and "fresh_source gen (config_ids (fd_config current))"
    and "normalize_updated_field_config L gen draws now current raw = Inr c"
  shows "field_config_ok L (fd_type current) c \<and> config_ids (fd_config current) \<subseteq> config_ids c"
proof -
  let ?t = "fd_type current"
  consider (number) "?t = ''number''" | (plain) "plain_type ?t" "?t \<noteq> ''number''"
    | (attachment) "?t = ''attachment''"
    | (select) "select_type ?t" "?t \<noteq> ''number''" "\<not> plain_type ?t" "?t \<noteq> ''attachment''"
    using assms(4) by (auto simp: normalize_updated_field_config_def Let_def split: if_splits)
  then show ?thesis
  proof cases
    case number
    then have "\<not> select_type ?t" by (auto simp: plain_type_def select_type_def)
    with assms(2) have "config_ids (fd_config current) = {}" by (rule config_ids_no_select)
    then show ?thesis using number assms(4) normalize_number_ok
      by (simp add: normalize_updated_field_config_def Let_def)
  next
    case plain
    then have "\<not> select_type ?t" by (auto simp: plain_type_def select_type_def)
    with assms(2) have "config_ids (fd_config current) = {}" by (rule config_ids_no_select)
    then show ?thesis using plain assms(4)
      by (auto simp: normalize_updated_field_config_def Let_def field_config_ok_simps split: raw_config.splits)
  next
    case attachment
    then have "\<not> select_type ?t" by (auto simp: plain_type_def select_type_def)
    with assms(2) have "config_ids (fd_config current) = {}" by (rule config_ids_no_select)
    then show ?thesis using attachment assms(4) normalize_attachment_config_ok
      by (simp add: normalize_updated_field_config_def Let_def plain_type_def)
  next
    case select
    then obtain options deletedOptions input where
      cur: "fd_config current = SelectConfig options deletedOptions"
      and n: "normalize_updated_select_config L gen draws now options deletedOptions input = Inr c"
      using assms(4)
      by (auto simp: normalize_updated_field_config_def Let_def split: raw_config.splits field_config.splits)
    have ok: "select_config_ok L options deletedOptions" using assms(2) cur by (simp add: field_config_ok_simps)
    have fr: "fresh_source gen (so_id ` set options \<union> do_id ` set deletedOptions)"
      using assms(3) cur by (simp add: config_ids_def)
    from updated_select_config_ok[OF assms(1) ok fr n] select cur show ?thesis
      by (auto simp: field_config_ok_simps config_ids_def)
  qed
qed

text \<open>C27: an accepted update keeps the configuration well formed, and it never loses an option: every
  option the Field had, active or deleted, is still there, so that stored values keep their meaning.\<close>

theorem updated_field_config_ok:
  assumes "lib_ok L" and "field_config_ok L (fd_type current) (fd_config current)"
    and "fresh_source gen (config_ids (fd_config current))"
    and "normalize_updated_field_config L gen draws now current raw = Inr c"
  shows "field_config_ok L (fd_type current) c \<and> config_ids (fd_config current) \<subseteq> config_ids c"
  by (rule updated_config_ok[OF assms])

text \<open>C28: an update of a select Field is exactly what the request says: the active options are those of
  the request in its order, with the ID it names or a new one; a deleted option stays deleted as it
  was unless the request restores it, and an active option that the request leaves out becomes
  deleted at the time of the update under its old name and color.\<close>

theorem updated_select_options:
  assumes "lib_ok L"
    and "fresh_source gen (so_id ` set options \<union> do_id ` set deletedOptions)"
    and "normalize_updated_select_config L gen draws now options deletedOptions input
           = Inr (SelectConfig active deleted)"
  shows "list_all2 (option_matches L (so_id ` set options \<union> do_id ` set deletedOptions)) input active
     \<and> mset deleted = mset (filter (\<lambda>d. do_id d \<notin> so_id ` set active) deletedOptions)
         + mset (map (retire_option now) (filter (\<lambda>x. so_id x \<notin> so_id ` set active) options))"
proof -
  obtain st where c: "SelectConfig active deleted
      = SelectConfig (ss_active st) (updated_deleted_options now (ss_ids st) options deletedOptions)"
    and inv: "select_inv L gen (so_id ` set options \<union> do_id ` set deletedOptions) draws st"
    and m: "list_all2 (option_matches L (so_id ` set options \<union> do_id ` set deletedOptions)) input (ss_active st)"
    using normalize_updated_select_config_Inr[OF assms] .
  have "set (ss_ids st) = so_id ` set active" using inv c by (simp add: select_inv_def)
  then show ?thesis using c m by (simp add: updated_deleted_options_def)
qed

text \<open>C29: a View configuration is accepted exactly when every Field it mentions is an active Field of the
  Table (a sortable one in the sort, a location Field for a map), no list repeats a Field, every width,
  limit and coordinate is in range and the filter is acceptable to the query planner; what is stored is
  that configuration with the null orders of the sort decided and the filter in canonical form.\<close>

theorem view_config_accepted_iff:
  "normalize_view_config L viewType raw fs = Inr c \<longleftrightarrow>
     (let m = fields_by_id fs in
      (\<exists>g. viewType = ''grid'' \<and> raw = RawGrid g \<and> grid_config_ok m g
         \<and> c = GridConfig (g\<lparr>gc_sort := map default_nulls (gc_sort g),
                            gc_filter := canon_view_filter L m (gc_filter g)\<rparr>))
      \<or> (\<exists>g. viewType = ''map'' \<and> raw = RawMap g \<and> map_config_ok m g
         \<and> c = MapConfig (g\<lparr>mc_filter := canon_view_filter L m (mc_filter g)\<rparr>)))"
  by (cases raw)
    (auto simp: normalize_view_config_def ok_then_eq_Inr normalize_grid_view_config_iff
      validate_map_view_config_iff Let_def)

lemma checked_plan_total:
  assumes "validate_projection ps meta pv = Inr ()" "validate_filter L f meta fv = Inr f'"
    "normalize_sort ss meta sv = Inr ss'" "normalize_search L (qr_search request) = Inr search"
    "\<forall>x. digest_query D x \<noteq> None" "\<forall>x. digest_schema D x \<noteq> None"
  shows "\<exists>plan. checked_plan L D request meta lc lim (ps, pv) (f, fv) (ss, sv) = Inr plan
     \<and> qp_projection plan = ps \<and> qp_sort plan = ss'"
proof -
  have fp: "\<exists>h. query_fingerprint D (qr_view request) plan = Inr h" for plan
    using assms(5) by (auto simp: query_fingerprint_def split: option.splits)
  have sh: "\<exists>h. query_schema_hash D meta plan = Inr h" for plan
    using assms(6) by (auto simp: query_schema_hash_def split: option.splits)
  have seal: "\<exists>plan'. seal_plan D (qr_view request) meta plan = Inr plan'
      \<and> qp_projection plan' = qp_projection plan \<and> qp_sort plan' = qp_sort plan" for plan
  proof -
    obtain h where h: "query_fingerprint D (qr_view request) plan = Inr h" using fp by blast
    obtain h' where "query_schema_hash D meta (plan\<lparr>qp_fingerprint := h\<rparr>) = Inr h'" using sh by blast
    with h show ?thesis by (simp add: seal_plan_def Let_def)
  qed
  show ?thesis
    using assms(1-4) seal[of "\<lparr>qp_lifecycle = lc, qp_limit = lim, qp_projection = ps, qp_filter = f',
        qp_sort = ss', qp_manual_sort = manual_sort meta ss', qp_search = search,
        qp_fields = qm_fields meta, qp_fingerprint = [], qp_schema_hash = []\<rparr>"]
    by (simp add: checked_plan_def)
qed

lemma grid_config_ok_plan:
  assumes "grid_config_ok m g" "qm_fields meta = fmmap to_field_def m"
  shows "validate_projection (gc_projection g) meta fv = Inr ()"
    "validate_filter L (canon_view_filter L m (gc_filter g)) meta fv
       = Inr (canon_view_filter L m (canon_view_filter L m (gc_filter g)))"
    "normalize_sort (map default_nulls (gc_sort g)) meta fv = Inr (map default_nulls (gc_sort g))"
proof -
  show "validate_projection (gc_projection g) meta fv = Inr ()"
    using assms by (auto simp: validate_projection_iff grid_config_ok_def field_ids_ok_def view_field_active)
  show "validate_filter L (canon_view_filter L m (gc_filter g)) meta fv
       = Inr (canon_view_filter L m (canon_view_filter L m (gc_filter g)))"
    using assms
    by (cases "gc_filter g")
      (auto simp: canon_view_filter_def validate_filter_None validate_filter_iff grid_config_ok_def
        view_filter_ok_def filter_wf_canon max_filter_depth_def max_filter_nodes_def)
  have d: "default_nulls (default_nulls x) = default_nulls x" "sp_field (default_nulls x) = sp_field x" for x
    by (simp_all add: default_nulls_def)
  have "sort_ok (qm_fields meta) (default_nulls x)" if "view_sort_ok m x" for x
    using that unfolding sort_ok_def view_sort_ok_def assms(2) view_field_active d(2)
    by (auto simp: default_nulls_def to_field_def_def unsortable_def unsortable_type_def split: option.splits)
  then show "normalize_sort (map default_nulls (gc_sort g)) meta fv = Inr (map default_nulls (gc_sort g))"
    using assms d by (auto simp: normalize_sort_iff grid_config_ok_def comp_def list_all_iff)
qed


text \<open>A Table with a text Field, a select Field and a Location, and configurations over it.\<close>

definition sample_gen :: id_source where
  "sample_gen n p = (if n = 0 then Some (sample_id p (CHR ''C'')) else None)"

lemma sample_gen_fresh: "sample_id ''opt_'' (CHR ''C'') \<notin> used \<Longrightarrow> fresh_source sample_gen used"
proof -
  have "Valid OptionPrefix (sample_id ''opt_'' (CHR ''C''))" by code_simp
  then show "sample_id ''opt_'' (CHR ''C'') \<notin> used \<Longrightarrow> fresh_source sample_gen used"
    by (auto simp: fresh_source_def sample_gen_def OptionPrefix_def split: if_splits)
qed

definition sample_table_field :: "string \<Rightarrow> string \<Rightarrow> field_config \<Rightarrow> field" where
  "sample_table_field i t c =
     \<lparr>fd_id = i, fd_table = ''tbl'', fd_name = i, fd_description = [], fd_position = 0, fd_schema_version = 1,
      fd_revision = 1, fd_type = t, fd_config = c, fd_deleted_at = None\<rparr>"

theorem new_field_config_ok_witness:
  "\<exists>c fp. normalize_new_field_config ascii_lib sample_gen 0 ''select''
         (RawSelect [\<lparr>oi_id = None, oi_name = '' Open '', oi_color = ''red''\<rparr>]) = Inr (c, fp)
     \<and> field_config_ok ascii_lib ''select'' c"
proof -
  let ?r = "normalize_new_field_config ascii_lib sample_gen 0 ''select''
         (RawSelect [\<lparr>oi_id = None, oi_name = '' Open '', oi_color = ''red''\<rparr>])"
  have "succeeds ?r" by code_simp
  then obtain c fp where r: "?r = Inr (c, fp)" using succeedsE by fastforce
  show ?thesis using new_field_config_ok[OF lib_ok_ascii sample_gen_fresh r] r by blast
qed

text \<open>The option in use is left out, the deleted one is restored and a third one is new.\<close>

definition sample_update :: "option_input list" where
  "sample_update = [\<lparr>oi_id = Some (sample_id ''opt_'' (CHR ''B'')), oi_name = ''b'', oi_color = ''blue''\<rparr>,
      \<lparr>oi_id = None, oi_name = ''c'', oi_color = ''red''\<rparr>]"

lemma sample_config_ok: "field_config_ok ascii_lib ''select'' sample_options"
proof -
  have "select_config_ok ascii_lib [\<lparr>so_id = sample_id ''opt_'' (CHR ''A''), so_name = ''a'', so_color = ''red''\<rparr>]
       [\<lparr>do_id = sample_id ''opt_'' (CHR ''B''), do_name = ''b'', do_color = ''red'', do_deleted_at = 5\<rparr>]"
    by code_simp
  then show ?thesis by (simp add: sample_options_def field_config_ok_simps select_type_def)
qed

theorem updated_field_config_ok_witness:
  "\<exists>c. normalize_updated_field_config ascii_lib sample_gen 0 9
         (sample_table_field ''f'' ''select'' sample_options) (RawSelect sample_update) = Inr c
     \<and> field_config_ok ascii_lib ''select'' c \<and> sample_id ''opt_'' (CHR ''A'') \<in> config_ids c"
proof -
  let ?f = "sample_table_field ''f'' ''select'' sample_options"
  have "succeeds (normalize_updated_field_config ascii_lib sample_gen 0 9 ?f (RawSelect sample_update))" by code_simp
  then obtain c where r: "normalize_updated_field_config ascii_lib sample_gen 0 9 ?f (RawSelect sample_update) = Inr c"
    using succeedsE by blast
  have ok: "field_config_ok ascii_lib (fd_type ?f) (fd_config ?f)"
    using sample_config_ok by (simp add: sample_table_field_def)
  have fr: "fresh_source sample_gen (config_ids (fd_config ?f))"
    by (rule sample_gen_fresh) (simp add: sample_table_field_def sample_options_def config_ids_def sample_id_def)
  have "sample_id ''opt_'' (CHR ''A'') \<in> config_ids (fd_config ?f)"
    by (simp add: sample_table_field_def sample_options_def config_ids_def)
  then show ?thesis
    using updated_field_config_ok[OF lib_ok_ascii ok fr r] r by (auto simp: sample_table_field_def)
qed

theorem updated_select_options_witness:
  "\<exists>active deleted. normalize_updated_select_config ascii_lib sample_gen 0 9
         [\<lparr>so_id = sample_id ''opt_'' (CHR ''A''), so_name = ''a'', so_color = ''red''\<rparr>]
         [\<lparr>do_id = sample_id ''opt_'' (CHR ''B''), do_name = ''b'', do_color = ''red'', do_deleted_at = 5\<rparr>]
         sample_update = Inr (SelectConfig active deleted)
     \<and> length active = 2"
proof -
  let ?o = "[\<lparr>so_id = sample_id ''opt_'' (CHR ''A''), so_name = ''a'', so_color = ''red''\<rparr>]"
  let ?d = "[\<lparr>do_id = sample_id ''opt_'' (CHR ''B''), do_name = ''b'', do_color = ''red'', do_deleted_at = 5\<rparr>]"
  have "succeeds (normalize_updated_select_config ascii_lib sample_gen 0 9 ?o ?d sample_update)" by code_simp
  then obtain c where "normalize_updated_select_config ascii_lib sample_gen 0 9 ?o ?d sample_update = Inr c"
    using succeedsE by blast
  moreover from this obtain active deleted where "c = SelectConfig active deleted"
    by (auto simp: normalize_updated_select_config_def Let_def ok_then_eq_Inr)
  ultimately have r: "normalize_updated_select_config ascii_lib sample_gen 0 9 ?o ?d sample_update
      = Inr (SelectConfig active deleted)" by simp
  have fr: "fresh_source sample_gen (so_id ` set ?o \<union> do_id ` set ?d)"
    by (rule sample_gen_fresh) (simp add: sample_id_def)
  have "length active = length sample_update"
    using list_all2_lengthD[OF conjunct1[OF updated_select_options[OF lib_ok_ascii fr r]]] by (rule sym)
  then show ?thesis using r by (auto simp: sample_update_def)
qed

definition sample_grid :: grid_config where
  "sample_grid =
     \<lparr>gc_projection = [sample_id ''fld_'' (CHR ''1'')], gc_column_order = [], gc_column_widths = fmempty,
      gc_frozen = [], gc_row_height = ''standard'', gc_filter = Some sample_rule,
      gc_sort = [\<lparr>sp_field = sample_id ''fld_'' (CHR ''1''), sp_direction = ''desc'', sp_nulls = []\<rparr>],
      gc_manual_sort = False\<rparr>"

definition sample_table_fields :: "field list" where
  "sample_table_fields = [sample_table_field (sample_id ''fld_'' (CHR ''1'')) ''text'' EmptyConfig]"


end
