(* ===== verification/Store.thy ===== *)
theory Store
  imports Config Mutation Cursor
begin

text \<open>
  The database as internal/storage/postgres sees it: the rows of migrations/*.sql, the parts every
  transaction shares (catalog.go: \<open>lockActor\<close>, \<open>replayIdempotent\<close>, \<open>saveIdempotent\<close>; audit_transaction.go;
  the joins that decide which Workspace, Base, Table an Actor can reach; table.go and field.go:
  \<open>insertTableChange\<close>, \<open>insertMetadataChange\<close>; the trigger of 008_view_order.sql).

  A table is the list of its rows in insertion order; \<open>SELECT\<close> with a primary key is \<open>find\<close>,
  \<open>UPDATE\<close> is \<open>update_where\<close>, \<open>INSERT\<close> appends and fails on a duplicate key.  A transaction is a
  function of the database that gives an error, and then nothing is written (\<open>tx.Rollback\<close>), or a
  result with the next database (\<open>tx.Commit\<close>); transactions are taken one after the other, as the
  row locks order those that touch the same rows.  The clock \<open>db_now\<close> is read by
  \<open>clock_timestamp()\<close> and \<open>CURRENT_TIMESTAMP\<close> alike and stands still within a transaction; \<open>db_draws\<close>
  counts the calls of \<open>id.New\<close>, whose results are \<open>en_ids\<close> of the environment.  JSON columns hold
  the values their text encodes.  A failing connection or SQL statement is not modelled, other
  than a duplicate key; nor are the audit tables and their triggers: of \<open>beginAudit\<close> the model keeps
  the operation ID.
\<close>

section \<open>Rows\<close>

record workspace_row =
  wr_workspace :: workspace
  wr_actor :: string
  wr_deleted_at :: "instant option"

record base_row =
  br_base :: base
  br_deleted_at :: "instant option"

record table_row =
  tr_table :: tbl
  tr_order_revision :: int
  tr_order :: "string list"

record field_row =
  fr_field :: field
  fr_primary :: bool

record record_row =
  rr_record :: rec
  rr_position :: rat
  rr_query :: vals
  rr_search :: string

record attachment_row =
  ar_attachment :: attachment
  ar_actor :: string

record change =
  ch_sequence :: int
  ch_id :: string
  ch_kind :: string
  ch_table :: string
  ch_record :: string
  ch_object :: string
  ch_revision :: int
  ch_actor :: string
  ch_at :: instant
  ch_fields :: "field_change list"
  ch_primary :: string

record selection_query =
  sq_view :: string
  sq_filter :: "filter_node option"
  sq_filter_present :: bool
  sq_search :: string

text \<open>A row of \<open>selection_scopes\<close> with its rows of \<open>selection_scope_members\<close>.\<close>

record scope_row =
  ss_id :: string
  ss_actor :: string
  ss_table :: string
  ss_request :: string
  ss_hash :: string
  ss_query :: selection_query
  ss_fingerprint :: string
  ss_schema :: string
  ss_version :: string
  ss_count :: int
  ss_created_at :: instant
  ss_expires_at :: instant
  ss_invalidated :: bool
  ss_members :: "string list"

section \<open>Receipts\<close>

record view_order_result =
  vr_mutation :: string
  vr_status :: string
  vr_order :: view_order

record command_result =
  cr_index :: nat
  cr_status :: string
  cr_record :: rec

record choice_field_result =
  cfr_field :: string
  cfr_before :: int
  cfr_revision :: int
  cfr_resolved :: "select_option list"
  cfr_created :: "select_option list"

record mutation_result =
  mr_mutation :: string
  mr_results :: "command_result list"
  mr_sequence :: int
  mr_choices :: "choice_field_result list"

text \<open>
  The \<open>response\<close> column of \<open>idempotency_keys\<close>, by the Go type that was marshalled.  The request
  hash covers the method and the path, so a stored response is only ever read back as the type it
  was written with.
\<close>

datatype receipt =
    WorkspaceReceipt workspace
  | BaseReceipt base
  | TableReceipt create_table_result
  | FieldReceipt field
  | ViewReceipt view
  | ViewOrderReceipt view_order_result
  | MutationReceipt mutation_result

record receipt_row =
  ir_actor :: string
  ir_key :: string
  ir_hash :: string
  ir_response :: receipt
  ir_operation :: string
  ir_created_at :: instant

record guard_row =
  gr_actor :: string
  gr_key :: string
  gr_hash :: string

section \<open>The database\<close>

record db =
  db_actors :: "string list"
  db_workspaces :: "workspace_row list"
  db_bases :: "base_row list"
  db_tables :: "table_row list"
  db_fields :: "field_row list"
  db_views :: "view list"
  db_records :: "record_row list"
  db_attachments :: "attachment_row list"
  db_changes :: "change list"
  db_sequence :: int
  db_watermarks :: "(string, int) fmap"
  db_receipts :: "receipt_row list"
  db_guards :: "guard_row list"
  db_scopes :: "scope_row list"
  db_operation :: string
  db_draws :: nat
  db_now :: instant

text \<open>
  What the process gets from outside: text functions, \<open>id.New\<close>, the hashes of the canonical JSON of a
  query, of its schema, of a selection's membership and Field context, SHA-256 in hexadecimal, the JSON
  text of a filter and of a selection's query, PostgreSQL's text of a JSON value that is no string, and
  the text of an instant in a cursor with its parser.
\<close>

record env =
  en_lib :: lib
  en_ids :: id_source
  en_digest :: digest
  en_membership :: "string \<Rightarrow> filter_node option \<Rightarrow> string \<Rightarrow> string option"
  en_context :: "(string \<times> string) list \<Rightarrow> string option"
  en_filter_json :: "filter_node \<Rightarrow> string"
  en_query_json :: "selection_query \<Rightarrow> string option"
  en_hash :: "string \<Rightarrow> string"
  en_json_text :: "json \<Rightarrow> string"
  en_time_text :: "instant \<Rightarrow> string"
  en_parse_time :: "string \<Rightarrow> instant option"

type_synonym 'a tx = "db \<Rightarrow> ('a \<times> db) res"

section \<open>Rows of a table\<close>

definition update_where :: "('r \<Rightarrow> bool) \<Rightarrow> ('r \<Rightarrow> 'r) \<Rightarrow> 'r list \<Rightarrow> 'r list" where
  "update_where p f rows = map (\<lambda>r. if p r then f r else r) rows"

definition insert_row :: "string \<Rightarrow> ('r \<Rightarrow> 'k) \<Rightarrow> 'r \<Rightarrow> 'r list \<Rightarrow> 'r list res" where
  "insert_row what key r rows =
     (if key r \<in> set (map key rows) then Inl (Internal what) else Inr (rows @ [r]))"

lemma insert_row_Inr:
  "insert_row what key r rows = Inr rows' \<longleftrightarrow> key r \<notin> key ` set rows \<and> rows' = rows @ [r]"
  by (auto simp: insert_row_def)

lemma length_update_where [simp]: "length (update_where p f rows) = length rows"
  by (simp add: update_where_def)

lemma set_update_where:
  "set (update_where p f rows) = f ` {r \<in> set rows. p r} \<union> {r \<in> set rows. \<not> p r}"
  by (auto simp: update_where_def)

lemma map_update_where [simp]:
  "(\<And>r. p r \<Longrightarrow> key (f r) = key r) \<Longrightarrow> map key (update_where p f rows) = map key rows"
  by (simp add: update_where_def)

lemma update_where_none [simp]: "(\<And>r. r \<in> set rows \<Longrightarrow> \<not> p r) \<Longrightarrow> update_where p f rows = rows"
  unfolding update_where_def by (rule map_idI) auto

lemma find_update_where:
  "(\<And>r. p r \<Longrightarrow> q (f r) = q r) \<Longrightarrow>
     find q (update_where p f rows) = map_option (\<lambda>r. if p r then f r else r) (find q rows)"
  by (induction rows) (auto simp: update_where_def)

lemma find_append: "find p (xs @ ys) = (case find p xs of None \<Rightarrow> find p ys | Some x \<Rightarrow> Some x)"
  by (induction xs) auto

lemma find_SomeD: "find p xs = Some x \<Longrightarrow> p x \<and> x \<in> set xs"
  by (auto simp: find_Some_iff)

lemma find_unique:
  "distinct (map key rows) \<Longrightarrow> r \<in> set rows \<Longrightarrow> p r \<Longrightarrow> (\<And>x. p x \<Longrightarrow> key x = key r) \<Longrightarrow>
     find p rows = Some r"
proof (induction rows)
  case Nil
  then show ?case by simp
next
  case (Cons a rows)
  show ?case
  proof (cases "r = a")
    case True
    then show ?thesis using Cons.prems(3) by simp
  next
    case False
    then have r: "r \<in> set rows" using Cons.prems(2) by simp
    then have "key a \<noteq> key r" using Cons.prems(1) by auto
    then have "\<not> p a" using Cons.prems(4) by blast
    have d: "distinct (map key rows)" using Cons.prems(1) by simp
    have "find p rows = Some r" by (rule Cons.IH[OF d r Cons.prems(3,4)])
    then show ?thesis using \<open>\<not> p a\<close> by simp
  qed
qed

lemma find_None_all: "find p xs = None \<longleftrightarrow> (\<forall>x \<in> set xs. \<not> p x)"
  by (auto simp: find_None_iff)

lemma length_filter_update_where [simp]:
  "(\<And>r. p r \<Longrightarrow> q (f r) = q r) \<Longrightarrow> length (filter q (update_where p f rows)) = length (filter q rows)"
  by (induction rows) (auto simp: update_where_def)

section \<open>What an Actor can reach\<close>

definition find_workspace :: "string \<Rightarrow> string \<Rightarrow> db \<Rightarrow> workspace_row option" where
  "find_workspace actor wid s =
     find (\<lambda>r. ws_id (wr_workspace r) = wid \<and> wr_actor r = actor \<and> wr_deleted_at r = None) (db_workspaces s)"

definition find_base :: "string \<Rightarrow> string \<Rightarrow> db \<Rightarrow> base_row option" where
  "find_base actor bid s =
     find (\<lambda>r. bs_id (br_base r) = bid \<and> br_deleted_at r = None
             \<and> find_workspace actor (bs_workspace (br_base r)) s \<noteq> None) (db_bases s)"

text \<open>\<open>accessibleTableSQL\<close>: the Table may be deleted, its Base and Workspace may not.\<close>

definition find_table :: "string \<Rightarrow> string \<Rightarrow> db \<Rightarrow> table_row option" where
  "find_table actor tid s =
     find (\<lambda>r. tb_id (tr_table r) = tid \<and> find_base actor (tb_base (tr_table r)) s \<noteq> None) (db_tables s)"

definition find_active_table :: "string \<Rightarrow> string \<Rightarrow> db \<Rightarrow> table_row option" where
  "find_active_table actor tid s =
     find (\<lambda>r. tb_id (tr_table r) = tid \<and> tb_deleted_at (tr_table r) = None
             \<and> find_base actor (tb_base (tr_table r)) s \<noteq> None) (db_tables s)"

definition active_table_visible :: "string \<Rightarrow> string \<Rightarrow> db \<Rightarrow> bool" where
  "active_table_visible actor tid s = (find_active_table actor tid s \<noteq> None)"

definition lock_active_table :: "string \<Rightarrow> string \<Rightarrow> db \<Rightarrow> unit res" where
  "lock_active_table actor tid s = (if active_table_visible actor tid s then Inr () else Inl NotFound)"

definition lifecycle_condition :: "string \<Rightarrow> (instant option \<Rightarrow> bool) res" where
  "lifecycle_condition lifecycle =
     (if lifecycle = ''active'' then Inr (\<lambda>d. d = None)
      else if lifecycle = ''deleted'' then Inr (\<lambda>d. d \<noteq> None)
      else if lifecycle = ''all'' then Inr (\<lambda>d. True)
      else Inl (BadRequest ''invalid lifecycle''))"

section \<open>Parts of every transaction\<close>

text \<open>\<open>id.New\<close>.\<close>

definition draw_id :: "env \<Rightarrow> string \<Rightarrow> string \<Rightarrow> string tx" where
  "draw_id E what prefix s =
     (case en_ids E (db_draws s) prefix of
        None \<Rightarrow> Inl (Internal what)
      | Some i \<Rightarrow> Inr (i, s\<lparr>db_draws := db_draws s + 1\<rparr>))"

definition begin_audit :: "env \<Rightarrow> string \<Rightarrow> unit tx" where
  "begin_audit E actor s =
     ok_then (draw_id E ''generate operation ID'' ''op_'' s) (\<lambda>(i, s). Inr ((), s\<lparr>db_operation := i\<rparr>))"

definition lock_actor :: "string \<Rightarrow> db \<Rightarrow> unit res" where
  "lock_actor actor s = (if actor \<in> set (db_actors s) then Inr () else Inl NotFound)"

definition find_receipt :: "string \<Rightarrow> string \<Rightarrow> db \<Rightarrow> receipt_row option" where
  "find_receipt actor key s = find (\<lambda>r. ir_actor r = actor \<and> ir_key r = key) (db_receipts s)"

definition find_guard :: "string \<Rightarrow> string \<Rightarrow> db \<Rightarrow> guard_row option" where
  "find_guard actor key s = find (\<lambda>r. gr_actor r = actor \<and> gr_key r = key) (db_guards s)"

text \<open>The receipt of an earlier request with this key, unless there is none.\<close>

definition replay_idempotent :: "string \<Rightarrow> string \<Rightarrow> string \<Rightarrow> db \<Rightarrow> receipt option res" where
  "replay_idempotent actor key fingerprint s =
     (case find_receipt actor key s of
        None \<Rightarrow>
          (case find_guard actor key s of
             None \<Rightarrow> Inr None
           | Some g \<Rightarrow>
               if gr_hash g \<noteq> fingerprint then Inl IdempotencyKeyReused else Inl (MutationReceiptExpired key))
      | Some r \<Rightarrow>
          if ir_hash r \<noteq> fingerprint then Inl IdempotencyKeyReused else Inr (Some (ir_response r)))"

definition save_idempotent :: "string \<Rightarrow> string \<Rightarrow> string \<Rightarrow> receipt \<Rightarrow> unit tx" where
  "save_idempotent actor key fingerprint response s =
     ok_then (insert_row ''save idempotency result'' (\<lambda>r. (ir_actor r, ir_key r))
        \<lparr>ir_actor = actor, ir_key = key, ir_hash = fingerprint, ir_response = response,
         ir_operation = db_operation s, ir_created_at = db_now s\<rparr> (db_receipts s))
       (\<lambda>rows. Inr ((), s\<lparr>db_receipts := rows\<rparr>))"

definition save_guard :: "string \<Rightarrow> string \<Rightarrow> string \<Rightarrow> unit tx" where
  "save_guard actor key fingerprint s =
     ok_then (insert_row ''save mutation identity guard'' (\<lambda>r. (gr_actor r, gr_key r))
        \<lparr>gr_actor = actor, gr_key = key, gr_hash = fingerprint\<rparr> (db_guards s))
       (\<lambda>rows. Inr ((), s\<lparr>db_guards := rows\<rparr>))"

text \<open>
  How the creating transactions begin: the operation, the lock of the Actor, the replay of a
  receipt (read back with \<open>decode\<close>), and otherwise the work itself.
\<close>

definition idempotent ::
  "env \<Rightarrow> (receipt \<Rightarrow> 'a option) \<Rightarrow> string \<Rightarrow> string \<Rightarrow> string \<Rightarrow> 'a tx \<Rightarrow> 'a tx" where
  "idempotent E decode actor key fingerprint work s =
     ok_then (begin_audit E actor s) (\<lambda>(_, s).
     ok_then (lock_actor actor s) (\<lambda>_.
     ok_then (replay_idempotent actor key fingerprint s) (\<lambda>found.
       case found of
         Some response \<Rightarrow>
           (case decode response of
              None \<Rightarrow> Inl (Internal ''decode idempotency result'')
            | Some result \<Rightarrow> Inr (result, s))
       | None \<Rightarrow> work s)))"

section \<open>Changes\<close>

definition insert_change ::
  "env \<Rightarrow> string \<Rightarrow> string \<Rightarrow> string \<Rightarrow> string \<Rightarrow> string \<Rightarrow> int \<Rightarrow> field_change list \<Rightarrow> string \<Rightarrow> unit tx" where
  "insert_change E actor kind table record object revision diff primaryText s =
     ok_then (draw_id E ''generate change ID'' ChangePrefix s) (\<lambda>(changeID, s).
     ok_then (insert_row ''insert change'' ch_id
        \<lparr>ch_sequence = db_sequence s + 1, ch_id = changeID, ch_kind = kind, ch_table = table,
         ch_record = record, ch_object = object, ch_revision = revision, ch_actor = actor,
         ch_at = db_now s, ch_fields = diff, ch_primary = primaryText\<rparr> (db_changes s)) (\<lambda>rows.
     Inr ((), s\<lparr>db_changes := rows, db_sequence := db_sequence s + 1\<rparr>)))"

definition insert_metadata_change :: "env \<Rightarrow> string \<Rightarrow> string \<Rightarrow> string \<Rightarrow> string \<Rightarrow> int \<Rightarrow> unit tx" where
  "insert_metadata_change E actor kind tableID objectID revision s =
     insert_change E actor kind tableID [] objectID revision [] [] s"

definition insert_table_change :: "env \<Rightarrow> string \<Rightarrow> tbl \<Rightarrow> string \<Rightarrow> unit tx" where
  "insert_table_change E actor t kind s =
     insert_change E actor kind (tb_id t) [] (tb_id t) (tb_revision t) [] [] s"

text \<open>\<open>SELECT COALESCE(MAX(change_sequence), 0)\<close>.\<close>

definition change_tail :: "string \<Rightarrow> db \<Rightarrow> int" where
  "change_tail tableID s =
     foldr max (map ch_sequence (filter (\<lambda>c. ch_table c = tableID) (db_changes s))) 0"

definition watermark :: "string \<Rightarrow> db \<Rightarrow> int" where
  "watermark tableID s = (case fmlookup (db_watermarks s) tableID of None \<Rightarrow> 0 | Some n \<Rightarrow> n)"

section \<open>The View order trigger: migrations/008_view_order.sql\<close>

text \<open>
  \<open>maintain_view_order\<close> for the row \<open>view\<close> after an insert, or after an update of \<open>deleted_at\<close> that
  changed whether the View is active.
\<close>

definition next_order :: "string \<Rightarrow> bool \<Rightarrow> string list \<Rightarrow> string list" where
  "next_order viewID active current =
     (if active \<and> viewID \<notin> set current then current @ [viewID]
      else if \<not> active \<and> viewID \<in> set current then filter (\<lambda>i. i \<noteq> viewID) current
      else current)"

definition maintain_view_order :: "view \<Rightarrow> db \<Rightarrow> db" where
  "maintain_view_order v s =
     s\<lparr>db_tables := update_where (\<lambda>r. tb_id (tr_table r) = vw_table v)
        (\<lambda>r. let order' = next_order (vw_id v) (vw_deleted_at v = None) (tr_order r) in
              if order' \<noteq> tr_order r
              then r\<lparr>tr_order := order', tr_order_revision := tr_order_revision r + 1\<rparr> else r)
        (db_tables s)\<rparr>"

section \<open>How the parts succeed\<close>

lemma draw_id_Inr:
  "draw_id E what prefix s = Inr (i, s') \<longleftrightarrow>
     en_ids E (db_draws s) prefix = Some i \<and> s' = s\<lparr>db_draws := db_draws s + 1\<rparr>"
  by (auto simp: draw_id_def split: option.splits)

lemma begin_audit_Inr:
  "begin_audit E actor s = Inr (u, s') \<longleftrightarrow>
     (\<exists>i. en_ids E (db_draws s) ''op_'' = Some i \<and> s' = s\<lparr>db_draws := db_draws s + 1, db_operation := i\<rparr>)"
  by (auto simp: begin_audit_def ok_then_eq_Inr draw_id_Inr)

lemma lock_actor_Inr [simp]: "lock_actor actor s = Inr u \<longleftrightarrow> actor \<in> set (db_actors s)"
  by (simp add: lock_actor_def)

lemma lock_active_table_Inr [simp]:
  "lock_active_table actor tid s = Inr u \<longleftrightarrow> active_table_visible actor tid s"
  by (simp add: lock_active_table_def)

lemma save_idempotent_Inr:
  "save_idempotent actor key h r s = Inr (u, s') \<longleftrightarrow>
     find_receipt actor key s = None \<and>
     s' = s\<lparr>db_receipts := db_receipts s @ [\<lparr>ir_actor = actor, ir_key = key, ir_hash = h,
              ir_response = r, ir_operation = db_operation s, ir_created_at = db_now s\<rparr>]\<rparr>"
  by (auto simp: save_idempotent_def ok_then_eq_Inr insert_row_Inr find_receipt_def find_None_all image_iff)

lemma save_guard_Inr:
  "save_guard actor key h s = Inr (u, s') \<longleftrightarrow>
     find_guard actor key s = None \<and>
     s' = s\<lparr>db_guards := db_guards s @ [\<lparr>gr_actor = actor, gr_key = key, gr_hash = h\<rparr>]\<rparr>"
  by (auto simp: save_guard_def ok_then_eq_Inr insert_row_Inr find_guard_def find_None_all image_iff)

definition next_change ::
  "string \<Rightarrow> string \<Rightarrow> string \<Rightarrow> string \<Rightarrow> string \<Rightarrow> string \<Rightarrow> int \<Rightarrow> field_change list \<Rightarrow> string \<Rightarrow> db \<Rightarrow> change" where
  "next_change i actor kind table record object revision diff primaryText s =
     \<lparr>ch_sequence = db_sequence s + 1, ch_id = i, ch_kind = kind, ch_table = table, ch_record = record,
      ch_object = object, ch_revision = revision, ch_actor = actor, ch_at = db_now s, ch_fields = diff,
      ch_primary = primaryText\<rparr>"

lemma insert_change_Inr:
  "insert_change E actor kind table record object revision diff txt s = Inr (u, s') \<longleftrightarrow>
     (\<exists>i. en_ids E (db_draws s) ChangePrefix = Some i \<and> i \<notin> ch_id ` set (db_changes s) \<and>
        s' = s\<lparr>db_draws := db_draws s + 1, db_sequence := db_sequence s + 1,
               db_changes := db_changes s
                 @ [next_change i actor kind table record object revision diff txt s]\<rparr>)"
  by (auto simp: insert_change_def ok_then_eq_Inr draw_id_Inr insert_row_Inr next_change_def)

lemma next_change_sel [simp]:
  "ch_sequence (next_change i a k t r obj n fs x s) = db_sequence s + 1"
  "ch_table (next_change i a k t r obj n fs x s) = t"
  "ch_object (next_change i a k t r obj n fs x s) = obj"
  "ch_record (next_change i a k t r obj n fs x s) = r"
  "ch_kind (next_change i a k t r obj n fs x s) = k"
  "ch_revision (next_change i a k t r obj n fs x s) = n"
  "ch_actor (next_change i a k t r obj n fs x s) = a"
  "ch_at (next_change i a k t r obj n fs x s) = db_now s"
  "ch_id (next_change i a k t r obj n fs x s) = i"
  by (simp_all add: next_change_def)

text \<open>A transaction that begins with \<open>idempotent\<close> replays a receipt or does its work.\<close>

lemma idempotent_Inr:
  "idempotent E decode actor key h work s = Inr (x, s') \<longleftrightarrow>
     (\<exists>i. en_ids E (db_draws s) ''op_'' = Some i \<and> actor \<in> set (db_actors s) \<and>
       (let s1 = s\<lparr>db_draws := db_draws s + 1, db_operation := i\<rparr> in
        (\<exists>r. find_receipt actor key s = Some r \<and> ir_hash r = h \<and> decode (ir_response r) = Some x \<and> s' = s1)
        \<or> (find_receipt actor key s = None \<and> find_guard actor key s = None \<and> work s1 = Inr (x, s'))))"
proof -
  have f: "find_receipt actor key (s\<lparr>db_draws := n, db_operation := i\<rparr>) = find_receipt actor key s"
    "find_guard actor key (s\<lparr>db_draws := n, db_operation := i\<rparr>) = find_guard actor key s" for n i
    by (simp_all add: find_receipt_def find_guard_def)
  show ?thesis
  proof (cases "en_ids E (db_draws s) ''op_''")
    case None
    then show ?thesis by (simp add: idempotent_def begin_audit_def draw_id_def)
  next
    case (Some i)
    show ?thesis
    proof (cases "actor \<in> set (db_actors s)")
      case False
      with Some show ?thesis by (simp add: idempotent_def begin_audit_def draw_id_def lock_actor_def)
    next
      case True
      with Some show ?thesis
        by (cases "find_receipt actor key s"; cases "find_guard actor key s")
          (auto simp: idempotent_def begin_audit_def draw_id_def lock_actor_def replay_idempotent_def f Let_def
            split: option.splits)
    qed
  qed
qed

section \<open>The change log\<close>

text \<open>
  Sequences grow along the log, none exceeds the counter, change IDs are unique, and whatever
  retention deleted lies at or below its Table's watermark, which the counter bounds as well.
\<close>

definition log_ok :: "db \<Rightarrow> bool" where
  "log_ok s =
     (sorted_wrt (\<lambda>c d. ch_sequence c < ch_sequence d) (db_changes s)
      \<and> list_all (\<lambda>c. 1 \<le> ch_sequence c \<and> ch_sequence c \<le> db_sequence s) (db_changes s)
      \<and> distinct (map ch_id (db_changes s)) \<and> 0 \<le> db_sequence s
      \<and> (\<forall>t. watermark t s \<le> db_sequence s))"

lemma log_ok_watermark: "log_ok s \<Longrightarrow> watermark t s \<le> db_sequence s"
  by (simp add: log_ok_def)

lemma log_ok_sequence: "log_ok s \<Longrightarrow> c \<in> set (db_changes s) \<Longrightarrow> 1 \<le> ch_sequence c \<and> ch_sequence c \<le> db_sequence s"
  by (auto simp: log_ok_def list_all_iff)

lemma log_ok_insert_change:
  assumes "log_ok s" "insert_change E a k t r obj n fs x s = Inr (u, s')"
  shows "log_ok s'"
proof -
  obtain i where i: "i \<notin> ch_id ` set (db_changes s)" and s': "s' = s\<lparr>db_draws := db_draws s + 1,
      db_sequence := db_sequence s + 1,
      db_changes := db_changes s @ [next_change i a k t r obj n fs x s]\<rparr>"
    using assms(2) by (auto simp: insert_change_Inr)
  have w: "watermark y s' = watermark y s" for y by (simp add: s' watermark_def)
  have le: "\<forall>y. watermark y s \<le> db_sequence s + 1"
    using assms(1) by (auto simp: log_ok_def intro: order_trans)
  have seq: "\<forall>c \<in> set (db_changes s). 1 \<le> ch_sequence c \<and> ch_sequence c \<le> db_sequence s"
    using assms(1) by (simp add: log_ok_def list_all_iff)
  then have less: "\<forall>c \<in> set (db_changes s). ch_sequence c < db_sequence s + 1"
    by (simp add: zle_add1_eq_le)
  then have le': "\<forall>c \<in> set (db_changes s). 1 \<le> ch_sequence c \<and> ch_sequence c \<le> db_sequence s + 1"
    using seq by auto
  show ?thesis unfolding log_ok_def w
    using assms(1) i le less le' by (simp add: s' log_ok_def sorted_wrt_append list_all_iff)
qed

lemma foldr_max_le: "foldr max xs (b::int) \<le> c \<longleftrightarrow> b \<le> c \<and> (\<forall>x \<in> set xs. x \<le> c)"
  by (induction xs) auto

lemma foldr_max_ge: "x \<in> set xs \<Longrightarrow> x \<le> foldr max xs (b::int)"
  by (induction xs) (auto simp: le_max_iff_disj)

lemma foldr_max_ge_base: "(b::int) \<le> foldr max xs b"
  by (induction xs) (auto simp: le_max_iff_disj)

lemma foldr_max_in: "foldr max xs (b::int) = b \<or> foldr max xs b \<in> set xs"
  by (induction xs) (auto simp: max_def)

lemma change_tail_le: "log_ok s \<Longrightarrow> change_tail t s \<le> db_sequence s"
  by (auto simp: change_tail_def foldr_max_le log_ok_sequence) (simp add: log_ok_def)

lemma change_tail_ge:
  "c \<in> set (db_changes s) \<Longrightarrow> ch_table c = t \<Longrightarrow> ch_sequence c \<le> change_tail t s"
  unfolding change_tail_def by (rule foldr_max_ge) auto

lemma change_tail_nonneg [simp]: "0 \<le> change_tail t s"
  unfolding change_tail_def by (rule foldr_max_ge_base)

section \<open>A small database\<close>

text \<open>
  One Actor with a Workspace, a Base and a Table that has its primary Field and its first View; the
  witnesses of the properties start from it.  \<open>sample_env\<close> numbers the IDs it draws.
\<close>

definition numbered_ids :: id_source where
  "numbered_ids n prefix = Some (prefix @ replicate (26 - length (show_nat n)) (CHR ''0'') @ show_nat n)"

definition sample_env :: env where
  "sample_env =
     \<lparr>en_lib = ascii_lib, en_ids = numbered_ids, en_digest = sample_digest,
      en_membership = (\<lambda>t f s. Some (t @ s)), en_context = (\<lambda>fs. Some (concat (map fst fs))),
      en_filter_json = fn_field, en_query_json = (\<lambda>q. Some (sq_view q @ sq_search q)), en_hash = (\<lambda>t. t),
      en_json_text = (\<lambda>v. []), en_time_text = (\<lambda>t. replicate (nat t) (CHR ''1'')),
      en_parse_time = (\<lambda>s. Some (int (length s)))\<rparr>"

definition sample_actor :: string where "sample_actor = sample_id ''act_'' (CHR ''A'')"
definition sample_table :: string where "sample_table = sample_id ''tbl_'' (CHR ''T'')"

definition sample_tbl :: tbl where
  "sample_tbl =
     \<lparr>tb_id = sample_table, tb_base = sample_id ''base_'' (CHR ''B''), tb_name = ''Tasks'',
      tb_primary_field = sample_id ''fld_'' (CHR ''F''), tb_revision = 1, tb_created_at = 0,
      tb_updated_at = 0, tb_deleted_at = None\<rparr>"

definition sample_view :: view where
  "sample_view =
     \<lparr>vw_id = sample_id ''view_'' (CHR ''V''), vw_table = sample_table, vw_name = ''Grid'', vw_type = ''grid'',
      vw_config = GridConfig \<lparr>gc_projection = [sample_id ''fld_'' (CHR ''F'')], gc_column_order = [],
        gc_column_widths = fmempty, gc_frozen = [], gc_row_height = ''standard'', gc_filter = None,
        gc_sort = [], gc_manual_sort = False\<rparr>,
      vw_default = True, vw_revision = 1, vw_created_at = 0, vw_updated_at = 0, vw_deleted_at = None\<rparr>"

definition sample_db :: db where
  "sample_db =
     \<lparr>db_actors = [sample_actor],
      db_workspaces = [\<lparr>wr_workspace = \<lparr>ws_id = sample_id ''ws_'' (CHR ''W''), ws_name = ''Home'',
        ws_revision = 1, ws_created_at = 0, ws_updated_at = 0\<rparr>, wr_actor = sample_actor, wr_deleted_at = None\<rparr>],
      db_bases = [\<lparr>br_base = \<lparr>bs_id = sample_id ''base_'' (CHR ''B''), bs_workspace = sample_id ''ws_'' (CHR ''W''),
        bs_name = ''Work'', bs_revision = 1, bs_created_at = 0, bs_updated_at = 0\<rparr>, br_deleted_at = None\<rparr>],
      db_tables = [\<lparr>tr_table = sample_tbl, tr_order_revision = 2, tr_order = [vw_id sample_view]\<rparr>],
      db_fields = [\<lparr>fr_field = \<lparr>fd_id = sample_id ''fld_'' (CHR ''F''), fd_table = sample_table,
        fd_name = ''Name'', fd_description = [], fd_position = 0, fd_schema_version = 1, fd_revision = 1,
        fd_type = ''text'', fd_config = EmptyConfig, fd_deleted_at = None\<rparr>, fr_primary = True\<rparr>],
      db_views = [sample_view], db_records = [], db_attachments = [], db_changes = [], db_sequence = 0,
      db_watermarks = fmempty, db_receipts = [], db_guards = [], db_scopes = [], db_operation = [],
      db_draws = 0, db_now = 0\<rparr>"

lemma sample_db_log [simp]: "log_ok sample_db"
  by (simp add: log_ok_def sample_db_def watermark_def)

end
