(* ===== verification/Paging.thy ===== *)
theory Paging
  imports Prelude
begin

text \<open>
  Pages of rows: how the stores cut a page out of the rows they read (\<open>LIMIT limit + 1\<close> in change.go,
  history.go and query.go), and what a client that follows the cursors relies on, as the locale
  \<open>paging\<close>.
\<close>

section \<open>A page\<close>

text \<open>\<open>LIMIT limit + 1\<close>, then drop the row that only says there are more.\<close>

definition cut_page :: "nat \<Rightarrow> 'r list \<Rightarrow> 'r list \<times> bool" where
  "cut_page limit rows =
     (let items = take (limit + 1) rows in (take limit items, length items > limit))"

lemma cut_page_eq: "cut_page limit rows = (take limit rows, length rows > limit)"
  by (simp add: cut_page_def Let_def min_def)

text \<open>The page behind a cursor, and the cursor right behind the page.\<close>

definition keyed_page :: "('c \<Rightarrow> 'r list) \<Rightarrow> ('r \<Rightarrow> 'c) \<Rightarrow> nat \<Rightarrow> 'c \<Rightarrow> 'r list \<times> 'c \<times> bool" where
  "keyed_page behind cursor_of limit c =
     (let (items, hasMore) = cut_page limit (behind c) in
      (items, (if items = [] then c else cursor_of (last items)), hasMore))"

lemma keyed_page_eq:
  "keyed_page behind cursor_of limit c = (items, c', m) \<longleftrightarrow>
     items = take limit (behind c) \<and> m = (limit < length (behind c))
     \<and> c' = (if items = [] then c else cursor_of (last items))"
  by (auto simp: keyed_page_def cut_page_eq)

section \<open>What a reader of pages relies on\<close>

text \<open>A client that follows the cursors until there are no more pages.\<close>

fun collect_pages :: "('c \<Rightarrow> 'r list \<times> 'c \<times> bool) \<Rightarrow> nat \<Rightarrow> 'c \<Rightarrow> 'r list option" where
  "collect_pages page 0 c = None"
| "collect_pages page (Suc n) c =
     (case page c of (items, c', m) \<Rightarrow>
        if m then map_option (\<lambda>rest. items @ rest) (collect_pages page n c') else Some items)"

text \<open>
  A source of pages over the state \<open>s\<close>: \<open>rest s c\<close> are the rows behind the cursor \<open>c\<close>, for the cursors
  that are \<open>good\<close> there.  A page is the front of them, its cursor is right behind it, and it is not
  empty when there is more.
\<close>

locale paging =
  fixes page :: "'s \<Rightarrow> 'c \<Rightarrow> 'r list \<times> 'c \<times> bool"
    and rest :: "'s \<Rightarrow> 'c \<Rightarrow> 'r list"
    and good :: "'s \<Rightarrow> 'c \<Rightarrow> bool"
  assumes front: "good s c \<Longrightarrow> page s c = (items, c', m) \<Longrightarrow> rest s c = items @ rest s c'"
    and more_iff: "good s c \<Longrightarrow> page s c = (items, c', m) \<Longrightarrow> m \<longleftrightarrow> rest s c' \<noteq> []"
    and progress: "good s c \<Longrightarrow> page s c = (items, c', True) \<Longrightarrow> items \<noteq> []"
    and next_good: "good s c \<Longrightarrow> page s c = (items, c', m) \<Longrightarrow> good s c'"
begin

text \<open>Following the pages ends, and gives every row behind the cursor once, in order.\<close>

lemma collect_all:
  assumes "good s c" "length (rest s c) < n"
  shows "collect_pages (page s) n c = Some (rest s c)"
  using assms
proof (induction n arbitrary: c)
  case 0
  then show ?case by simp
next
  case (Suc n)
  obtain items c' m where p: "page s c = (items, c', m)" by (cases "page s c")
  note g = Suc.prems(1) and f = front[OF Suc.prems(1) p]
  show ?case
  proof (cases m)
    case True
    with p have "items \<noteq> []" using progress[OF g] by simp
    then have "length (rest s c') < n" using Suc.prems(2) f by (cases items) auto
    with Suc.IH[OF next_good[OF g p]] p True f show ?thesis by simp
  next
    case False
    then have "rest s c' = []" using more_iff[OF g p] by simp
    with p False f show ?thesis by simp
  qed
qed

text \<open>A page is complete up to its cursor: a row behind \<open>c\<close> is on the page or behind \<open>c'\<close>.\<close>

lemma on_page_or_behind:
  "good s c \<Longrightarrow> page s c = (items, c', m) \<Longrightarrow> x \<in> set (rest s c) \<Longrightarrow> x \<in> set items \<or> x \<in> set (rest s c')"
  using front by fastforce

end

section \<open>Rows in order\<close>

lemma sorted_wrt_last: "sorted_wrt R xs \<Longrightarrow> x \<in> set xs \<Longrightarrow> x = last xs \<or> R x (last xs)"
  by (cases xs rule: rev_cases) (auto simp: sorted_wrt_append)

lemma last_take_in: "take l xs \<noteq> [] \<Longrightarrow> last (take l xs) \<in> set xs"
  by (meson in_set_takeD last_in_set)

lemma filter_after_last:
  assumes "sorted_wrt R xs" "\<And>x y. R x y \<Longrightarrow> \<not> R y x" "take l xs \<noteq> []"
  shows "filter (R (last (take l xs))) xs = drop l xs"
proof -
  let ?z = "last (take l xs)"
  have s: "sorted_wrt R (take l xs)" "\<forall>x \<in> set (take l xs). \<forall>y \<in> set (drop l xs). R x y"
    using assms(1) sorted_wrt_append[of R "take l xs" "drop l xs"] by simp_all
  have z: "?z \<in> set (take l xs)" using assms(3) by simp
  have "\<not> R ?z x" if x: "x \<in> set (take l xs)" for x
    using sorted_wrt_last[OF s(1) x] assms(2) by blast
  then have "filter (R ?z) (take l xs) = []" by (simp add: filter_empty_conv)
  moreover have "filter (R ?z) (drop l xs) = drop l xs"
    using s(2) z by (simp add: filter_id_conv)
  ultimately have "filter (R ?z) (take l xs) @ filter (R ?z) (drop l xs) = drop l xs" by simp
  then show ?thesis by (simp only: filter_append[symmetric] append_take_drop_id)
qed

text \<open>
  Rows that are read behind a key are such a source: it is enough that the rows behind the key of the
  last row of a page are the ones the page left out.
\<close>

locale keyed_rows =
  fixes behind :: "'s \<Rightarrow> 'c \<Rightarrow> 'r list"
    and cursor_of :: "'s \<Rightarrow> 'r \<Rightarrow> 'c"
    and good :: "'s \<Rightarrow> 'c \<Rightarrow> bool"
  assumes behind_last: "good s c \<Longrightarrow> take l (behind s c) \<noteq> [] \<Longrightarrow>
      behind s (cursor_of s (last (take l (behind s c)))) = drop l (behind s c)"
    and cursor_good: "good s c \<Longrightarrow> r \<in> set (behind s c) \<Longrightarrow> good s (cursor_of s r)"
begin

lemma behind_next:
  "good s c \<Longrightarrow> keyed_page (behind s) (cursor_of s) (Suc n) c = (items, c', m) \<Longrightarrow>
     behind s c' = drop (Suc n) (behind s c)"
  using behind_last[of s c "Suc n"] by (auto simp: keyed_page_eq)

end

sublocale keyed_rows \<subseteq> paging "\<lambda>s. keyed_page (behind s) (cursor_of s) (Suc n)" behind good for n
proof unfold_locales
  fix s c items c' m
  assume g: "good s c" and p: "keyed_page (behind s) (cursor_of s) (Suc n) c = (items, c', m)"
  have i: "items = take (Suc n) (behind s c)" "m = (Suc n < length (behind s c))"
    using p by (simp_all add: keyed_page_eq)
  show "behind s c = items @ behind s c'" unfolding behind_next[OF g p] i by simp
  show "m \<longleftrightarrow> behind s c' \<noteq> []" unfolding behind_next[OF g p] i by auto
  show "good s c'"
    using g p cursor_good[OF g last_take_in[of "Suc n" "behind s c"]] by (auto simp: keyed_page_eq)
next
  show "items \<noteq> []" if "keyed_page (behind s) (cursor_of s) (Suc n) c = (items, c', True)" for s c items c'
    using that by (auto simp: keyed_page_eq)
qed

end
