(* ===== verification/Feed.thy ===== *)
theory Feed
  imports Store Paging
begin

text \<open>
  The change log and its readers: internal/storage/postgres/change.go, history.go and retention.go,
  internal/record/change.go and history.go, internal/maintenance/retention.go.  \<open>PullChanges\<close> reads the
  log of one Table forwards from a sequence number, \<open>PullHistory\<close> backwards through a filter;
  \<open>CleanupRetention\<close> deletes old changes and remembers, per Table, the highest sequence it deleted.
  The services wrap the sequence numbers in signed cursors.

  Instants are microseconds, ages and \<open>ExpiresAt\<close> are seconds.  The signing key is the row of
  \<open>server_secrets\<close>, an argument; so is the hash of the history filter.  What a reader of pages relies on
  is the locale \<open>paging\<close>; both readers are interpretations of it.
\<close>

section \<open>Pages\<close>

record stored_change_page =
  scp_items :: "change list"
  scp_next :: int
  scp_more :: bool

record history_filter =
  hf_record :: string
  hf_kind :: string
  hf_field :: string
  hf_actor :: string
  hf_since :: "instant option"
  hf_until :: "instant option"

record stored_history_page =
  shp_items :: "change list"
  shp_more :: bool

section \<open>The store: change.go\<close>

definition ChangeTail :: "string \<Rightarrow> string \<Rightarrow> db \<Rightarrow> int res" where
  "ChangeTail actor tableID s =
     (if \<not> active_table_visible actor tableID s then Inl NotFound else Inr (change_tail tableID s))"

definition rows_after :: "string \<Rightarrow> int \<Rightarrow> db \<Rightarrow> change list" where
  "rows_after tableID after s =
     sort_key ch_sequence (filter (\<lambda>c. ch_table c = tableID \<and> ch_sequence c > after) (db_changes s))"

definition change_page :: "string \<Rightarrow> nat \<Rightarrow> db \<Rightarrow> int \<Rightarrow> change list \<times> int \<times> bool" where
  "change_page tableID limit s after =
     keyed_page (\<lambda>after. rows_after tableID after s) ch_sequence limit after"

definition PullChanges :: "string \<Rightarrow> string \<Rightarrow> int \<Rightarrow> nat \<Rightarrow> db \<Rightarrow> stored_change_page res" where
  "PullChanges actor tableID after limit s =
     (if \<not> active_table_visible actor tableID s then Inl NotFound else
      let tail = change_tail tableID s; expiredThrough = watermark tableID s in
      fail_if (after > tail \<and> after > expiredThrough) InvalidCursor
     (fail_if (after < expiredThrough) CursorExpired
     (let (items, next, hasMore) = change_page tableID limit s after in
      Inr \<lparr>scp_items = items, scp_next = next, scp_more = hasMore\<rparr>)))"

section \<open>The store: history.go\<close>

definition history_matches :: "history_filter \<Rightarrow> change \<Rightarrow> bool" where
  "history_matches flt c =
     ((hf_record flt \<noteq> [] \<longrightarrow> ch_record c = hf_record flt)
      \<and> (hf_kind flt \<noteq> [] \<longrightarrow> ch_kind c = hf_kind flt)
      \<and> (hf_actor flt \<noteq> [] \<longrightarrow> ch_actor c = hf_actor flt)
      \<and> (case hf_since flt of None \<Rightarrow> True | Some t \<Rightarrow> ch_at c \<ge> t)
      \<and> (case hf_until flt of None \<Rightarrow> True | Some t \<Rightarrow> ch_at c \<le> t)
      \<and> (hf_field flt \<noteq> [] \<longrightarrow> list_ex (\<lambda>d. fch_field d = hf_field flt) (ch_fields c)))"

definition rows_before :: "string \<Rightarrow> history_filter \<Rightarrow> int \<Rightarrow> db \<Rightarrow> change list" where
  "rows_before tableID flt before s =
     rev (sort_key ch_sequence (filter (\<lambda>c. ch_table c = tableID \<and> ch_sequence c < before \<and> history_matches flt c)
       (db_changes s)))"

definition history_page :: "string \<Rightarrow> history_filter \<Rightarrow> nat \<Rightarrow> db \<Rightarrow> int \<Rightarrow> change list \<times> int \<times> bool" where
  "history_page tableID flt limit s before =
     keyed_page (\<lambda>before. rows_before tableID flt before s) ch_sequence limit before"

definition PullHistory ::
  "string \<Rightarrow> string \<Rightarrow> history_filter \<Rightarrow> int \<Rightarrow> nat \<Rightarrow> db \<Rightarrow> stored_history_page res" where
  "PullHistory actor tableID flt before limit s =
     (if \<not> active_table_visible actor tableID s then Inl NotFound else
      fail_if (before \<le> watermark tableID s) CursorExpired
     (let (items, next, hasMore) = history_page tableID flt limit s before in
      Inr \<lparr>shp_items = items, shp_more = hasMore\<rparr>))"

section \<open>The services: record/change.go and record/history.go\<close>

record change_cursor =
  ccp_actor :: string
  ccp_table :: string
  ccp_sequence :: int

record history_cursor =
  hcp_actor :: string
  hcp_table :: string
  hcp_filter :: string
  hcp_before :: int
  hcp_issued :: int
  hcp_expires :: int

record feed_page =
  fp_items :: "change list"
  fp_next :: string
  fp_more :: bool

record history_request =
  hr_record :: string
  hr_kind :: string
  hr_field :: string
  hr_actor :: string
  hr_since :: "instant option"
  hr_until :: "instant option"
  hr_cursor :: string
  hr_limit :: int

record history_result =
  hp_items :: "change list"
  hp_next :: string
  hp_more :: bool
  hp_change_cursor :: string

text \<open>\<open>CursorKey\<close> of the store and \<open>NewSigner\<close>.\<close>

definition cursor_signer :: "string \<Rightarrow> string res" where
  "cursor_signer key =
     (case NewSigner key of Inl e \<Rightarrow> Inl (Internal ''create cursor signer'') | Inr k \<Rightarrow> Inr k)"

definition encode_cursor :: "string \<Rightarrow> 'p codec \<Rightarrow> string \<Rightarrow> string \<Rightarrow> 'p \<Rightarrow> string res" where
  "encode_cursor what C key purpose payload =
     (case cursor_encode C key purpose payload of Inl e \<Rightarrow> Inl (Internal what) | Inr t \<Rightarrow> Inr t)"

definition page_limit :: "int \<Rightarrow> nat res" where
  "page_limit limit0 =
     (let limit = (if limit0 = 0 then default_query_limit else limit0) in
      if limit < 1 \<or> limit > max_query_limit then Inl (BadRequest ''limit must be from 1 to 500'')
      else Inr (nat limit))"

definition Changes ::
  "change_cursor codec \<Rightarrow> string \<Rightarrow> string \<Rightarrow> string \<Rightarrow> string \<Rightarrow> int \<Rightarrow> db \<Rightarrow> feed_page res" where
  "Changes C key0 actor tableID token limit0 s =
     fail_if (\<not> Valid TablePrefix tableID) (BadRequest ''/tableId has an invalid typed ID'')
    (ok_then (page_limit limit0) (\<lambda>limit.
     ok_then (cursor_signer key0) (\<lambda>key.
     if token = [] then
       ok_then (ChangeTail actor tableID s) (\<lambda>after.
       ok_then (encode_cursor ''encode Change cursor'' C key ''change''
          \<lparr>ccp_actor = actor, ccp_table = tableID, ccp_sequence = after\<rparr>) (\<lambda>encoded.
       Inr \<lparr>fp_items = [], fp_next = encoded, fp_more = False\<rparr>))
     else
       (case cursor_decode C key ''change'' token of
          None \<Rightarrow> Inl InvalidCursor
        | Some payload \<Rightarrow>
            if ccp_actor payload \<noteq> actor \<or> ccp_table payload \<noteq> tableID \<or> ccp_sequence payload < 0
            then Inl InvalidCursor
            else
              ok_then (PullChanges actor tableID (ccp_sequence payload) limit s) (\<lambda>stored.
              ok_then (encode_cursor ''encode Change cursor'' C key ''change''
                 \<lparr>ccp_actor = actor, ccp_table = tableID, ccp_sequence = scp_next stored\<rparr>) (\<lambda>next.
              Inr \<lparr>fp_items = scp_items stored, fp_next = next, fp_more = scp_more stored\<rparr>))))))"

definition valid_history_kind :: "string \<Rightarrow> bool" where
  "valid_history_kind kind =
     List.member [''recordCreated'', ''recordUpdated'', ''recordDeleted'', ''recordRestored'', ''recordMoved'',
        ''schemaChanged'', ''viewChanged''] kind"

definition request_filter :: "history_request \<Rightarrow> history_filter" where
  "request_filter r =
     \<lparr>hf_record = hr_record r, hf_kind = hr_kind r, hf_field = hr_field r, hf_actor = hr_actor r,
      hf_since = hr_since r, hf_until = hr_until r\<rparr>"

text \<open>The checks of the request; \<open>history_filter_hash\<close> is the hash of the canonical filter.\<close>

definition check_history_request :: "string \<Rightarrow> history_request \<Rightarrow> nat res" where
  "check_history_request tableID r =
     fail_if (\<not> Valid TablePrefix tableID) (BadRequest ''/tableId has an invalid typed ID'')
    (fail_if (hr_record r \<noteq> [] \<and> \<not> Valid RecordPrefix (hr_record r)) (BadRequest ''recordId has an invalid typed ID'')
    (fail_if (hr_field r \<noteq> [] \<and> \<not> Valid FieldPrefix (hr_field r)) (BadRequest ''fieldId has an invalid typed ID'')
    (fail_if (hr_actor r \<noteq> [] \<and> \<not> Valid ActorPrefix (hr_actor r)) (BadRequest ''actorId has an invalid typed ID'')
    (fail_if (hr_kind r \<noteq> [] \<and> \<not> valid_history_kind (hr_kind r)) (BadRequest ''kind has an unsupported change kind'')
    (fail_if (case (hr_since r, hr_until r) of (Some a, Some b) \<Rightarrow> a > b | _ \<Rightarrow> False)
       (BadRequest ''since must not be later than until'')
    (page_limit (hr_limit r)))))))"

text \<open>Where the page starts: at the tail, or below the position of the cursor.\<close>

definition history_start ::
  "history_cursor codec \<Rightarrow> string \<Rightarrow> instant \<Rightarrow> string \<Rightarrow> string \<Rightarrow> string \<Rightarrow> string \<Rightarrow> int \<Rightarrow> int res" where
  "history_start C key now actor tableID filterHash token tail =
     (if token = [] then Inr (tail + 1)
      else (case cursor_decode C key ''history'' token of
          None \<Rightarrow> Inl InvalidCursor
        | Some payload \<Rightarrow>
            if hcp_actor payload \<noteq> actor \<or> hcp_table payload \<noteq> tableID \<or> hcp_filter payload \<noteq> filterHash
            then Inl InvalidCursor
            else if now div 1000000 \<ge> hcp_expires payload then Inl CursorExpired
            else Inr (hcp_before payload)))"

definition History ::
  "change_cursor codec \<Rightarrow> history_cursor codec \<Rightarrow> (history_filter \<Rightarrow> string option) \<Rightarrow> string \<Rightarrow> instant \<Rightarrow>
     string \<Rightarrow> string \<Rightarrow> history_request \<Rightarrow> db \<Rightarrow> history_result res" where
  "History C H filter_hash key0 now actor tableID r s =
     ok_then (check_history_request tableID r) (\<lambda>limit.
     ok_then (cursor_signer key0) (\<lambda>key.
     case filter_hash (request_filter r) of
       None \<Rightarrow> Inl (Internal ''canonicalize history filters'')
     | Some filterHash \<Rightarrow>
         ok_then (ChangeTail actor tableID s) (\<lambda>tail.
         ok_then (history_start H key now actor tableID filterHash (hr_cursor r) tail) (\<lambda>before.
         ok_then (PullHistory actor tableID (request_filter r) before limit s) (\<lambda>stored.
         ok_then (encode_cursor ''encode change cursor'' C key ''change''
            \<lparr>ccp_actor = actor, ccp_table = tableID, ccp_sequence = tail\<rparr>) (\<lambda>changeCursor.
         if \<not> shp_more stored then
           Inr \<lparr>hp_items = shp_items stored, hp_next = [], hp_more = False, hp_change_cursor = changeCursor\<rparr>
         else if shp_items stored = [] then
           Inl (Internal ''history store returned an empty page with more results'')
         else
           ok_then (encode_cursor ''encode history cursor'' H key ''history''
              \<lparr>hcp_actor = actor, hcp_table = tableID, hcp_filter = filterHash,
               hcp_before = ch_sequence (last (shp_items stored)), hcp_issued = now div 1000000,
               hcp_expires = now div 1000000 + query_cursor_ttl\<rparr>) (\<lambda>next.
           Inr \<lparr>hp_items = shp_items stored, hp_next = next, hp_more = True,
                hp_change_cursor = changeCursor\<rparr>))))))) "

section \<open>Retention: retention.go\<close>

definition raise_watermark :: "db \<Rightarrow> change \<Rightarrow> db" where
  "raise_watermark s c =
     s\<lparr>db_watermarks := fmupd (ch_table c) (max (watermark (ch_table c) s) (ch_sequence c)) (db_watermarks s)\<rparr>"

text \<open>
  One batch of \<open>cleanupChanges\<close>: the oldest \<open>batchSize\<close> changes older than \<open>age\<close> go, and each Table
  keeps the highest sequence it lost.
\<close>

definition doomed_changes :: "int \<Rightarrow> nat \<Rightarrow> db \<Rightarrow> change list" where
  "doomed_changes age batchSize s =
     take batchSize (sort_key (\<lambda>c. (ch_at c, ch_sequence c))
       (filter (\<lambda>c. ch_at c < db_now s - age * 1000000) (db_changes s)))"

definition cleanup_batch :: "int \<Rightarrow> nat \<Rightarrow> db \<Rightarrow> nat \<times> db" where
  "cleanup_batch age batchSize s =
     (let doomed = doomed_changes age batchSize s;
          sequences = map ch_sequence doomed;
          s' = s\<lparr>db_changes := filter (\<lambda>c. \<not> List.member sequences (ch_sequence c)) (db_changes s)\<rparr>
      in (length doomed, fold (\<lambda>c t. raise_watermark t c) doomed s'))"

text \<open>\<open>for batch := 0; batch < maxBatches; batch++\<close>, with the early \<open>break\<close>.\<close>

fun cleanup_changes :: "int \<Rightarrow> nat \<Rightarrow> nat \<Rightarrow> db \<Rightarrow> nat \<times> db" where
  "cleanup_changes age 0 batchSize s = (0, s)"
| "cleanup_changes age (Suc batches) batchSize s =
     (let (deleted, s') = cleanup_batch age batchSize s in
      if deleted < batchSize then (deleted, s')
      else let (n, s'') = cleanup_changes age batches batchSize s' in (deleted + n, s''))"

text \<open>\<open>cleanupRetentionTable\<close> for \<open>idempotency_keys\<close>; rows of one age go in insertion order.\<close>

definition doomed_receipts :: "int \<Rightarrow> nat \<Rightarrow> db \<Rightarrow> receipt_row list" where
  "doomed_receipts age batchSize s =
     take batchSize (sort_key ir_created_at
       (filter (\<lambda>r. ir_created_at r < db_now s - age * 1000000) (db_receipts s)))"

fun cleanup_receipts :: "int \<Rightarrow> nat \<Rightarrow> nat \<Rightarrow> db \<Rightarrow> nat \<times> db" where
  "cleanup_receipts age 0 batchSize s = (0, s)"
| "cleanup_receipts age (Suc batches) batchSize s =
     (let doomed = doomed_receipts age batchSize s;
          keys = map (\<lambda>r. (ir_actor r, ir_key r)) doomed;
          s' = s\<lparr>db_receipts := filter (\<lambda>r. \<not> List.member keys (ir_actor r, ir_key r)) (db_receipts s)\<rparr>
      in if length doomed < batchSize then (length doomed, s')
         else let (n, s'') = cleanup_receipts age batches batchSize s' in (length doomed + n, s''))"

record cleanup_stats =
  cls_changes :: nat
  cls_receipts :: nat

definition expire_scopes :: "db \<Rightarrow> db" where
  "expire_scopes s =
     (let doomed = map ss_id (take 8 (sort_key ss_expires_at (filter (\<lambda>c. ss_expires_at c \<le> db_now s) (db_scopes s))))
      in s\<lparr>db_scopes := filter (\<lambda>c. \<not> List.member doomed (ss_id c)) (db_scopes s)\<rparr>)"

text \<open>
  \<open>CleanupRetention\<close> when the advisory lock is free (\<open>acquired\<close>); \<open>cleanupAudit\<close> touches the audit
  tables only.
\<close>

definition CleanupRetention :: "bool \<Rightarrow> int \<Rightarrow> int \<Rightarrow> nat \<Rightarrow> nat \<Rightarrow> db \<Rightarrow> cleanup_stats \<times> db" where
  "CleanupRetention acquired changeAge idempotencyAge maxBatches batchSize s0 =
     (let s = expire_scopes s0; nothing = \<lparr>cls_changes = 0, cls_receipts = 0\<rparr> in
      if changeAge = 0 \<and> idempotencyAge = 0 then (nothing, s)
      else if \<not> acquired then (nothing, s)
      else
        let (changes, s) = (if changeAge > 0 then cleanup_changes changeAge maxBatches batchSize s else (0, s));
            (receipts, s) = (if idempotencyAge > 0 then cleanup_receipts idempotencyAge maxBatches batchSize s else (0, s))
        in (\<lparr>cls_changes = changes, cls_receipts = receipts\<rparr>, s))"

definition cleanup_batches :: nat where "cleanup_batches = 10"
definition cleanup_batch_size :: nat where "cleanup_batch_size = 10000"

text \<open>\<open>parseRetention\<close>, in seconds.\<close>

definition parse_retention :: "string \<Rightarrow> string + int" where
  "parse_retention v =
     (let w = map lower_char (trim_func v) in
      if w = ''forever'' then Inr 0
      else if w = ''30d'' then Inr (30 * 24 * 3600)
      else if w = ''90d'' then Inr (90 * 24 * 3600)
      else if w = ''365d'' then Inr (365 * 24 * 3600)
      else Inl ''must be 30d, 90d, 365d, or forever'')"

definition NewRetentionRunner :: "string \<Rightarrow> string \<Rightarrow> string + (int \<times> int)" where
  "NewRetentionRunner changeRetention idempotencyRetention =
     (case parse_retention changeRetention of
        Inl e \<Rightarrow> Inl (''change retention: '' @ e)
      | Inr changeAge \<Rightarrow>
          (case parse_retention idempotencyRetention of
             Inl e \<Rightarrow> Inl (''idempotency retention: '' @ e)
           | Inr idempotencyAge \<Rightarrow> Inr (changeAge, idempotencyAge)))"

definition RunOnce :: "bool \<Rightarrow> int \<times> int \<Rightarrow> db \<Rightarrow> cleanup_stats \<times> db" where
  "RunOnce acquired r s =
     (if fst r = 0 \<and> snd r = 0 then (\<lparr>cls_changes = 0, cls_receipts = 0\<rparr>, s)
      else CleanupRetention acquired (fst r) (snd r) cleanup_batches cleanup_batch_size s)"

section \<open>Both readers are such sources\<close>

lemma log_ok_sorted: "log_ok s \<Longrightarrow> sorted_wrt (\<lambda>c d. ch_sequence c < ch_sequence d) (filter P (db_changes s))"
  by (simp add: log_ok_def sorted_wrt_filter)

lemma log_ok_sort_key:
  assumes "log_ok s"
  shows "sort_key ch_sequence (filter P (db_changes s)) = filter P (db_changes s)"
proof (rule sort_key_id_if_sorted)
  have "sorted_wrt (\<lambda>c d. ch_sequence c \<le> ch_sequence d) (filter P (db_changes s))"
    by (rule sorted_wrt_mono_rel[OF _ log_ok_sorted[OF assms]]) simp
  then show "sorted (map ch_sequence (filter P (db_changes s)))"
    by (simp add: sorted_map)
qed

lemma rows_after_eq:
  "log_ok s \<Longrightarrow> rows_after t after s = filter (\<lambda>c. ch_table c = t \<and> ch_sequence c > after) (db_changes s)"
  by (simp add: rows_after_def log_ok_sort_key)

lemma rows_before_eq:
  "log_ok s \<Longrightarrow> rows_before t flt before s =
     rev (filter (\<lambda>c. ch_table c = t \<and> ch_sequence c < before \<and> history_matches flt c) (db_changes s))"
  by (simp add: rows_before_def log_ok_sort_key)

lemma rows_after_behind:
  assumes "log_ok s" "take l (rows_after t after s) \<noteq> []"
  shows "rows_after t (ch_sequence (last (take l (rows_after t after s)))) s = drop l (rows_after t after s)"
proof -
  let ?R = "\<lambda>c d. ch_sequence c < ch_sequence d" and ?z = "last (take l (rows_after t after s))"
  have s: "sorted_wrt ?R (rows_after t after s)" using assms(1) by (simp add: rows_after_eq log_ok_sorted)
  have "?z \<in> set (rows_after t after s)" using assms(2) by (rule last_take_in)
  then have "after < ch_sequence ?z" by (simp add: rows_after_eq[OF assms(1)])
  then have "rows_after t (ch_sequence ?z) s = filter (?R ?z) (rows_after t after s)"
    by (auto simp: rows_after_eq[OF assms(1)] intro!: filter_cong)
  also have "\<dots> = drop l (rows_after t after s)" by (rule filter_after_last[OF s _ assms(2)]) simp
  finally show ?thesis .
qed

lemma rows_before_behind:
  assumes "log_ok s" "take l (rows_before t flt b s) \<noteq> []"
  shows "rows_before t flt (ch_sequence (last (take l (rows_before t flt b s)))) s = drop l (rows_before t flt b s)"
proof -
  let ?R = "\<lambda>c d. ch_sequence d < ch_sequence c" and ?z = "last (take l (rows_before t flt b s))"
  have s: "sorted_wrt ?R (rows_before t flt b s)"
    using assms(1) by (simp add: rows_before_eq log_ok_sorted sorted_wrt_rev)
  have "?z \<in> set (rows_before t flt b s)" using assms(2) by (rule last_take_in)
  then have "ch_sequence ?z < b" by (simp add: rows_before_eq[OF assms(1)])
  then have "rows_before t flt (ch_sequence ?z) s = filter (?R ?z) (rows_before t flt b s)"
    by (auto simp: rows_before_eq[OF assms(1)] rev_filter[symmetric] intro!: filter_cong)
  also have "\<dots> = drop l (rows_before t flt b s)" by (rule filter_after_last[OF s _ assms(2)]) simp
  finally show ?thesis .
qed

interpretation feed: keyed_rows "\<lambda>s after. rows_after t after s" "\<lambda>s. ch_sequence" "\<lambda>s after. log_ok s" for t
  by unfold_locales (rule rows_after_behind)

interpretation history: keyed_rows "\<lambda>s before. rows_before t flt before s" "\<lambda>s. ch_sequence"
    "\<lambda>s before. log_ok s" for t flt
  by unfold_locales (rule rows_before_behind)

lemma change_page_keyed: "change_page t n s = keyed_page (\<lambda>after. rows_after t after s) ch_sequence n"
  by (simp add: change_page_def fun_eq_iff)

lemma history_page_keyed: "history_page t flt n s = keyed_page (\<lambda>before. rows_before t flt before s) ch_sequence n"
  by (simp add: history_page_def fun_eq_iff)

section \<open>Retention keeps the log readable\<close>

lemma watermark_raise [simp]:
  "watermark t (raise_watermark s c) =
     (if t = ch_table c then max (watermark t s) (ch_sequence c) else watermark t s)"
  by (simp add: watermark_def raise_watermark_def)

lemma fold_raise_frame: "\<exists>w. fold (\<lambda>c t. raise_watermark t c) cs s = s\<lparr>db_watermarks := w\<rparr>"
proof (induction cs arbitrary: s)
  case Nil
  show ?case by (rule exI[of _ "db_watermarks s"]) simp
next
  case (Cons c cs)
  obtain w where "fold (\<lambda>c t. raise_watermark t c) cs (raise_watermark s c)
      = (raise_watermark s c)\<lparr>db_watermarks := w\<rparr>" using Cons.IH by blast
  then show ?case by (intro exI[of _ w]) (simp add: raise_watermark_def)
qed

lemma fold_raise_watermark:
  "watermark t (fold (\<lambda>c t. raise_watermark t c) cs s)
     = fold max (map ch_sequence (filter (\<lambda>c. ch_table c = t) cs)) (watermark t s)"
  by (induction cs arbitrary: s) (auto simp: max.commute)

lemma fold_max_le: "fold max xs (w::int) \<le> b \<longleftrightarrow> w \<le> b \<and> (\<forall>x \<in> set xs. x \<le> b)"
  by (induction xs arbitrary: w) auto

lemma fold_max_ge: "w \<le> fold max xs (w::int) \<and> (\<forall>x \<in> set xs. x \<le> fold max xs w)"
  using fold_max_le[of xs w "fold max xs w"] by simp

lemma fold_max_in: "fold max xs (w::int) = w \<or> fold max xs w \<in> set xs"
proof (induction xs arbitrary: w)
  case Nil
  then show ?case by simp
next
  case (Cons x xs)
  then show ?case using Cons.IH[of "max x w"] by (auto simp: max_def split: if_splits)
qed

text \<open>
  What one state of the log keeps of an earlier one: sequences and watermarks do not fall, a change
  is still there or lies at or below the watermark of its Table, and what is new has a new sequence.
\<close>

definition log_kept :: "db \<Rightarrow> db \<Rightarrow> bool" where
  "log_kept s s' =
     (db_sequence s \<le> db_sequence s' \<and> (\<forall>t. watermark t s \<le> watermark t s')
      \<and> (\<forall>c \<in> set (db_changes s). c \<in> set (db_changes s') \<or> ch_sequence c \<le> watermark (ch_table c) s')
      \<and> (\<forall>c \<in> set (db_changes s'). c \<in> set (db_changes s) \<or> db_sequence s < ch_sequence c))"

lemma log_kept_refl: "log_kept s s"
  by (simp add: log_kept_def)

lemma log_kept_trans: "log_kept s t \<Longrightarrow> log_kept t u \<Longrightarrow> log_kept s u"
  unfolding log_kept_def by (meson order_trans order_le_less_trans)

lemma log_same:
  assumes "db_changes s' = db_changes s" "db_sequence s' = db_sequence s" "db_watermarks s' = db_watermarks s"
  shows "log_ok s' = log_ok s" "log_kept s s'"
  using assms by (simp_all add: log_ok_def log_kept_def watermark_def)

lemma log_kept_insert_change:
  assumes "log_ok s" "insert_change E a k t r obj n fs x s = Inr (u, s')"
  shows "log_kept s s'"
proof -
  obtain i where "s' = s\<lparr>db_draws := db_draws s + 1, db_sequence := db_sequence s + 1,
      db_changes := db_changes s @ [next_change i a k t r obj n fs x s]\<rparr>"
    using assms(2) by (auto simp: insert_change_Inr)
  then show ?thesis by (simp add: log_kept_def watermark_def)
qed

lemma doomed_old: "c \<in> set (doomed_changes age n s) \<Longrightarrow> c \<in> set (db_changes s) \<and> ch_at c < db_now s - age * 1000000"
  by (auto simp: doomed_changes_def dest!: in_set_takeD)

lemma log_ok_distinct: "log_ok s \<Longrightarrow> distinct (map ch_sequence (db_changes s))"
proof -
  assume "log_ok s"
  then have "sorted_wrt (<) (map ch_sequence (db_changes s))" by (simp add: log_ok_def sorted_wrt_map)
  then show ?thesis by (simp only: strict_sorted_iff)
qed

lemma log_ok_sequence_inj:
  "log_ok s \<Longrightarrow> c \<in> set (db_changes s) \<Longrightarrow> d \<in> set (db_changes s) \<Longrightarrow> ch_sequence c = ch_sequence d \<Longrightarrow> c = d"
  using log_ok_distinct by (auto simp: distinct_map inj_on_def)

lemma cleanup_batch_frame:
  assumes "cleanup_batch age n s = (d, s')"
  shows "\<exists>cs w. s' = s\<lparr>db_changes := cs, db_watermarks := w\<rparr>"
  using assms fold_raise_frame[of "doomed_changes age n s"] by (fastforce simp: cleanup_batch_def Let_def)

lemma cleanup_batch_changes:
  assumes "log_ok s" "cleanup_batch age n s = (d, s')"
  shows "set (db_changes s') = set (db_changes s) - set (doomed_changes age n s)"
    and "db_changes s' = filter (\<lambda>c. c \<notin> set (doomed_changes age n s)) (db_changes s)"
    and "d = length (doomed_changes age n s)"
    and "watermark t s' = fold max (map ch_sequence (filter (\<lambda>c. ch_table c = t) (doomed_changes age n s)))
           (watermark t s)"
proof -
  let ?D = "doomed_changes age n s"
  let ?s = "s\<lparr>db_changes := filter (\<lambda>c. \<not> List.member (map ch_sequence ?D) (ch_sequence c)) (db_changes s)\<rparr>"
  have s': "s' = fold (\<lambda>c t. raise_watermark t c) ?D ?s" and d: "d = length ?D"
    using assms(2) by (auto simp: cleanup_batch_def Let_def)
  have f: "\<not> List.member (map ch_sequence ?D) (ch_sequence c) \<longleftrightarrow> c \<notin> set ?D" if "c \<in> set (db_changes s)" for c
    using that doomed_old log_ok_sequence_inj[OF assms(1)] by (auto simp: image_iff) blast
  have c: "db_changes s' = db_changes ?s" using fold_raise_frame[of ?D ?s] s' by auto
  show "db_changes s' = filter (\<lambda>c. c \<notin> set ?D) (db_changes s)"
    unfolding c using f by (auto intro: filter_cong)
  then show "set (db_changes s') = set (db_changes s) - set ?D" by auto
  show "d = length ?D" by (rule d)
  show "watermark t s' = fold max (map ch_sequence (filter (\<lambda>c. ch_table c = t) ?D)) (watermark t s)"
    unfolding s' fold_raise_watermark by (simp add: watermark_def)
qed

lemma cleanup_batch_log:
  assumes "log_ok s" "cleanup_batch age n s = (d, s')"
  shows "log_ok s' \<and> log_kept s s' \<and> db_now s' = db_now s"
proof -
  let ?D = "doomed_changes age n s"
  obtain cs w where s': "s' = s\<lparr>db_changes := cs, db_watermarks := w\<rparr>"
    using cleanup_batch_frame[OF assms(2)] by blast
  note b = cleanup_batch_changes[OF assms]
  have le: "watermark t s' \<le> db_sequence s" for t
    unfolding b(4) fold_max_le using assms(1) doomed_old log_ok_sequence[OF assms(1)] log_ok_watermark by auto
  have "log_ok s'"
    using assms(1) le unfolding log_ok_def b(2) by (simp add: s' sorted_wrt_filter distinct_map_filter list_all_iff)
  moreover have "watermark t s \<le> watermark t s'" for t unfolding b(4) using fold_max_ge by blast
  moreover have "ch_sequence c \<le> watermark (ch_table c) s'" if "c \<in> set ?D" for c
    unfolding b(4) using fold_max_ge that by force
  ultimately show ?thesis unfolding log_kept_def b(1) by (auto simp: s')
qed

text \<open>What one batch, and then the loop, does to the changes.\<close>

definition expired_changes :: "int \<Rightarrow> db \<Rightarrow> change list" where
  "expired_changes age s = filter (\<lambda>c. ch_at c < db_now s - age * 1000000) (db_changes s)"

lemma doomed_all:
  "length (doomed_changes age n s) < n \<Longrightarrow> set (doomed_changes age n s) = set (expired_changes age s)"
  by (auto simp: doomed_changes_def expired_changes_def min_def split: if_splits)

lemma length_doomed: "length (doomed_changes age n s) \<le> n"
  by (simp add: doomed_changes_def)

lemma distinct_changes: "log_ok s \<Longrightarrow> distinct (db_changes s)"
  using log_ok_distinct by (simp add: distinct_map)

lemma distinct_doomed: "log_ok s \<Longrightarrow> distinct (doomed_changes age n s)"
  by (simp add: doomed_changes_def distinct_changes distinct_take)

lemma cleanup_batch_length:
  assumes "log_ok s" "cleanup_batch age n s = (d, s')"
  shows "length (db_changes s) = length (db_changes s') + d"
proof -
  let ?D = "doomed_changes age n s"
  have "set (filter (\<lambda>c. c \<in> set ?D) (db_changes s)) = set ?D" using doomed_old by auto
  then have "length (filter (\<lambda>c. c \<in> set ?D) (db_changes s)) = length ?D"
    using distinct_card[of "filter (\<lambda>c. c \<in> set ?D) (db_changes s)"] distinct_card[OF distinct_doomed[OF assms(1)], of age n]
      distinct_changes[OF assms(1)] by simp
  then show ?thesis
    using sum_length_filter_compl[of "\<lambda>c. c \<in> set ?D" "db_changes s"]
    by (simp add: cleanup_batch_changes(2,3)[OF assms])
qed

lemma cleanup_changes_log:
  "log_ok s \<Longrightarrow> cleanup_changes age b n s = (d, s') \<Longrightarrow> log_ok s' \<and> log_kept s s' \<and> db_now s' = db_now s"
proof (induction age b n s arbitrary: d s' rule: cleanup_changes.induct)
  case (1 age n s)
  then show ?case by (simp add: log_kept_refl)
next
  case (2 age b n s)
  obtain e s1 where b: "cleanup_batch age n s = (e, s1)" by (cases "cleanup_batch age n s")
  note k = cleanup_batch_log[OF "2.prems"(1) b]
  show ?case
  proof (cases "e < n")
    case True
    then show ?thesis using "2.prems"(2) b k by simp
  next
    case False
    obtain m s2 where c: "cleanup_changes age b n s1 = (m, s2)" by (cases "cleanup_changes age b n s1")
    then have "s' = s2" using "2.prems"(2) b False by simp
    then show ?thesis using "2.IH"[OF b[symmetric] refl False _ c] k log_kept_trans by auto
  qed
qed

lemma cleanup_changes_effect:
  "log_ok s \<Longrightarrow> cleanup_changes age b n s = (d, s') \<Longrightarrow>
     set (db_changes s') \<subseteq> set (db_changes s)
     \<and> (\<forall>c \<in> set (db_changes s) - set (db_changes s'). c \<in> set (expired_changes age s))
     \<and> length (db_changes s) = length (db_changes s') + d \<and> d \<le> b * n
     \<and> (d < b * n \<longrightarrow> expired_changes age s' = [])"
proof (induction age b n s arbitrary: d s' rule: cleanup_changes.induct)
  case (1 age n s)
  then show ?case by simp
next
  case (2 age b n s)
  obtain e s1 where b: "cleanup_batch age n s = (e, s1)" by (cases "cleanup_batch age n s")
  note k = cleanup_batch_log[OF "2.prems"(1) b]
  note c1 = cleanup_batch_changes[OF "2.prems"(1) b] and l1 = cleanup_batch_length[OF "2.prems"(1) b]
  have old: "set (doomed_changes age n s) \<subseteq> set (expired_changes age s)"
    using doomed_old by (auto simp: expired_changes_def)
  have sub: "set (expired_changes age s1) \<subseteq> set (expired_changes age s)"
    using k by (auto simp: expired_changes_def c1(1))
  have len: "e \<le> n" by (simp add: c1(3) length_doomed)
  show ?case
  proof (cases "e < n")
    case True
    then have "set (doomed_changes age n s) = set (expired_changes age s)"
      by (intro doomed_all) (simp add: c1(3)[symmetric])
    then have "expired_changes age s1 = []" using k by (auto simp: expired_changes_def c1(1) filter_empty_conv)
    moreover have "s' = s1" "d = e" using "2.prems"(2) b True by simp_all
    ultimately show ?thesis using old l1 len by (auto simp: c1(1))
  next
    case False
    obtain m s2 where c: "cleanup_changes age b n s1 = (m, s2)" by (cases "cleanup_changes age b n s1")
    then have r: "s' = s2" "d = e + m" using "2.prems"(2) b False by simp_all
    have e: "e = n" using False len by simp
    note ih = "2.IH"[OF b[symmetric] refl False conjunct1[OF k] c]
    show ?thesis
    proof (intro conjI ballI impI)
      show "set (db_changes s') \<subseteq> set (db_changes s)" using ih r c1(1) by auto
      show "x \<in> set (expired_changes age s)" if "x \<in> set (db_changes s) - set (db_changes s')" for x
        using that ih r old sub by (auto simp: c1(1))
      show "length (db_changes s) = length (db_changes s') + d" using ih r l1 by simp
      show "d \<le> Suc b * n" using ih r e by simp
      show "expired_changes age s' = []" if "d < Suc b * n" using that ih r e by simp
    qed
  qed
qed

lemma cleanup_changes_receipts: "cleanup_changes age b n s = (d, s') \<Longrightarrow> db_receipts s' = db_receipts s"
proof (induction age b n s arbitrary: d s' rule: cleanup_changes.induct)
  case (1 age n s)
  then show ?case by simp
next
  case (2 age b n s)
  obtain e s1 where b: "cleanup_batch age n s = (e, s1)" by (cases "cleanup_batch age n s")
  have r: "db_receipts s1 = db_receipts s" using cleanup_batch_frame[OF b] by auto
  obtain m s2 where c: "cleanup_changes age b n s1 = (m, s2)" by (cases "cleanup_changes age b n s1")
  show ?case
    using "2.prems" "2.IH"[OF b[symmetric] refl _ c] b c r by (auto split: if_splits)
qed

lemma cleanup_receipts_frame:
  "cleanup_receipts age b n s = (d, s') \<Longrightarrow> \<exists>rs. s' = s\<lparr>db_receipts := rs\<rparr> \<and> set rs \<subseteq> set (db_receipts s)"
proof (induction age b n s arbitrary: d s' rule: cleanup_receipts.induct)
  case (1 age n s)
  then show ?case by (intro exI[of _ "db_receipts s"]) simp
next
  case (2 age b n s)
  define s1 where "s1 = s\<lparr>db_receipts := filter (\<lambda>r. \<not> List.member
      (map (\<lambda>r. (ir_actor r, ir_key r)) (doomed_receipts age n s)) (ir_actor r, ir_key r)) (db_receipts s)\<rparr>"
  show ?case
  proof (cases "length (doomed_receipts age n s) < n")
    case True
    then have "s' = s1" using "2.prems" by (simp add: s1_def Let_def)
    then show ?thesis unfolding s1_def by (intro exI[of _ "db_receipts s1"]) (auto simp: s1_def)
  next
    case False
    obtain m s2 where c: "cleanup_receipts age b n s1 = (m, s2)" by (cases "cleanup_receipts age b n s1")
    then have "s' = s2" using "2.prems" False by (simp add: s1_def Let_def)
    moreover obtain rs where "s2 = s1\<lparr>db_receipts := rs\<rparr>" "set rs \<subseteq> set (db_receipts s1)"
      using "2.IH"[OF refl refl refl False, of m s2] c unfolding s1_def by blast
    ultimately show ?thesis by (intro exI[of _ rs]) (auto simp: s1_def)
  qed
qed

lemma expire_scopes_frame: "\<exists>cs. expire_scopes s = s\<lparr>db_scopes := cs\<rparr>"
  unfolding expire_scopes_def Let_def by blast

lemma log_ok_scopes [simp]:
  "log_ok (s\<lparr>db_scopes := cs\<rparr>) = log_ok s" "log_ok (s\<lparr>db_receipts := rs\<rparr>) = log_ok s"
  by (simp_all add: log_ok_def watermark_def)

text \<open>Retention in one statement.\<close>

definition retained :: "int \<Rightarrow> nat \<Rightarrow> db \<Rightarrow> db \<Rightarrow> nat \<Rightarrow> bool" where
  "retained age most s s' d =
     (log_ok s' \<and> log_kept s s' \<and> set (db_changes s') \<subseteq> set (db_changes s)
      \<and> (\<forall>c \<in> set (db_changes s) - set (db_changes s'). 0 < age \<and> ch_at c < db_now s - age * 1000000)
      \<and> length (db_changes s) = length (db_changes s') + d \<and> d \<le> most
      \<and> set (db_receipts s') \<subseteq> set (db_receipts s))"

lemma cleanup_retained:
  assumes "log_ok s" "CleanupRetention acquired changeAge idempotencyAge b n s = (stats, s')"
  shows "retained changeAge (b * n) s s' (cls_changes stats)"
    and "acquired \<Longrightarrow> 0 < changeAge \<Longrightarrow> cls_changes stats < b * n \<Longrightarrow> expired_changes changeAge s' = []"
proof -
  obtain cs where cs: "expire_scopes s = s\<lparr>db_scopes := cs\<rparr>" using expire_scopes_frame by blast
  let ?s = "s\<lparr>db_scopes := cs\<rparr>"
  have k: "log_kept ?s t \<longleftrightarrow> log_kept s t" for t by (simp add: log_kept_def watermark_def)
  have kr: "log_kept t (u\<lparr>db_receipts := rs\<rparr>) \<longleftrightarrow> log_kept t u" for t u rs by (simp add: log_kept_def watermark_def)
  have idle: "retained changeAge (b * n) s ?s 0" unfolding retained_def using assms(1) k[of ?s] log_kept_refl by simp
  have all: "retained changeAge (b * n) s s' (cls_changes stats)
    \<and> (acquired \<longrightarrow> 0 < changeAge \<longrightarrow> cls_changes stats < b * n \<longrightarrow> expired_changes changeAge s' = [])"
  proof (cases "(changeAge = 0 \<and> idempotencyAge = 0) \<or> \<not> acquired")
    case True
    then have "s' = ?s" "cls_changes stats = 0"
      using assms(2) by (auto simp: CleanupRetention_def cs Let_def split: if_splits)
    then show ?thesis using idle True by auto
  next
    case False
    obtain d t where d: "(if changeAge > 0 then cleanup_changes changeAge b n ?s else (0, ?s)) = (d, t)"
      by (meson surj_pair)
    obtain e u where e: "(if idempotencyAge > 0 then cleanup_receipts idempotencyAge b n t else (0, t)) = (e, u)"
      by (meson surj_pair)
    have s': "s' = u" "cls_changes stats = d" using assms(2) False d e by (auto simp: CleanupRetention_def cs Let_def)
    obtain rs where rs: "u = t\<lparr>db_receipts := rs\<rparr>" "set rs \<subseteq> set (db_receipts t)"
    proof (cases "idempotencyAge > 0")
      case True
      then have "cleanup_receipts idempotencyAge b n t = (e, u)" using e by simp
      from cleanup_receipts_frame[OF this] show ?thesis using that by blast
    next
      case False
      then show ?thesis using e that[of "db_receipts t"] by auto
    qed
    show ?thesis
    proof (cases "changeAge > 0")
      case True
      have c: "cleanup_changes changeAge b n ?s = (d, t)" using d True by simp
      have ok: "log_ok ?s" using assms(1) by simp
      note l = cleanup_changes_log[OF ok c] and f = cleanup_changes_effect[OF ok c]
      have r: "db_receipts t = db_receipts s" using cleanup_changes_receipts[OF c] by simp
      show ?thesis
        unfolding retained_def s' rs(1) kr using l f rs(2) True k r by (auto simp: expired_changes_def)
    next
      case False
      then have "t = ?s" "d = 0" using d by simp_all
      then show ?thesis unfolding retained_def s' rs(1) kr using assms(1) k[of ?s] rs(2) False log_kept_refl by auto
    qed
  qed
  then show "retained changeAge (b * n) s s' (cls_changes stats)" by blast
  show "expired_changes changeAge s' = []" if "acquired" "0 < changeAge" "cls_changes stats < b * n"
    using all that by blast
qed

section \<open>The life of the log\<close>

text \<open>
  Whatever happens to the log is an insertion, a run of retention, or leaves it alone: \<open>log_run E s s'\<close>
  says that \<open>s'\<close> comes from \<open>s\<close> in this way.
\<close>

inductive log_run :: "env \<Rightarrow> db \<Rightarrow> db \<Rightarrow> bool" for E where
  log_start: "log_run E s s"
| log_append: "log_run E s t \<Longrightarrow> insert_change E a k table r obj n fs x t = Inr (w, u) \<Longrightarrow> log_run E s u"
| log_cleanup: "log_run E s t \<Longrightarrow> CleanupRetention acquired ca ia b n t = (stats, u) \<Longrightarrow> log_run E s u"
| log_other: "log_run E s t \<Longrightarrow> db_changes u = db_changes t \<Longrightarrow> db_sequence u = db_sequence t \<Longrightarrow>
     db_watermarks u = db_watermarks t \<Longrightarrow> log_run E s u"

lemma log_run_keeps: "log_run E s u \<Longrightarrow> log_ok s \<Longrightarrow> log_ok u \<and> log_kept s u"
proof (induction rule: log_run.induct)
  case (log_start s)
  then show ?case by (simp add: log_kept_refl)
next
  case (log_append s t a k table r obj n fs x w u)
  then have t: "log_ok t" "log_kept s t" by simp_all
  show ?case
    by (intro conjI log_ok_insert_change[OF t(1) log_append.hyps(2)]
        log_kept_trans[OF t(2) log_kept_insert_change[OF t(1) log_append.hyps(2)]])
next
  case (log_cleanup s t acquired ca ia b n stats u)
  then show ?case using cleanup_retained(1)[of t] log_kept_trans by (auto simp: retained_def)
next
  case (log_other s t u)
  then show ?case using log_same[of u t] log_kept_trans by blast
qed

lemma log_run_trans: "log_run E t u \<Longrightarrow> log_run E s t \<Longrightarrow> log_run E s u"
  by (induction rule: log_run.induct) (auto intro: log_run.intros)

section \<open>Reading the log\<close>

text \<open>
  A client that pulls until the store says there is no more; \<open>fuel\<close> bounds the number of pulls.
\<close>

fun follow_changes :: "nat \<Rightarrow> string \<Rightarrow> string \<Rightarrow> nat \<Rightarrow> int \<Rightarrow> db \<Rightarrow> change list res" where
  "follow_changes 0 actor tableID limit after s = Inl (Internal ''too many pages'')"
| "follow_changes (Suc fuel) actor tableID limit after s =
     ok_then (PullChanges actor tableID after limit s) (\<lambda>page.
       if scp_more page
       then ok_then (follow_changes fuel actor tableID limit (scp_next page) s)
              (\<lambda>rest. Inr (scp_items page @ rest))
       else Inr (scp_items page))"

definition readable :: "string \<Rightarrow> int \<Rightarrow> db \<Rightarrow> bool" where
  "readable t after s = (watermark t s \<le> after \<and> (after \<le> change_tail t s \<or> after \<le> watermark t s))"

lemma PullChanges_page:
  assumes "active_table_visible actor t s" "readable t after s"
  shows "PullChanges actor t after limit s = (case change_page t limit s after of
           (items, next, m) \<Rightarrow> Inr \<lparr>scp_items = items, scp_next = next, scp_more = m\<rparr>)"
  using assms unfolding PullChanges_def readable_def
  by (cases "change_page t limit s after") (auto simp: Let_def fail_if_def)

lemma PullChanges_Inr:
  assumes "PullChanges actor t after limit s = Inr page"
  shows "active_table_visible actor t s \<and> readable t after s
     \<and> change_page t limit s after = (scp_items page, scp_next page, scp_more page)"
  using assms unfolding PullChanges_def readable_def
  by (auto simp: Let_def split: if_splits prod.splits)

lemma change_page_next:
  "change_page t limit s after = (items, nxt, m) \<Longrightarrow> items \<noteq> [] \<Longrightarrow> nxt = ch_sequence (last items)"
  by (simp add: change_page_keyed keyed_page_eq)

lemma readable_next:
  assumes "log_ok s" "readable t after s" "change_page t limit s after = (items, next, m)"
  shows "readable t next s"
proof (cases "items = []")
  case True
  then show ?thesis using assms(2,3) by (auto simp: change_page_keyed keyed_page_eq)
next
  case False
  then have "last items \<in> set (rows_after t after s)" "next = ch_sequence (last items)"
    using assms(3) last_take_in by (auto simp: change_page_keyed keyed_page_eq)
  then show ?thesis
    using assms(1,2) change_tail_ge by (auto simp: rows_after_eq readable_def)
qed

lemma follow_changes_collect:
  assumes "log_ok s" "active_table_visible actor t s"
  shows "readable t after s \<Longrightarrow> collect_pages (change_page t limit s) fuel after = Some rows \<Longrightarrow>
    follow_changes fuel actor t limit after s = Inr rows"
proof (induction fuel arbitrary: after rows)
  case 0
  then show ?case by simp
next
  case (Suc fuel)
  obtain items nxt m where p: "change_page t limit s after = (items, nxt, m)"
    by (cases "change_page t limit s after")
  note n = readable_next[OF assms(1) Suc.prems(1) p]
  show ?case
    using Suc.prems(2) p Suc.IH[OF n] PullChanges_page[OF assms(2) Suc.prems(1), of limit] by auto
qed



text \<open>C34: a cleanup run deletes only changes older than the configured age, at most batches times batch
  size of them, and all of them if it stops before that; the log stays in order, every deleted change
  lies at or below the watermark its Table has afterwards, watermarks never fall, and receipts are only
  removed, never written.\<close>

theorem retention_effect:
  assumes "log_ok s" and "CleanupRetention acquired changeAge idempotencyAge b n s = (stats, s')"
  shows "log_ok s' \<and> cls_changes stats \<le> b * n
     \<and> length (db_changes s) = length (db_changes s') + cls_changes stats
     \<and> (\<forall>c \<in> set (db_changes s) - set (db_changes s').
          0 < changeAge \<and> ch_at c < db_now s - changeAge * 1000000 \<and> ch_sequence c \<le> watermark (ch_table c) s')
     \<and> (\<forall>t. watermark t s \<le> watermark t s')
     \<and> set (db_receipts s') \<subseteq> set (db_receipts s)
     \<and> (acquired \<longrightarrow> 0 < changeAge \<longrightarrow> cls_changes stats < b * n \<longrightarrow>
          (\<forall>c \<in> set (db_changes s'). db_now s' - changeAge * 1000000 \<le> ch_at c))"
proof -
  note r = cleanup_retained(1)[OF assms] and e = cleanup_retained(2)[OF assms]
  have "(\<forall>c \<in> set (db_changes s'). db_now s' - changeAge * 1000000 \<le> ch_at c)"
    if "acquired" "0 < changeAge" "cls_changes stats < b * n"
    using e[OF that] by (auto simp: expired_changes_def filter_empty_conv not_less)
  then show ?thesis using r unfolding retained_def log_kept_def by blast
qed

section \<open>Cursors of the services\<close>

lemma encode_cursor_Inr:
  "encode_cursor what C key purpose p = Inr t \<longleftrightarrow> cursor_encode C key purpose p = Inr t"
  by (auto simp: encode_cursor_def split: sum.splits)

lemma cursor_signer_Inr: "cursor_signer key = Inr k \<longleftrightarrow> length key = 32 \<and> k = key"
  by (auto simp: cursor_signer_def NewSigner_def split: sum.splits)

lemma cursor_nonempty: "cursor_encode C key purpose p = Inr t \<Longrightarrow> t \<noteq> []"
  by (auto simp: cursor_encode_def version_def Let_def split: if_splits option.splits)

lemma change_dotless: "''change'' \<in> dotless" "''history'' \<in> dotless"
  by (simp_all add: dotless_def)

text \<open>An answer of \<open>Changes\<close> carries a cursor of this Actor and this Table.\<close>

lemma Changes_cursor:
  assumes "Changes C key actor t token l s = Inr page"
  shows "length key = 32 \<and> active_table_visible actor t s \<and> (\<exists>n. cursor_encode C key ''change''
     \<lparr>ccp_actor = actor, ccp_table = t, ccp_sequence = n\<rparr> = Inr (fp_next page))"
  using assms unfolding Changes_def ChangeTail_def
  by (auto simp: ok_then_eq_Inr encode_cursor_Inr cursor_signer_Inr dest!: PullChanges_Inr
      split: if_splits option.splits)

text \<open>A change cursor is bound to its Actor and its Table: presented by another Actor or for another
  Table it is never accepted, whatever the state and the limit (the request fails, with INVALID_CURSOR
  once its Table ID and limit are well-formed); and no history request accepts it.\<close>

theorem change_cursor_bound:
  assumes "Changes C key actor t token l s = Inr page"
    and "\<forall>n. codec_sound C \<lparr>ccp_actor = actor, ccp_table = t, ccp_sequence = n\<rparr>"
    and "actor' \<noteq> actor \<or> t' \<noteq> t"
  shows "(\<exists>e. Changes C key actor' t' (fp_next page) l' s' = Inl e
        \<and> (Valid TablePrefix t' \<and> 1 \<le> l' \<and> l' \<le> 500 \<longrightarrow> e = InvalidCursor))
     \<and> history_start H key now actor'' t'' h (fp_next page) tail = Inl InvalidCursor"
proof -
  obtain n where k: "length key = 32" and c: "cursor_encode C key ''change''
     \<lparr>ccp_actor = actor, ccp_table = t, ccp_sequence = n\<rparr> = Inr (fp_next page)"
    using Changes_cursor[OF assms(1)] by blast
  have d: "cursor_decode C key ''change'' (fp_next page) = Some \<lparr>ccp_actor = actor, ccp_table = t, ccp_sequence = n\<rparr>"
    by (rule signer.issued[OF change_dotless(1) spec[OF assms(2)] c])
  have ne: "fp_next page \<noteq> []" by (rule cursor_nonempty[OF c])
  have s: "cursor_signer key = Inr key" using k by (simp add: cursor_signer_Inr)
  have "\<exists>e. Changes C key actor' t' (fp_next page) l' s' = Inl e
        \<and> (Valid TablePrefix t' \<and> 1 \<le> l' \<and> l' \<le> 500 \<longrightarrow> e = InvalidCursor)"
    using assms(3) ne by (cases "page_limit l'")
      (auto simp: Changes_def d s fail_if_def page_limit_def max_query_limit_def Let_def split: if_splits)
  moreover have "cursor_decode H key ''history'' (fp_next page) = None"
    by (rule cursor_purpose_separated[OF c]) simp_all
  then have "history_start H key now actor'' t'' h (fp_next page) tail = Inl InvalidCursor"
    using ne by (simp add: history_start_def)
  ultimately show ?thesis by blast
qed

text \<open>C35: following the history pages of a filter, from any position, gives exactly the matching changes
  of the Table below that position, newest first and each once, and ends; and a page of \<open>PullHistory\<close>
  is such a page.\<close>

theorem history_pages_complete:
  assumes "log_ok s" and "0 < limit" and "length (db_changes s) < fuel"
  shows "collect_pages (history_page t flt limit s) fuel before
      = Some (rev (filter (\<lambda>c. ch_table c = t \<and> ch_sequence c < before \<and> history_matches flt c) (db_changes s)))
     \<and> (\<forall>page. PullHistory actor t flt before limit s = Inr page \<longrightarrow>
          (\<exists>next. history_page t flt limit s before = (shp_items page, next, shp_more page)))"
proof -
  obtain n where n: "limit = Suc n" using assms(2) gr0_implies_Suc by blast
  have "length (rows_before t flt before s) < fuel"
    using assms(3) length_filter_le le_less_trans by (simp only: rows_before_eq[OF assms(1)] length_rev) blast
  then have "collect_pages (history_page t flt limit s) fuel before = Some (rows_before t flt before s)"
    unfolding n history_page_keyed by (rule history.collect_all[OF assms(1)])
  moreover have "\<exists>next. history_page t flt limit s before = (shp_items page, next, shp_more page)"
    if "PullHistory actor t flt before limit s = Inr page" for page
    using that by (auto simp: PullHistory_def split: if_splits prod.splits)
  ultimately show ?thesis unfolding rows_before_eq[OF assms(1)] by blast
qed

text \<open>C36: once retention has deleted the last change of a Table, a history request without a cursor
  fails with CURSOR_EXPIRED, and so does the very cursor that \<open>Changes\<close> hands out without one: the
  tail is then 0, below the watermark.\<close>

theorem purged_table_expires_fresh_cursors:
  assumes "\<forall>c \<in> set (db_changes s). ch_table c \<noteq> t" and "0 < watermark t s"
    and "active_table_visible actor t s" and "length key = 32"
    and "check_history_request t r = Inr limit" and "hr_cursor r = []"
    and "filter_hash (request_filter r) = Some h"
    and "Changes C key actor t [] l s = Inr page"
    and "codec_sound C \<lparr>ccp_actor = actor, ccp_table = t, ccp_sequence = 0\<rparr>"
  shows "History C H filter_hash key now actor t r s = Inl CursorExpired
     \<and> Changes C key actor t (fp_next page) l s = Inl CursorExpired"
proof -
  have tail: "change_tail t s = 0" using assms(1) by (simp add: change_tail_def filter_False)
  have signer: "cursor_signer key = Inr key" using assms(4) by (simp add: cursor_signer_Inr)
  have h: "history_start H key now actor t h (hr_cursor r) 0 = Inr 1" using assms(6) by (simp add: history_start_def)
  have "PullHistory actor t (request_filter r) 1 limit s = Inl CursorExpired"
    using assms(2,3) by (simp add: PullHistory_def fail_if_def)
  then have "History C H filter_hash key now actor t r s = Inl CursorExpired"
    using assms(3,5,7) h signer by (simp add: History_def ChangeTail_def tail)
  moreover have "Changes C key actor t (fp_next page) l s = Inl CursorExpired"
  proof -
    have c: "cursor_encode C key ''change'' \<lparr>ccp_actor = actor, ccp_table = t, ccp_sequence = 0\<rparr> = Inr (fp_next page)"
      and v: "Valid TablePrefix t" and l: "\<exists>n. page_limit l = Inr n"
      using assms(8) by (auto simp: Changes_def ok_then_eq_Inr ChangeTail_def tail signer encode_cursor_Inr
          split: if_splits)
    have d: "cursor_decode C key ''change'' (fp_next page) = Some \<lparr>ccp_actor = actor, ccp_table = t, ccp_sequence = 0\<rparr>"
      by (rule signer.issued[OF change_dotless(1) assms(9) c])
    have "PullChanges actor t 0 n s = Inl CursorExpired" for n
      using assms(2,3) by (simp add: PullChanges_def fail_if_def tail)
    then show ?thesis
      using v l cursor_nonempty[OF c] by (auto simp: Changes_def signer d)
  qed
  ultimately show ?thesis by simp
qed

section \<open>The properties at concrete logs\<close>

definition sample_change :: "int \<Rightarrow> change" where
  "sample_change n =
     \<lparr>ch_sequence = n, ch_id = show_int n, ch_kind = ''schemaChanged'', ch_table = sample_table, ch_record = [],
      ch_object = [], ch_revision = n, ch_actor = sample_actor, ch_at = n, ch_fields = [], ch_primary = []\<rparr>"

definition sample_log :: "int list \<Rightarrow> db" where
  "sample_log ns = sample_db\<lparr>db_changes := map sample_change ns, db_sequence := 3\<rparr>"

lemma sample_log_ok: "log_ok (sample_log [1, 2, 3])"
proof -
  have "distinct (map ch_id (map sample_change [1, 2, 3]))" by code_simp
  then show ?thesis by (simp add: log_ok_def sample_log_def sample_db_def watermark_def sample_change_def)
qed

lemma sample_log_visible [simp]: "active_table_visible sample_actor sample_table (sample_log ns)"
  by (simp add: active_table_visible_def find_active_table_def find_base_def find_workspace_def
      sample_log_def sample_db_def sample_tbl_def)

lemma sample_log_sel [simp]:
  "db_changes (sample_log ns) = map sample_change ns" "watermark t (sample_log ns) = 0"
  "db_now (sample_log ns) = 0" "db_receipts (sample_log ns) = []" "db_scopes (sample_log ns) = []"
  by (simp_all add: sample_log_def sample_db_def watermark_def)

lemma sample_change_sel [simp]:
  "ch_sequence (sample_change n) = n" "ch_table (sample_change n) = sample_table" "ch_at (sample_change n) = n"
  by (simp_all add: sample_change_def)

lemma sample_change_eq [simp]: "sample_change m = sample_change n \<longleftrightarrow> m = n"
  by (metis sample_change_sel(1))

lemma sample_log_tail [simp]: "change_tail sample_table (sample_log [1, 2, 3]) = 3"
  by (simp add: change_tail_def)


text \<open>The log grows by one change, and a page of two is pulled.\<close>

definition grown_log :: db where
  "grown_log = (case insert_change sample_env sample_actor ''schemaChanged'' sample_table [] [] 4 [] []
      (sample_log [1, 2, 3]) of Inr (u, s) \<Rightarrow> s | Inl _ \<Rightarrow> sample_db)"

lemma grown_log_run: "log_run sample_env (sample_log [1, 2, 3]) grown_log"
proof -
  have "succeeds (insert_change sample_env sample_actor ''schemaChanged'' sample_table [] [] 4 [] []
      (sample_log [1, 2, 3]))" by code_simp
  then obtain s where i: "insert_change sample_env sample_actor ''schemaChanged'' sample_table [] [] 4 [] []
      (sample_log [1, 2, 3]) = Inr ((), s)" using succeedsE by fastforce
  then have "grown_log = s" by (simp add: grown_log_def)
  then show ?thesis using log_append[OF log_start i] by simp
qed


text \<open>Three days later, retention with an age of one day deletes two changes a batch.\<close>

definition aged_log :: db where
  "aged_log = (sample_log [1, 2, 3])\<lparr>db_now := 3 * 24 * 3600 * 1000000\<rparr>"

lemma aged_log_changes [simp]: "db_changes aged_log = [sample_change 1, sample_change 2, sample_change 3]"
  by (simp add: aged_log_def)

theorem retention_effect_witness:
  "\<exists>stats s'. CleanupRetention True 86400 0 1 2 aged_log = (stats, s') \<and> cls_changes stats \<le> 2
     \<and> log_ok s' \<and> sample_change 2 \<in> set (db_changes aged_log) - set (db_changes s')
     \<and> 2 \<le> watermark sample_table s'"
proof -
  have ok: "log_ok aged_log"
    using sample_log_ok by (simp add: aged_log_def log_ok_def watermark_def)
  obtain stats s' where c: "CleanupRetention True 86400 0 1 2 aged_log = (stats, s')"
    by (cases "CleanupRetention True 86400 0 1 2 aged_log")
  have e: "expire_scopes aged_log = aged_log"
    by (simp add: expire_scopes_def aged_log_def sample_log_def sample_db_def)
  obtain w where "s' = aged_log\<lparr>db_changes := [sample_change 3], db_watermarks := w\<rparr>"
  proof -
    have d: "doomed_changes 86400 2 aged_log = [sample_change 1, sample_change 2]"
      by (simp add: doomed_changes_def aged_log_def)
    obtain n t where b: "cleanup_batch 86400 2 aged_log = (n, t)"
      by (cases "cleanup_batch 86400 2 aged_log")
    then have n: "n = 2" "db_changes t = [sample_change 3]"
      using cleanup_batch_changes(2,3)[OF ok b] unfolding d by simp_all
    obtain cs w where t: "t = aged_log\<lparr>db_changes := cs, db_watermarks := w\<rparr>"
      using cleanup_batch_frame[OF b] by blast
    have "cleanup_changes 86400 1 2 aged_log = (n, t)"
      using n(1) by (simp only: One_nat_def cleanup_changes.simps b Let_def prod.case) simp
    then have "s' = t" using c by (simp only: CleanupRetention_def e Let_def) simp
    then show ?thesis using that t n by simp
  qed
  then have g: "sample_change 2 \<in> set (db_changes aged_log) - set (db_changes s')"
    by simp
  note r = retention_effect[OF ok c]
  have "ch_sequence (sample_change 2) \<le> watermark (ch_table (sample_change 2)) s'" using r g by blast
  then have "2 \<le> watermark sample_table s'" by (simp only: sample_change_sel)
  moreover have "cls_changes stats \<le> 2" using r by simp
  ultimately show ?thesis using r c g by blast
qed

text \<open>A codec that writes a sequence number in unary, with a toy MAC, and a purged log.\<close>

definition unary_codec :: "string \<Rightarrow> string \<Rightarrow> change_cursor codec" where
  "unary_codec actor t =
     \<lparr>hmac = (\<lambda>k m. take 8 (rev m)),
      marshal_payload = (\<lambda>p. if ccp_actor p = actor \<and> ccp_table p = t \<and> 0 \<le> ccp_sequence p
         then Some (replicate (nat (ccp_sequence p)) (CHR ''1'')) else None),
      unmarshal_payload = (\<lambda>s. Some \<lparr>ccp_actor = actor, ccp_table = t, ccp_sequence = int (length s)\<rparr>)\<rparr>"

lemma unary_codec_sound: "codec_sound (unary_codec actor t) \<lparr>ccp_actor = actor, ccp_table = t, ccp_sequence = n\<rparr>"
  by (simp add: codec_sound_def unary_codec_def)

definition sample_key :: string where "sample_key = replicate 32 (CHR ''k'')"

definition purged_log :: db where
  "purged_log = snd (CleanupRetention True 86400 0 1 5 aged_log)"

definition whole_history :: history_request where
  "whole_history = \<lparr>hr_record = [], hr_kind = [], hr_field = [], hr_actor = [], hr_since = None, hr_until = None,
     hr_cursor = [], hr_limit = 0\<rparr>"

theorem change_cursor_bound_witness:
  "\<exists>page. Changes (unary_codec sample_actor sample_table) sample_key sample_actor sample_table [] 0 (sample_log [1, 2, 3]) = Inr page
     \<and> Changes (unary_codec sample_actor sample_table) sample_key ''act_other'' sample_table (fp_next page) 5
         (sample_log [1, 2, 3]) = Inl InvalidCursor"
proof -
  let ?C = "unary_codec sample_actor sample_table"
  have "succeeds (Changes ?C sample_key sample_actor sample_table [] 0 (sample_log [1, 2, 3]))" by code_simp
  then obtain page where p: "Changes ?C sample_key sample_actor sample_table [] 0 (sample_log [1, 2, 3]) = Inr page"
    using succeedsE by blast
  have "''act_other'' \<noteq> sample_actor" by code_simp
  then have o: "''act_other'' \<noteq> sample_actor \<or> sample_table \<noteq> sample_table" by blast
  have v: "Valid TablePrefix sample_table" by code_simp
  show ?thesis
    using change_cursor_bound[OF p _ o, where l' = 5 and s' = "sample_log [1, 2, 3]"] unary_codec_sound v p by auto
qed

theorem history_pages_complete_witness:
  "collect_pages (history_page sample_table (request_filter whole_history) 2 (sample_log [1, 2, 3])) 4 3
     = Some [sample_change 2, sample_change 1]"
  using history_pages_complete[OF sample_log_ok, of 2 4 sample_table "request_filter whole_history" 3]
  by (simp add: history_matches_def request_filter_def whole_history_def)

theorem purged_table_expires_fresh_cursors_witness:
  "\<exists>page. Changes (unary_codec sample_actor sample_table) sample_key sample_actor sample_table [] 0 purged_log = Inr page
     \<and> Changes (unary_codec sample_actor sample_table) sample_key sample_actor sample_table (fp_next page) 0 purged_log
         = Inl CursorExpired"
proof -
  let ?C = "unary_codec sample_actor sample_table"
  have "succeeds (Changes ?C sample_key sample_actor sample_table [] 0 purged_log)" by code_simp
  then obtain page where p: "Changes ?C sample_key sample_actor sample_table [] 0 purged_log = Inr page"
    using succeedsE by blast
  have c: "\<forall>c \<in> set (db_changes purged_log). ch_table c \<noteq> sample_table" by code_simp
  have w: "0 < watermark sample_table purged_log" by code_simp
  have a: "active_table_visible sample_actor sample_table purged_log" by code_simp
  have k: "length sample_key = 32" by (simp add: sample_key_def)
  have "succeeds (check_history_request sample_table whole_history)" by code_simp
  then obtain limit where l: "check_history_request sample_table whole_history = Inr limit" using succeedsE by blast
  show ?thesis
    using purged_table_expires_fresh_cursors[OF c w a k l _ _ p unary_codec_sound, of "\<lambda>_. Some []"] p
    by (simp add: whole_history_def)
qed

end
