(* ===== verification/RecordQuery.thy ===== *)
theory RecordQuery
  imports Store Paging
begin

text \<open>
  From a query plan to SQL: the builders of internal/storage/postgres/query.go.  \<open>compileFilterSQL\<close>,
  \<open>buildRecordWhere\<close>, \<open>buildSortTerms\<close> and \<open>buildKeysetCondition\<close> produce SQL text with placeholders; here
  they produce the conditions and expressions that text denotes, one constructor per fragment the code
  writes, with the parameter in place of its \<open>$n\<close>.  \<open>sql_eval\<close> and \<open>cond_eval\<close> give them PostgreSQL's
  meaning on a row of \<open>records\<close>, with \<open>None\<close> for NULL and three-valued logic.  Fragments are joined as text,
  and \<open>AND\<close> binds tighter than \<open>OR\<close>: a piece of text without enclosing parentheses is the list of its
  operands of \<open>OR\<close>, each the list of its operands of \<open>AND\<close> (\<open>sql_text\<close>), and \<open>text_and\<close> is what writing
  \<open>" AND "\<close> between two such pieces gives.

  A number is a finite \<open>double precision\<close>, text is compared byte by byte, and the parameter of \<open>endsWith\<close>
  is matched on bytes, which for UTF-8 is the comparison of code points.  A cast of a value of another
  type is an SQL error in PostgreSQL and NULL here; projected values have the type of their Field, so
  it does not occur.  An instant passes through a cursor as the text \<open>en_time_text\<close>.
\<close>

section \<open>Values and expressions\<close>

datatype sql_value = SqlText string | SqlNum rat | SqlBool bool | SqlTime instant

datatype sql_expr =
    ValueText string
  | ValueNumber string
  | ValueBool string
  | NullFlag sql_expr int int
  | OptionActive sql_expr "string list"
  | OptionRank sql_expr "string list"
  | PositionColumn
  | CreatedColumn
  | IdColumn

datatype sql_cond =
    AllOf "sql_cond list"
  | AnyOf "sql_cond list"
  | NotCond sql_cond
  | TextEmpty string
  | ListEmpty string
  | JsonEmpty string
  | HasMember string "sql_value option"
  | SameAs sql_expr "sql_value option"
  | DiffersFrom sql_expr "sql_value option"
  | HasPart sql_expr "sql_value option"
  | HasStart sql_expr "sql_value option"
  | HasEnd sql_expr "sql_value option"
  | Compare string sql_expr "sql_value option"
  | InTable string
  | NotDeleted
  | IsDeleted
  | SearchHas string
  | IsRecord string
  | IsMember "string list"

fun sql_param :: "json \<Rightarrow> sql_value option" where
  "sql_param (JStr s) = Some (SqlText s)"
| "sql_param (JNum (Fin q)) = Some (SqlNum q)"
| "sql_param (JBool b) = Some (SqlBool b)"
| "sql_param v = None"

fun sql_less :: "sql_value \<Rightarrow> sql_value \<Rightarrow> bool" where
  "sql_less (SqlText a) (SqlText b) = (a < b)"
| "sql_less (SqlNum a) (SqlNum b) = (a < b)"
| "sql_less (SqlBool a) (SqlBool b) = (\<not> a \<and> b)"
| "sql_less (SqlTime a) (SqlTime b) = (a < b)"
| "sql_less a b = False"

text \<open>\<open>r.query_values -> f\<close> and \<open>r.query_values ->> f\<close>.\<close>

definition query_value :: "record_row \<Rightarrow> string \<Rightarrow> json option" where
  "query_value r f = fmlookup (rr_query r) f"

definition value_text :: "env \<Rightarrow> record_row \<Rightarrow> string \<Rightarrow> string option" where
  "value_text E r f =
     (case query_value r f of None \<Rightarrow> None | Some JNull \<Rightarrow> None | Some (JStr s) \<Rightarrow> Some s
      | Some v \<Rightarrow> Some (en_json_text E v))"

fun sql_eval :: "env \<Rightarrow> record_row \<Rightarrow> sql_expr \<Rightarrow> sql_value option" where
  "sql_eval E r (ValueText f) = map_option SqlText (value_text E r f)"
| "sql_eval E r (ValueNumber f) = (case query_value r f of Some (JNum (Fin q)) \<Rightarrow> Some (SqlNum q) | _ \<Rightarrow> None)"
| "sql_eval E r (ValueBool f) = (case query_value r f of Some (JBool b) \<Rightarrow> Some (SqlBool b) | _ \<Rightarrow> None)"
| "sql_eval E r (NullFlag e a b) = Some (SqlNum (of_int (if sql_eval E r e = None then a else b)))"
| "sql_eval E r (OptionActive e ids) =
     Some (SqlNum (case sql_eval E r e of Some (SqlText s) \<Rightarrow> if List.member ids s then 0 else 1 | _ \<Rightarrow> 1))"
| "sql_eval E r (OptionRank e ids) =
     Some (SqlNum (case sql_eval E r e of
        Some (SqlText s) \<Rightarrow> (case index_in ids s of None \<Rightarrow> 0 | Some i \<Rightarrow> of_nat i) | _ \<Rightarrow> 0))"
| "sql_eval E r PositionColumn = Some (SqlNum (rr_position r))"
| "sql_eval E r CreatedColumn = Some (SqlTime (rc_created_at (rr_record r)))"
| "sql_eval E r IdColumn = Some (SqlText (rc_id (rr_record r)))"

section \<open>Conditions\<close>

definition all_of :: "bool option list \<Rightarrow> bool option" where
  "all_of bs = (if List.member bs (Some False) then Some False
                else if List.member bs None then None else Some True)"

definition any_of :: "bool option list \<Rightarrow> bool option" where
  "any_of bs = (if List.member bs (Some True) then Some True
                else if List.member bs None then None else Some False)"

definition text_test :: "(string \<Rightarrow> string \<Rightarrow> bool) \<Rightarrow> sql_value option \<Rightarrow> sql_value option \<Rightarrow> bool" where
  "text_test p a b =
     (case a of Some (SqlText s) \<Rightarrow> (case b of Some (SqlText t) \<Rightarrow> p s t | _ \<Rightarrow> False) | _ \<Rightarrow> False)"

definition ends_with :: "string \<Rightarrow> string \<Rightarrow> bool" where
  "ends_with p s = starts_with (rev p) (rev s)"

definition compare_values :: "string \<Rightarrow> sql_value option \<Rightarrow> sql_value option \<Rightarrow> bool option" where
  "compare_values op a b =
     (case a of None \<Rightarrow> None | Some x \<Rightarrow> (case b of None \<Rightarrow> None | Some y \<Rightarrow>
        Some (if op = ''>'' then sql_less y x
              else if op = ''>='' then sql_less y x \<or> x = y
              else if op = ''<'' then sql_less x y
              else sql_less x y \<or> x = y)))"

fun cond_eval :: "env \<Rightarrow> record_row \<Rightarrow> sql_cond \<Rightarrow> bool option" where
  "cond_eval E r (AllOf cs) = all_of (map (cond_eval E r) cs)"
| "cond_eval E r (AnyOf cs) = any_of (map (cond_eval E r) cs)"
| "cond_eval E r (NotCond c) = map_option Not (cond_eval E r c)"
| "cond_eval E r (TextEmpty f) = Some (value_text E r f = None \<or> value_text E r f = Some [])"
| "cond_eval E r (ListEmpty f) =
     Some (query_value r f = None \<or> query_value r f = Some JNull \<or> query_value r f = Some (JArr []))"
| "cond_eval E r (JsonEmpty f) = Some (query_value r f = None \<or> query_value r f = Some JNull)"
| "cond_eval E r (HasMember f p) =
     Some (case p of Some (SqlText s) \<Rightarrow>
             (case query_value r f of
                Some (JArr xs) \<Rightarrow> List.member xs (JStr s)
              | Some (JStr t) \<Rightarrow> t = s
              | Some (JObj m) \<Rightarrow> fm_has m s
              | _ \<Rightarrow> False)
           | _ \<Rightarrow> False)"
| "cond_eval E r (SameAs e p) = Some (sql_eval E r e = p)"
| "cond_eval E r (DiffersFrom e p) = Some (sql_eval E r e \<noteq> p)"
| "cond_eval E r (HasPart e p) = Some (text_test contains_str (sql_eval E r e) p)"
| "cond_eval E r (HasStart e p) = Some (text_test (\<lambda>s t. starts_with t s) (sql_eval E r e) p)"
| "cond_eval E r (HasEnd e p) = Some (text_test (\<lambda>s t. ends_with t s) (sql_eval E r e) p)"
| "cond_eval E r (Compare op e p) = compare_values op (sql_eval E r e) p"
| "cond_eval E r (InTable t) = Some (rc_table (rr_record r) = t)"
| "cond_eval E r NotDeleted = Some (rc_deleted_at (rr_record r) = None)"
| "cond_eval E r IsDeleted = Some (rc_deleted_at (rr_record r) \<noteq> None)"
| "cond_eval E r (SearchHas p) = Some (contains_str (rr_search r) p)"
| "cond_eval E r (IsRecord i) = Some (rc_id (rr_record r) = i)"
| "cond_eval E r (IsMember ids) = Some (List.member ids (rc_id (rr_record r)))"

section \<open>Text\<close>

type_synonym sql_text = "sql_cond list list"

definition text_and :: "sql_text \<Rightarrow> sql_text \<Rightarrow> sql_text" where
  "text_and a b = butlast a @ [last a @ hd b] @ tl b"

fun join_and :: "sql_text list \<Rightarrow> sql_text" where
  "join_and [] = [[]]"
| "join_and [a] = a"
| "join_and (a # b # rest) = text_and a (join_and (b # rest))"

text \<open>\<open>"(" + text + ")"\<close>.\<close>

definition paren :: "sql_text \<Rightarrow> sql_cond" where
  "paren t = AnyOf (map AllOf t)"

definition text_eval :: "env \<Rightarrow> record_row \<Rightarrow> sql_text \<Rightarrow> bool option" where
  "text_eval E r t = cond_eval E r (paren t)"

text \<open>\<open>WHERE\<close> selects the rows for which the condition is true, neither false nor NULL.\<close>

definition where_selects :: "env \<Rightarrow> sql_text \<Rightarrow> record_row \<Rightarrow> bool" where
  "where_selects E t r = (text_eval E r t = Some True)"

section \<open>\<open>compileFilterSQL\<close>\<close>

definition filter_empty_expression :: "string \<Rightarrow> string \<Rightarrow> sql_cond" where
  "filter_empty_expression t f =
     (if t = ''text'' \<or> t = ''longText'' then TextEmpty f
      else if t = ''multiSelect'' then ListEmpty f
      else JsonEmpty f)"

definition filter_expression :: "string \<Rightarrow> string \<Rightarrow> sql_expr" where
  "filter_expression t f =
     (if t = ''number'' then ValueNumber f else if t = ''checkbox'' then ValueBool f else ValueText f)"

definition member_type :: "string \<Rightarrow> bool" where
  "member_type t = (t = ''multiSelect'' \<or> t = ''attachment'')"

definition compile_rule :: "field_def \<Rightarrow> string \<Rightarrow> json option \<Rightarrow> sql_cond res" where
  "compile_rule f op v =
     (let i = fe_id f; t = fe_type f; empty = filter_empty_expression t i; e = filter_expression t i in
      if op = ''isEmpty'' then Inr empty
      else if op = ''isNotEmpty'' then Inr (NotCond empty)
      else (case v of
          None \<Rightarrow> Inl (Internal ''decode Filter value'')
        | Some x \<Rightarrow>
            (let p = sql_param x in
             if member_type t \<and> op = ''includes'' then Inr (HasMember i p)
             else if member_type t \<and> op = ''excludes'' then Inr (NotCond (HasMember i p))
             else if op = ''is'' then Inr (SameAs e p)
             else if op = ''isNot'' then Inr (DiffersFrom e p)
             else if op = ''contains'' then Inr (HasPart e p)
             else if op = ''notContains'' then Inr (NotCond (HasPart e p))
             else if op = ''startsWith'' then Inr (HasStart e p)
             else if op = ''endsWith'' then Inr (HasEnd e p)
             else if op = ''greaterThan'' then Inr (Compare ''>'' e p)
             else if op = ''greaterOrEqual'' then Inr (Compare ''>='' e p)
             else if op = ''lessThan'' then Inr (Compare ''<'' e p)
             else if op = ''lessOrEqual'' then Inr (Compare ''<='' e p)
             else Inl (Internal ''compile unsupported Filter operator''))))"

fun compile_filter_sql :: "filter_node \<Rightarrow> fields \<Rightarrow> sql_text res" where
  "compile_filter_sql (FilterNode kind op cs fieldID v) fs =
     (if kind = ''group'' then
        ok_then (each_ok (\<lambda>c. compile_filter_sql c fs) cs) (\<lambda>children.
        Inr (if op = ''or'' then map (\<lambda>c. [paren c]) children else [map paren children]))
      else (case fmlookup fs fieldID of
          None \<Rightarrow> Inl (Internal ''compile Filter for missing Field'')
        | Some f \<Rightarrow> ok_then (compile_rule f op v) (\<lambda>c. Inr [[c]])))"

section \<open>\<open>buildRecordWhere\<close>\<close>

definition lifecycle_parts :: "string \<Rightarrow> sql_text list res" where
  "lifecycle_parts lifecycle =
     (if lifecycle = ''active'' then Inr [[[NotDeleted]]]
      else if lifecycle = ''deleted'' then Inr [[[IsDeleted]]]
      else if lifecycle = ''all'' then Inr []
      else Inl (BadRequest ''invalid Record lifecycle''))"

definition filter_parts :: "filter_node option \<Rightarrow> fields \<Rightarrow> sql_text list res" where
  "filter_parts filt fs =
     (case filt of None \<Rightarrow> Inr []
      | Some node \<Rightarrow> ok_then (compile_filter_sql node fs) (\<lambda>predicate. Inr [predicate]))"

definition build_record_where :: "string \<Rightarrow> query_plan \<Rightarrow> sql_text res" where
  "build_record_where tableID plan =
     ok_then (lifecycle_parts (qp_lifecycle plan)) (\<lambda>lifecycle.
     ok_then (filter_parts (qp_filter plan) (qp_fields plan)) (\<lambda>predicate.
     Inr (join_and ([[[InTable tableID]]] @ lifecycle @ predicate
            @ (if qp_search plan \<noteq> [] then [[[SearchHas (qp_search plan)]]] else [])))))"

section \<open>\<open>buildSortTerms\<close>\<close>

record sort_term =
  st_expr :: sql_expr
  st_desc :: bool
  st_kind :: string

definition sort_value_expression :: "field_def \<Rightarrow> sql_expr" where
  "sort_value_expression f = filter_expression (fe_type f) (fe_id f)"

definition sort_value_kind :: "string \<Rightarrow> string" where
  "sort_value_kind t = (if t = ''number'' then ''number'' else if t = ''checkbox'' then ''boolean'' else ''text'')"

definition ordered_option_ids :: "field_config option \<Rightarrow> string list res" where
  "ordered_option_ids c =
     (case c of None \<Rightarrow> Inl (Internal ''decode Select Field config'')
      | Some (SelectConfig options deleted) \<Rightarrow> Inr (map so_id options)
      | Some _ \<Rightarrow> Inr [])"

definition spec_terms :: "fields \<Rightarrow> sort_spec \<Rightarrow> sort_term list res" where
  "spec_terms fs spec =
     (case fmlookup fs (sp_field spec) of
        None \<Rightarrow> Inl (Internal ''sort Field is unavailable'')
      | Some f \<Rightarrow>
          (let base = sort_value_expression f;
               desc = (sp_direction spec = ''desc'');
               flag = \<lparr>st_expr = (if sp_nulls spec = ''first'' then NullFlag base 0 1 else NullFlag base 1 0),
                       st_desc = False, st_kind = ''integer''\<rparr>
           in if fe_type f \<noteq> ''select'' then
                Inr [flag, \<lparr>st_expr = base, st_desc = desc, st_kind = sort_value_kind (fe_type f)\<rparr>]
              else
                ok_then (ordered_option_ids (fe_config f)) (\<lambda>active.
                Inr [flag,
                     \<lparr>st_expr = OptionActive base active, st_desc = False, st_kind = ''integer''\<rparr>,
                     \<lparr>st_expr = OptionRank base active, st_desc = desc, st_kind = ''integer''\<rparr>,
                     \<lparr>st_expr = base, st_desc = desc, st_kind = ''text''\<rparr>])))"

definition build_sort_terms :: "query_plan \<Rightarrow> sort_term list res" where
  "build_sort_terms plan =
     (if qp_sort plan = [] then
        (if qp_manual_sort plan
         then Inr [\<lparr>st_expr = PositionColumn, st_desc = False, st_kind = ''number''\<rparr>]
         else Inr [\<lparr>st_expr = CreatedColumn, st_desc = False, st_kind = ''timestamp''\<rparr>])
      else ok_then (each_ok (spec_terms (qp_fields plan)) (qp_sort plan)) (\<lambda>ts. Inr (concat ts)))"

section \<open>\<open>buildKeysetCondition\<close>\<close>

record query_position =
  qpos_values :: "json list"
  qpos_record :: string

text \<open>The value of a sort term as the cursor carries it, and back.\<close>

definition scanned_sort_value :: "env \<Rightarrow> sql_value option \<Rightarrow> json" where
  "scanned_sort_value E v =
     (case v of None \<Rightarrow> JNull | Some (SqlText s) \<Rightarrow> JStr s | Some (SqlNum q) \<Rightarrow> JNum (Fin q)
      | Some (SqlBool b) \<Rightarrow> JBool b | Some (SqlTime t) \<Rightarrow> JStr (en_time_text E t))"

definition coerce_cursor_value :: "env \<Rightarrow> json \<Rightarrow> string \<Rightarrow> sql_value option option" where
  "coerce_cursor_value E v kind =
     (case v of
        JNull \<Rightarrow> Some None
      | JNum (Fin q) \<Rightarrow>
          if kind = ''integer'' then (if of_int \<lfloor>q\<rfloor> = q then Some (Some (SqlNum q)) else None)
          else if kind = ''number'' then Some (Some (SqlNum q)) else None
      | JBool b \<Rightarrow> if kind = ''boolean'' then Some (Some (SqlBool b)) else None
      | JStr s \<Rightarrow>
          if kind = ''text'' then Some (Some (SqlText s))
          else if kind = ''timestamp'' then Some (map_option SqlTime (en_parse_time E s)) else None
      | _ \<Rightarrow> None)"

definition id_term :: sort_term where
  "id_term = \<lparr>st_expr = IdColumn, st_desc = False, st_kind = ''text''\<rparr>"

text \<open>One branch: equal on the earlier terms, beyond on this one.\<close>

fun keyset_branches :: "(sort_term \<times> sql_value option) list \<Rightarrow> (sort_term \<times> sql_value option) list \<Rightarrow> sql_cond list" where
  "keyset_branches previous [] = []"
| "keyset_branches previous ((t, v) # rest) =
     AllOf (map (\<lambda>(p, w). SameAs (st_expr p) w) previous @ [Compare (if st_desc t then ''<'' else ''>'') (st_expr t) v])
       # keyset_branches (previous @ [(t, v)]) rest"

definition coerce_all :: "env \<Rightarrow> sort_term list \<Rightarrow> json list \<Rightarrow> sql_value option list option" where
  "coerce_all E terms vs = all_some (map (\<lambda>(t, v). coerce_cursor_value E v (st_kind t)) (zip terms vs))"

definition build_keyset_condition :: "env \<Rightarrow> sort_term list \<Rightarrow> query_position \<Rightarrow> sql_cond res" where
  "build_keyset_condition E terms position =
     (if length (qpos_values position) \<noteq> length terms \<or> qpos_record position = [] then Inl InvalidCursor
      else
        let allTerms = terms @ [id_term] in
        (case coerce_all E allTerms (qpos_values position @ [JStr (qpos_record position)]) of
           None \<Rightarrow> Inl InvalidCursor
         | Some vs \<Rightarrow> Inr (AnyOf (keyset_branches [] (zip allTerms vs)))))"

section \<open>\<open>ORDER BY\<close>\<close>

text \<open>NULL sorts after every value, before it in descending order.\<close>

definition term_before :: "sort_term \<Rightarrow> sql_value option \<Rightarrow> sql_value option \<Rightarrow> bool" where
  "term_before t a b =
     (let lt = (\<lambda>x y. case x of None \<Rightarrow> False | Some u \<Rightarrow> (case y of None \<Rightarrow> True | Some w \<Rightarrow> sql_less u w)) in
      if st_desc t then lt b a else lt a b)"

fun row_before :: "env \<Rightarrow> sort_term list \<Rightarrow> record_row \<Rightarrow> record_row \<Rightarrow> bool" where
  "row_before E [] a b = False"
| "row_before E (t # ts) a b =
     (let x = sql_eval E a (st_expr t); y = sql_eval E b (st_expr t) in
      term_before t x y \<or> (x = y \<and> row_before E ts a b))"

fun insert_ordered :: "('r \<Rightarrow> 'r \<Rightarrow> bool) \<Rightarrow> 'r \<Rightarrow> 'r list \<Rightarrow> 'r list" where
  "insert_ordered lt x [] = [x]"
| "insert_ordered lt x (y # ys) = (if lt y x then y # insert_ordered lt x ys else x # y # ys)"

definition order_rows :: "env \<Rightarrow> sort_term list \<Rightarrow> record_row list \<Rightarrow> record_row list" where
  "order_rows E terms rows = foldr (insert_ordered (row_before E (terms @ [id_term]))) rows []"

section \<open>What a filter means\<close>

text \<open>The stored value of a Field; an explicit null is no value.\<close>

definition stored_value :: "record_row \<Rightarrow> string \<Rightarrow> json option" where
  "stored_value r f = (case query_value r f of Some JNull \<Rightarrow> None | v \<Rightarrow> v)"

definition json_less :: "json \<Rightarrow> json \<Rightarrow> bool" where
  "json_less a b =
     (case a of
        JNum (Fin x) \<Rightarrow> (case b of JNum (Fin y) \<Rightarrow> x < y | _ \<Rightarrow> False)
      | JStr x \<Rightarrow> (case b of JStr y \<Rightarrow> x < y | _ \<Rightarrow> False)
      | _ \<Rightarrow> False)"

definition json_text_rel :: "(string \<Rightarrow> string \<Rightarrow> bool) \<Rightarrow> json option \<Rightarrow> json \<Rightarrow> bool" where
  "json_text_rel p a b =
     (case a of Some (JStr s) \<Rightarrow> (case b of JStr t \<Rightarrow> p s t | _ \<Rightarrow> False) | _ \<Rightarrow> False)"

definition value_empty :: "string \<Rightarrow> json option \<Rightarrow> bool" where
  "value_empty t x =
     (x = None \<or> (t = ''text'' \<or> t = ''longText'') \<and> x = Some (JStr [])
      \<or> t = ''multiSelect'' \<and> x = Some (JArr []))"

text \<open>A rule on the stored value \<open>x\<close>: a missing value satisfies no comparison, and every negation.\<close>

definition rule_matches :: "string \<Rightarrow> string \<Rightarrow> json option \<Rightarrow> json option \<Rightarrow> bool" where
  "rule_matches t op v x =
     (if op = ''isEmpty'' then value_empty t x
      else if op = ''isNotEmpty'' then \<not> value_empty t x
      else (case v of None \<Rightarrow> False
        | Some c \<Rightarrow>
            if op = ''is'' then x = Some c
            else if op = ''isNot'' then x \<noteq> Some c
            else if op = ''contains'' then json_text_rel contains_str x c
            else if op = ''notContains'' then \<not> json_text_rel contains_str x c
            else if op = ''startsWith'' then json_text_rel (\<lambda>a b. take (length b) a = b) x c
            else if op = ''endsWith'' then json_text_rel (\<lambda>a b. drop (length a - length b) a = b) x c
            else if op = ''includes'' then (case x of Some (JArr xs) \<Rightarrow> c \<in> set xs | _ \<Rightarrow> False)
            else if op = ''excludes'' then \<not> (case x of Some (JArr xs) \<Rightarrow> c \<in> set xs | _ \<Rightarrow> False)
            else (case x of None \<Rightarrow> False
              | Some y \<Rightarrow>
                  if op = ''greaterThan'' then json_less c y
                  else if op = ''greaterOrEqual'' then json_less c y \<or> y = c
                  else if op = ''lessThan'' then json_less y c
                  else op = ''lessOrEqual'' \<and> (json_less y c \<or> y = c))))"

fun filter_matches :: "fields \<Rightarrow> record_row \<Rightarrow> filter_node \<Rightarrow> bool" where
  "filter_matches fs r (FilterNode kind op cs fieldID v) =
     (if kind = ''group''
      then (if op = ''or'' then list_ex (filter_matches fs r) cs else list_all (filter_matches fs r) cs)
      else (case fmlookup fs fieldID of None \<Rightarrow> False
        | Some f \<Rightarrow> rule_matches (fe_type f) op v (stored_value r fieldID)))"

text \<open>
  A row of the Table: each Field's projected value is missing, null, or of the Field's type; the
  definition under an ID is the one of that ID.
\<close>

definition value_typed :: "string \<Rightarrow> json option \<Rightarrow> bool" where
  "value_typed t x =
     (case x of None \<Rightarrow> True
      | Some JNull \<Rightarrow> True
      | Some v \<Rightarrow>
          if t = ''number'' then (case v of JNum (Fin _) \<Rightarrow> True | _ \<Rightarrow> False)
          else if t = ''checkbox'' then (case v of JBool _ \<Rightarrow> True | _ \<Rightarrow> False)
          else if t = ''multiSelect'' \<or> t = ''attachment'' then (case v of JArr _ \<Rightarrow> True | _ \<Rightarrow> False)
          else if t = ''location'' then (case v of JObj _ \<Rightarrow> True | _ \<Rightarrow> False)
          else (case v of JStr _ \<Rightarrow> True | _ \<Rightarrow> False))"

definition row_typed :: "fields \<Rightarrow> record_row \<Rightarrow> bool" where
  "row_typed fs r =
     list_all (\<lambda>k. case fmlookup fs k of None \<Rightarrow> True
        | Some f \<Rightarrow> fe_id f = k \<and> value_typed (fe_type f) (query_value r k)) (fm_keys fs)"

section \<open>The compiled filter means the filter\<close>

lemma member_map: "List.member (map f xs) y \<longleftrightarrow> (\<exists>x \<in> set xs. f x = y)"
  by auto

lemma all_of_True: "all_of (map f xs) = Some True \<longleftrightarrow> (\<forall>x \<in> set xs. f x = Some True)"
proof -
  have "f x = Some True \<longleftrightarrow> f x \<noteq> Some False \<and> f x \<noteq> None" for x by (cases "f x") auto
  then show ?thesis unfolding all_of_def member_map by auto
qed

lemma any_of_True: "any_of (map f xs) = Some True \<longleftrightarrow> (\<exists>x \<in> set xs. f x = Some True)"
  unfolding any_of_def member_map by simp

lemma text_eval_True:
  "text_eval E r t = Some True \<longleftrightarrow> (\<exists>cs \<in> set t. \<forall>c \<in> set cs. cond_eval E r c = Some True)"
  by (simp add: text_eval_def paren_def any_of_True all_of_True comp_def)

lemma paren_True: "cond_eval E r (paren t) = text_eval E r t"
  by (simp add: text_eval_def)

lemma row_typed_field:
  "row_typed fs r \<Longrightarrow> fmlookup fs k = Some f \<Longrightarrow> fe_id f = k \<and> value_typed (fe_type f) (query_value r k)"
  using fmdom_lookup_iff[of k fs] by (auto simp: row_typed_def list_all_iff split: option.splits)

lemma starts_with_append: "starts_with t s \<longleftrightarrow> take (length t) s = t"
  by (induction t s rule: starts_with.induct) auto

lemma ends_with_append: "ends_with t s \<longleftrightarrow> drop (length s - length t) s = t"
proof -
  have "rev (take (length t) (rev s)) = drop (length s - length t) s" by (simp add: rev_take)
  then show ?thesis
    unfolding ends_with_def starts_with_append length_rev by (metis rev_rev_ident)
qed

text \<open>The SQL value of a typed stored value, and the two tests for emptiness.\<close>

lemma filter_expression_eval:
  assumes "value_typed t (query_value r k)" "List.member (allowed_operators t) op" "\<not> empty_operator op" "\<not> member_type t"
  shows "sql_eval E r (filter_expression t k) = (case stored_value r k of None \<Rightarrow> None | Some v \<Rightarrow> sql_param v)"
  using assms
  by (auto simp: filter_expression_def value_typed_def stored_value_def value_text_def member_type_def
      allowed_operators_def empty_operator_def split: option.splits json.splits float64.splits if_splits)

lemma filter_empty_eval:
  assumes "value_typed t (query_value r k)"
  shows "cond_eval E r (filter_empty_expression t k) = Some (value_empty t (stored_value r k))"
  using assms
  by (auto simp: filter_empty_expression_def value_typed_def stored_value_def value_text_def value_empty_def
      split: option.splits json.splits float64.splits if_splits)

lemma compare_True:
  "compare_values op a b = Some True \<longleftrightarrow>
     (\<exists>x y. a = Some x \<and> b = Some y \<and>
        (if op = ''>'' then sql_less y x else if op = ''>='' then sql_less y x \<or> x = y
         else if op = ''<'' then sql_less x y else sql_less x y \<or> x = y))"
  by (auto simp: compare_values_def split: option.splits)

text \<open>A value that a comparison accepts, and its parameter.\<close>

lemma value_fits_param:
  assumes "value_fits f v"
  obtains (string) s where "v = JStr s" "sql_param v = Some (SqlText s)"
  | (number) q where "v = JNum (Fin q)" "sql_param v = Some (SqlNum q)" "fe_type f = ''number''"
  | (bool) b where "v = JBool b" "sql_param v = Some (SqlBool b)" "fe_type f = ''checkbox''"
  using assms by (auto simp: value_fits_def Let_def split: if_splits json.splits float64.splits)

lemma sql_param_text [simp]: "sql_param v = Some (SqlText s) \<longleftrightarrow> v = JStr s"
  by (cases v rule: sql_param.cases) auto

lemma sql_param_num [simp]: "sql_param v = Some (SqlNum q) \<longleftrightarrow> v = JNum (Fin q)"
  by (cases v rule: sql_param.cases) auto

lemma sql_param_bool [simp]: "sql_param v = Some (SqlBool b) \<longleftrightarrow> v = JBool b"
  by (cases v rule: sql_param.cases) auto

lemma sql_param_time [simp]: "sql_param v \<noteq> Some (SqlTime t)"
  by (cases v rule: sql_param.cases) auto

lemma sql_param_inj: "sql_param a = Some p \<Longrightarrow> sql_param b = Some p \<longleftrightarrow> a = b"
  by (cases p) auto

definition stored_param :: "json option \<Rightarrow> sql_value option" where
  "stored_param x = (case x of None \<Rightarrow> None | Some y \<Rightarrow> sql_param y)"

lemma stored_param_same: "sql_param v = Some p \<Longrightarrow> stored_param x = sql_param v \<longleftrightarrow> x = Some v"
  using sql_param_inj by (auto simp: stored_param_def split: option.splits)

lemma stored_param_text: "stored_param x = Some (SqlText s) \<longleftrightarrow> x = Some (JStr s)"
  by (auto simp: stored_param_def split: option.splits)

lemma text_test_stored: "text_test p (stored_param x) (sql_param v) = json_text_rel p x v"
proof (cases x)
  case None
  then show ?thesis by (simp add: text_test_def stored_param_def json_text_rel_def)
next
  case (Some y)
  show ?thesis
    by (cases y rule: sql_param.cases; cases v rule: sql_param.cases)
      (simp_all add: Some text_test_def stored_param_def json_text_rel_def)
qed

lemma compare_stored:
  assumes "v = JStr s \<or> v = JNum (Fin q)"
    and "op = ''>'' \<or> op = ''>='' \<or> op = ''<'' \<or> op = ''<=''"
  shows "compare_values op (stored_param x) (sql_param v) = Some True \<longleftrightarrow>
     (case x of None \<Rightarrow> False | Some y \<Rightarrow>
        if op = ''>'' then json_less v y else if op = ''>='' then json_less v y \<or> y = v
        else if op = ''<'' then json_less y v else json_less y v \<or> y = v)"
proof (cases x)
  case None
  then show ?thesis by (simp add: compare_True stored_param_def)
next
  case (Some y)
  consider (st) t where "y = JStr t" | (nu) p where "y = JNum (Fin p)" | (bo) b where "y = JBool b"
    | (no) "sql_param y = None" "\<forall>t. y \<noteq> JStr t" "\<forall>p. y \<noteq> JNum (Fin p)"
    by (cases y rule: sql_param.cases) auto
  then show ?thesis
    using assms Some by cases (auto simp: compare_True stored_param_def json_less_def split: json.splits float64.splits)
qed

lemma op_cases:
  assumes "List.member (allowed_operators t) op" "\<not> empty_operator op" "\<not> member_type t"
  shows "op \<in> {''is'', ''isNot'', ''contains'', ''notContains'', ''startsWith'', ''endsWith''}
     \<or> (op \<in> {''greaterThan'', ''greaterOrEqual'', ''lessThan'', ''lessOrEqual''} \<and> (t = ''number'' \<or> t = ''date''))"
  using assms by (auto simp: allowed_operators_def text_operators_def order_operators_def empty_operator_def
      member_type_def split: if_splits)

lemma member_op_cases:
  assumes "List.member (allowed_operators t) op" "\<not> empty_operator op" "member_type t"
  shows "op = ''includes'' \<or> op = ''excludes''" and "t = ''multiSelect''"
  using assms by (auto simp: allowed_operators_def empty_operator_def member_type_def split: if_splits)

text \<open>A rule that fits its Field compiles, to a condition that means it.\<close>

lemma compile_rule_correct:
  assumes "rule_fits f op v" "value_typed (fe_type f) (query_value r (fe_id f))"
  shows "\<exists>c. compile_rule f op v = Inr c
     \<and> (cond_eval E r c = Some True \<longleftrightarrow> rule_matches (fe_type f) op v (stored_value r (fe_id f)))"
proof (cases "empty_operator op")
  case True
  then show ?thesis
    using filter_empty_eval[OF assms(2)]
    by (auto simp: empty_operator_def compile_rule_def Let_def rule_matches_def)
next
  case False
  let ?x = "stored_value r (fe_id f)"
  have m: "List.member (allowed_operators (fe_type f)) op" using assms(1) by (simp add: rule_fits_def)
  obtain c where v: "v = Some c" and fit: "value_fits f c" using assms(1) False by (auto simp: rule_fits_def)
  obtain p where p: "sql_param c = Some p" using fit by (cases rule: value_fits_param) auto
  show ?thesis
  proof (cases "member_type (fe_type f)")
    case True
    note t = member_op_cases[OF m False True]
    obtain s where s: "c = JStr s" using fit t(2) by (cases rule: value_fits_param) auto
    have "(case query_value r (fe_id f) of Some (JArr xs) \<Rightarrow> List.member xs (JStr s) | Some (JStr t) \<Rightarrow> t = s
         | Some (JObj m) \<Rightarrow> fm_has m s | _ \<Rightarrow> False)
       \<longleftrightarrow> (case ?x of Some (JArr xs) \<Rightarrow> JStr s \<in> set xs | _ \<Rightarrow> False)"
      using assms(2) t(2)
      by (auto simp: stored_value_def value_typed_def split: option.splits json.splits)
    then show ?thesis
      using t(1) True by (auto simp: compile_rule_def Let_def v s rule_matches_def)
  next
    case nm: False
    have e: "sql_eval E r (filter_expression (fe_type f) (fe_id f)) = stored_param ?x"
      using filter_expression_eval[OF assms(2) m False nm] by (simp add: stored_param_def)
    show ?thesis
      using op_cases[OF m False nm]
    proof
      assume "op \<in> {''is'', ''isNot'', ''contains'', ''notContains'', ''startsWith'', ''endsWith''}"
      then show ?thesis
        using nm stored_param_same[OF p]
        by (auto simp: compile_rule_def Let_def v e rule_matches_def text_test_stored starts_with_append
            ends_with_append member_type_def)
    next
      assume o: "op \<in> {''greaterThan'', ''greaterOrEqual'', ''lessThan'', ''lessOrEqual''}
        \<and> (fe_type f = ''number'' \<or> fe_type f = ''date'')"
      then have "(\<exists>s. c = JStr s) \<or> (\<exists>q. c = JNum (Fin q))"
        using fit by (auto simp: value_fits_def Let_def split: json.splits float64.splits if_splits)
      then obtain s q where c: "c = JStr s \<or> c = JNum (Fin q)" by blast
      have t: "fe_type f \<noteq> ''multiSelect''" "fe_type f \<noteq> ''attachment''" using nm by (auto simp: member_type_def)
      note cmp = compare_stored[OF c, where x = ?x]
      consider "op = ''greaterThan''" | "op = ''greaterOrEqual''" | "op = ''lessThan''" | "op = ''lessOrEqual''"
        using o by blast
      then show ?thesis
      proof cases
        case 1
        have "compile_rule f op v = Inr (Compare ''>'' (filter_expression (fe_type f) (fe_id f)) (sql_param c))"
          by (simp add: compile_rule_def Let_def v 1 nm)
        moreover have "rule_matches (fe_type f) op v ?x \<longleftrightarrow> (case ?x of None \<Rightarrow> False | Some y \<Rightarrow> json_less c y)"
          by (cases ?x; simp add: rule_matches_def v 1)
        ultimately show ?thesis using cmp[of "''>''"] by (cases ?x; simp add: e)
      next
        case 2
        have "compile_rule f op v = Inr (Compare ''>='' (filter_expression (fe_type f) (fe_id f)) (sql_param c))"
          by (simp add: compile_rule_def Let_def v 2 nm)
        moreover have "rule_matches (fe_type f) op v ?x \<longleftrightarrow>
            (case ?x of None \<Rightarrow> False | Some y \<Rightarrow> json_less c y \<or> y = c)"
          by (cases ?x; simp add: rule_matches_def v 2)
        ultimately show ?thesis using cmp[of "''>=''"] by (cases ?x; simp add: e)
      next
        case 3
        have "compile_rule f op v = Inr (Compare ''<'' (filter_expression (fe_type f) (fe_id f)) (sql_param c))"
          by (simp add: compile_rule_def Let_def v 3 nm)
        moreover have "rule_matches (fe_type f) op v ?x \<longleftrightarrow> (case ?x of None \<Rightarrow> False | Some y \<Rightarrow> json_less y c)"
          by (cases ?x; simp add: rule_matches_def v 3)
        ultimately show ?thesis using cmp[of "''<''"] by (cases ?x; simp add: e)
      next
        case 4
        have "compile_rule f op v = Inr (Compare ''<='' (filter_expression (fe_type f) (fe_id f)) (sql_param c))"
          by (simp add: compile_rule_def Let_def v 4 nm)
        moreover have "rule_matches (fe_type f) op v ?x \<longleftrightarrow>
            (case ?x of None \<Rightarrow> False | Some y \<Rightarrow> json_less y c \<or> y = c)"
          by (cases ?x; simp add: rule_matches_def v 4)
        ultimately show ?thesis using cmp[of "''<=''"] by (cases ?x; simp add: e)
      qed
    qed
  qed
qed

lemma compile_filter_correct:
  "filter_wf fs n \<Longrightarrow> row_typed fs r \<Longrightarrow>
     \<exists>t. compile_filter_sql n fs = Inr t \<and> t \<noteq> []
       \<and> (text_eval E r t = Some True \<longleftrightarrow> filter_matches fs r n)"
proof (induction n)
  case (FilterNode kind op cs fieldID v)
  show ?case
  proof (cases "kind = ''group''")
    case True
    then have w: "op = ''and'' \<or> op = ''or''" "cs \<noteq> []" "\<forall>c \<in> set cs. filter_wf fs c"
      using FilterNode.prems(1) by (auto simp: list_all_iff)
    have "\<forall>c \<in> set cs. \<exists>t. compile_filter_sql c fs = Inr t \<and> t \<noteq> []
       \<and> (text_eval E r t = Some True \<longleftrightarrow> filter_matches fs r c)"
      using FilterNode.IH FilterNode.prems(2) w(3) by blast
    then obtain T where T: "\<forall>c \<in> set cs. compile_filter_sql c fs = Inr (T c) \<and> T c \<noteq> []
       \<and> (text_eval E r (T c) = Some True \<longleftrightarrow> filter_matches fs r c)"
      by (auto simp: bchoice_iff)
    then have "each_ok (\<lambda>c. compile_filter_sql c fs) cs = Inr (map T cs)"
      by (simp add: each_ok_Inr_iff list_all2_map2 list_all2_same)
    then have c: "compile_filter_sql (FilterNode kind op cs fieldID v) fs
        = Inr (if op = ''or'' then map (\<lambda>c. [paren (T c)]) cs else [map (\<lambda>c. paren (T c)) cs])"
      using True by (simp add: comp_def)
    show ?thesis
      using T w(1,2) True unfolding c by (auto simp: text_eval_True paren_True list_ex_iff list_all_iff)
  next
    case False
    then obtain f where f: "fmlookup fs fieldID = Some f" "rule_fits f op v"
      using FilterNode.prems(1) by (auto simp: active_field_Some split: option.splits)
    note t = row_typed_field[OF FilterNode.prems(2) f(1)]
    have vt: "value_typed (fe_type f) (query_value r (fe_id f))" using t by simp
    obtain c where "compile_rule f op v = Inr c"
      "cond_eval E r c = Some True \<longleftrightarrow> rule_matches (fe_type f) op v (stored_value r (fe_id f))"
      using compile_rule_correct[OF f(2) vt, where E = E] by blast
    then show ?thesis using False f(1) t by (simp add: text_eval_True)
  qed
qed

text \<open>The children of an OR at the root are joined to the other conditions without parentheses.\<close>

definition loose :: "filter_node option \<Rightarrow> bool" where
  "loose filt = (case filt of None \<Rightarrow> False
     | Some n \<Rightarrow> fn_kind n = ''group'' \<and> fn_operator n = ''or'' \<and> length (fn_children n) \<ge> 2)"

lemma compile_filter_length:
  assumes "compile_filter_sql n fs = Inr t" "filter_wf fs n"
  shows "length t = (if loose (Some n) then length (fn_children n) else 1)"
proof (cases n)
  case (FilterNode kind op cs fieldID v)
  show ?thesis
  proof (cases "kind = ''group''")
    case True
    then obtain ts where ts: "each_ok (\<lambda>c. compile_filter_sql c fs) cs = Inr ts"
      and t: "t = (if op = ''or'' then map (\<lambda>c. [paren c]) ts else [map paren ts])"
      using assms(1) FilterNode by (auto simp: ok_then_eq_Inr)
    have "length ts = length cs" using ts by (simp add: each_ok_Inr_iff list_all2_lengthD)
    moreover have "cs \<noteq> []" using assms(2) FilterNode True by simp
    ultimately show ?thesis
      using True FilterNode t by (cases "length cs") (auto simp: loose_def not_less_eq_eq)
  next
    case False
    then show ?thesis using assms(1) FilterNode by (auto simp: loose_def ok_then_eq_Inr split: option.splits)
  qed
qed

text \<open>What the plan asks for.\<close>

definition lifecycle_ok :: "string \<Rightarrow> record_row \<Rightarrow> bool" where
  "lifecycle_ok lifecycle r =
     ((lifecycle = ''active'' \<longrightarrow> rc_deleted_at (rr_record r) = None)
      \<and> (lifecycle = ''deleted'' \<longrightarrow> rc_deleted_at (rr_record r) \<noteq> None))"

definition search_ok :: "string \<Rightarrow> record_row \<Rightarrow> bool" where
  "search_ok search r = (search \<noteq> [] \<longrightarrow> contains_str (rr_search r) search)"

definition plan_asks :: "string \<Rightarrow> query_plan \<Rightarrow> record_row \<Rightarrow> bool" where
  "plan_asks tableID plan r =
     (rc_table (rr_record r) = tableID \<and> lifecycle_ok (qp_lifecycle plan) r
      \<and> (case qp_filter plan of None \<Rightarrow> True | Some n \<Rightarrow> filter_matches (qp_fields plan) r n)
      \<and> search_ok (qp_search plan) r)"

definition plan_ok :: "query_plan \<Rightarrow> bool" where
  "plan_ok plan = (case qp_filter plan of None \<Rightarrow> True | Some n \<Rightarrow> filter_wf (qp_fields plan) n)"

lemma join_and_single: "as \<noteq> [] \<Longrightarrow> join_and (map (\<lambda>a. [a]) as) = [concat as]"
proof (induction as)
  case Nil
  then show ?case by simp
next
  case (Cons a as)
  then show ?case by (cases as) (simp_all add: text_and_def)
qed

definition head_conds :: "string \<Rightarrow> string \<Rightarrow> sql_cond list" where
  "head_conds tableID lifecycle =
     InTable tableID # (if lifecycle = ''active'' then [NotDeleted] else if lifecycle = ''deleted'' then [IsDeleted] else [])"

definition tail_conds :: "string \<Rightarrow> sql_cond list" where
  "tail_conds search = (if search \<noteq> [] then [SearchHas search] else [])"

lemma head_conds_True:
  "(\<forall>c \<in> set (head_conds t l). cond_eval E r c = Some True) \<longleftrightarrow> rc_table (rr_record r) = t \<and> lifecycle_ok l r"
  by (auto simp: head_conds_def lifecycle_ok_def)

lemma tail_conds_True: "(\<forall>c \<in> set (tail_conds q). cond_eval E r c = Some True) \<longleftrightarrow> search_ok q r"
  by (auto simp: tail_conds_def search_ok_def)

lemma build_record_where_text:
  assumes "build_record_where tableID plan = Inr w"
  shows "\<exists>h. join_and h = [head_conds tableID (qp_lifecycle plan)] \<and> h \<noteq> [] \<and>
     (case qp_filter plan of
        None \<Rightarrow> w = [head_conds tableID (qp_lifecycle plan) @ tail_conds (qp_search plan)]
      | Some n \<Rightarrow> (\<exists>t. compile_filter_sql n (qp_fields plan) = Inr t
          \<and> (t \<noteq> [] \<longrightarrow> w = (let u = (head_conds tableID (qp_lifecycle plan) @ hd t) # tl t in
                butlast u @ [last u @ tail_conds (qp_search plan)]))))"
proof -
  let ?l = "qp_lifecycle plan" and ?q = "qp_search plan"
  obtain l f where l: "lifecycle_parts ?l = Inr l" and f: "filter_parts (qp_filter plan) (qp_fields plan) = Inr f"
    and w: "w = join_and ([[[InTable tableID]]] @ l @ f @ (if ?q \<noteq> [] then [[[SearchHas ?q]]] else []))"
    using assms by (auto simp: build_record_where_def ok_then_eq_Inr)
  let ?h = "[[[InTable tableID]]] @ l"
  have h: "join_and ?h = [head_conds tableID ?l]" "?h \<noteq> []"
    using l by (auto simp: lifecycle_parts_def head_conds_def text_and_def split: if_splits)
  have j: "join_and (?h @ rest) = text_and [head_conds tableID ?l] (join_and rest)" if "rest \<noteq> []" for rest
    using l that by (cases rest) (auto simp: lifecycle_parts_def head_conds_def text_and_def split: if_splits)
  have last: "join_and (t # (if ?q \<noteq> [] then [[[SearchHas ?q]]] else [])) = butlast t @ [last t @ tail_conds ?q]"
    if "t \<noteq> []" for t
    using that by (auto simp: text_and_def tail_conds_def)
  show ?thesis
  proof (cases "qp_filter plan")
    case None
    then have "w = [head_conds tableID ?l @ tail_conds ?q]"
      using w f h j[of "[[[SearchHas ?q]]]"] by (auto simp: filter_parts_def tail_conds_def text_and_def)
    then show ?thesis using h None by (intro exI[of _ ?h]) simp
  next
    case (Some n)
    then obtain t where t: "compile_filter_sql n (qp_fields plan) = Inr t" "f = [t]"
      using f by (auto simp: filter_parts_def ok_then_eq_Inr)
    have "w = (let u = (head_conds tableID ?l @ hd t) # tl t in butlast u @ [last u @ tail_conds ?q])" if ne: "t \<noteq> []"
    proof -
      have "w = text_and [head_conds tableID ?l] (butlast t @ [last t @ tail_conds ?q])"
        using w t(2) j[of "t # (if ?q \<noteq> [] then [[[SearchHas ?q]]] else [])"] last[OF ne] by simp
      then show ?thesis using ne by (cases t) (auto simp: text_and_def Let_def)
    qed
    then show ?thesis using h t(1) Some by (intro exI[of _ ?h]) simp
  qed
qed

lemma where_selects_asks:
  assumes w: "build_record_where tableID plan = Inr w"
    and ok: "plan_ok plan" and typed: "row_typed (qp_fields plan) r" and root: "\<not> loose (qp_filter plan)"
  shows "where_selects E w r \<longleftrightarrow> plan_asks tableID plan r"
proof (cases "qp_filter plan")
  case None
  then have "w = [head_conds tableID (qp_lifecycle plan) @ tail_conds (qp_search plan)]"
    using build_record_where_text[OF w] by auto
  then show ?thesis
    using None head_conds_True[of tableID "qp_lifecycle plan" E r] tail_conds_True[of "qp_search plan" E r]
    by (simp add: where_selects_def text_eval_True plan_asks_def ball_Un)
next
  case (Some n)
  then have wf: "filter_wf (qp_fields plan) n" using ok by (simp add: plan_ok_def)
  obtain t where t: "compile_filter_sql n (qp_fields plan) = Inr t"
    and tn: "text_eval E r t = Some True \<longleftrightarrow> filter_matches (qp_fields plan) r n"
    using compile_filter_correct[OF wf typed, where E = E] by blast
  then have "length t = 1" using compile_filter_length[OF t wf] root Some by simp
  then obtain cs where cs: "t = [cs]" by (cases t) auto
  then have "w = [head_conds tableID (qp_lifecycle plan) @ cs @ tail_conds (qp_search plan)]"
    using build_record_where_text[OF w] Some t by auto
  then show ?thesis
    using Some tn head_conds_True[of tableID "qp_lifecycle plan" E r] tail_conds_True[of "qp_search plan" E r]
    by (simp add: where_selects_def text_eval_True plan_asks_def cs ball_Un)
qed

text \<open>C9: the compiled \<open>WHERE\<close> selects a row exactly when the row is in the Table, has the lifecycle,
  satisfies the filter and contains the search text, for every plan whose filter is not an OR of several
  conditions at the root.\<close>

theorem record_where_correct:
  assumes "build_record_where tableID plan = Inr w" and "plan_ok plan" and "row_typed (qp_fields plan) r"
    and "\<not> loose (qp_filter plan)"
  shows "where_selects E w r \<longleftrightarrow> plan_asks tableID plan r"
  by (rule where_selects_asks[OF assms])

text \<open>C18: an OR of several conditions at the root of the filter is not kept together: the \<open>WHERE\<close> selects
  the rows that satisfy the last condition and the search, or any condition in the middle, whatever their
  Table and lifecycle; only the first condition is tied to the Table and the lifecycle.\<close>

theorem or_filter_escapes_table:
  assumes w: "build_record_where tableID plan = Inr w"
    and f: "qp_filter plan = Some (FilterNode ''group'' ''or'' (c # ms @ [d]) fieldID v)"
    and ok: "plan_ok plan" and typed: "row_typed (qp_fields plan) r"
  shows "where_selects E w r \<longleftrightarrow>
     (rc_table (rr_record r) = tableID \<and> lifecycle_ok (qp_lifecycle plan) r \<and> filter_matches (qp_fields plan) r c)
     \<or> list_ex (filter_matches (qp_fields plan) r) ms
     \<or> (filter_matches (qp_fields plan) r d \<and> search_ok (qp_search plan) r)"
proof -
  let ?fs = "qp_fields plan" and ?cs = "c # ms @ [d]"
  have "\<forall>x \<in> set ?cs. filter_wf ?fs x" using ok f by (auto simp: plan_ok_def list_all_iff)
  then have "\<forall>x \<in> set ?cs. \<exists>t. compile_filter_sql x ?fs = Inr t \<and> t \<noteq> []
      \<and> (text_eval E r t = Some True \<longleftrightarrow> filter_matches ?fs r x)"
    using compile_filter_correct typed by blast
  then obtain T where T: "\<forall>x \<in> set ?cs. compile_filter_sql x ?fs = Inr (T x) \<and> T x \<noteq> []
      \<and> (text_eval E r (T x) = Some True \<longleftrightarrow> filter_matches ?fs r x)"
    unfolding bchoice_iff by blast
  then have "list_all2 (\<lambda>x y. compile_filter_sql x ?fs = Inr y) ?cs (map T ?cs)"
    unfolding list_all2_map2 list_all2_same by blast
  then have "each_ok (\<lambda>x. compile_filter_sql x ?fs) ?cs = Inr (map T ?cs)"
    unfolding each_ok_Inr_iff .
  then have "compile_filter_sql (FilterNode ''group'' ''or'' ?cs fieldID v) ?fs
      = Inr (map (\<lambda>x. [paren (T x)]) ?cs)"
    by (simp add: comp_def)
  then have "w = (head_conds tableID (qp_lifecycle plan) @ [paren (T c)]) # map (\<lambda>x. [paren (T x)]) ms
      @ [[paren (T d)] @ tail_conds (qp_search plan)]"
    using build_record_where_text[OF w] f by (auto simp: Let_def butlast_append)
  then show ?thesis
    using T head_conds_True[of tableID "qp_lifecycle plan" E r] tail_conds_True[of "qp_search plan" E r]
    by (auto simp: where_selects_def text_eval_True paren_True ball_Un list_ex_iff)
qed

section \<open>Concrete plans\<close>

definition name_rule :: "string \<Rightarrow> filter_node" where
  "name_rule s = FilterNode ''rule'' ''is'' [] (sample_id ''fld_'' (CHR ''F'')) (Some (JStr s))"

definition name_plan :: "string \<Rightarrow> query_plan" where
  "name_plan op =
     \<lparr>qp_lifecycle = ''active'', qp_limit = 50, qp_projection = [],
      qp_filter = Some (FilterNode ''group'' op [name_rule ''a'', name_rule ''b''] [] None),
      qp_sort = [], qp_manual_sort = True, qp_search = [],
      qp_fields = fmap_of_list [(sample_id ''fld_'' (CHR ''F''),
        \<lparr>fe_id = sample_id ''fld_'' (CHR ''F''), fe_type = ''text'', fe_config = Some EmptyConfig,
         fe_deleted_at = None, fe_primary = True, fe_revision = 1, fe_position = 0\<rparr>)],
      qp_fingerprint = ''f'', qp_schema_hash = ''s''\<rparr>"

definition name_row :: "string \<Rightarrow> string \<Rightarrow> instant option \<Rightarrow> record_row" where
  "name_row tableID s deleted =
     \<lparr>rr_record = \<lparr>rc_id = ''rec_1'', rc_table = tableID, rc_revision = 1,
        rc_values = fmap_of_list [(sample_id ''fld_'' (CHR ''F''), JStr s)], rc_created_at = 0, rc_updated_at = 0,
        rc_deleted_at = deleted\<rparr>,
      rr_position = 1, rr_query = fmap_of_list [(sample_id ''fld_'' (CHR ''F''), JStr s)], rr_search = s\<rparr>"

lemma sample_name_id: "Valid FieldPrefix (sample_id ''fld_'' (CHR ''F''))"
  by code_simp

lemma name_plan_ok: "plan_ok (name_plan op) \<longleftrightarrow> op = ''and'' \<or> op = ''or''"
  using sample_name_id
  by (auto simp: name_plan_def plan_ok_def name_rule_def active_field_def rule_fits_def value_fits_def
      allowed_operators_def empty_operator_def text_operators_def fmlookup_of_list)

lemma name_row_typed: "row_typed (qp_fields (name_plan op)) (name_row t s d)"
  by (simp add: row_typed_def list_all_iff name_plan_def name_row_def fmlookup_of_list query_value_def value_typed_def)

theorem record_where_correct_witness:
  "\<exists>w. build_record_where ''t'' (name_plan ''and'') = Inr w
     \<and> \<not> where_selects sample_env w (name_row ''t'' ''b'' None)"
proof -
  have "succeeds (build_record_where ''t'' (name_plan ''and''))" by code_simp
  then obtain w where w: "build_record_where ''t'' (name_plan ''and'') = Inr w" using succeedsE by blast
  have "\<not> plan_asks ''t'' (name_plan ''and'') (name_row ''t'' ''b'' None)" by code_simp
  moreover have "\<not> loose (qp_filter (name_plan ''and''))" by code_simp
  ultimately show ?thesis
    using record_where_correct[OF w _ name_row_typed] w name_plan_ok by blast
qed

text \<open>A deleted row of another Table is selected.\<close>

theorem or_filter_escapes_table_witness:
  "\<exists>w. build_record_where ''t'' (name_plan ''or'') = Inr w
     \<and> where_selects sample_env w (name_row ''other'' ''b'' (Some 7))
     \<and> \<not> plan_asks ''t'' (name_plan ''or'') (name_row ''other'' ''b'' (Some 7))"
proof -
  have "succeeds (build_record_where ''t'' (name_plan ''or''))" by code_simp
  then obtain w where w: "build_record_where ''t'' (name_plan ''or'') = Inr w" using succeedsE by blast
  have f: "qp_filter (name_plan ''or'')
      = Some (FilterNode ''group'' ''or'' (name_rule ''a'' # [] @ [name_rule ''b'']) [] None)"
    by (simp add: name_plan_def)
  have "filter_matches (qp_fields (name_plan ''or'')) (name_row ''other'' ''b'' (Some 7)) (name_rule ''b'')"
    by code_simp
  moreover have "search_ok (qp_search (name_plan ''or'')) (name_row ''other'' ''b'' (Some 7))" by code_simp
  ultimately have "where_selects sample_env w (name_row ''other'' ''b'' (Some 7))"
    using or_filter_escapes_table[OF w f _ name_row_typed] name_plan_ok by blast
  moreover have "\<not> plan_asks ''t'' (name_plan ''or'') (name_row ''other'' ''b'' (Some 7))" by code_simp
  ultimately show ?thesis using w by blast
qed

end
