(* ===== verification/Keyset.thy ===== *)
theory Keyset
  imports RecordQuery
begin

text \<open>
  The order of the rows of a Record query and the condition that continues it: \<open>ORDER BY\<close> with the
  terms of \<open>buildSortTerms\<close> and the record ID is a strict total order (\<open>row_before\<close>), and the condition
  of \<open>buildKeysetCondition\<close> for the position of a row selects exactly the rows after it
  (\<open>keyset_condition_exact\<close>), although SQL's comparisons give NULL on missing values: each Sort starts
  with a term that is never NULL and separates missing values from the others.
\<close>

section \<open>The order of values\<close>

lemma sql_less_irrefl [simp]: "\<not> sql_less a a"
  by (cases a) auto

lemma sql_less_trans: "sql_less a b \<Longrightarrow> sql_less b c \<Longrightarrow> sql_less a c"
  by (cases a; cases b; cases c) auto

lemma sql_eval_total:
  assumes "sql_eval E a e = Some x" "sql_eval E b e = Some y"
  shows "sql_less x y \<or> x = y \<or> sql_less y x"
  using assms by (cases e) (auto split: option.splits json.splits float64.splits)

lemma term_before_irrefl [simp]: "\<not> term_before t x x"
  by (auto simp: term_before_def split: option.splits)

lemma term_before_trans: "term_before t x y \<Longrightarrow> term_before t y z \<Longrightarrow> term_before t x z"
  by (auto simp: term_before_def Let_def intro: sql_less_trans split: option.splits if_splits)

lemma term_before_total:
  "term_before t (sql_eval E a (st_expr t)) (sql_eval E b (st_expr t))
   \<or> sql_eval E a (st_expr t) = sql_eval E b (st_expr t)
   \<or> term_before t (sql_eval E b (st_expr t)) (sql_eval E a (st_expr t))"
  using sql_eval_total[of E a "st_expr t" _ b]
  by (cases "sql_eval E a (st_expr t)"; cases "sql_eval E b (st_expr t)") (auto simp: term_before_def)

section \<open>The order of rows\<close>

lemma row_before_irrefl [simp]: "\<not> row_before E ts a a"
  by (induction ts) (simp_all add: Let_def)

lemma row_before_trans: "row_before E ts a b \<Longrightarrow> row_before E ts b c \<Longrightarrow> row_before E ts a c"
proof (induction ts)
  case Nil
  then show ?case by simp
next
  case (Cons t ts)
  then show ?case by (auto simp: Let_def intro: term_before_trans)
qed

lemma row_before_asym: "row_before E ts a b \<Longrightarrow> \<not> row_before E ts b a"
  using row_before_trans row_before_irrefl by blast

lemma row_before_total:
  "row_before E (ts @ [id_term]) a b \<or> row_before E (ts @ [id_term]) b a
   \<or> rc_id (rr_record a) = rc_id (rr_record b)"
proof (induction ts)
  case Nil
  show ?case by (auto simp: id_term_def term_before_def)
next
  case (Cons t ts)
  then show ?case using term_before_total[of t E a b] by (auto simp: Let_def)
qed

abbreviation distinct_ids :: "record_row list \<Rightarrow> bool" where
  "distinct_ids rows \<equiv> distinct (map (\<lambda>r. rc_id (rr_record r)) rows)"

lemma mset_insert_ordered [simp]: "mset (insert_ordered lt x ys) = add_mset x (mset ys)"
  by (induction ys) auto

lemma mset_order_rows [simp]: "mset (order_rows E ts rows) = mset rows"
  by (induction rows) (simp_all add: order_rows_def)

lemma set_order_rows [simp]: "set (order_rows E ts rows) = set rows"
  using mset_order_rows set_mset_mset by metis

lemma insert_ordered_sorted:
  assumes "sorted_wrt lt ys" "transp lt" "\<forall>y \<in> set ys. lt x y \<or> lt y x"
  shows "sorted_wrt lt (insert_ordered lt x ys)"
  using assms
proof (induction ys)
  case Nil
  then show ?case by simp
next
  case (Cons y ys)
  have s: "set (insert_ordered lt x ys) = insert x (set ys)"
    using mset_insert_ordered[of lt x ys] by (metis set_mset_add_mset_insert set_mset_mset)
  show ?case
  proof (cases "lt y x")
    case True
    then show ?thesis using Cons s by auto
  next
    case False
    then have "lt x y" using Cons.prems(3) by simp
    then have "\<forall>z \<in> set ys. lt x z" using Cons.prems(1,2) by (auto dest: transpD)
    then show ?thesis using False Cons.prems \<open>lt x y\<close> by simp
  qed
qed

lemma order_rows_sorted:
  "distinct_ids rows \<Longrightarrow> sorted_wrt (row_before E (ts @ [id_term])) (order_rows E ts rows)"
proof (induction rows)
  case Nil
  then show ?case by (simp add: order_rows_def)
next
  case (Cons r rows)
  let ?lt = "row_before E (ts @ [id_term])"
  have e: "order_rows E ts (r # rows) = insert_ordered ?lt r (order_rows E ts rows)"
    by (simp add: order_rows_def)
  have "transp ?lt" by (rule transpI) (rule row_before_trans)
  moreover have "\<forall>y \<in> set (order_rows E ts rows). ?lt r y \<or> ?lt y r"
  proof
    fix y assume "y \<in> set (order_rows E ts rows)"
    then have "rc_id (rr_record r) \<noteq> rc_id (rr_record y)" using Cons.prems by auto
    then show "?lt r y \<or> ?lt y r" using row_before_total by blast
  qed
  ultimately show ?case unfolding e using Cons by (intro insert_ordered_sorted) auto
qed

text \<open>Sorting and selecting commute: rows with distinct IDs have one sorted arrangement.\<close>

lemma sorted_unique:
  assumes "sorted_wrt R xs" "sorted_wrt R ys" "mset xs = mset ys" "\<And>x y. R x y \<Longrightarrow> \<not> R y x"
  shows "xs = ys"
  using assms(1-3)
proof (induction xs arbitrary: ys)
  case Nil
  then show ?case by simp
next
  case (Cons x xs)
  obtain y ys' where y: "ys = y # ys'" using Cons.prems(3) by (cases ys) auto
  have s: "set (x # xs) = set ys" using Cons.prems(3) by (metis mset_eq_setD)
  have "x = y"
  proof (rule ccontr)
    assume n: "x \<noteq> y"
    then have "y \<in> set xs" "x \<in> set ys'" using s y by auto
    then show False using Cons.prems(1,2) y assms(4) by auto
  qed
  then show ?case using Cons y by auto
qed

lemma filter_order_rows:
  assumes "distinct_ids rows"
  shows "filter P (order_rows E ts rows) = order_rows E ts (filter P rows)"
proof (rule sorted_unique[where R = "row_before E (ts @ [id_term])"])
  show "sorted_wrt (row_before E (ts @ [id_term])) (filter P (order_rows E ts rows))"
    by (rule sorted_wrt_filter[OF order_rows_sorted[OF assms]])
  have "distinct_ids (filter P rows)" by (rule distinct_map_filter[OF assms])
  then show "sorted_wrt (row_before E (ts @ [id_term])) (order_rows E ts (filter P rows))"
    by (rule order_rows_sorted)
  show "mset (filter P (order_rows E ts rows)) = mset (order_rows E ts (filter P rows))"
    by (simp add: mset_filter)
qed (rule row_before_asym)

section \<open>The keyset condition\<close>

text \<open>A row beyond the values of the terms, by SQL's comparisons.\<close>

fun beyond :: "env \<Rightarrow> record_row \<Rightarrow> (sort_term \<times> sql_value option) list \<Rightarrow> bool" where
  "beyond E r [] = False"
| "beyond E r ((t, v) # rest) =
     (cond_eval E r (Compare (if st_desc t then ''<'' else ''>'') (st_expr t) v) = Some True
      \<or> (sql_eval E r (st_expr t) = v \<and> beyond E r rest))"

lemma keyset_branches_True:
  "(\<exists>c \<in> set (keyset_branches prev ts). cond_eval E r c = Some True) \<longleftrightarrow>
     (\<forall>(p, w) \<in> set prev. sql_eval E r (st_expr p) = w) \<and> beyond E r ts"
proof (induction ts arbitrary: prev)
  case Nil
  then show ?case by simp
next
  case (Cons x rest)
  obtain t v where x: "x = (t, v)" by (cases x)
  have "cond_eval E r (AllOf (map (\<lambda>(p, w). SameAs (st_expr p) w) prev @
      [Compare (if st_desc t then ''<'' else ''>'') (st_expr t) v])) = Some True \<longleftrightarrow>
     (\<forall>(p, w) \<in> set prev. sql_eval E r (st_expr p) = w)
     \<and> cond_eval E r (Compare (if st_desc t then ''<'' else ''>'') (st_expr t) v) = Some True"
    by (simp only: cond_eval.simps(1) all_of_True) (auto simp: split_beta)
  with Cons show ?case unfolding x by (auto simp: split_beta)
qed

fun never_null :: "sql_expr \<Rightarrow> bool" where
  "never_null (ValueText f) = False"
| "never_null (ValueNumber f) = False"
| "never_null (ValueBool f) = False"
| "never_null e = True"

lemma never_null_eval: "never_null e \<Longrightarrow> sql_eval E r e \<noteq> None"
  by (cases e) auto

definition guards :: "sql_expr \<Rightarrow> sql_expr list" where
  "guards e = (case e of NullFlag b x y \<Rightarrow> if x \<noteq> y then [b] else [] | _ \<Rightarrow> [])"

fun guarded :: "sql_expr list \<Rightarrow> sort_term list \<Rightarrow> bool" where
  "guarded seen [] = True"
| "guarded seen (t # ts) =
     ((never_null (st_expr t) \<or> List.member seen (st_expr t)) \<and> guarded (guards (st_expr t) @ seen) ts)"

lemma guarded_mono: "guarded seen ts \<Longrightarrow> set seen \<subseteq> set seen' \<Longrightarrow> guarded seen' ts"
proof (induction ts arbitrary: seen seen')
  case Nil
  then show ?case by simp
next
  case (Cons t ts)
  have "guarded (guards (st_expr t) @ seen) ts" using Cons.prems(1) by simp
  moreover have "set (guards (st_expr t) @ seen) \<subseteq> set (guards (st_expr t) @ seen')" using Cons.prems(2) by auto
  ultimately have "guarded (guards (st_expr t) @ seen') ts" by (rule Cons.IH)
  then show ?case using Cons.prems by auto
qed

lemma guarded_append: "guarded seen xs \<Longrightarrow> guarded [] ys \<Longrightarrow> guarded seen (xs @ ys)"
proof (induction xs arbitrary: seen)
  case Nil
  then show ?case using guarded_mono by fastforce
qed auto

lemma guarded_concat: "\<forall>ts \<in> set tss. guarded [] ts \<Longrightarrow> guarded [] (concat tss)"
  by (induction tss) (auto intro: guarded_append)

lemma guards_null:
  "sql_eval E r e = sql_eval E c e \<Longrightarrow> b \<in> set (guards e) \<Longrightarrow> sql_eval E r b = None \<longleftrightarrow> sql_eval E c b = None"
  by (auto simp: guards_def split: sql_expr.splits if_splits)

lemma compare_term_before:
  assumes "x = None \<longleftrightarrow> v = None" "sql_eval E r (st_expr t) = x"
  shows "cond_eval E r (Compare (if st_desc t then ''<'' else ''>'') (st_expr t) v) = Some True \<longleftrightarrow> term_before t v x"
  using assms by (cases x; cases v) (auto simp: compare_True term_before_def)

lemma beyond_row_before:
  assumes "guarded seen ts" "\<forall>e \<in> set seen. sql_eval E r e = None \<longleftrightarrow> sql_eval E c e = None"
  shows "beyond E r (zip ts (map (\<lambda>t. sql_eval E c (st_expr t)) ts)) \<longleftrightarrow> row_before E ts c r"
  using assms
proof (induction ts arbitrary: seen)
  case Nil
  then show ?case by simp
next
  case (Cons t ts)
  let ?x = "sql_eval E r (st_expr t)" and ?v = "sql_eval E c (st_expr t)"
  have n: "?x = None \<longleftrightarrow> ?v = None"
  proof (cases "never_null (st_expr t)")
    case True
    then show ?thesis using never_null_eval[of "st_expr t" E] by blast
  next
    case False
    then show ?thesis using Cons.prems by auto
  qed
  have "?x = ?v \<Longrightarrow> beyond E r (zip ts (map (\<lambda>t. sql_eval E c (st_expr t)) ts)) \<longleftrightarrow> row_before E ts c r"
    using Cons.IH[of "guards (st_expr t) @ seen"] Cons.prems guards_null[of E r "st_expr t" c] by fastforce
  then show ?case
    using compare_term_before[OF n refl] by (auto simp: Let_def)
qed

section \<open>A position survives the cursor\<close>

fun term_typed :: "sql_expr \<Rightarrow> string \<Rightarrow> bool" where
  "term_typed (ValueText f) k = (k = ''text'')"
| "term_typed (ValueNumber f) k = (k = ''number'')"
| "term_typed (ValueBool f) k = (k = ''boolean'')"
| "term_typed (NullFlag e a b) k = (k = ''integer'')"
| "term_typed (OptionActive e ids) k = (k = ''integer'')"
| "term_typed (OptionRank e ids) k = (k = ''integer'')"
| "term_typed PositionColumn k = (k = ''number'')"
| "term_typed CreatedColumn k = (k = ''timestamp'')"
| "term_typed IdColumn k = (k = ''text'')"

lemma coerce_scanned:
  assumes "term_typed e k" "\<forall>t. en_parse_time E (en_time_text E t) = Some t"
  shows "coerce_cursor_value E (scanned_sort_value E (sql_eval E r e)) k = Some (sql_eval E r e)"
  using assms
  by (cases e) (auto simp: coerce_cursor_value_def scanned_sort_value_def value_text_def
      split: option.splits json.splits float64.splits sql_value.splits)

text \<open>The position of a row: its sort values as the cursor carries them, and its ID.\<close>

definition row_position :: "env \<Rightarrow> sort_term list \<Rightarrow> record_row \<Rightarrow> query_position" where
  "row_position E terms r =
     \<lparr>qpos_values = map (\<lambda>t. scanned_sort_value E (sql_eval E r (st_expr t))) terms,
      qpos_record = rc_id (rr_record r)\<rparr>"

lemma all_some_values: "(\<forall>x \<in> set xs. f x = Some (g x)) \<Longrightarrow> all_some (map f xs) = Some (map g xs)"
  by (induction xs) auto

lemma sort_base_typed: "term_typed (sort_value_expression f) (sort_value_kind (fe_type f))"
  by (simp add: sort_value_expression_def filter_expression_def sort_value_kind_def)

lemma select_base: "fe_type f = ''select'' \<Longrightarrow> sort_value_expression f = ValueText (fe_id f)"
  by (simp add: sort_value_expression_def filter_expression_def)

lemma spec_terms_shape:
  assumes "spec_terms fs spec = Inr ts"
  shows "guarded [] ts \<and> (\<forall>t \<in> set ts. term_typed (st_expr t) (st_kind t))"
proof -
  obtain f where f: "fmlookup fs (sp_field spec) = Some f"
    using assms by (cases "fmlookup fs (sp_field spec)") (simp_all add: spec_terms_def)
  show ?thesis
  proof (cases "fe_type f = ''select''")
    case True
    then show ?thesis
      using assms f by (auto simp: spec_terms_def Let_def ok_then_eq_Inr guards_def select_base)
  next
    case False
    then show ?thesis
      using assms f sort_base_typed[of f] by (auto simp: spec_terms_def Let_def guards_def)
  qed
qed

lemma each_ok_members: "each_ok f xs = Inr ys \<Longrightarrow> y \<in> set ys \<Longrightarrow> \<exists>x \<in> set xs. f x = Inr y"
  by (induction xs arbitrary: ys) (auto simp: ok_then_eq_Inr)

lemma build_sort_terms_shape:
  assumes "build_sort_terms plan = Inr terms"
  shows "guarded [] (terms @ [id_term])" and "\<forall>t \<in> set terms. term_typed (st_expr t) (st_kind t)"
proof -
  have one: "guarded [] ts \<and> (\<forall>t \<in> set ts. term_typed (st_expr t) (st_kind t))"
    if "spec_terms fs spec = Inr ts" for fs spec ts
    using that by (rule spec_terms_shape)
  have "guarded [] terms \<and> (\<forall>t \<in> set terms. term_typed (st_expr t) (st_kind t))"
  proof (cases "qp_sort plan = []")
    case True
    then show ?thesis using assms by (cases "qp_manual_sort plan") (auto simp: build_sort_terms_def)
  next
    case False
    then obtain tss where tss: "each_ok (spec_terms (qp_fields plan)) (qp_sort plan) = Inr tss" "terms = concat tss"
      using assms by (auto simp: build_sort_terms_def ok_then_eq_Inr)
    have "guarded [] ts \<and> (\<forall>t \<in> set ts. term_typed (st_expr t) (st_kind t))" if "ts \<in> set tss" for ts
    proof -
      obtain spec where "spec_terms (qp_fields plan) spec = Inr ts" using each_ok_members[OF tss(1) \<open>ts \<in> set tss\<close>] by blast
      then show ?thesis by (rule one)
    qed
    then have "\<forall>ts \<in> set tss. guarded [] ts" and "\<forall>t \<in> set (concat tss). term_typed (st_expr t) (st_kind t)"
      by auto
    then show ?thesis using tss(2) guarded_concat by blast
  qed
  then show "guarded [] (terms @ [id_term])" "\<forall>t \<in> set terms. term_typed (st_expr t) (st_kind t)"
    by (auto simp: id_term_def intro: guarded_append)
qed

lemma keyset_condition_built:
  assumes "build_sort_terms plan = Inr terms" "\<forall>t. en_parse_time E (en_time_text E t) = Some t"
    and "rc_id (rr_record c) \<noteq> []"
  shows "build_keyset_condition E terms (row_position E terms c)
     = Inr (AnyOf (keyset_branches [] (zip (terms @ [id_term])
         (map (\<lambda>t. sql_eval E c (st_expr t)) (terms @ [id_term])))))"
proof -
  let ?all = "terms @ [id_term]"
  have v: "qpos_values (row_position E terms c) @ [JStr (qpos_record (row_position E terms c))]
      = map (\<lambda>t. scanned_sort_value E (sql_eval E c (st_expr t))) ?all"
    by (simp add: row_position_def id_term_def scanned_sort_value_def)
  have "\<forall>t \<in> set ?all. term_typed (st_expr t) (st_kind t)"
    using build_sort_terms_shape(2)[OF assms(1)] by (simp add: id_term_def)
  then have "all_some (map (\<lambda>t. coerce_cursor_value E (scanned_sort_value E (sql_eval E c (st_expr t))) (st_kind t)) ?all)
      = Some (map (\<lambda>t. sql_eval E c (st_expr t)) ?all)"
    using coerce_scanned assms(2) by (intro all_some_values) blast
  then have "coerce_all E ?all (map (\<lambda>t. scanned_sort_value E (sql_eval E c (st_expr t))) ?all)
      = Some (map (\<lambda>t. sql_eval E c (st_expr t)) ?all)"
    by (simp add: coerce_all_def zip_map2 zip_same_conv_map split_beta comp_def)
  then show ?thesis
    using assms(3) unfolding build_keyset_condition_def Let_def v
    by (simp add: row_position_def)
qed

lemma keyset_selects:
  assumes terms: "build_sort_terms plan = Inr terms"
    and time: "\<forall>t. en_parse_time E (en_time_text E t) = Some t"
    and c: "rc_id (rr_record c) \<noteq> []"
  shows "\<exists>k. build_keyset_condition E terms (row_position E terms c) = Inr k
     \<and> (\<forall>r. cond_eval E r k = Some True \<longleftrightarrow> row_before E (terms @ [id_term]) c r)"
proof -
  let ?all = "terms @ [id_term]"
  let ?k = "keyset_branches [] (zip ?all (map (\<lambda>t. sql_eval E c (st_expr t)) ?all))"
  have "cond_eval E r (AnyOf ?k) = Some True \<longleftrightarrow> row_before E ?all c r" for r
    using keyset_branches_True[of "[]" _ E r]
      beyond_row_before[OF build_sort_terms_shape(1)[OF terms], of E r c] any_of_True[of "cond_eval E r" ?k]
    by simp
  then show ?thesis using keyset_condition_built[OF terms time c] by blast
qed

text \<open>C7: the keyset condition that the position of a row gives selects exactly the rows that follow it in
  the order of the query, with missing values first or last, ascending or descending, and ties broken by
  the record ID.\<close>

theorem keyset_condition_exact:
  assumes "build_sort_terms plan = Inr terms"
    and "\<forall>t. en_parse_time E (en_time_text E t) = Some t"
    and "rc_id (rr_record c) \<noteq> []"
  shows "\<exists>k. build_keyset_condition E terms (row_position E terms c) = Inr k
     \<and> (\<forall>r. cond_eval E r k = Some True \<longleftrightarrow> row_before E (terms @ [id_term]) c r)"
  by (rule keyset_selects[OF assms])

section \<open>A concrete order\<close>

text \<open>An environment that writes instants in unary with a sign, and a plan sorted by a text Field, descending.\<close>

definition clock_env :: env where
  "clock_env = sample_env\<lparr>
     en_time_text := (\<lambda>t. (if t < 0 then CHR ''-'' else CHR ''+'') # replicate (nat \<bar>t\<bar>) (CHR ''1'')),
     en_parse_time := (\<lambda>s. case s of [] \<Rightarrow> None
        | c # cs \<Rightarrow> Some (if c = CHR ''-'' then - int (length cs) else int (length cs)))\<rparr>"

lemma clock_env_time: "\<forall>t. en_parse_time clock_env (en_time_text clock_env t) = Some t"
  by (simp add: clock_env_def)

definition sorted_plan :: query_plan where
  "sorted_plan = (name_plan ''and'')\<lparr>qp_filter := None,
     qp_sort := [\<lparr>sp_field = sample_id ''fld_'' (CHR ''F''), sp_direction = ''desc'', sp_nulls = ''first''\<rparr>]\<rparr>"

definition sorted_terms :: "sort_term list" where
  "sorted_terms = (case build_sort_terms sorted_plan of Inr ts \<Rightarrow> ts | Inl e \<Rightarrow> [])"

lemma sorted_terms: "build_sort_terms sorted_plan = Inr sorted_terms"
proof -
  have "succeeds (build_sort_terms sorted_plan)" by code_simp
  then obtain ts where t: "build_sort_terms sorted_plan = Inr ts" using succeedsE by blast
  show ?thesis unfolding sorted_terms_def t by simp
qed

definition name_row_at :: "string \<Rightarrow> string \<Rightarrow> record_row" where
  "name_row_at i s = (let r = name_row ''t'' s None in r\<lparr>rr_record := (rr_record r)\<lparr>rc_id := i\<rparr>\<rparr>)"

text \<open>Behind the row named c come the row named b and, with the same name, the row with the greater ID.\<close>

theorem keyset_condition_exact_witness:
  "\<exists>k. build_keyset_condition clock_env sorted_terms (row_position clock_env sorted_terms (name_row_at ''2'' ''c'')) = Inr k
     \<and> map (\<lambda>r. cond_eval clock_env r k = Some True)
         [name_row_at ''1'' ''c'', name_row_at ''3'' ''c'', name_row_at ''0'' ''b'', name_row_at ''9'' ''d'']
       = [False, True, True, False]"
proof -
  have i: "rc_id (rr_record (name_row_at ''2'' ''c'')) \<noteq> []" by (simp add: name_row_at_def Let_def)
  obtain k where k: "build_keyset_condition clock_env sorted_terms
      (row_position clock_env sorted_terms (name_row_at ''2'' ''c'')) = Inr k"
    and r: "\<forall>r. cond_eval clock_env r k = Some True
        \<longleftrightarrow> row_before clock_env (sorted_terms @ [id_term]) (name_row_at ''2'' ''c'') r"
    using keyset_condition_exact[OF sorted_terms clock_env_time i] by blast
  have "map (row_before clock_env (sorted_terms @ [id_term]) (name_row_at ''2'' ''c''))
      [name_row_at ''1'' ''c'', name_row_at ''3'' ''c'', name_row_at ''0'' ''b'', name_row_at ''9'' ''d'']
    = [False, True, True, False]" by code_simp
  then show ?thesis using k r by simp
qed

end
