(* ===== verification/Selection.thy ===== *)
theory Selection
  imports Keyset Feed
begin

text \<open>
  Selection scopes: internal/record/selection.go and internal/storage/postgres/selection.go, with
  \<open>resolveQueryMetadata\<close> of postgres/query.go.  A scope freezes the records a query selects when it is
  acquired; every later operation on the Table calls \<open>invalidateSelections\<close>, which gives the scope up as
  soon as one of the changed records enters or leaves the query or the meaning of the query may have
  changed.

  A row of \<open>selection_scopes\<close> holds its members and its query as a value; the hashes of the membership
  (table, filter, search) and of the Field context are \<open>en_membership\<close> and \<open>en_context\<close>, SHA-256 over the
  rest is \<open>en_hash\<close>.  \<open>sort.Slice\<close> is not stable; two children of a filter that it may exchange have one
  JSON text, and one of them is dropped.  The 10-second timeouts and the advisory lock are not modelled.
\<close>

section \<open>Metadata of a query: \<open>resolveQueryMetadata\<close>\<close>

definition field_definition :: "field_row \<Rightarrow> field_def" where
  "field_definition r =
     \<lparr>fe_id = fd_id (fr_field r), fe_type = fd_type (fr_field r), fe_config = Some (fd_config (fr_field r)),
      fe_deleted_at = fd_deleted_at (fr_field r), fe_primary = fr_primary r,
      fe_revision = fd_revision (fr_field r), fe_position = fd_position (fr_field r)\<rparr>"

definition table_fields :: "string \<Rightarrow> db \<Rightarrow> fields" where
  "table_fields tableID s =
     fmap_of_list (map (\<lambda>r. (fd_id (fr_field r), field_definition r))
       (filter (\<lambda>r. fd_table (fr_field r) = tableID) (db_fields s)))"

text \<open>\<open>accessibleViewSQL\<close>: the View may be deleted, nothing above it may.\<close>

definition find_view :: "string \<Rightarrow> string \<Rightarrow> db \<Rightarrow> view option" where
  "find_view actor viewID s =
     find (\<lambda>v. vw_id v = viewID \<and> active_table_visible actor (vw_table v) s) (db_views s)"

definition resolve_query_metadata :: "string \<Rightarrow> string \<Rightarrow> string \<Rightarrow> db \<Rightarrow> query_metadata res" where
  "resolve_query_metadata actor tableID viewID s =
     (case find_active_table actor tableID s of
        None \<Rightarrow> Inl NotFound
      | Some t \<Rightarrow>
          let meta = \<lparr>qm_table = tb_id (tr_table t), qm_primary = tb_primary_field (tr_table t),
                      qm_fields = table_fields tableID s, qm_view = None\<rparr> in
          if viewID = [] then Inr meta
          else (case find_view actor viewID s of
              None \<Rightarrow> Inl NotFound
            | Some v \<Rightarrow>
                if vw_table v \<noteq> tableID \<or> vw_deleted_at v \<noteq> None then Inl NotFound
                else Inr (meta\<lparr>qm_view := Some v\<rparr>)))"

definition ResolveQuery :: "string \<Rightarrow> string \<Rightarrow> string \<Rightarrow> db \<Rightarrow> query_metadata res" where
  "ResolveQuery actor tableID viewID s = resolve_query_metadata actor tableID viewID s"

definition lockless_active_table :: "string \<Rightarrow> string \<Rightarrow> db \<Rightarrow> unit res" where
  "lockless_active_table actor tableID s =
     (if \<not> active_table_visible actor tableID s then Inl NotFound else Inr ())"

section \<open>record/selection.go\<close>

definition selection_ttl :: int where "selection_ttl = 5 * 60 * 1000000"
definition selection_member_limit :: int where "selection_member_limit = 100000"

record selection_scope =
  sc_id :: string
  sc_token :: string
  sc_table :: string
  sc_fingerprint :: string
  sc_version :: string
  sc_count :: int
  sc_created_at :: instant
  sc_expires_at :: instant

record selection_membership =
  sm_record :: string
  sm_in_scope :: bool
  sm_selected :: bool

record selection_result =
  sr_scope :: selection_scope
  sr_excluded :: "string list"
  sr_excluded_count :: nat
  sr_selected_count :: int
  sr_membership :: "selection_membership list"

record selection_token =
  stk_scope :: string
  stk_actor :: string
  stk_table :: string
  stk_expires :: instant

record selection_page =
  spg_sequence :: "int option"
  spg_token :: selection_token
  spg_query :: selection_query
  spg_excluded :: "string list"
  spg_now :: instant

text \<open>Children sorted by their JSON text, one of each.\<close>

fun drop_repeated :: "('a \<Rightarrow> string) \<Rightarrow> string \<Rightarrow> 'a list \<Rightarrow> 'a list" where
  "drop_repeated key previous [] = []"
| "drop_repeated key previous (x # xs) =
     (if key x \<noteq> previous then x # drop_repeated key (key x) xs else drop_repeated key previous xs)"

fun canonical_node :: "env \<Rightarrow> filter_node \<Rightarrow> filter_node" where
  "canonical_node E (FilterNode kind op cs fieldID v) =
     FilterNode kind op
       (drop_repeated (en_filter_json E) [] (sort_key (en_filter_json E) (map (canonical_node E) cs))) fieldID v"

definition canonical_selection_filter :: "env \<Rightarrow> filter_node option \<Rightarrow> filter_node option" where
  "canonical_selection_filter E f = map_option (canonical_node E) f"

definition CanonicalSelectionQuery :: "env \<Rightarrow> selection_query \<Rightarrow> query_plan \<Rightarrow> selection_query" where
  "CanonicalSelectionQuery E q plan =
     q\<lparr>sq_search := nfc (en_lib E) (trim_func (sq_search q)),
       sq_filter := (if \<not> sq_filter_present q then None else qp_filter plan)\<rparr>"

definition selection_request :: "selection_query \<Rightarrow> query_request" where
  "selection_request q =
     \<lparr>qr_view = sq_view q, qr_view_present = (sq_view q \<noteq> []), qr_lifecycle = [], qr_cursor = [],
      qr_limit = 0, qr_projection = [], qr_projection_present = True, qr_filter = sq_filter q,
      qr_filter_present = sq_filter_present q, qr_sort = [], qr_sort_present = True,
      qr_search = sq_search q, qr_search_present = False, qr_scope_token = [], qr_excluded = []\<rparr>"

definition selection_references :: "query_metadata \<Rightarrow> query_plan \<Rightarrow> string list" where
  "selection_references meta plan =
     sort (remdups (collect_filter_fields (qp_filter plan)
       @ (if qp_search plan \<noteq> [] then search_fields (qm_fields meta) else [])))"

definition field_type_of :: "fields \<Rightarrow> string \<Rightarrow> string" where
  "field_type_of fs k = (case fmlookup fs k of None \<Rightarrow> [] | Some f \<Rightarrow> fe_type f)"

definition selection_hash :: "string option \<Rightarrow> string res" where
  "selection_hash h = (case h of None \<Rightarrow> Inl (Internal ''selection hash'') | Some x \<Rightarrow> Inr x)"

definition SelectionPlan ::
  "env \<Rightarrow> selection_query \<Rightarrow> query_metadata \<Rightarrow> (query_plan \<times> string \<times> string) res" where
  "SelectionPlan E q meta =
     fail_if (sq_view q \<noteq> [] \<and> \<not> Valid ViewPrefix (sq_view q))
       (NewValidationError [Issue ''/query/viewId'' ''format'' ''viewId must be a typed View ID''])
    (ok_then (build_query_plan (en_lib E) (en_digest E) (selection_request q) meta) (\<lambda>plan0.
     let plan = plan0\<lparr>qp_filter := canonical_selection_filter E (qp_filter plan0)\<rparr> in
     ok_then (selection_hash (en_membership E (qm_table meta) (qp_filter plan) (qp_search plan))) (\<lambda>fingerprint.
     ok_then (selection_hash (en_context E (map (\<lambda>k. (k, field_type_of (qm_fields meta) k))
        (selection_references meta plan)))) (\<lambda>schema.
     Inr (plan, fingerprint, schema)))))"

fun unique_record_ids :: "string list \<Rightarrow> string list \<Rightarrow> bool" where
  "unique_record_ids seen [] = True"
| "unique_record_ids seen (v # vs) =
     (if \<not> Valid RecordPrefix v \<or> List.member seen v then False else unique_record_ids (v # seen) vs)"

definition selection_ids_ok :: "string \<Rightarrow> int \<Rightarrow> string list \<Rightarrow> unit res" where
  "selection_ids_ok p limit ids =
     fail_if (int (length ids) > limit) (NewValidationError [Issue p ''limit'' (''at most '' @ show_int limit @ '' IDs'')])
    (fail_if (\<not> unique_record_ids [] ids)
       (NewValidationError [Issue p ''format'' ''unique typed Record IDs required'']) (Inr ()))"

definition ValidateSelectionIDs :: "string list \<Rightarrow> string list \<Rightarrow> unit res" where
  "ValidateSelectionIDs excluded probes =
     ok_then (selection_ids_ok ''/excludedIds'' 5000 excluded) (\<lambda>_.
     selection_ids_ok ''/recordIds'' 500 probes)"

section \<open>postgres/selection.go\<close>

definition selection_budget :: "string \<Rightarrow> int \<Rightarrow> app_error" where
  "selection_budget p limit =
     NewValidationError [Issue p ''limit'' (''selection budget '' @ show_int limit @ '' exceeded'')]"

definition normalize_selection_context ::
  "env \<Rightarrow> string \<Rightarrow> string \<Rightarrow> selection_query \<Rightarrow> db \<Rightarrow> (query_plan \<times> string \<times> string) res" where
  "normalize_selection_context E actor table q s =
     ok_then (resolve_query_metadata actor table (sq_view q) s) (SelectionPlan E q)"

definition scope_of :: "scope_row \<Rightarrow> selection_scope" where
  "scope_of c =
     \<lparr>sc_id = ss_id c, sc_token = [], sc_table = ss_table c, sc_fingerprint = ss_fingerprint c,
      sc_version = ss_version c, sc_count = ss_count c, sc_created_at = ss_created_at c,
      sc_expires_at = ss_expires_at c\<rparr>"

definition selectionResult :: "scope_row \<Rightarrow> string list \<Rightarrow> string list \<Rightarrow> selection_result res" where
  "selectionResult c excluded probes =
     (if list_ex (\<lambda>v. \<not> List.member (ss_members c) v) excluded
      then Inl (NewValidationError [Issue ''/excludedIds'' ''invalidReference'' ''all exclusions must belong to the Scope''])
      else Inr \<lparr>sr_scope = scope_of c, sr_excluded = sort excluded, sr_excluded_count = length excluded,
                sr_selected_count = ss_count c - int (length excluded),
                sr_membership = map (\<lambda>v. \<lparr>sm_record = v, sm_in_scope = List.member (ss_members c) v,
                  sm_selected = (List.member (ss_members c) v \<and> \<not> List.member excluded v)\<rparr>) probes\<rparr>)"

text \<open>The scope a request made before.\<close>

definition find_scope_request :: "string \<Rightarrow> string \<Rightarrow> db \<Rightarrow> scope_row option" where
  "find_scope_request actor requestID s =
     find (\<lambda>c. ss_actor c = actor \<and> ss_request c = requestID) (db_scopes s)"

text \<open>Expired scopes go; invalid ones keep their request identity and lose their members.\<close>

definition reclaim_scopes :: "db \<Rightarrow> db" where
  "reclaim_scopes s =
     s\<lparr>db_scopes := update_where ss_invalidated (\<lambda>c. c\<lparr>ss_members := []\<rparr>)
        (filter (\<lambda>c. \<not> ss_expires_at c \<le> db_now s) (db_scopes s))\<rparr>"

definition scope_budget :: "string \<Rightarrow> string \<Rightarrow> scope_row list \<Rightarrow> unit res" where
  "scope_budget actor table cs =
     (let live = filter (\<lambda>c. \<not> ss_invalidated c) cs;
          budgets = [(int (length (filter (\<lambda>c. ss_actor c = actor) live)), 8),
                     (int (length (filter (\<lambda>c. ss_table c = table) live)), 4),
                     (int (length live), 64),
                     (int (length (filter (\<lambda>c. ss_actor c = actor) cs)), 64),
                     (int (length cs), 256)]
      in case find (\<lambda>(used, limit). used \<ge> limit) budgets of
           None \<Rightarrow> Inr ()
         | Some (used, limit) \<Rightarrow> Inl (selection_budget ''/scopeBudget'' limit))"

definition total_members :: "scope_row list \<Rightarrow> int" where
  "total_members cs = sum_list (map ss_count (filter (\<lambda>c. \<not> ss_invalidated c) cs))"

text \<open>\<open>LIMIT\<close>.\<close>

fun sql_limit :: "int \<Rightarrow> 'a list \<Rightarrow> 'a list" where
  "sql_limit n [] = []"
| "sql_limit n (x # xs) = (if n \<le> 0 then [] else x # sql_limit (n - 1) xs)"

definition selected_ids :: "env \<Rightarrow> sql_text \<Rightarrow> db \<Rightarrow> string list" where
  "selected_ids E w s = map (\<lambda>r. rc_id (rr_record r)) (filter (where_selects E w) (db_records s))"

text \<open>The members a new scope freezes, and its counts.\<close>

definition freeze_scope :: "env \<Rightarrow> query_plan \<Rightarrow> scope_row \<Rightarrow> scope_row tx" where
  "freeze_scope E plan c s =
     ok_then (insert_row ''insert selection scope'' ss_id c (db_scopes s)) (\<lambda>_.
     ok_then (build_record_where (ss_table c) plan) (\<lambda>w.
     let members = sort (sql_limit 100001 (selected_ids E w s));
         n = int (length members);
         version = en_hash E (''selection-members-v1'' @ [char_of (10::nat)] @ ss_schema c @ [char_of (10::nat)]
           @ concat (map (\<lambda>v. v @ [char_of (10::nat)]) members))
     in fail_if (n > selection_member_limit) (selection_budget ''/scopeMembers'' selection_member_limit)
       (fail_if (total_members (db_scopes s) + n > 1000000) (selection_budget ''/totalScopeMembers'' 1000000)
       (let c' = c\<lparr>ss_members := members, ss_count := n, ss_version := version\<rparr> in
        Inr (c', s\<lparr>db_scopes := db_scopes s @ [c']\<rparr>)))))"

definition AcquireSelection ::
  "env \<Rightarrow> string \<Rightarrow> string \<Rightarrow> string \<Rightarrow> selection_query \<Rightarrow> selection_result tx" where
  "AcquireSelection E actor table requestID q0 s =
     ok_then (lock_actor actor s) (\<lambda>_.
     ok_then (lock_active_table actor table s) (\<lambda>_.
     let now = db_now s; previous = find_scope_request actor requestID s in
     fail_if (case previous of None \<Rightarrow> False | Some c \<Rightarrow> ss_invalidated c \<or> \<not> now < ss_expires_at c) QuerySnapshotExpired
    (ok_then (normalize_selection_context E actor table q0 s) (\<lambda>(plan, fp, schema).
     let q = CanonicalSelectionQuery E q0 plan in
     case en_query_json E q of
       None \<Rightarrow> Inl (Internal ''encode selection query'')
     | Some raw \<Rightarrow>
     fail_if (int (length raw) > 65536) (selection_budget ''/query'' 65536)
    (case en_query_json E (q\<lparr>sq_search := qp_search plan\<rparr>) of
       None \<Rightarrow> Inl (Internal ''encode selection query'')
     | Some canonicalRequest \<Rightarrow>
     let hash = en_hash E (table @ [char_of (10::nat)] @ canonicalRequest) in
     (case previous of
        Some c \<Rightarrow>
          fail_if (ss_hash c \<noteq> hash) IdempotencyKeyReused
         (fail_if (ss_fingerprint c \<noteq> fp \<or> ss_schema c \<noteq> schema) QuerySnapshotExpired
         (ok_then (selectionResult c [] []) (\<lambda>result. Inr (result, s))))
      | None \<Rightarrow>
          let s = reclaim_scopes s in
          ok_then (scope_budget actor table (db_scopes s)) (\<lambda>_.
          ok_then (draw_id E ''generate selection ID'' SelectionPrefix s) (\<lambda>(scopeID, s).
          ok_then (freeze_scope E plan
             \<lparr>ss_id = scopeID, ss_actor = actor, ss_table = table, ss_request = requestID, ss_hash = hash,
              ss_query = q, ss_fingerprint = fp, ss_schema = schema, ss_version = ''pending'', ss_count = 0,
              ss_created_at = now, ss_expires_at = now + selection_ttl, ss_invalidated = False,
              ss_members = []\<rparr> s) (\<lambda>(c, s).
          ok_then (selectionResult c [] []) (\<lambda>result. Inr (result, s)))))))))))"

text \<open>A scope is used: it must exist, be live, and still mean what the page and its own query mean.\<close>

definition find_scope :: "string \<Rightarrow> string \<Rightarrow> string \<Rightarrow> db \<Rightarrow> scope_row option" where
  "find_scope actor table scopeID s =
     find (\<lambda>c. ss_id c = scopeID \<and> ss_actor c = actor \<and> ss_table c = table \<and> ss_expires_at c > db_now s)
       (db_scopes s)"

definition context_lost :: "app_error \<Rightarrow> bool" where
  "context_lost e =
     (case e of NotFound \<Rightarrow> True | Validation _ \<Rightarrow> True | ViewConfigurationRequired _ _ \<Rightarrow> True | _ \<Rightarrow> False)"

definition validate_selection :: "env \<Rightarrow> string \<Rightarrow> string \<Rightarrow> selection_page \<Rightarrow> db \<Rightarrow> scope_row res" where
  "validate_selection E actor table page s =
     ok_then (lockless_active_table actor table s) (\<lambda>_.
     case find_scope actor table (stk_scope (spg_token page)) s of
       None \<Rightarrow> Inl QuerySnapshotExpired
     | Some c \<Rightarrow>
         fail_if (ss_invalidated c \<or> \<not> spg_now page < ss_expires_at c
             \<or> ss_expires_at c \<noteq> stk_expires (spg_token page)) QuerySnapshotExpired
        (case normalize_selection_context E actor table (spg_query page) s of
           Inl e \<Rightarrow> Inl (if context_lost e then QuerySnapshotExpired else e)
         | Inr (plan, fp, schema) \<Rightarrow>
             fail_if (fp \<noteq> ss_fingerprint c \<or> schema \<noteq> ss_schema c) QuerySnapshotExpired
            (case normalize_selection_context E actor table (ss_query c) s of
               Inl e \<Rightarrow> Inl QuerySnapshotExpired
             | Inr (plan, originalFP, originalSchema) \<Rightarrow>
                 fail_if (originalFP \<noteq> ss_fingerprint c \<or> originalSchema \<noteq> ss_schema c) QuerySnapshotExpired
                 (Inr c))))"

definition ResolveSelection ::
  "env \<Rightarrow> string \<Rightarrow> string \<Rightarrow> selection_page \<Rightarrow> string list \<Rightarrow> db \<Rightarrow> selection_result res" where
  "ResolveSelection E actor table page probes s =
     ok_then (validate_selection E actor table page s) (\<lambda>c. selectionResult c (spg_excluded page) probes)"

definition ResolveSelectionQuery ::
  "env \<Rightarrow> string \<Rightarrow> string \<Rightarrow> selection_page \<Rightarrow> db \<Rightarrow> query_metadata res" where
  "ResolveSelectionQuery E actor table page s =
     ok_then (validate_selection E actor table page s) (\<lambda>_.
     resolve_query_metadata actor table (sq_view (spg_query page)) s)"

section \<open>\<open>invalidateSelections\<close>\<close>

definition context_invalid :: "app_error \<Rightarrow> bool" where
  "context_invalid e =
     (case e of NotFound \<Rightarrow> True | Validation _ \<Rightarrow> True | ViewConfigurationRequired _ _ \<Rightarrow> True
      | UnsupportedOperator _ _ \<Rightarrow> True | _ \<Rightarrow> False)"

text \<open>\<open>EXISTS(SELECT 1 FROM records r WHERE r.id=candidate.id AND \<close> and the condition\<open>)\<close>.\<close>

definition record_selected :: "env \<Rightarrow> sql_text \<Rightarrow> string \<Rightarrow> db \<Rightarrow> bool" where
  "record_selected E w i s = list_ex (where_selects E (text_and [[IsRecord i]] w)) (db_records s)"

definition scope_stale :: "env \<Rightarrow> string \<Rightarrow> string \<Rightarrow> string list \<Rightarrow> scope_row \<Rightarrow> db \<Rightarrow> bool res" where
  "scope_stale E actor table changed c s =
     (case normalize_selection_context E actor table (ss_query c) s of
        Inl e \<Rightarrow> (if context_invalid e then Inr True else Inl e)
      | Inr (plan, fp, schema) \<Rightarrow>
          if fp \<noteq> ss_fingerprint c \<or> schema \<noteq> ss_schema c then Inr True
          else if changed = [] then Inr False
          else ok_then (build_record_where table plan) (\<lambda>w.
            Inr (list_ex (\<lambda>i. List.member (ss_members c) i \<noteq> record_selected E w i s) changed)))"

fun invalidate_each :: "env \<Rightarrow> string \<Rightarrow> string \<Rightarrow> string list \<Rightarrow> scope_row list \<Rightarrow> db \<Rightarrow> db res" where
  "invalidate_each E actor table changed [] s = Inr s"
| "invalidate_each E actor table changed (c # cs) s =
     ok_then (scope_stale E actor table changed c s) (\<lambda>stale.
     invalidate_each E actor table changed cs
       (if stale
        then s\<lparr>db_scopes := update_where (\<lambda>d. ss_id d = ss_id c) (\<lambda>d. d\<lparr>ss_invalidated := True\<rparr>) (db_scopes s)\<rparr>
        else s))"

definition live_scopes :: "string \<Rightarrow> db \<Rightarrow> scope_row list" where
  "live_scopes table s =
     sort_key ss_id (filter (\<lambda>c. ss_table c = table \<and> \<not> ss_invalidated c \<and> ss_expires_at c > db_now s) (db_scopes s))"

definition invalidate_selections :: "env \<Rightarrow> string \<Rightarrow> string \<Rightarrow> string list \<Rightarrow> db \<Rightarrow> db res" where
  "invalidate_selections E actor table changed s =
     invalidate_each E actor table changed (live_scopes table s) s"

section \<open>The service\<close>

definition selectionToken ::
  "selection_token codec \<Rightarrow> string \<Rightarrow> instant \<Rightarrow> string \<Rightarrow> string \<Rightarrow> string \<Rightarrow> selection_token res" where
  "selectionToken T key0 now actor table token =
     ok_then (cursor_signer key0) (\<lambda>key.
     case cursor_decode T key ''row-selection'' token of
       None \<Rightarrow> Inl InvalidCursor
     | Some payload \<Rightarrow>
         fail_if (stk_actor payload \<noteq> actor \<or> stk_table payload \<noteq> table
             \<or> \<not> Valid SelectionPrefix (stk_scope payload)) InvalidCursor
        (fail_if (now \<ge> stk_expires payload) QuerySnapshotExpired (Inr payload)))"

definition decorate_selection ::
  "selection_token codec \<Rightarrow> string \<Rightarrow> string \<Rightarrow> selection_result \<Rightarrow> selection_result res" where
  "decorate_selection T key0 actor r =
     ok_then (cursor_signer key0) (\<lambda>key.
     ok_then (encode_cursor ''encode selection token'' T key ''row-selection''
        \<lparr>stk_scope = sc_id (sr_scope r), stk_actor = actor, stk_table = sc_table (sr_scope r),
         stk_expires = sc_expires_at (sr_scope r)\<rparr>) (\<lambda>token.
     Inr (r\<lparr>sr_scope := (sr_scope r)\<lparr>sc_token := token\<rparr>\<rparr>)))"

definition ServiceAcquireSelection ::
  "env \<Rightarrow> selection_token codec \<Rightarrow> string \<Rightarrow> string \<Rightarrow> string \<Rightarrow> string \<Rightarrow> selection_query \<Rightarrow> db
     \<Rightarrow> selection_result res \<times> db" where
  "ServiceAcquireSelection E T key0 actor table requestID q s =
     (if \<not> Valid TablePrefix table \<or> \<not> Valid RequestPrefix requestID
      then (Inl (BadRequest ''typed Table and Request IDs required''), s)
      else (case AcquireSelection E actor table requestID q s of
          Inl e \<Rightarrow> (Inl e, s)
        | Inr (r, s') \<Rightarrow> (decorate_selection T key0 actor r, s')))"

definition ServiceResolveSelection ::
  "env \<Rightarrow> selection_token codec \<Rightarrow> string \<Rightarrow> instant \<Rightarrow> string \<Rightarrow> string \<Rightarrow> string \<Rightarrow> selection_query \<Rightarrow>
     string list \<Rightarrow> string list \<Rightarrow> db \<Rightarrow> selection_result res" where
  "ServiceResolveSelection E T key0 now actor table token q excluded probes s =
     fail_if (\<not> Valid TablePrefix table) (BadRequest ''typed Table ID required'')
    (ok_then (ValidateSelectionIDs excluded probes) (\<lambda>_.
     ok_then (selectionToken T key0 now actor table token) (\<lambda>payload.
     ok_then (ResolveSelection E actor table
        \<lparr>spg_sequence = None, spg_token = payload, spg_query = q, spg_excluded = excluded, spg_now = now\<rparr> probes s)
       (decorate_selection T key0 actor))))"

section \<open>Canonical filters\<close>

lemma set_drop_repeated: "set (drop_repeated key previous xs) \<subseteq> set xs"
  by (induction xs arbitrary: previous) auto

lemma drop_repeated_Nil:
  "drop_repeated key previous xs = [] \<longleftrightarrow> (\<forall>x \<in> set xs. key x = previous)"
  by (induction xs arbitrary: previous) auto

lemma canonical_children:
  "set (drop_repeated key [] (sort_key key' (map f cs))) \<subseteq> f ` set cs"
  using set_drop_repeated by fastforce

lemma canonical_node_wf:
  assumes "\<forall>n. en_filter_json E n \<noteq> []"
  shows "filter_wf fs n \<Longrightarrow> filter_wf fs (canonical_node E n)"
proof (induction n)
  case (FilterNode kind op cs fieldID v)
  let ?cs = "drop_repeated (en_filter_json E) [] (sort_key (en_filter_json E) (map (canonical_node E) cs))"
  have sub: "set ?cs \<subseteq> canonical_node E ` set cs" by (rule canonical_children)
  show ?case
  proof (cases "kind = ''group''")
    case True
    then have "cs \<noteq> []" "\<forall>c \<in> set cs. filter_wf fs c" using FilterNode.prems by (auto simp: list_all_iff)
    moreover have "?cs \<noteq> []" using \<open>cs \<noteq> []\<close> assms by (simp add: drop_repeated_Nil ex_in_conv)
    moreover have "\<forall>c \<in> set ?cs. filter_wf fs c"
      using sub FilterNode.IH \<open>\<forall>c \<in> set cs. filter_wf fs c\<close> by blast
    ultimately show ?thesis using FilterNode.prems True by (simp add: list_all_iff)
  next
    case False
    then show ?thesis using FilterNode.prems by simp
  qed
qed

lemma SelectionPlan_Inr:
  assumes "SelectionPlan E q meta = Inr (plan, fp, schema)" "\<forall>n. en_filter_json E n \<noteq> []"
  shows "plan_ok plan" and "qp_fields plan = qm_fields meta" and "qp_lifecycle plan = ''active''"
    and "en_membership E (qm_table meta) (qp_filter plan) (qp_search plan) = Some fp"
    and "en_context E (map (\<lambda>k. (k, field_type_of (qm_fields meta) k)) (selection_references meta plan)) = Some schema"
proof -
  obtain plan0 where p: "build_query_plan (en_lib E) (en_digest E) (selection_request q) meta = Inr plan0"
    and plan: "plan = plan0\<lparr>qp_filter := canonical_selection_filter E (qp_filter plan0)\<rparr>"
    and h: "en_membership E (qm_table meta) (qp_filter plan) (qp_search plan) = Some fp"
      "en_context E (map (\<lambda>k. (k, field_type_of (qm_fields meta) k)) (selection_references meta plan)) = Some schema"
    using assms(1)
    by (auto simp: SelectionPlan_def ok_then_eq_Inr Let_def selection_hash_def split: option.splits)
  show "en_membership E (qm_table meta) (qp_filter plan) (qp_search plan) = Some fp"
    "en_context E (map (\<lambda>k. (k, field_type_of (qm_fields meta) k)) (selection_references meta plan)) = Some schema"
    by (fact h)+
  note b = build_query_plan_Inr[OF p]
  show f: "qp_fields plan = qm_fields meta" using b by (simp add: plan plan_checked_def)
  have "checked_plan (en_lib E) (en_digest E) (selection_request q) meta (query_lifecycle (selection_request q))
      (query_limit (selection_request q)) (query_projection (selection_request q) meta)
      (query_filter (selection_request q) meta) (query_sort (selection_request q) meta) = Inr plan0"
    using p by (auto simp: build_query_plan_def Let_def)
  then have "qp_lifecycle plan0 = query_lifecycle (selection_request q)" using checked_plan_Inr by blast
  then show "qp_lifecycle plan = ''active''" by (simp add: plan query_lifecycle_def selection_request_def)
  have "case qp_filter plan0 of None \<Rightarrow> True | Some n \<Rightarrow> filter_wf (qm_fields meta) n"
    using conjunct2[OF b] filter_wf_canon
    by (auto simp: filter_accepted_iff split: option.splits)
  then show "plan_ok plan"
    using canonical_node_wf[OF assms(2)] f
    by (auto simp: plan_ok_def plan canonical_selection_filter_def split: option.splits)
qed

section \<open>The meaning of a query depends on its hashes only\<close>

definition same_field :: "fields \<Rightarrow> fields \<Rightarrow> string \<Rightarrow> bool" where
  "same_field fs gs k =
     (\<exists>f g. fmlookup fs k = Some f \<and> fmlookup gs k = Some g \<and> fe_id f = fe_id g \<and> fe_type f = fe_type g)"

lemma compile_rule_same: "fe_id f = fe_id g \<Longrightarrow> fe_type f = fe_type g \<Longrightarrow> compile_rule f op v = compile_rule g op v"
  by (simp add: compile_rule_def Let_def)

lemma compile_filter_same:
  "filter_wf fs n \<Longrightarrow> \<forall>k \<in> set (node_fields n). same_field fs gs k \<Longrightarrow>
     compile_filter_sql n gs = compile_filter_sql n fs"
proof (induction n)
  case (FilterNode kind op cs fieldID v)
  show ?case
  proof (cases "kind = ''group''")
    case True
    then have "\<forall>c \<in> set cs. compile_filter_sql c gs = compile_filter_sql c fs"
      using FilterNode by (auto simp: list_all_iff)
    then have "each_ok (\<lambda>c. compile_filter_sql c gs) cs = each_ok (\<lambda>c. compile_filter_sql c fs) cs"
      by (intro each_ok_cong) auto
    then show ?thesis using True by simp
  next
    case False
    then have k: "kind = ''rule''" "fieldID \<noteq> []"
      using FilterNode.prems(1) by (auto simp: active_field_def Valid_def split: option.splits if_splits)
    then have "same_field fs gs fieldID" using FilterNode.prems(2) by simp
    then obtain f g where fg: "fmlookup fs fieldID = Some f" "fmlookup gs fieldID = Some g"
      "fe_id f = fe_id g" "fe_type f = fe_type g" unfolding same_field_def by blast
    then have "compile_rule g op v = compile_rule f op v" by (intro compile_rule_same) simp_all
    then show ?thesis using False fg(1,2) by simp
  qed
qed

lemma wf_fields_present: "filter_wf fs n \<Longrightarrow> k \<in> set (node_fields n) \<Longrightarrow> \<exists>f. fmlookup fs k = Some f"
proof (induction n)
  case (FilterNode kind op cs fieldID v)
  show ?case
  proof (cases "kind = ''group''")
    case True
    then show ?thesis using FilterNode by (auto simp: list_all_iff)
  next
    case False
    then show ?thesis using FilterNode by (auto simp: active_field_def split: option.splits if_splits)
  qed
qed

text \<open>No two memberships of the Table, and no two Field contexts, share a hash.\<close>

definition no_collision :: "env \<Rightarrow> string \<Rightarrow> bool" where
  "no_collision E table =
     ((\<forall>f q f' q' h. en_membership E table f q = Some h \<longrightarrow> en_membership E table f' q' = Some h \<longrightarrow> f = f' \<and> q = q')
      \<and> (\<forall>c c' h. en_context E c = Some h \<longrightarrow> en_context E c' = Some h \<longrightarrow> c = c')
      \<and> (\<forall>n. en_filter_json E n \<noteq> []))"

definition fields_keyed :: "fields \<Rightarrow> bool" where
  "fields_keyed fs = (\<forall>k f. fmlookup fs k = Some f \<longrightarrow> fe_id f = k)"

lemma table_fields_keyed: "fields_keyed (table_fields t s)"
  by (auto simp: fields_keyed_def table_fields_def fmlookup_of_list field_definition_def dest!: map_of_SomeD)

lemma map_eq_types: "map (\<lambda>k. (k, f k)) xs = map (\<lambda>k. (k, g k)) ys \<Longrightarrow> xs = ys \<and> (\<forall>k \<in> set xs. f k = g k)"
proof (induction xs arbitrary: ys)
  case Nil
  then show ?case by simp
next
  case (Cons x xs)
  then obtain y ys' where "ys = y # ys'" by (cases ys) auto
  with Cons show ?case by auto
qed

lemma same_hash_same_where:
  assumes nc: "no_collision E table"
    and p: "SelectionPlan E q meta = Inr (plan, fp, schema)" "qm_table meta = table" "fields_keyed (qm_fields meta)"
    and p': "SelectionPlan E q' meta' = Inr (plan', fp, schema)" "qm_table meta' = table" "fields_keyed (qm_fields meta')"
  shows "build_record_where table plan' = build_record_where table plan \<and> qp_filter plan' = qp_filter plan
     \<and> qp_search plan' = qp_search plan"
proof -
  have j: "\<forall>n. en_filter_json E n \<noteq> []" using nc by (simp add: no_collision_def)
  note a = SelectionPlan_Inr[OF p(1) j] and b = SelectionPlan_Inr[OF p'(1) j]
  have fs: "qp_filter plan' = qp_filter plan" "qp_search plan' = qp_search plan"
    using nc a(4) b(4) p(2) p'(2) unfolding no_collision_def by metis+
  have "map (\<lambda>k. (k, field_type_of (qm_fields meta) k)) (selection_references meta plan)
      = map (\<lambda>k. (k, field_type_of (qm_fields meta') k)) (selection_references meta' plan')"
    using nc a(5) b(5) unfolding no_collision_def by metis
  then have ty: "\<forall>k \<in> set (selection_references meta plan). field_type_of (qm_fields meta) k = field_type_of (qm_fields meta') k"
    using map_eq_types by blast
  have "filter_parts (qp_filter plan') (qp_fields plan') = filter_parts (qp_filter plan) (qp_fields plan)"
  proof (cases "qp_filter plan")
    case None
    then show ?thesis by (simp add: fs filter_parts_def)
  next
    case (Some n)
    then have w: "filter_wf (qm_fields meta) n" "filter_wf (qm_fields meta') n"
      using a(1,2) b(1,2) fs by (auto simp: plan_ok_def)
    have "same_field (qm_fields meta) (qm_fields meta') k" if k: "k \<in> set (node_fields n)" for k
    proof -
      obtain f g where fg: "fmlookup (qm_fields meta) k = Some f" "fmlookup (qm_fields meta') k = Some g"
        using wf_fields_present[OF w(1) k] wf_fields_present[OF w(2) k] by blast
      have "k \<in> set (selection_references meta plan)"
        using k Some by (simp add: selection_references_def collect_filter_fields_def)
      then have "fe_type f = fe_type g" using ty fg by (auto simp: field_type_of_def)
      then show ?thesis using fg p(3) p'(3) by (auto simp: same_field_def fields_keyed_def)
    qed
    then have "compile_filter_sql n (qm_fields meta') = compile_filter_sql n (qm_fields meta)"
      using compile_filter_same[OF w(1)] by blast
    then show ?thesis using Some a(2) b(2) by (simp add: fs filter_parts_def)
  qed
  then show ?thesis using fs a(3) b(3) by (simp add: build_record_where_def)
qed

lemma resolve_metadata_Inr:
  assumes "resolve_query_metadata actor table v s = Inr meta"
  shows "qm_table meta = table" and "qm_fields meta = table_fields table s" and "active_table_visible actor table s"
proof -
  obtain t where t: "find_active_table actor table s = Some t"
    using assms by (cases "find_active_table actor table s") (simp_all add: resolve_query_metadata_def)
  then have i: "tb_id (tr_table t) = table" unfolding find_active_table_def by (auto dest: find_SomeD)
  have m: "qm_table meta = tb_id (tr_table t) \<and> qm_fields meta = table_fields table s"
    using assms t by (auto simp: resolve_query_metadata_def Let_def split: if_splits option.splits)
  show "qm_table meta = table" "qm_fields meta = table_fields table s" "active_table_visible actor table s"
    using m i t by (simp_all add: active_table_visible_def)
qed

lemma normalize_Inr:
  "normalize_selection_context E actor table q s = Inr (plan, fp, schema) \<longleftrightarrow>
     (\<exists>meta. resolve_query_metadata actor table (sq_view q) s = Inr meta
        \<and> SelectionPlan E q meta = Inr (plan, fp, schema))"
  by (simp add: normalize_selection_context_def ok_then_eq_Inr)

lemma same_hash_same_context:
  assumes "no_collision E table"
    and "normalize_selection_context E actor table q s = Inr (plan, fp, schema)"
    and "normalize_selection_context E actor' table q' s' = Inr (plan', fp, schema)"
  shows "build_record_where table plan' = build_record_where table plan \<and> qp_filter plan' = qp_filter plan
     \<and> qp_search plan' = qp_search plan"
proof -
  obtain meta meta' where m: "resolve_query_metadata actor table (sq_view q) s = Inr meta"
      "SelectionPlan E q meta = Inr (plan, fp, schema)"
      "resolve_query_metadata actor' table (sq_view q') s' = Inr meta'"
      "SelectionPlan E q' meta' = Inr (plan', fp, schema)"
    using assms(2,3) by (auto simp: normalize_Inr)
  note a = resolve_metadata_Inr[OF m(1)] and b = resolve_metadata_Inr[OF m(3)]
  have k: "fields_keyed (qm_fields meta)" "fields_keyed (qm_fields meta')"
    using a(2) b(2) by (simp_all add: table_fields_keyed)
  show ?thesis by (rule same_hash_same_where[OF assms(1) m(2) a(1) k(1) m(4) b(1) k(2)])
qed

lemma normalize_plan_ok:
  assumes "normalize_selection_context E actor table q s = Inr (plan, fp, schema)" "\<forall>n. en_filter_json E n \<noteq> []"
  shows "plan_ok plan" "qp_fields plan = table_fields table s" "qp_lifecycle plan = ''active''"
    "active_table_visible actor table s"
proof -
  obtain meta where m: "resolve_query_metadata actor table (sq_view q) s = Inr meta"
      "SelectionPlan E q meta = Inr (plan, fp, schema)"
    using assms(1) by (auto simp: normalize_Inr)
  note a = resolve_metadata_Inr[OF m(1)] and b = SelectionPlan_Inr[OF m(2) assms(2)]
  show "plan_ok plan" "qp_fields plan = table_fields table s" "qp_lifecycle plan = ''active''"
    "active_table_visible actor table s"
    using a b by simp_all
qed

section \<open>Scopes stay current\<close>

text \<open>
  A scope that can still be used: its hashes are those of some query as it normalises now, and its
  members are the records which that query selects now (when the query is not an OR at the root, see
  \<open>or_filter_escapes_table\<close>).
\<close>

definition scope_live :: "string \<Rightarrow> db \<Rightarrow> scope_row \<Rightarrow> bool" where
  "scope_live table s c = (ss_table c = table \<and> \<not> ss_invalidated c \<and> ss_expires_at c > db_now s)"

definition scope_current :: "env \<Rightarrow> string \<Rightarrow> db \<Rightarrow> scope_row \<Rightarrow> bool" where
  "scope_current E table s c =
     (ss_count c = int (length (ss_members c)) \<and> distinct (ss_members c)
      \<and> (\<exists>actor q plan w. normalize_selection_context E actor table q s = Inr (plan, ss_fingerprint c, ss_schema c)
           \<and> build_record_where table plan = Inr w
           \<and> (\<not> loose (qp_filter plan) \<longrightarrow> set (ss_members c) = set (selected_ids E w s))))"

definition scopes_current :: "env \<Rightarrow> string \<Rightarrow> db \<Rightarrow> bool" where
  "scopes_current E table s = (\<forall>c \<in> set (db_scopes s). scope_live table s c \<longrightarrow> scope_current E table s c)"

lemma catalog_scopes [simp]:
  "find_workspace actor wid (s\<lparr>db_scopes := x\<rparr>) = find_workspace actor wid s"
  "find_base actor bid (s\<lparr>db_scopes := x\<rparr>) = find_base actor bid s"
  "find_active_table actor tid (s\<lparr>db_scopes := x\<rparr>) = find_active_table actor tid s"
  "active_table_visible actor tid (s\<lparr>db_scopes := x\<rparr>) = active_table_visible actor tid s"
  "table_fields tid (s\<lparr>db_scopes := x\<rparr>) = table_fields tid s"
  "find_view actor vid (s\<lparr>db_scopes := x\<rparr>) = find_view actor vid s"
  by (simp_all add: find_workspace_def find_base_def find_active_table_def active_table_visible_def
      table_fields_def find_view_def)

lemma normalize_scopes [simp]:
  "normalize_selection_context E actor table q (s\<lparr>db_scopes := x\<rparr>) = normalize_selection_context E actor table q s"
  unfolding normalize_selection_context_def resolve_query_metadata_def catalog_scopes by (rule refl)

lemma selected_ids_scopes [simp]: "selected_ids E w (s\<lparr>db_scopes := x\<rparr>) = selected_ids E w s"
  by (simp add: selected_ids_def)

lemma scope_current_scopes [simp]: "scope_current E table (s\<lparr>db_scopes := x\<rparr>) c = scope_current E table s c"
  by (simp add: scope_current_def)

lemma scope_live_scopes [simp]: "scope_live table (s\<lparr>db_scopes := x\<rparr>) c = scope_live table s c"
  by (simp add: scope_live_def)

lemma scope_stale_scopes [simp]:
  "scope_stale E actor table changed c (s\<lparr>db_scopes := x\<rparr>) = scope_stale E actor table changed c s"
proof -
  have "record_selected E w i (s\<lparr>db_scopes := x\<rparr>) = record_selected E w i s" for w i
    by (simp add: record_selected_def)
  note r = this
  show ?thesis unfolding scope_stale_def normalize_scopes r by (rule refl)
qed

lemma invalidate_each_Inr:
  "invalidate_each E actor table changed cs s = Inr s' \<Longrightarrow>
     \<exists>x. s' = s\<lparr>db_scopes := x\<rparr>
       \<and> (\<forall>d \<in> set x. \<exists>c \<in> set (db_scopes s). d = c \<or> d = c\<lparr>ss_invalidated := True\<rparr>)
       \<and> (\<forall>d \<in> set x. \<not> ss_invalidated d \<longrightarrow> d \<in> set (db_scopes s)
            \<and> (d \<in> set cs \<longrightarrow> scope_stale E actor table changed d s = Inr False))"
proof (induction cs arbitrary: s)
  case Nil
  then show ?case by (intro exI[of _ "db_scopes s"]) auto
next
  case (Cons c cs)
  then obtain stale where st: "scope_stale E actor table changed c s = Inr stale"
    by (auto simp: ok_then_eq_Inr)
  show ?case
  proof (cases stale)
    case False
    then have r: "invalidate_each E actor table changed cs s = Inr s'" using Cons.prems st by simp
    show ?thesis using Cons.IH[OF r] st False by auto
  next
    case True
    let ?x = "update_where (\<lambda>d. ss_id d = ss_id c) (\<lambda>d. d\<lparr>ss_invalidated := True\<rparr>) (db_scopes s)"
    have r: "invalidate_each E actor table changed cs (s\<lparr>db_scopes := ?x\<rparr>) = Inr s'"
      using Cons.prems st True by simp
    obtain x where s': "s' = s\<lparr>db_scopes := x\<rparr>"
      and one: "\<forall>d \<in> set x. \<exists>e \<in> set ?x. d = e \<or> d = e\<lparr>ss_invalidated := True\<rparr>"
      and two: "\<forall>d \<in> set x. \<not> ss_invalidated d \<longrightarrow> d \<in> set ?x
            \<and> (d \<in> set cs \<longrightarrow> scope_stale E actor table changed d s = Inr False)"
      using Cons.IH[OF r] by auto
    have "\<exists>e \<in> set (db_scopes s). d = e \<or> d = e\<lparr>ss_invalidated := True\<rparr>" if "d \<in> set x" for d
      using one that unfolding set_update_where by fastforce
    moreover have "d \<in> set (db_scopes s) \<and> ss_id d \<noteq> ss_id c" if "d \<in> set x" "\<not> ss_invalidated d" for d
      using two that unfolding set_update_where by auto
    ultimately show ?thesis using s' two by (intro exI[of _ x]) auto
  qed
qed

text \<open>A plan that is not an OR at the root compiles to one conjunction.\<close>

lemma build_where_single:
  assumes "build_record_where table plan = Inr w" "plan_ok plan" "\<not> loose (qp_filter plan)"
  shows "\<exists>cs. w = [cs]"
proof (cases "qp_filter plan")
  case None
  then show ?thesis using build_record_where_text[OF assms(1)] by auto
next
  case (Some n)
  then obtain t where t: "compile_filter_sql n (qp_fields plan) = Inr t"
    and w: "t \<noteq> [] \<longrightarrow> w = (let u = (head_conds table (qp_lifecycle plan) @ hd t) # tl t in
                butlast u @ [last u @ tail_conds (qp_search plan)])"
    using build_record_where_text[OF assms(1)] by auto
  have "length t = 1" using compile_filter_length[OF t] assms(2,3) Some by (simp add: plan_ok_def)
  then obtain cs where "t = [cs]" by (cases t) auto
  then show ?thesis using w by simp
qed

lemma record_selected_iff:
  "record_selected E [cs] i s \<longleftrightarrow> i \<in> set (selected_ids E [cs] s)"
  by (auto simp: record_selected_def selected_ids_def where_selects_def text_eval_True text_and_def list_ex_iff)

lemma build_where_ok:
  assumes "plan_ok plan" "qp_lifecycle plan = ''active''" "fields_keyed (qp_fields plan)"
  shows "\<exists>w. build_record_where table plan = Inr w"
proof (cases "qp_filter plan")
  case None
  then show ?thesis using assms(2) by (simp add: build_record_where_def lifecycle_parts_def filter_parts_def)
next
  case (Some n)
  let ?r = "\<lparr>rr_record = \<lparr>rc_id = [], rc_table = [], rc_revision = 0, rc_values = fmempty, rc_created_at = 0,
    rc_updated_at = 0, rc_deleted_at = None\<rparr>, rr_position = 0, rr_query = fmempty, rr_search = []\<rparr>"
  have "row_typed (qp_fields plan) ?r"
    using assms(3) by (auto simp: row_typed_def list_all_iff fields_keyed_def query_value_def value_typed_def
        split: option.splits)
  then obtain t where "compile_filter_sql n (qp_fields plan) = Inr t"
    using compile_filter_correct assms(1) Some by (fastforce simp: plan_ok_def)
  then show ?thesis using Some assms(2) by (simp add: build_record_where_def lifecycle_parts_def filter_parts_def)
qed

text \<open>The scopes that are left after a change of the records \<open>changed\<close>.\<close>

lemma scope_survives:
  assumes nc: "no_collision E table"
    and cur: "scope_current E table s c"
    and same: "\<forall>i. i \<notin> set changed \<longrightarrow>
        filter (\<lambda>r. rc_id (rr_record r) = i) (db_records s') = filter (\<lambda>r. rc_id (rr_record r) = i) (db_records s)"
    and stale: "scope_stale E actor table changed c s' = Inr False"
  shows "scope_current E table s' c"
proof -
  have j: "\<forall>n. en_filter_json E n \<noteq> []" using nc by (simp add: no_collision_def)
  obtain actor0 q plan w where p: "normalize_selection_context E actor0 table q s = Inr (plan, ss_fingerprint c, ss_schema c)"
      "build_record_where table plan = Inr w"
    and m: "\<not> loose (qp_filter plan) \<Longrightarrow> set (ss_members c) = set (selected_ids E w s)"
    using cur by (auto simp: scope_current_def)
  obtain plan' fp schema where "normalize_selection_context E actor table (ss_query c) s' = Inr (plan', fp, schema)"
      "fp = ss_fingerprint c" "schema = ss_schema c"
    using stale by (auto simp: scope_stale_def split: sum.splits if_splits)
  then have p': "normalize_selection_context E actor table (ss_query c) s' = Inr (plan', ss_fingerprint c, ss_schema c)"
    by simp
  have w': "build_record_where table plan' = Inr w" "qp_filter plan' = qp_filter plan"
    using same_hash_same_context[OF nc p(1) p'] p(2) by simp_all
  have "set (ss_members c) = set (selected_ids E w s')" if loose: "\<not> loose (qp_filter plan)"
  proof -
    obtain cs where cs: "w = [cs]"
      using build_where_single[OF w'(1) normalize_plan_ok(1)[OF p' j]] loose w'(2) by auto
    have "i \<in> set (ss_members c) \<longleftrightarrow> i \<in> set (selected_ids E w s')" for i
    proof (cases "i \<in> set changed")
      case True
      then have "List.member (ss_members c) i = record_selected E w i s'"
        using stale p' w'(1) by (auto simp: scope_stale_def list_ex_iff split: if_splits)
      then show ?thesis by (simp add: cs record_selected_iff)
    next
      case False
      have sel: "i \<in> set (selected_ids E w x) \<longleftrightarrow>
          list_ex (where_selects E w) (filter (\<lambda>r. rc_id (rr_record r) = i) (db_records x))" for x
        by (auto simp: selected_ids_def list_ex_iff)
      show ?thesis using m[OF loose] same False by (simp add: sel)
    qed
    then show ?thesis by blast
  qed
  then have "\<not> loose (qp_filter plan') \<longrightarrow> set (ss_members c) = set (selected_ids E w s')" using w'(2) by simp
  then show ?thesis using cur p' w'(1) unfolding scope_current_def by blast
qed

text \<open>After an operation has changed the records \<open>changed\<close> (and, perhaps, Fields or Views) and called
  \<open>invalidateSelections\<close>, every scope of the Table that is still live holds exactly the records its query
  selects now.\<close>

lemma selection_scopes_current:
  assumes nc: "no_collision E table" and cur: "scopes_current E table s"
    and same: "\<forall>i. i \<notin> set changed \<longrightarrow>
        filter (\<lambda>r. rc_id (rr_record r) = i) (db_records s') = filter (\<lambda>r. rc_id (rr_record r) = i) (db_records s)"
    and rest: "db_scopes s' = db_scopes s" "db_now s \<le> db_now s'"
    and inv: "invalidate_selections E actor table changed s' = Inr s''"
  shows "scopes_current E table s''"
proof -
  obtain x where s'': "s'' = s'\<lparr>db_scopes := x\<rparr>"
    and x: "\<forall>d \<in> set x. \<not> ss_invalidated d \<longrightarrow> d \<in> set (db_scopes s')
            \<and> (d \<in> set (live_scopes table s') \<longrightarrow> scope_stale E actor table changed d s' = Inr False)"
    using invalidate_each_Inr[OF inv[unfolded invalidate_selections_def]] by blast
  have "scope_current E table s' c" if c: "c \<in> set x" "scope_live table s' c" for c
  proof -
    have "c \<in> set (db_scopes s')" "scope_stale E actor table changed c s' = Inr False"
      using x c by (auto simp: scope_live_def live_scopes_def)
    moreover have "scope_live table s c" using c(2) rest(2) by (simp add: scope_live_def)
    ultimately show ?thesis
      using scope_survives[OF nc _ same] cur rest(1) by (simp add: scopes_current_def)
  qed
  then show ?thesis by (simp add: scopes_current_def s'')
qed

lemma sql_limit_take: "sql_limit n xs = take (nat n) xs"
proof (induction xs arbitrary: n)
  case Nil
  then show ?case by simp
next
  case (Cons x xs)
  show ?case
  proof (cases "n \<le> 0")
    case False
    then have "nat n = Suc (nat (n - 1))" by simp
    then show ?thesis using False Cons by simp
  qed simp
qed

lemma scope_current_new:
  assumes n: "normalize_selection_context E actor table q s = Inr (plan, fp, schema)"
    and w: "build_record_where table plan = Inr w" and d: "distinct_ids (db_records s)"
    and c: "ss_fingerprint c = fp" "ss_schema c = schema" "ss_members c = sort (take 100001 (selected_ids E w s))"
      "ss_count c = int (length (ss_members c))" "length (ss_members c) \<le> 100000"
  shows "scope_current E table s c"
proof -
  have "length (selected_ids E w s) \<le> 100000" using c(3,5) by simp
  then have "ss_members c = sort (selected_ids E w s)" using c(3) by simp
  moreover have "distinct (selected_ids E w s)" unfolding selected_ids_def by (rule distinct_map_filter[OF d])
  ultimately show ?thesis using n w c(1,2,4) unfolding scope_current_def by fastforce
qed

lemma freeze_scope_Inr:
  assumes "freeze_scope E plan c s = Inr (c', s')"
  shows "\<exists>w. build_record_where (ss_table c) plan = Inr w \<and> ss_id c \<notin> ss_id ` set (db_scopes s)
     \<and> s' = s\<lparr>db_scopes := db_scopes s @ [c']\<rparr>
     \<and> (\<exists>version members. members = sort (take 100001 (selected_ids E w s)) \<and> length members \<le> 100000
          \<and> c' = c\<lparr>ss_members := members, ss_count := int (length members), ss_version := version\<rparr>)"
  using assms
  by (auto simp: freeze_scope_def ok_then_eq_Inr insert_row_Inr Let_def selection_member_limit_def not_less sql_limit_take)

lemma draws_frame [simp]:
  "normalize_selection_context E actor table q (s\<lparr>db_draws := n\<rparr>) = normalize_selection_context E actor table q s"
  "selected_ids E w (s\<lparr>db_draws := n\<rparr>) = selected_ids E w s"
proof -
  have c: "find_active_table actor tid (s\<lparr>db_draws := n\<rparr>) = find_active_table actor tid s"
    "active_table_visible actor tid (s\<lparr>db_draws := n\<rparr>) = active_table_visible actor tid s"
    "table_fields tid (s\<lparr>db_draws := n\<rparr>) = table_fields tid s"
    "find_view actor vid (s\<lparr>db_draws := n\<rparr>) = find_view actor vid s" for tid vid
    by (simp_all add: find_workspace_def find_base_def find_active_table_def active_table_visible_def
        table_fields_def find_view_def)
  show "normalize_selection_context E actor table q (s\<lparr>db_draws := n\<rparr>) = normalize_selection_context E actor table q s"
    unfolding normalize_selection_context_def resolve_query_metadata_def c by (rule refl)
  show "selected_ids E w (s\<lparr>db_draws := n\<rparr>) = selected_ids E w s" by (simp add: selected_ids_def)
qed

lemma scope_current_draws [simp]: "scope_current E table (s\<lparr>db_draws := n\<rparr>) c = scope_current E table s c"
  by (simp add: scope_current_def)

lemma AcquireSelection_cases:
  assumes "AcquireSelection E actor table requestID q s = Inr (r, s')"
  obtains (replayed) c where "find_scope_request actor requestID s = Some c" "s' = s" "\<not> ss_invalidated c"
      "db_now s < ss_expires_at c" "selectionResult c [] [] = Inr r"
    | (frozen) plan fp schema i c0 c where "find_scope_request actor requestID s = None"
      "normalize_selection_context E actor table q s = Inr (plan, fp, schema)"
      "freeze_scope E plan c0 (reclaim_scopes s\<lparr>db_draws := i\<rparr>) = Inr (c, s')"
      "ss_fingerprint c0 = fp" "ss_schema c0 = schema" "ss_table c0 = table" "ss_expires_at c0 = db_now s + selection_ttl"
      "\<not> ss_invalidated c0" "selectionResult c [] [] = Inr r"
proof -
  obtain plan fp schema where n: "normalize_selection_context E actor table q s = Inr (plan, fp, schema)"
    using assms by (auto simp: AcquireSelection_def ok_then_eq_Inr Let_def)
  show thesis
  proof (cases "find_scope_request actor requestID s")
    case (Some c)
    then show thesis
      using assms n
      by (intro replayed[of c]) (auto simp: AcquireSelection_def ok_then_eq_Inr Let_def split: option.splits)
  next
    case None
    then obtain i c0 c where "freeze_scope E plan c0 (reclaim_scopes s\<lparr>db_draws := i\<rparr>) = Inr (c, s')"
      "ss_fingerprint c0 = fp \<and> ss_schema c0 = schema \<and> ss_table c0 = table
        \<and> ss_expires_at c0 = db_now s + selection_ttl \<and> \<not> ss_invalidated c0" "selectionResult c [] [] = Inr r"
      using assms n
      by (fastforce simp: AcquireSelection_def ok_then_eq_Inr Let_def draw_id_Inr split: option.splits)
    then show thesis using frozen[OF None n] by blast
  qed
qed

lemma reclaim_frame [simp]:
  "normalize_selection_context E actor table q (reclaim_scopes s) = normalize_selection_context E actor table q s"
  "selected_ids E w (reclaim_scopes s) = selected_ids E w s"
  "scope_current E table (reclaim_scopes s) c = scope_current E table s c"
  "db_now (reclaim_scopes s) = db_now s"
  by (simp_all add: reclaim_scopes_def)

lemma reclaim_live: "c \<in> set (db_scopes (reclaim_scopes s)) \<Longrightarrow> \<not> ss_invalidated c \<Longrightarrow> c \<in> set (db_scopes s)"
  by (auto simp: reclaim_scopes_def update_where_def)

lemma selectionResult_Inr:
  "selectionResult c excluded probes = Inr r \<Longrightarrow>
     set excluded \<subseteq> set (ss_members c) \<and> sc_id (sr_scope r) = ss_id c
     \<and> sr_selected_count r = ss_count c - int (length excluded)
     \<and> sr_membership r = map (\<lambda>v. \<lparr>sm_record = v, sm_in_scope = (v \<in> set (ss_members c)),
           sm_selected = (v \<in> set (ss_members c) \<and> v \<notin> set excluded)\<rparr>) probes"
  by (auto simp: selectionResult_def scope_of_def list_ex_iff split: if_splits)

text \<open>Acquiring a scope, fresh or again for the same request, keeps every live scope current, and the
  scope it returns is one of them; a fresh one lives for five minutes.\<close>

theorem selection_acquired_current:
  assumes cur: "scopes_current E table s" and d: "distinct_ids (db_records s)"
    and a: "AcquireSelection E actor table requestID q s = Inr (r, s')"
  shows "scopes_current E table s'
     \<and> (\<exists>c \<in> set (db_scopes s'). ss_id c = sc_id (sr_scope r) \<and> \<not> ss_invalidated c \<and> db_now s < ss_expires_at c
          \<and> sr_selected_count r = ss_count c
          \<and> (find_scope_request actor requestID s = None \<longrightarrow>
               scope_live table s' c \<and> ss_expires_at c = db_now s + 300000000))"
  using a
proof (cases rule: AcquireSelection_cases)
  case (replayed c)
  then have "c \<in> set (db_scopes s)" by (auto simp: find_scope_request_def dest: find_SomeD)
  then show ?thesis using cur replayed selectionResult_Inr[OF replayed(5)] by auto
next
  case (frozen plan fp schema i c0 c)
  let ?s = "reclaim_scopes s\<lparr>db_draws := i\<rparr>"
  obtain w version members where w: "build_record_where table plan = Inr w"
    and s': "s' = ?s\<lparr>db_scopes := db_scopes ?s @ [c]\<rparr>"
    and m: "members = sort (take 100001 (selected_ids E w ?s))" "length members \<le> 100000"
    and c: "c = c0\<lparr>ss_members := members, ss_count := int (length members), ss_version := version\<rparr>"
    using freeze_scope_Inr[OF frozen(3)] frozen(6) by auto
  have "scope_current E table s c"
    by (rule scope_current_new[OF frozen(2) w d]) (use frozen m c in simp_all)
  moreover have "scope_current E table s x" if "x \<in> set (db_scopes ?s)" "scope_live table s' x" for x
  proof -
    have "x \<in> set (db_scopes s)" using that reclaim_live[of x s] by (simp add: scope_live_def)
    moreover have "scope_live table s x" using that(2) by (simp add: s' scope_live_def)
    ultimately show ?thesis using cur by (simp add: scopes_current_def)
  qed
  ultimately have "scopes_current E table s'" by (auto simp: scopes_current_def s')
  moreover have "scope_live table s' c" "ss_expires_at c = db_now s + 300000000" "\<not> ss_invalidated c"
    using frozen(6-8) by (simp_all add: s' c scope_live_def selection_ttl_def)
  moreover have "c \<in> set (db_scopes s')" by (simp add: s')
  ultimately show ?thesis using selectionResult_Inr[OF frozen(9)] by (intro conjI) (auto intro!: bexI[of _ c])
qed

section \<open>What a resolved scope says\<close>

lemma validate_selection_Inr:
  assumes "validate_selection E actor table page s = Inr c"
  shows "c \<in> set (db_scopes s)" "scope_live table s c"
    "\<exists>plan. normalize_selection_context E actor table (spg_query page) s = Inr (plan, ss_fingerprint c, ss_schema c)"
proof -
  obtain d where d: "find_scope actor table (stk_scope (spg_token page)) s = Some d"
    using assms by (auto simp: validate_selection_def ok_then_eq_Inr split: option.splits)
  then have v: "c = d \<and> \<not> ss_invalidated d
     \<and> (\<exists>plan. normalize_selection_context E actor table (spg_query page) s = Inr (plan, ss_fingerprint d, ss_schema d))"
    using assms by (auto simp: validate_selection_def ok_then_eq_Inr split: sum.splits)
  have "d \<in> set (db_scopes s) \<and> ss_table d = table \<and> ss_expires_at d > db_now s"
    using d unfolding find_scope_def by (auto dest: find_SomeD)
  then show "c \<in> set (db_scopes s)" "scope_live table s c"
    "\<exists>plan. normalize_selection_context E actor table (spg_query page) s = Inr (plan, ss_fingerprint c, ss_schema c)"
    using v by (auto simp: scope_live_def)
qed

lemma unique_record_ids_distinct: "unique_record_ids seen vs \<Longrightarrow> distinct vs \<and> set vs \<inter> set seen = {}"
proof (induction vs arbitrary: seen)
  case Nil
  then show ?case by simp
next
  case (Cons v vs)
  then have u: "unique_record_ids (v # seen) vs" "v \<notin> set seen" by (auto split: if_splits)
  show ?case using Cons.IH[OF u(1)] u(2) by auto
qed

lemma ValidateSelectionIDs_Inr: "ValidateSelectionIDs excluded probes = Inr u \<Longrightarrow> distinct excluded \<and> distinct probes"
  by (auto simp: ValidateSelectionIDs_def selection_ids_ok_def ok_then_eq_Inr dest: unique_record_ids_distinct)

definition rows_typed :: "string \<Rightarrow> db \<Rightarrow> bool" where
  "rows_typed table s = list_all (row_typed (table_fields table s)) (db_records s)"

lemma selected_ids_asks:
  assumes "build_record_where table plan = Inr w" "plan_ok plan" "\<not> loose (qp_filter plan)"
    and "qp_fields plan = table_fields table s" "rows_typed table s"
  shows "selected_ids E w s = map (\<lambda>x. rc_id (rr_record x)) (filter (plan_asks table plan) (db_records s))"
proof -
  have "filter (where_selects E w) (db_records s) = filter (plan_asks table plan) (db_records s)"
    by (rule filter_cong[OF refl])
      (use assms(4,5) in \<open>auto simp: rows_typed_def list_all_iff intro!: where_selects_asks[OF assms(1,2) _ assms(3)]\<close>)
  then show ?thesis by (simp add: selected_ids_def)
qed

lemma length_filter_same_set:
  assumes "distinct xs" "distinct ys" "set xs = set ys"
  shows "length (filter P xs) = length (filter P ys)"
proof -
  have "mset xs = mset ys" using assms set_eq_iff_mset_eq_distinct by blast
  then show ?thesis by (metis mset_filter size_mset)
qed

lemma count_without:
  assumes "distinct ms" "distinct es" "set es \<subseteq> set ms"
  shows "int (length ms) - int (length es) = int (length (filter (\<lambda>m. m \<notin> set es) ms))"
proof -
  have "length (filter (\<lambda>m. m \<in> set es) ms) = card (set es)"
    using assms by (simp add: distinct_length_filter Int_absorb2)
  moreover have "card (set es) = length es" using assms(2) by (rule distinct_card)
  ultimately show ?thesis using sum_length_filter_compl[of "\<lambda>m. m \<in> set es" ms] by simp
qed


section \<open>A scope over a small Table\<close>

definition selection_env :: env where
  "selection_env = sample_env\<lparr>
     en_membership := (\<lambda>t f q. if f = None then Some q else None),
     en_context := (\<lambda>fs. if fs = [] then Some [] else None),
     en_filter_json := (\<lambda>n. ''x''), en_query_json := (\<lambda>q. Some (sq_search q))\<rparr>"

lemma selection_env_ok: "no_collision selection_env t"
  by (simp add: no_collision_def selection_env_def)

definition whole_table :: selection_query where
  "whole_table = \<lparr>sq_view = [], sq_filter = None, sq_filter_present = False, sq_search = []\<rparr>"

definition selection_row :: "char \<Rightarrow> instant option \<Rightarrow> record_row" where
  "selection_row i deleted = (let r = name_row sample_table ''a'' deleted in
     r\<lparr>rr_record := (rr_record r)\<lparr>rc_id := sample_id ''rec_'' i\<rparr>\<rparr>)"

definition selection_db :: db where
  "selection_db = sample_db\<lparr>db_records :=
     [selection_row (CHR ''1'') None, selection_row (CHR ''2'') None, selection_row (CHR ''3'') (Some 5)]\<rparr>"

definition acquired :: "(selection_result \<times> db) res" where
  "acquired = AcquireSelection selection_env sample_actor sample_table ''req_1'' whole_table selection_db"

definition acquired_db :: db where
  "acquired_db = (case acquired of Inr (r, s) \<Rightarrow> s | Inl e \<Rightarrow> selection_db)"

lemma selection_db_ids: "distinct_ids (db_records selection_db)"
  by (simp add: selection_db_def selection_row_def name_row_def sample_id_def Let_def)

lemma selection_db_current: "scopes_current selection_env sample_table selection_db"
  by (simp add: scopes_current_def selection_db_def sample_db_def)

lemma case_InrD: "(case x of Inl e \<Rightarrow> False | Inr y \<Rightarrow> P y) \<Longrightarrow> \<exists>y. x = Inr y \<and> P y"
  by (cases x) auto

lemma acquired_Inr: "\<exists>r. acquired = Inr (r, acquired_db) \<and> sr_selected_count r = 2"
proof -
  have "case acquired of Inl e \<Rightarrow> False | Inr (r, s) \<Rightarrow> sr_selected_count r = 2" by code_simp
  then obtain y where y: "acquired = Inr y" "sr_selected_count (fst y) = 2" by (auto dest: case_InrD)
  have d: "acquired_db = snd y" unfolding acquired_db_def y(1) by (simp add: split_beta)
  have "acquired = Inr (fst y, acquired_db)" unfolding y(1) d by simp
  then show ?thesis using y(2) by blast
qed

theorem selection_acquired_current_witness:
  "scopes_current selection_env sample_table acquired_db
     \<and> (\<exists>c \<in> set (db_scopes acquired_db). scope_live sample_table acquired_db c \<and> ss_count c = 2)"
proof -
  obtain r where r: "AcquireSelection selection_env sample_actor sample_table ''req_1'' whole_table selection_db
      = Inr (r, acquired_db)" "sr_selected_count r = 2"
    using acquired_Inr unfolding acquired_def by blast
  have "find_scope_request sample_actor ''req_1'' selection_db = None"
    by (simp add: find_scope_request_def selection_db_def sample_db_def)
  then show ?thesis
    using selection_acquired_current[OF selection_db_current selection_db_ids r(1)] r(2) by auto
qed

text \<open>Between acquiring and asking, the deleted record changes its position.\<close>

definition changed_db :: db where
  "changed_db = acquired_db\<lparr>db_records :=
     [selection_row (CHR ''1'') None, selection_row (CHR ''2'') None,
      (selection_row (CHR ''3'') (Some 5))\<lparr>rr_position := 9\<rparr>]\<rparr>"

lemma acquired_db_current: "scopes_current selection_env sample_table acquired_db"
proof -
  obtain r where r: "AcquireSelection selection_env sample_actor sample_table ''req_1'' whole_table selection_db
      = Inr (r, acquired_db)"
    using acquired_Inr unfolding acquired_def by blast
  then obtain plan fp schema where n: "normalize_selection_context selection_env sample_actor sample_table whole_table selection_db
      = Inr (plan, fp, schema)" by (auto simp: AcquireSelection_def ok_then_eq_Inr Let_def)
  show ?thesis using r
  proof (cases rule: AcquireSelection_cases)
    case (replayed c)
    then show ?thesis using selection_db_current by simp
  next
    case (frozen plan fp schema i c0 c)
    let ?s = "reclaim_scopes selection_db\<lparr>db_draws := i\<rparr>"
    obtain w version members where w: "build_record_where sample_table plan = Inr w"
      and s': "acquired_db = ?s\<lparr>db_scopes := db_scopes ?s @ [c]\<rparr>"
      and m: "members = sort (take 100001 (selected_ids selection_env w ?s))" "length members \<le> 100000"
      and c: "c = c0\<lparr>ss_members := members, ss_count := int (length members), ss_version := version\<rparr>"
      using freeze_scope_Inr[OF frozen(3)] frozen(6) by auto
    have "scope_current selection_env sample_table selection_db c"
      by (rule scope_current_new[OF frozen(2) w selection_db_ids]) (use frozen m c in simp_all)
    moreover have "db_scopes ?s = []" by (simp add: reclaim_scopes_def selection_db_def sample_db_def update_where_def)
    ultimately show ?thesis by (simp add: scopes_current_def s')
  qed
qed

lemma acquired_db_records: "db_records acquired_db = db_records selection_db"
  by code_simp

lemma selection_scopes_example:
  "\<exists>s. invalidate_selections selection_env sample_actor sample_table [sample_id ''rec_'' (CHR ''3'')] changed_db = Inr s
     \<and> scopes_current selection_env sample_table s \<and> live_scopes sample_table s \<noteq> []"
proof -
  have "case invalidate_selections selection_env sample_actor sample_table [sample_id ''rec_'' (CHR ''3'')] changed_db of
      Inl e \<Rightarrow> False | Inr s \<Rightarrow> live_scopes sample_table s \<noteq> []" by code_simp
  then obtain s where s: "invalidate_selections selection_env sample_actor sample_table [sample_id ''rec_'' (CHR ''3'')] changed_db
      = Inr s" "live_scopes sample_table s \<noteq> []" by (auto split: sum.splits)
  have "\<forall>i. i \<notin> set [sample_id ''rec_'' (CHR ''3'')] \<longrightarrow>
      filter (\<lambda>r. rc_id (rr_record r) = i) (db_records changed_db)
      = filter (\<lambda>r. rc_id (rr_record r) = i) (db_records acquired_db)"
    unfolding acquired_db_records
    by (simp add: changed_db_def selection_db_def selection_row_def Let_def)
  then show ?thesis
    using selection_scopes_current[OF selection_env_ok acquired_db_current _ _ _ s(1)] s
    by (simp add: changed_db_def)
qed

definition the_token :: selection_token where
  "the_token = (case db_scopes acquired_db of
     c # cs \<Rightarrow> \<lparr>stk_scope = ss_id c, stk_actor = sample_actor, stk_table = sample_table, stk_expires = ss_expires_at c\<rparr>
   | [] \<Rightarrow> \<lparr>stk_scope = [], stk_actor = [], stk_table = [], stk_expires = 0\<rparr>)"

definition token_text_codec :: "selection_token codec" where
  "token_text_codec =
     \<lparr>hmac = (\<lambda>k m. take 8 (rev m)), marshal_payload = (\<lambda>p. Some ''1''), unmarshal_payload = (\<lambda>s. Some the_token)\<rparr>"

definition resolved :: "selection_result res" where
  "resolved = ok_then (decorate_selection token_text_codec sample_key sample_actor
       \<lparr>sr_scope = \<lparr>sc_id = stk_scope the_token, sc_token = [], sc_table = sample_table, sc_fingerprint = [],
          sc_version = [], sc_count = 0, sc_created_at = 0, sc_expires_at = stk_expires the_token\<rparr>,
        sr_excluded = [], sr_excluded_count = 0, sr_selected_count = 0, sr_membership = []\<rparr>) (\<lambda>r.
     ServiceResolveSelection selection_env token_text_codec sample_key 0 sample_actor sample_table
       (sc_token (sr_scope r)) whole_table [sample_id ''rec_'' (CHR ''1'')] [sample_id ''rec_'' (CHR ''3'')] acquired_db)"


end
