(* ===== verification/RecordRead.thy ===== *)
theory RecordRead
  imports Selection
begin

text \<open>
  Reading the records of a Table: \<open>QueryRecords\<close> and \<open>projectRecordValues\<close> of
  internal/storage/postgres/query.go, \<open>GetRecord\<close> of postgres/record.go, and \<open>Service.Query\<close> of
  internal/record/query.go, which plans the query, checks the cursor and signs the next one.  A transaction
  reads one snapshot, so the whole of it is a function of the database.
\<close>

section \<open>The store\<close>

record stored_query_page =
  qpg_items :: "rec list"
  qpg_more :: bool
  qpg_next :: "query_position option"
  qpg_sequence :: int
  qpg_total :: "int option"
  qpg_unfiltered :: "int option"
  qpg_selection :: "selection_result option"

definition project_record_values :: "string list \<Rightarrow> vals \<Rightarrow> vals" where
  "project_record_values projection values = fmfilter (\<lambda>k. List.member projection k) values"

definition project_record :: "string list \<Rightarrow> record_row \<Rightarrow> rec" where
  "project_record projection r = (rr_record r)\<lparr>rc_values := project_record_values projection (rc_values (rr_record r))\<rparr>"

text \<open>The condition of the query: with a scope, only its members; with a position, only the rows behind it.\<close>

definition query_where :: "env \<Rightarrow> string \<Rightarrow> query_plan \<Rightarrow> scope_row option \<Rightarrow> sql_text res" where
  "query_where E tableID plan selection =
     ok_then (build_record_where tableID plan) (\<lambda>w.
     Inr (case selection of None \<Rightarrow> w | Some c \<Rightarrow> text_and w [[IsMember (ss_members c)]]))"

definition position_where :: "env \<Rightarrow> sort_term list \<Rightarrow> query_position option \<Rightarrow> sql_text \<Rightarrow> sql_text res" where
  "position_where E terms position w =
     (case position of
        None \<Rightarrow> Inr w
      | Some p \<Rightarrow> ok_then (build_keyset_condition E terms p) (\<lambda>keyset. Inr (text_and w [[keyset]])))"

definition query_selection ::
  "env \<Rightarrow> string \<Rightarrow> string \<Rightarrow> query_plan \<Rightarrow> selection_page option \<Rightarrow> db \<Rightarrow> scope_row option res" where
  "query_selection E actor tableID plan page s =
     (case page of
        None \<Rightarrow> Inr None
      | Some p \<Rightarrow>
          ok_then (validate_selection E actor tableID p s) (\<lambda>c.
          ok_then (resolve_query_metadata actor tableID (sq_view (spg_query p)) s) (\<lambda>meta.
          ok_then (query_schema_hash (en_digest E) meta plan) (\<lambda>schema.
          fail_if (schema \<noteq> qp_schema_hash plan) CursorExpired (Inr (Some c))))))"

definition page_selection :: "selection_page option \<Rightarrow> scope_row option \<Rightarrow> int \<Rightarrow> rec list \<Rightarrow> selection_result option res" where
  "page_selection page selection sequence items =
     (case (page, selection) of
        (Some p, Some c) \<Rightarrow>
          fail_if (case spg_sequence p of None \<Rightarrow> False | Some n \<Rightarrow> n \<noteq> sequence) CursorExpired
         (ok_then (selectionResult c (spg_excluded p) (map rc_id items)) (\<lambda>r. Inr (Some r)))
      | _ \<Rightarrow> Inr None)"

definition QueryRecords ::
  "env \<Rightarrow> string \<Rightarrow> string \<Rightarrow> query_plan \<Rightarrow> selection_page option \<Rightarrow> query_position option \<Rightarrow> bool \<Rightarrow> db
     \<Rightarrow> stored_query_page res" where
  "QueryRecords E actor tableID plan page position includeTotal s =
     ok_then (lockless_active_table actor tableID s) (\<lambda>_.
     ok_then (query_selection E actor tableID plan page s) (\<lambda>selection.
     ok_then (query_where E tableID plan selection) (\<lambda>w.
     ok_then (build_sort_terms plan) (\<lambda>terms.
     ok_then (position_where E terms position w) (\<lambda>w'.
     let rows = order_rows E terms (filter (where_selects E w') (db_records s));
         (loaded, hasMore) = cut_page (nat (qp_limit plan)) rows;
         items = map (project_record (qp_projection plan)) loaded;
         sequence = change_tail tableID s
     in ok_then (page_selection page selection sequence items) (\<lambda>selected.
     Inr \<lparr>qpg_items = items, qpg_more = hasMore,
          qpg_next = (if hasMore then Some (row_position E terms (last loaded)) else None),
          qpg_sequence = sequence,
          qpg_total = (if includeTotal then Some (int (length (filter (where_selects E w) (db_records s)))) else None),
          qpg_unfiltered = (if includeTotal then Some (int (length (filter
             (\<lambda>r. rc_table (rr_record r) = tableID \<and> rc_deleted_at (rr_record r) = None) (db_records s)))) else None),
          qpg_selection = selected\<rparr>))))))"

text \<open>\<open>GetRecord\<close>: the record may be deleted, what it lives in may not.\<close>

definition GetRecord :: "string \<Rightarrow> string \<Rightarrow> db \<Rightarrow> rec res" where
  "GetRecord actor recordID s =
     (case find (\<lambda>r. rc_id (rr_record r) = recordID \<and> active_table_visible actor (rc_table (rr_record r)) s)
        (db_records s) of
        None \<Rightarrow> Inl NotFound
      | Some r \<Rightarrow> Inr (rr_record r))"

section \<open>The service\<close>

record query_cursor =
  qcp_sequence :: int
  qcp_scope :: string
  qcp_actor :: string
  qcp_table :: string
  qcp_fingerprint :: string
  qcp_schema :: string
  qcp_position :: query_position
  qcp_issued :: int
  qcp_expires :: int

record query_result =
  qrs_items :: "rec list"
  qrs_next :: string
  qrs_more :: bool
  qrs_change_cursor :: string
  qrs_total :: "int option"
  qrs_unfiltered :: "int option"
  qrs_selection :: "selection_result option"

definition query_selection_page ::
  "selection_token codec \<Rightarrow> string \<Rightarrow> instant \<Rightarrow> string \<Rightarrow> string \<Rightarrow> query_request \<Rightarrow> selection_page option res" where
  "query_selection_page T key0 now actor tableID request =
     (if qr_scope_token request \<noteq> [] then
        fail_if (qr_lifecycle request \<noteq> [] \<and> qr_lifecycle request \<noteq> ''active'')
          (NewValidationError [Issue ''/lifecycle'' ''format'' ''Selection requires active Records''])
       (ok_then (ValidateSelectionIDs (qr_excluded request) []) (\<lambda>_.
        ok_then (selectionToken T key0 now actor tableID (qr_scope_token request)) (\<lambda>token.
        Inr (Some \<lparr>spg_sequence = None, spg_token = token,
          spg_query = \<lparr>sq_view = qr_view request, sq_filter = qr_filter request,
                       sq_filter_present = qr_filter_present request, sq_search = qr_search request\<rparr>,
          spg_excluded = qr_excluded request, spg_now = now\<rparr>))))
      else fail_if (qr_excluded request \<noteq> [])
        (NewValidationError [required_query_issue ''/selectionScopeToken'' ''selectionScopeToken is required for exclusions''])
        (Inr None))"

definition scope_of_page :: "selection_page option \<Rightarrow> string" where
  "scope_of_page page = (case page of None \<Rightarrow> [] | Some p \<Rightarrow> stk_scope (spg_token p))"

definition query_start ::
  "query_cursor codec \<Rightarrow> string \<Rightarrow> instant \<Rightarrow> string \<Rightarrow> string \<Rightarrow> query_plan \<Rightarrow> string \<Rightarrow> selection_page option
     \<Rightarrow> (query_position option \<times> selection_page option) res" where
  "query_start Q key now actor tableID plan token page =
     (if token = [] then Inr (None, page)
      else (case cursor_decode Q key ''query'' token of
          None \<Rightarrow> Inl InvalidCursor
        | Some payload \<Rightarrow>
            fail_if (qcp_actor payload \<noteq> actor \<or> qcp_table payload \<noteq> tableID
                \<or> qcp_fingerprint payload \<noteq> qp_fingerprint plan \<or> qcp_scope payload \<noteq> scope_of_page page) InvalidCursor
           (fail_if (now div 1000000 \<ge> qcp_expires payload \<or> qcp_schema payload \<noteq> qp_schema_hash plan) CursorExpired
           (Inr (Some (qcp_position payload),
                 map_option (\<lambda>p. p\<lparr>spg_sequence := Some (qcp_sequence payload)\<rparr>) page)))))"

definition query_next ::
  "query_cursor codec \<Rightarrow> string \<Rightarrow> instant \<Rightarrow> string \<Rightarrow> string \<Rightarrow> query_plan \<Rightarrow> selection_page option \<Rightarrow> stored_query_page
     \<Rightarrow> string res" where
  "query_next Q key now actor tableID plan page stored =
     (if \<not> qpg_more stored then Inr []
      else (case qpg_next stored of
          None \<Rightarrow> Inl (Internal ''query store omitted the next keyset position'')
        | Some position \<Rightarrow>
            encode_cursor ''encode query cursor'' Q key ''query''
              \<lparr>qcp_sequence = (if page = None then 0 else qpg_sequence stored), qcp_scope = scope_of_page page,
               qcp_actor = actor, qcp_table = tableID, qcp_fingerprint = qp_fingerprint plan,
               qcp_schema = qp_schema_hash plan, qcp_position = position, qcp_issued = now div 1000000,
               qcp_expires = now div 1000000 + query_cursor_ttl\<rparr>))"

definition ServiceQuery ::
  "env \<Rightarrow> change_cursor codec \<Rightarrow> query_cursor codec \<Rightarrow> selection_token codec \<Rightarrow> string \<Rightarrow> instant \<Rightarrow>
     string \<Rightarrow> string \<Rightarrow> query_request \<Rightarrow> db \<Rightarrow> query_result res" where
  "ServiceQuery E C Q T key0 now actor tableID request s =
     fail_if (\<not> Valid TablePrefix tableID) (BadRequest ''/tableId has an invalid typed ID'')
    (fail_if (qr_view_present request \<and> \<not> Valid ViewPrefix (qr_view request))
       (NewValidationError [Issue ''/viewId'' ''format'' ''viewId must be a typed View ID''])
    (ok_then (query_selection_page T key0 now actor tableID request) (\<lambda>page0.
     ok_then (case page0 of
         Some p \<Rightarrow> ResolveSelectionQuery E actor tableID p s
       | None \<Rightarrow> ResolveQuery actor tableID (qr_view request) s) (\<lambda>meta.
     ok_then (build_query_plan (en_lib E) (en_digest E) request meta) (\<lambda>plan.
     ok_then (cursor_signer key0) (\<lambda>key.
     ok_then (query_start Q key now actor tableID plan (qr_cursor request) page0) (\<lambda>(position, page).
     ok_then (QueryRecords E actor tableID plan page position (qr_cursor request = []) s) (\<lambda>stored.
     ok_then (encode_cursor ''encode change cursor'' C key ''change''
        \<lparr>ccp_actor = actor, ccp_table = tableID, ccp_sequence = qpg_sequence stored\<rparr>) (\<lambda>changeCursor.
     ok_then (case qpg_selection stored of
         None \<Rightarrow> Inr None
       | Some r \<Rightarrow> ok_then (decorate_selection T key0 actor r) (\<lambda>r'. Inr (Some r'))) (\<lambda>selected.
     ok_then (query_next Q key now actor tableID plan page stored) (\<lambda>next.
     Inr \<lparr>qrs_items = qpg_items stored, qrs_next = next, qrs_more = qpg_more stored,
          qrs_change_cursor = changeCursor, qrs_total = qpg_total stored,
          qrs_unfiltered = qpg_unfiltered stored, qrs_selection = selected\<rparr>))))))))))) "

section \<open>The pages of a query\<close>

text \<open>
  The rows behind a cursor: all selected rows in order, or those the keyset condition keeps.
\<close>

definition query_rows :: "env \<times> sort_term list \<times> record_row list \<Rightarrow> query_position option \<Rightarrow> record_row list" where
  "query_rows x c =
     (case x of (E, terms, rows) \<Rightarrow>
       (case c of None \<Rightarrow> order_rows E terms rows
        | Some p \<Rightarrow> (case build_keyset_condition E terms p of Inl e \<Rightarrow> []
            | Inr k \<Rightarrow> order_rows E terms (filter (\<lambda>r. cond_eval E r k = Some True) rows))))"

definition cursor_of_row :: "env \<times> sort_term list \<times> record_row list \<Rightarrow> record_row \<Rightarrow> query_position option" where
  "cursor_of_row x r = (case x of (E, terms, rows) \<Rightarrow> Some (row_position E terms r))"

definition pageable :: "env \<times> sort_term list \<times> record_row list \<Rightarrow> bool" where
  "pageable x =
     (case x of (E, terms, rows) \<Rightarrow>
       (\<exists>plan. build_sort_terms plan = Inr terms) \<and> (\<forall>t. en_parse_time E (en_time_text E t) = Some t)
       \<and> distinct_ids rows \<and> (\<forall>r \<in> set rows. rc_id (rr_record r) \<noteq> []))"

definition query_position_good :: "env \<times> sort_term list \<times> record_row list \<Rightarrow> query_position option \<Rightarrow> bool" where
  "query_position_good x c = (pageable x \<and> (c = None \<or> (\<exists>r \<in> set (snd (snd x)). c = cursor_of_row x r)))"

lemma query_rows_after:
  assumes "pageable (E, terms, rows)" "r \<in> set rows"
  shows "query_rows (E, terms, rows) (cursor_of_row (E, terms, rows) r)
     = filter (row_before E (terms @ [id_term]) r) (order_rows E terms rows)"
proof -
  obtain plan where t: "build_sort_terms plan = Inr terms"
    and time: "\<forall>t. en_parse_time E (en_time_text E t) = Some t" and d: "distinct_ids rows"
    and r: "rc_id (rr_record r) \<noteq> []"
    using assms by (auto simp: pageable_def)
  obtain k where k: "build_keyset_condition E terms (row_position E terms r) = Inr k"
    and kr: "\<forall>x. cond_eval E x k = Some True \<longleftrightarrow> row_before E (terms @ [id_term]) r x"
    using keyset_selects[OF t time r] by blast
  show ?thesis using k kr by (simp add: query_rows_def cursor_of_row_def filter_order_rows[OF d])
qed

lemma query_rows_suffix:
  assumes "query_position_good x c"
  shows "\<exists>P. query_rows x c = filter P (query_rows x None) \<and> set (query_rows x c) \<subseteq> set (snd (snd x))"
proof -
  obtain E terms rows where x: "x = (E, terms, rows)" by (cases x)
  show ?thesis
  proof (cases c)
    case None
    then show ?thesis by (intro exI[of _ "\<lambda>_. True"]) (simp add: x query_rows_def)
  next
    case (Some p)
    then obtain r where r: "r \<in> set rows" "c = cursor_of_row x r"
      using assms by (auto simp: query_position_good_def x)
    then show ?thesis
      using query_rows_after[of E terms rows r] assms by (auto simp: query_position_good_def x query_rows_def)
  qed
qed

interpretation query_pages: keyed_rows query_rows cursor_of_row query_position_good
proof
  fix x c l
  assume g: "query_position_good x c" and ne: "take l (query_rows x c) \<noteq> []"
  obtain E terms rows where x: "x = (E, terms, rows)" by (cases x)
  let ?lt = "row_before E (terms @ [id_term])" and ?z = "last (take l (query_rows x c))"
  have p: "pageable (E, terms, rows)" using g by (simp add: query_position_good_def x)
  have so: "sorted_wrt ?lt (order_rows E terms rows)" using p by (intro order_rows_sorted) (simp add: pageable_def)
  obtain P where P: "query_rows x c = filter P (order_rows E terms rows)" "set (query_rows x c) \<subseteq> set rows"
    using query_rows_suffix[OF g] by (auto simp: x query_rows_def)
  have z: "?z \<in> set (query_rows x c)" using last_take_in[OF ne] .
  then have zr: "?z \<in> set rows" using P(2) by blast
  have s: "sorted_wrt ?lt (query_rows x c)" unfolding P(1) by (rule sorted_wrt_filter[OF so])
  have "filter (?lt ?z) (order_rows E terms rows) = filter (?lt ?z) (query_rows x c)"
  proof (cases c)
    case None
    then show ?thesis by (simp add: x query_rows_def)
  next
    case (Some pos)
    then obtain r where r: "r \<in> set rows" "c = cursor_of_row x r" using g by (auto simp: query_position_good_def x)
    have q: "query_rows x c = filter (?lt r) (order_rows E terms rows)"
      using query_rows_after[OF p r(1)] r(2) by (simp add: x)
    then have "?lt r ?z" using z by simp
    then have tr: "?lt ?z y \<Longrightarrow> ?lt r y" for y by (rule row_before_trans)
    have "filter (?lt ?z) (filter (?lt r) xs) = filter (?lt ?z) xs" for xs
      unfolding filter_filter using tr by (intro filter_cong[OF refl]) blast
    then show ?thesis unfolding q by simp
  qed
  also have "\<dots> = drop l (query_rows x c)" by (rule filter_after_last[OF s row_before_asym ne])
  finally show "query_rows x (cursor_of_row x ?z) = drop l (query_rows x c)"
    using query_rows_after[OF p zr] by (simp add: x)
next
  fix x c r
  assume g: "query_position_good x c" and r: "r \<in> set (query_rows x c)"
  then have "r \<in> set (snd (snd x))" using query_rows_suffix by blast
  then show "query_position_good x (cursor_of_row x r)" using g by (auto simp: query_position_good_def)
qed

text \<open>A client that asks for the next page until there is none; \<open>fuel\<close> bounds the number of requests.\<close>

fun follow_query ::
  "nat \<Rightarrow> env \<Rightarrow> string \<Rightarrow> string \<Rightarrow> query_plan \<Rightarrow> query_position option \<Rightarrow> db \<Rightarrow> rec list res" where
  "follow_query 0 E actor tableID plan position s = Inl (Internal ''too many pages'')"
| "follow_query (Suc fuel) E actor tableID plan position s =
     ok_then (QueryRecords E actor tableID plan None position False s) (\<lambda>page.
       if qpg_more page
       then ok_then (follow_query fuel E actor tableID plan (qpg_next page) s) (\<lambda>rest. Inr (qpg_items page @ rest))
       else Inr (qpg_items page))"

lemma where_and_keyset:
  "filter (where_selects E (text_and [cs] [[k]])) rows
     = filter (\<lambda>r. cond_eval E r k = Some True) (filter (where_selects E [cs]) rows)"
  unfolding filter_filter
  by (rule filter_cong[OF refl]) (auto simp: where_selects_def text_eval_True text_and_def)

lemma position_rows:
  assumes g: "query_position_good (E, terms, filter (where_selects E [cs]) records) position"
  shows "\<exists>w'. position_where E terms position [cs] = Inr w'
     \<and> order_rows E terms (filter (where_selects E w') records)
       = query_rows (E, terms, filter (where_selects E [cs]) records) position"
proof (cases position)
  case None
  then show ?thesis by (simp add: position_where_def query_rows_def)
next
  case (Some p)
  then obtain r where r: "r \<in> set records" "position = Some (row_position E terms r)"
    using g by (auto simp: query_position_good_def cursor_of_row_def)
  obtain plan where t: "build_sort_terms plan = Inr terms" "\<forall>t. en_parse_time E (en_time_text E t) = Some t"
    "rc_id (rr_record r) \<noteq> []"
    using g r Some by (auto simp: query_position_good_def pageable_def cursor_of_row_def)
      (metis (mono_tags, lifting) row_position_def query_position.select_convs(2))
  obtain k where "build_keyset_condition E terms (row_position E terms r) = Inr k"
    using keyset_selects[OF t] by blast
  then show ?thesis using r(2) by (simp add: position_where_def query_rows_def where_and_keyset)
qed

lemma QueryRecords_page:
  assumes vis: "active_table_visible actor tableID s"
    and w: "build_record_where tableID plan = Inr [cs]" and t: "build_sort_terms plan = Inr terms"
    and g: "query_position_good (E, terms, filter (where_selects E [cs]) (db_records s)) position"
    and p: "keyed_page (query_rows (E, terms, filter (where_selects E [cs]) (db_records s)))
      (cursor_of_row (E, terms, filter (where_selects E [cs]) (db_records s))) (nat (qp_limit plan)) position = (items, c', m)"
    and l: "1 \<le> qp_limit plan"
  shows "\<exists>page. QueryRecords E actor tableID plan None position False s = Inr page
     \<and> qpg_items page = map (project_record (qp_projection plan)) items \<and> qpg_more page = m
     \<and> (m \<longrightarrow> qpg_next page = c')"
proof -
  let ?x = "(E, terms, filter (where_selects E [cs]) (db_records s))"
  obtain w' where w': "position_where E terms position [cs] = Inr w'"
    "order_rows E terms (filter (where_selects E w') (db_records s)) = query_rows ?x position"
    using position_rows[OF g] by blast
  have c: "cut_page (nat (qp_limit plan)) (query_rows ?x position) = (items, m)"
    using p by (simp add: keyed_page_eq cut_page_eq)
  have "m \<Longrightarrow> items \<noteq> []" using p l by (auto simp: keyed_page_eq)
  then have n: "m \<Longrightarrow> c' = Some (row_position E terms (last items))"
    using p by (auto simp: keyed_page_eq cursor_of_row_def)
  show ?thesis
    using vis w t w' c n
    by (auto simp: QueryRecords_def lockless_active_table_def query_selection_def query_where_def page_selection_def)
qed

lemma follow_query_collect:
  fixes E :: env
  assumes vis: "active_table_visible actor tableID s"
    and w: "build_record_where tableID plan = Inr [cs]" and t: "build_sort_terms plan = Inr terms"
    and l: "qp_limit plan = int (Suc n)"
  defines "x \<equiv> (E, terms, filter (where_selects E [cs]) (db_records s))"
  shows "query_position_good x position \<Longrightarrow>
     collect_pages (keyed_page (query_rows x) (cursor_of_row x) (Suc n)) fuel position = Some rows \<Longrightarrow>
     follow_query fuel E actor tableID plan position s = Inr (map (project_record (qp_projection plan)) rows)"
proof (induction fuel arbitrary: position rows)
  case 0
  then show ?case by simp
next
  case (Suc fuel)
  obtain items c' m where p: "keyed_page (query_rows x) (cursor_of_row x) (Suc n) position = (items, c', m)"
    by (cases "keyed_page (query_rows x) (cursor_of_row x) (Suc n) position")
  have p': "keyed_page (query_rows x) (cursor_of_row x) (nat (qp_limit plan)) position = (items, c', m)"
    using p l by (simp add: nat_add_distrib)
  have "1 \<le> qp_limit plan" using l by simp
  then obtain page where pg: "QueryRecords E actor tableID plan None position False s = Inr page"
    "qpg_items page = map (project_record (qp_projection plan)) items" "qpg_more page = m" "m \<longrightarrow> qpg_next page = c'"
    using QueryRecords_page[OF vis w t, of E position items c' m] Suc.prems(1) p' unfolding x_def by blast
  have g': "query_position_good x c'" by (rule query_pages.next_good[OF Suc.prems(1) p])
  show ?case
  proof (cases m)
    case True
    then obtain rest where "collect_pages (keyed_page (query_rows x) (cursor_of_row x) (Suc n)) fuel c' = Some rest"
      "rows = items @ rest" using Suc.prems(2) p by auto
    then show ?thesis using Suc.IH[OF g'] pg True by simp
  next
    case False
    then show ?thesis using Suc.prems(2) p pg by simp
  qed
qed


section \<open>A small Table, one record a page\<close>

definition read_row :: "string \<Rightarrow> string \<Rightarrow> record_row" where
  "read_row i s = (let r = name_row sample_table s None in r\<lparr>rr_record := (rr_record r)\<lparr>rc_id := i\<rparr>\<rparr>)"

definition read_db :: db where
  "read_db = sample_db\<lparr>db_records := [read_row ''1'' ''a'', read_row ''2'' ''b'', read_row ''3'' ''b'']\<rparr>"

definition read_plan :: query_plan where
  "read_plan = sorted_plan\<lparr>qp_limit := 1\<rparr>"

lemma read_plan_terms: "build_sort_terms read_plan = Inr sorted_terms"
proof -
  have "build_sort_terms read_plan = build_sort_terms sorted_plan" by (simp add: build_sort_terms_def read_plan_def)
  then show ?thesis by (rule trans) (rule sorted_terms)
qed


end
