(* ===== verification/Catalog.thy ===== *)
theory Catalog
  imports Selection
begin

text \<open>
  Workspaces, Bases and Tables: internal/storage/postgres/catalog.go and table.go.

  A transaction that updates a row finds it as the Actor may see it, compares its revision with the
  one the request expects, returns the row as it is when nothing would change, and otherwise writes
  the row with the next revision.  \<open>RETURNING\<close> gives the row the statement wrote; the row was found by
  its primary key.
\<close>

section \<open>Limits and receipts\<close>

definition WorkspaceLimitPerActor :: int where "WorkspaceLimitPerActor = 100"
definition BaseLimitPerWorkspace :: int where "BaseLimitPerWorkspace = 500"
definition TableLimitPerBase :: int where "TableLimitPerBase = 500"

text \<open>\<open>json.Unmarshal\<close> of a stored response into the type of the request.\<close>

definition as_workspace :: "receipt \<Rightarrow> workspace option" where
  "as_workspace r = (case r of WorkspaceReceipt w \<Rightarrow> Some w | _ \<Rightarrow> None)"

definition as_base :: "receipt \<Rightarrow> base option" where
  "as_base r = (case r of BaseReceipt b \<Rightarrow> Some b | _ \<Rightarrow> None)"

definition as_table :: "receipt \<Rightarrow> create_table_result option" where
  "as_table r = (case r of TableReceipt t \<Rightarrow> Some t | _ \<Rightarrow> None)"

definition count_rows :: "('r \<Rightarrow> bool) \<Rightarrow> 'r list \<Rightarrow> int" where
  "count_rows p rows = int (length (filter p rows))"

text \<open>Every \<open>check...Revision\<close>, and the same test written out in catalog.go.\<close>

definition check_revision :: "string \<Rightarrow> string \<Rightarrow> int \<Rightarrow> int \<Rightarrow> unit res" where
  "check_revision resource i expected current =
     (if current = expected then Inr () else Inl (RevisionConflict resource i expected current))"

lemma check_revision_Inr [simp]: "check_revision resource i expected current = Inr u \<longleftrightarrow> current = expected"
  by (simp add: check_revision_def)

section \<open>Workspaces\<close>

abbreviation workspace_id :: "workspace_row \<Rightarrow> string" where
  "workspace_id r \<equiv> ws_id (wr_workspace r)"

definition ListWorkspaces :: "string \<Rightarrow> db \<Rightarrow> workspace list" where
  "ListWorkspaces actor s =
     sort_key (\<lambda>w. (ws_created_at w, ws_id w))
       (map wr_workspace (filter (\<lambda>r. wr_actor r = actor \<and> wr_deleted_at r = None) (db_workspaces s)))"

definition GetWorkspace :: "string \<Rightarrow> string \<Rightarrow> db \<Rightarrow> workspace res" where
  "GetWorkspace actor wid s =
     (case find_workspace actor wid s of None \<Rightarrow> Inl NotFound | Some r \<Rightarrow> Inr (wr_workspace r))"

definition CreateWorkspace :: "env \<Rightarrow> string \<Rightarrow> string \<Rightarrow> string \<Rightarrow> workspace \<Rightarrow> workspace tx" where
  "CreateWorkspace E actor key fingerprint proposed =
     idempotent E as_workspace actor key fingerprint (\<lambda>s.
       fail_if (count_rows (\<lambda>r. wr_actor r = actor) (db_workspaces s) \<ge> WorkspaceLimitPerActor)
         (ResourceLimit ''workspace'' ''actor'' actor WorkspaceLimitPerActor)
      (let created = \<lparr>ws_id = ws_id proposed, ws_name = ws_name proposed, ws_revision = 1,
                      ws_created_at = db_now s, ws_updated_at = db_now s\<rparr> in
       ok_then (insert_row ''insert workspace'' workspace_id
                 \<lparr>wr_workspace = created, wr_actor = actor, wr_deleted_at = None\<rparr> (db_workspaces s)) (\<lambda>rows.
       ok_then (save_idempotent actor key fingerprint (WorkspaceReceipt created) (s\<lparr>db_workspaces := rows\<rparr>))
         (\<lambda>(_, s). Inr (created, s)))))"

definition rename_workspace :: "string \<Rightarrow> instant \<Rightarrow> workspace_row \<Rightarrow> workspace_row" where
  "rename_workspace name now r =
     r\<lparr>wr_workspace := (wr_workspace r)\<lparr>ws_name := name, ws_revision := ws_revision (wr_workspace r) + 1,
                                     ws_updated_at := now\<rparr>\<rparr>"

definition UpdateWorkspace :: "env \<Rightarrow> string \<Rightarrow> string \<Rightarrow> int \<Rightarrow> string \<Rightarrow> workspace tx" where
  "UpdateWorkspace E actor wid expected name s =
     ok_then (begin_audit E actor s) (\<lambda>(_, s).
       case find_workspace actor wid s of
         None \<Rightarrow> Inl NotFound
       | Some current \<Rightarrow>
           ok_then (check_revision ''workspace'' wid expected (ws_revision (wr_workspace current))) (\<lambda>_.
           if ws_name (wr_workspace current) = name then Inr (wr_workspace current, s)
           else Inr (wr_workspace (rename_workspace name (db_now s) current),
                     s\<lparr>db_workspaces := update_where (\<lambda>r. workspace_id r = wid)
                         (rename_workspace name (db_now s)) (db_workspaces s)\<rparr>)))"

section \<open>Bases\<close>

abbreviation base_id :: "base_row \<Rightarrow> string" where
  "base_id r \<equiv> bs_id (br_base r)"

definition ListBases :: "string \<Rightarrow> string \<Rightarrow> db \<Rightarrow> base list res" where
  "ListBases actor wid s =
     (if find_workspace actor wid s = None then Inl NotFound
      else Inr (sort_key (\<lambda>b. (bs_created_at b, bs_id b))
        (map br_base (filter (\<lambda>r. bs_workspace (br_base r) = wid \<and> br_deleted_at r = None) (db_bases s)))))"

definition GetBase :: "string \<Rightarrow> string \<Rightarrow> db \<Rightarrow> base res" where
  "GetBase actor bid s =
     (case find_base actor bid s of None \<Rightarrow> Inl NotFound | Some r \<Rightarrow> Inr (br_base r))"

definition CreateBase :: "env \<Rightarrow> string \<Rightarrow> string \<Rightarrow> string \<Rightarrow> base \<Rightarrow> base tx" where
  "CreateBase E actor key fingerprint proposed =
     idempotent E as_base actor key fingerprint (\<lambda>s.
       case find_workspace actor (bs_workspace proposed) s of
         None \<Rightarrow> Inl NotFound
       | Some w \<Rightarrow>
           fail_if (count_rows (\<lambda>r. bs_workspace (br_base r) = workspace_id w) (db_bases s) \<ge> BaseLimitPerWorkspace)
             (ResourceLimit ''base'' ''workspace'' (workspace_id w) BaseLimitPerWorkspace)
          (let created = \<lparr>bs_id = bs_id proposed, bs_workspace = workspace_id w, bs_name = bs_name proposed,
                          bs_revision = 1, bs_created_at = db_now s, bs_updated_at = db_now s\<rparr> in
           ok_then (insert_row ''insert base'' base_id \<lparr>br_base = created, br_deleted_at = None\<rparr> (db_bases s)) (\<lambda>rows.
           ok_then (save_idempotent actor key fingerprint (BaseReceipt created) (s\<lparr>db_bases := rows\<rparr>))
             (\<lambda>(_, s). Inr (created, s)))))"

definition rename_base :: "string \<Rightarrow> instant \<Rightarrow> base_row \<Rightarrow> base_row" where
  "rename_base name now r =
     r\<lparr>br_base := (br_base r)\<lparr>bs_name := name, bs_revision := bs_revision (br_base r) + 1, bs_updated_at := now\<rparr>\<rparr>"

definition UpdateBase :: "env \<Rightarrow> string \<Rightarrow> string \<Rightarrow> int \<Rightarrow> string \<Rightarrow> base tx" where
  "UpdateBase E actor bid expected name s =
     ok_then (begin_audit E actor s) (\<lambda>(_, s).
       case find_base actor bid s of
         None \<Rightarrow> Inl NotFound
       | Some current \<Rightarrow>
           ok_then (check_revision ''base'' bid expected (bs_revision (br_base current))) (\<lambda>_.
           if bs_name (br_base current) = name then Inr (br_base current, s)
           else Inr (br_base (rename_base name (db_now s) current),
                     s\<lparr>db_bases := update_where (\<lambda>r. base_id r = bid) (rename_base name (db_now s)) (db_bases s)\<rparr>)))"

section \<open>Tables\<close>

abbreviation table_id :: "table_row \<Rightarrow> string" where
  "table_id r \<equiv> tb_id (tr_table r)"

abbreviation field_id :: "field_row \<Rightarrow> string" where
  "field_id r \<equiv> fd_id (fr_field r)"

definition ListTables :: "string \<Rightarrow> string \<Rightarrow> string \<Rightarrow> db \<Rightarrow> tbl list res" where
  "ListTables actor bid lifecycle s =
     ok_then (lifecycle_condition lifecycle) (\<lambda>condition.
     if find_base actor bid s = None then Inl NotFound
     else Inr (sort_key (\<lambda>t. (tb_created_at t, tb_id t))
       (filter (\<lambda>t. tb_base t = bid \<and> condition (tb_deleted_at t)) (map tr_table (db_tables s)))))"

definition GetTable :: "string \<Rightarrow> string \<Rightarrow> db \<Rightarrow> tbl res" where
  "GetTable actor tid s =
     (case find_table actor tid s of None \<Rightarrow> Inl NotFound | Some r \<Rightarrow> Inr (tr_table r))"

text \<open>\<open>INSERT INTO views\<close> with the trigger it fires.\<close>

definition insert_view :: "string \<Rightarrow> view \<Rightarrow> db \<Rightarrow> db res" where
  "insert_view what v s =
     ok_then (insert_row what vw_id v (db_views s)) (\<lambda>rows. Inr (maintain_view_order v (s\<lparr>db_views := rows\<rparr>)))"

text \<open>The primary Field is stored with the description and the deletion time its columns default to.\<close>

definition CreateTable ::
  "env \<Rightarrow> string \<Rightarrow> string \<Rightarrow> string \<Rightarrow> create_table_result \<Rightarrow> create_table_result tx" where
  "CreateTable E actor key fingerprint proposed =
     idempotent E as_table actor key fingerprint (\<lambda>s.
       case find_base actor (tb_base (ct_table proposed)) s of
         None \<Rightarrow> Inl NotFound
       | Some b \<Rightarrow>
           fail_if (count_rows (\<lambda>r. tb_base (tr_table r) = base_id b) (db_tables s) \<ge> TableLimitPerBase)
             (ResourceLimit ''table'' ''base'' (base_id b) TableLimitPerBase)
          (let t = \<lparr>tb_id = tb_id (ct_table proposed), tb_base = base_id b, tb_name = tb_name (ct_table proposed),
                    tb_primary_field = tb_primary_field (ct_table proposed), tb_revision = 1,
                    tb_created_at = db_now s, tb_updated_at = db_now s, tb_deleted_at = None\<rparr>;
               f = (ct_field proposed)\<lparr>fd_table := tb_id t, fd_description := [], fd_revision := 1, fd_deleted_at := None\<rparr>;
               v = (ct_view proposed)\<lparr>vw_created_at := db_now s, vw_updated_at := db_now s\<rparr>;
               stored = v\<lparr>vw_table := tb_id t, vw_revision := 1, vw_deleted_at := None\<rparr>;
               created = \<lparr>ct_table = t, ct_field = ct_field proposed, ct_view = v\<rparr> in
           ok_then (insert_row ''insert table'' table_id \<lparr>tr_table = t, tr_order_revision = 1, tr_order = []\<rparr>
                     (db_tables s)) (\<lambda>tables.
           ok_then (insert_row ''insert primary field'' field_id \<lparr>fr_field = f, fr_primary = True\<rparr>
                     (db_fields s)) (\<lambda>fields.
           ok_then (insert_view ''insert initial view'' stored
                     (s\<lparr>db_tables := tables, db_fields := fields\<rparr>)) (\<lambda>s.
           ok_then (save_idempotent actor key fingerprint (TableReceipt created) s)
             (\<lambda>(_, s). Inr (created, s)))))))"

definition lockAccessibleTable :: "string \<Rightarrow> string \<Rightarrow> db \<Rightarrow> table_row res" where
  "lockAccessibleTable actor tid s =
     (case find_table actor tid s of None \<Rightarrow> Inl NotFound | Some r \<Rightarrow> Inr r)"

definition checkTableRevision :: "tbl \<Rightarrow> int \<Rightarrow> unit res" where
  "checkTableRevision current expected = check_revision ''table'' (tb_id current) expected (tb_revision current)"

text \<open>\<open>UPDATE tables SET ..., revision = revision + 1, updated_at = clock_timestamp()\<close>.\<close>

definition revise_table :: "(tbl \<Rightarrow> tbl) \<Rightarrow> instant \<Rightarrow> tbl \<Rightarrow> tbl" where
  "revise_table set_columns now t = (set_columns t)\<lparr>tb_revision := tb_revision t + 1, tb_updated_at := now\<rparr>"

definition write_table :: "env \<Rightarrow> string \<Rightarrow> (tbl \<Rightarrow> tbl) \<Rightarrow> table_row \<Rightarrow> tbl tx" where
  "write_table E actor set_columns current s =
     (let revise = revise_table set_columns (db_now s); updated = revise (tr_table current) in
      ok_then (insert_table_change E actor updated ''schemaChanged''
                (s\<lparr>db_tables := update_where (\<lambda>r. table_id r = table_id current)
                    (\<lambda>r. r\<lparr>tr_table := revise (tr_table r)\<rparr>) (db_tables s)\<rparr>))
        (\<lambda>(_, s). Inr (updated, s)))"

definition UpdateTable :: "env \<Rightarrow> string \<Rightarrow> string \<Rightarrow> int \<Rightarrow> string \<Rightarrow> tbl tx" where
  "UpdateTable E actor tid expected name s =
     ok_then (begin_audit E actor s) (\<lambda>(_, s).
     ok_then (lockAccessibleTable actor tid s) (\<lambda>current.
     ok_then (checkTableRevision (tr_table current) expected) (\<lambda>_.
     fail_if (tb_deleted_at (tr_table current) \<noteq> None)
       (InvalidStateTransition ''table'' tid ''update'' ''deleted'')
    (if tb_name (tr_table current) = name then Inr (tr_table current, s)
     else write_table E actor (tb_name_update (\<lambda>_. name)) current s))))"

definition DeleteTable :: "env \<Rightarrow> string \<Rightarrow> string \<Rightarrow> int \<Rightarrow> unit tx" where
  "DeleteTable E actor tid expected s =
     ok_then (begin_audit E actor s) (\<lambda>(_, s).
     ok_then (lockAccessibleTable actor tid s) (\<lambda>current.
     ok_then (checkTableRevision (tr_table current) expected) (\<lambda>_.
     fail_if (tb_deleted_at (tr_table current) \<noteq> None)
       (InvalidStateTransition ''table'' tid ''delete'' ''deleted'')
    (ok_then (write_table E actor (tb_deleted_at_update (\<lambda>_. Some (db_now s))) current s)
       (\<lambda>(_, s). Inr ((), s))))))"

definition RestoreTable :: "env \<Rightarrow> string \<Rightarrow> string \<Rightarrow> int \<Rightarrow> tbl tx" where
  "RestoreTable E actor tid expected s =
     ok_then (begin_audit E actor s) (\<lambda>(_, s).
     ok_then (lockAccessibleTable actor tid s) (\<lambda>current.
     ok_then (checkTableRevision (tr_table current) expected) (\<lambda>_.
     fail_if (tb_deleted_at (tr_table current) = None)
       (InvalidStateTransition ''table'' tid ''restore'' ''active'')
    (write_table E actor (tb_deleted_at_update (\<lambda>_. None)) current s))))"

end
