(* ===== verification/ViewStore.thy ===== *)
theory ViewStore
  imports Catalog
begin

text \<open>
  Views and their order: internal/storage/postgres/view.go and view_order.go.  The order of a Table's
  Views is a column of its row; the trigger of migrations/008_view_order.sql keeps it when a View
  appears or disappears, \<open>ReorderViews\<close> permutes it.  \<open>same_config\<close> stands for \<open>reflect.DeepEqual\<close> on two
  configurations: it compares the bytes of the filter's raw values, so it may tell configurations
  apart that hold the same values, and the state only has the values.
\<close>

section \<open>Reading\<close>

definition ViewLimitPerTable :: int where "ViewLimitPerTable = 100"

definition decodeViewConfig :: "string \<Rightarrow> view_config \<Rightarrow> view_config res" where
  "decodeViewConfig viewType raw =
     (if viewType = ''grid''
      then Inr (case raw of GridConfig g \<Rightarrow> GridConfig g
        | MapConfig m \<Rightarrow> GridConfig \<lparr>gc_projection = [], gc_column_order = [], gc_column_widths = fmempty,
            gc_frozen = [], gc_row_height = [], gc_filter = mc_filter m, gc_sort = [], gc_manual_sort = False\<rparr>)
      else if viewType = ''map''
      then Inr (case raw of MapConfig m \<Rightarrow> MapConfig m
        | GridConfig g \<Rightarrow> MapConfig \<lparr>mc_location_field = [], mc_filter = gc_filter g, mc_center = None, mc_zoom = None\<rparr>)
      else Inl (Internal ''unsupported persisted View type''))"

definition scanView :: "view \<Rightarrow> view res" where
  "scanView v = ok_then (decodeViewConfig (vw_type v) (vw_config v)) (\<lambda>c. Inr (v\<lparr>vw_config := c\<rparr>))"

definition GetView :: "string \<Rightarrow> string \<Rightarrow> db \<Rightarrow> view res" where
  "GetView actor viewID s = (case find_view actor viewID s of None \<Rightarrow> Inl NotFound | Some v \<Rightarrow> scanView v)"

definition readViewOrder :: "string \<Rightarrow> db \<Rightarrow> view_order res" where
  "readViewOrder tableID s =
     (case find (\<lambda>r. table_id r = tableID) (db_tables s) of
        None \<Rightarrow> Inl (Internal ''read View Order'')
      | Some r \<Rightarrow> Inr \<lparr>vo_table = tableID, vo_revision = tr_order_revision r, vo_views = tr_order r\<rparr>)"

text \<open>The active Views in the order of the Table; every member is taken out of the map once.\<close>

fun place_views :: "string list \<Rightarrow> (string, view) fmap \<Rightarrow> view list res" where
  "place_views [] byID = Inr []"
| "place_views (i # is) byID =
     (case fmlookup byID i of
        None \<Rightarrow> Inl (Internal ''invalid stored View Order member'')
      | Some v \<Rightarrow> ok_then (place_views is (fmdrop i byID)) (\<lambda>vs. Inr (v # vs)))"

definition ordered_views :: "view_order \<Rightarrow> view list \<Rightarrow> view list res" where
  "ordered_views order items =
     fail_if (length (vo_views order) \<noteq> length items)
       (Internal ''View Order membership does not match active Views'')
    (place_views (vo_views order) (fold (\<lambda>v m. fmupd (vw_id v) v m) items fmempty))"

definition ListViewsSnapshot :: "string \<Rightarrow> string \<Rightarrow> string \<Rightarrow> db \<Rightarrow> (view list \<times> view_order) res" where
  "ListViewsSnapshot actor tableID lifecycle s =
     ok_then (lifecycle_condition lifecycle) (\<lambda>condition.
     fail_if (\<not> active_table_visible actor tableID s) NotFound
    (ok_then (readViewOrder tableID s) (\<lambda>order.
     ok_then (each_ok scanView (sort_key (\<lambda>v. (vw_created_at v, vw_id v))
        (filter (\<lambda>v. vw_table v = tableID \<and> condition (vw_deleted_at v)) (db_views s)))) (\<lambda>items.
     ok_then (if lifecycle = ''active'' then ordered_views order items else Inr items) (\<lambda>items.
     Inr (items, order))))))"

definition ListViews :: "string \<Rightarrow> string \<Rightarrow> string \<Rightarrow> db \<Rightarrow> view list res" where
  "ListViews actor tableID lifecycle s =
     ok_then (ListViewsSnapshot actor tableID lifecycle s) (\<lambda>(items, _). Inr items)"

section \<open>Creating\<close>

definition as_view :: "receipt \<Rightarrow> view option" where
  "as_view r = (case r of ViewReceipt v \<Rightarrow> Some v | _ \<Rightarrow> None)"

definition CreateView :: "env \<Rightarrow> string \<Rightarrow> string \<Rightarrow> string \<Rightarrow> view \<Rightarrow> view tx" where
  "CreateView E actor key fingerprint proposed =
     idempotent E as_view actor key fingerprint (\<lambda>s.
       ok_then (lock_active_table actor (vw_table proposed) s) (\<lambda>_.
       fail_if (count_rows (\<lambda>v. vw_table v = vw_table proposed) (db_views s) \<ge> ViewLimitPerTable)
         (ResourceLimit ''view'' ''table'' (vw_table proposed) ViewLimitPerTable)
      (let v = proposed\<lparr>vw_default := False, vw_revision := 1, vw_created_at := db_now s,
                        vw_updated_at := db_now s, vw_deleted_at := None\<rparr> in
       ok_then (insert_view ''insert view'' v s) (\<lambda>s.
       ok_then (scanView v) (\<lambda>created.
       ok_then (insert_metadata_change E actor ''viewChanged'' (vw_table created) (vw_id created)
                 (vw_revision created) s) (\<lambda>(_, s).
       ok_then (invalidate_selections E actor (vw_table created) [] s) (\<lambda>s.
       ok_then (save_idempotent actor key fingerprint (ViewReceipt created) s)
         (\<lambda>(_, s). Inr (created, s)))))))))"

section \<open>Updating\<close>

definition lockAccessibleView :: "string \<Rightarrow> string \<Rightarrow> db \<Rightarrow> view res" where
  "lockAccessibleView actor viewID s =
     (case find_view actor viewID s of
        None \<Rightarrow> Inl NotFound
      | Some parent \<Rightarrow>
          ok_then (lock_active_table actor (vw_table parent) s) (\<lambda>_.
          case find_view actor viewID s of None \<Rightarrow> Inl NotFound | Some v \<Rightarrow> scanView v))"

definition checkViewRevision :: "view \<Rightarrow> int \<Rightarrow> unit res" where
  "checkViewRevision current expected = check_revision ''view'' (vw_id current) expected (vw_revision current)"

definition revise_view :: "(view \<Rightarrow> view) \<Rightarrow> instant \<Rightarrow> view \<Rightarrow> view" where
  "revise_view set_columns now v = (set_columns v)\<lparr>vw_revision := vw_revision v + 1, vw_updated_at := now\<rparr>"

text \<open>
  \<open>UPDATE views ... WHERE id = viewID RETURNING\<close>, its trigger when it sets \<open>deleted_at\<close> from or to
  \<open>NULL\<close>, the change and the selections.
\<close>

definition trigger_view_order :: "view \<Rightarrow> view \<Rightarrow> db \<Rightarrow> db" where
  "trigger_view_order old new s =
     (if (vw_deleted_at old = None) = (vw_deleted_at new = None) then s else maintain_view_order new s)"

definition log_view :: "env \<Rightarrow> string \<Rightarrow> view \<Rightarrow> view tx" where
  "log_view E actor updated s =
     ok_then (insert_metadata_change E actor ''viewChanged'' (vw_table updated) (vw_id updated)
               (vw_revision updated) s) (\<lambda>(_, s).
     ok_then (invalidate_selections E actor (vw_table updated) [] s) (\<lambda>s. Inr (updated, s)))"

definition write_view :: "env \<Rightarrow> string \<Rightarrow> (view \<Rightarrow> view) \<Rightarrow> string \<Rightarrow> view tx" where
  "write_view E actor set_columns viewID s =
     (case find (\<lambda>v. vw_id v = viewID) (db_views s) of
        None \<Rightarrow> Inl (Internal ''update view'')
      | Some old \<Rightarrow>
          let new = revise_view set_columns (db_now s) old in
          ok_then (scanView new) (\<lambda>updated.
          log_view E actor updated (trigger_view_order old new
            (s\<lparr>db_views := update_where (\<lambda>v. vw_id v = viewID) (revise_view set_columns (db_now s)) (db_views s)\<rparr>))))"

definition view_columns :: "view \<Rightarrow> view \<Rightarrow> view" where
  "view_columns target v = v\<lparr>vw_name := vw_name target, vw_config := vw_config target\<rparr>"

definition UpdateView ::
  "env \<Rightarrow> (view_config \<Rightarrow> view_config \<Rightarrow> bool) \<Rightarrow> string \<Rightarrow> string \<Rightarrow> int \<Rightarrow> view \<Rightarrow> view tx" where
  "UpdateView E same_config actor viewID expected target s =
     ok_then (begin_audit E actor s) (\<lambda>(_, s).
     ok_then (lockAccessibleView actor viewID s) (\<lambda>current.
     ok_then (checkViewRevision current expected) (\<lambda>_.
     fail_if (vw_deleted_at current \<noteq> None) (InvalidStateTransition ''view'' viewID ''update'' ''deleted'')
    (fail_if (vw_type current \<noteq> vw_type target)
       (NewValidationError [Issue ''/type'' ''format'' ''View type is immutable in P0''])
    (if vw_name current = vw_name target \<and> same_config (vw_config current) (vw_config target)
     then Inr (current, s)
     else write_view E actor (view_columns target) viewID s)))))"

definition DeleteView :: "env \<Rightarrow> string \<Rightarrow> string \<Rightarrow> int \<Rightarrow> unit tx" where
  "DeleteView E actor viewID expected s =
     ok_then (begin_audit E actor s) (\<lambda>(_, s).
     ok_then (lockAccessibleView actor viewID s) (\<lambda>current.
     ok_then (checkViewRevision current expected) (\<lambda>_.
     fail_if (vw_deleted_at current \<noteq> None) (InvalidStateTransition ''view'' viewID ''delete'' ''deleted'')
    (ok_then (write_view E actor (vw_deleted_at_update (\<lambda>_. Some (db_now s))) viewID s) (\<lambda>(_, s). Inr ((), s))))))"

definition restored_columns :: "view \<Rightarrow> view" where
  "restored_columns v = v\<lparr>vw_deleted_at := None, vw_default := False\<rparr>"

definition RestoreView :: "env \<Rightarrow> string \<Rightarrow> string \<Rightarrow> int \<Rightarrow> view tx" where
  "RestoreView E actor viewID expected s =
     ok_then (begin_audit E actor s) (\<lambda>(_, s).
     ok_then (lockAccessibleView actor viewID s) (\<lambda>current.
     ok_then (checkViewRevision current expected) (\<lambda>_.
     fail_if (vw_deleted_at current = None) (InvalidStateTransition ''view'' viewID ''restore'' ''active'')
    (write_view E actor restored_columns viewID s))))"

section \<open>The default View\<close>

definition is_default_of :: "string \<Rightarrow> view \<Rightarrow> bool" where
  "is_default_of tableID v = (vw_table v = tableID \<and> vw_default v \<and> vw_deleted_at v = None)"

fun log_cleared :: "env \<Rightarrow> string \<Rightarrow> string \<Rightarrow> view list \<Rightarrow> db \<Rightarrow> db res" where
  "log_cleared E actor tableID [] s = Inr s"
| "log_cleared E actor tableID (v # vs) s =
     ok_then (insert_metadata_change E actor ''viewChanged'' tableID (vw_id v) (vw_revision v) s)
       (\<lambda>(_, s). log_cleared E actor tableID vs s)"

definition clear_default :: "instant \<Rightarrow> view \<Rightarrow> view" where
  "clear_default now = revise_view (vw_default_update (\<lambda>_. False)) now"

definition SetDefaultView :: "env \<Rightarrow> string \<Rightarrow> string \<Rightarrow> int \<Rightarrow> view tx" where
  "SetDefaultView E actor viewID expected s =
     ok_then (begin_audit E actor s) (\<lambda>(_, s).
     ok_then (lockAccessibleView actor viewID s) (\<lambda>current.
     ok_then (checkViewRevision current expected) (\<lambda>_.
     fail_if (vw_deleted_at current \<noteq> None) (InvalidStateTransition ''view'' viewID ''update'' ''deleted'')
    (if vw_default current then Inr (current, s)
     else let cleared = map (clear_default (db_now s)) (filter (is_default_of (vw_table current)) (db_views s)) in
       ok_then (log_cleared E actor (vw_table current) cleared
         (s\<lparr>db_views := update_where (is_default_of (vw_table current)) (clear_default (db_now s)) (db_views s)\<rparr>))
         (\<lambda>s. write_view E actor (vw_default_update (\<lambda>_. True)) viewID s)))))"

section \<open>The order of the Views\<close>

record view_order_input =
  vi_expected :: int
  vi_views :: "string list"

definition as_view_order :: "receipt \<Rightarrow> view_order_result option" where
  "as_view_order r = (case r of ViewOrderReceipt v \<Rightarrow> Some v | _ \<Rightarrow> None)"

text \<open>The loop that strikes the requested IDs off the members: whether each was there, and what is left.\<close>

fun strike_members :: "string list \<Rightarrow> string list \<Rightarrow> bool \<times> string list" where
  "strike_members [] members = (True, members)"
| "strike_members (i # is) members =
     (let (valid, rest) = strike_members is (filter (\<lambda>m. m \<noteq> i) members) in
      (List.member members i \<and> valid, rest))"

definition complete_permutation :: "string list \<Rightarrow> string list \<Rightarrow> bool" where
  "complete_permutation current requested =
     (let (valid, rest) = strike_members requested current in
      length current = length requested \<and> valid \<and> rest = [])"

definition save_view_order :: "env \<Rightarrow> string \<Rightarrow> string \<Rightarrow> view_order \<Rightarrow> string list \<Rightarrow> view_order_result tx" where
  "save_view_order E actor key order requested s =
     (if vo_views order = requested
      then Inr (\<lparr>vr_mutation = key, vr_status = ''unchanged'', vr_order = order\<rparr>, s)
      else let order' = order\<lparr>vo_revision := vo_revision order + 1, vo_views := requested\<rparr> in
        ok_then (insert_metadata_change E actor ''schemaChanged'' (vo_table order) (vo_table order) (vo_revision order')
          (s\<lparr>db_tables := update_where (\<lambda>r. table_id r = vo_table order)
              (\<lambda>r. r\<lparr>tr_order := requested, tr_order_revision := tr_order_revision r + 1\<rparr>) (db_tables s)\<rparr>))
        (\<lambda>(_, s). Inr (\<lparr>vr_mutation = key, vr_status = ''applied'', vr_order = order'\<rparr>, s)))"

definition ReorderViews ::
  "env \<Rightarrow> string \<Rightarrow> string \<Rightarrow> string \<Rightarrow> string \<Rightarrow> view_order_input \<Rightarrow> view_order_result tx" where
  "ReorderViews E actor key tableID hash input =
     idempotent E as_view_order actor key hash (\<lambda>s.
       ok_then (lock_active_table actor tableID s) (\<lambda>_.
       ok_then (readViewOrder tableID s) (\<lambda>order.
       fail_if (vo_revision order \<noteq> vi_expected input) (ViewOrderConflict tableID (vi_expected input) order)
      (fail_if (\<not> complete_permutation (vo_views order) (vi_views input))
         (NewValidationError [Issue ''/viewIds'' ''invalidReference''
            ''viewIds must be a complete active View permutation of this Table''])
      (ok_then (save_view_order E actor key order (vi_views input) s) (\<lambda>(result, s).
       ok_then (save_guard actor key hash s) (\<lambda>(_, s).
       ok_then (save_idempotent actor key hash (ViewOrderReceipt result) s)
         (\<lambda>(_, s). Inr (result, s)))))))))"

end
