(* ===== verification/FieldStore.thy ===== *)
theory FieldStore
  imports Catalog
begin

text \<open>
  Fields: internal/storage/postgres/field.go.  Every transaction that writes a Field logs a
  \<open>schemaChanged\<close> change and lets \<open>invalidateSelections\<close> look at the frozen selections of the Table.
  A row is read through \<open>decodeFieldConfig\<close>, which fills what the stored configuration leaves out.
\<close>

section \<open>Reading\<close>

definition FieldLimitPerTable :: int where "FieldLimitPerTable = 500"

definition decodeFieldConfig :: "string \<Rightarrow> field_config \<Rightarrow> field_config res" where
  "decodeFieldConfig fieldType raw =
     (if select_type fieldType
      then Inr (case raw of SelectConfig a d \<Rightarrow> SelectConfig a d | _ \<Rightarrow> SelectConfig [] [])
      else if fieldType = ''attachment''
      then Inr (case raw of AttachmentConfig n \<Rightarrow> AttachmentConfig (if n = 0 then 10 else n) | _ \<Rightarrow> AttachmentConfig 10)
      else if fieldType = ''number''
      then Inr (case raw of NumberConfig f \<Rightarrow> NumberConfig f | _ \<Rightarrow> NumberConfig None)
      else if plain_type fieldType then Inr EmptyConfig
      else Inl (Internal ''unsupported persisted Field type''))"

definition scanField :: "field \<Rightarrow> field res" where
  "scanField f = ok_then (decodeFieldConfig (fd_type f) (fd_config f)) (\<lambda>c. Inr (f\<lparr>fd_config := c\<rparr>))"

text \<open>\<open>accessibleFieldSQL\<close>: the Field may be deleted, nothing above it may.\<close>

definition find_field :: "string \<Rightarrow> string \<Rightarrow> db \<Rightarrow> field_row option" where
  "find_field actor fid s =
     find (\<lambda>r. field_id r = fid \<and> active_table_visible actor (fd_table (fr_field r)) s) (db_fields s)"

definition ListFields :: "string \<Rightarrow> string \<Rightarrow> string \<Rightarrow> db \<Rightarrow> field list res" where
  "ListFields actor tableID lifecycle s =
     ok_then (lifecycle_condition lifecycle) (\<lambda>condition.
     if \<not> active_table_visible actor tableID s then Inl NotFound
     else each_ok scanField (sort_key (\<lambda>f. (fd_position f, fd_id f))
       (filter (\<lambda>f. fd_table f = tableID \<and> condition (fd_deleted_at f)) (map fr_field (db_fields s)))))"

definition GetField :: "string \<Rightarrow> string \<Rightarrow> db \<Rightarrow> field res" where
  "GetField actor fid s =
     (case find_field actor fid s of None \<Rightarrow> Inl NotFound | Some r \<Rightarrow> scanField (fr_field r))"

section \<open>Creating\<close>

definition as_field :: "receipt \<Rightarrow> field option" where
  "as_field r = (case r of FieldReceipt f \<Rightarrow> Some f | _ \<Rightarrow> None)"

definition table_field_rows :: "string \<Rightarrow> db \<Rightarrow> field_row list" where
  "table_field_rows tableID s = filter (\<lambda>r. fd_table (fr_field r) = tableID) (db_fields s)"

text \<open>\<open>COALESCE(max(position_index) + 1, 0)\<close>.\<close>

definition next_position :: "field_row list \<Rightarrow> int" where
  "next_position rows =
     (if rows = [] then 0 else Max (set (map (\<lambda>r. fd_position (fr_field r)) rows)) + 1)"

definition CreateField :: "env \<Rightarrow> string \<Rightarrow> string \<Rightarrow> string \<Rightarrow> field \<Rightarrow> field tx" where
  "CreateField E actor key fingerprint proposed =
     idempotent E as_field actor key fingerprint (\<lambda>s.
       ok_then (lock_active_table actor (fd_table proposed) s) (\<lambda>_.
       let rows = table_field_rows (fd_table proposed) s in
       fail_if (count_rows (\<lambda>r. True) rows \<ge> FieldLimitPerTable)
         (ResourceLimit ''field'' ''table'' (fd_table proposed) FieldLimitPerTable)
      (let f = proposed\<lparr>fd_position := next_position rows, fd_revision := 1, fd_deleted_at := None\<rparr> in
       ok_then (insert_row ''insert field'' field_id \<lparr>fr_field = f, fr_primary = False\<rparr> (db_fields s)) (\<lambda>fields.
       ok_then (scanField f) (\<lambda>created.
       ok_then (insert_metadata_change E actor ''schemaChanged'' (fd_table created) (fd_id created)
                 (fd_revision created) (s\<lparr>db_fields := fields\<rparr>)) (\<lambda>(_, s).
       ok_then (invalidate_selections E actor (fd_table created) [] s) (\<lambda>s.
       ok_then (save_idempotent actor key fingerprint (FieldReceipt created) s)
         (\<lambda>(_, s). Inr (created, s)))))))))"

section \<open>Updating\<close>

text \<open>\<open>lockAccessibleField\<close>: the parent is resolved first, the Table locked, then the Field read.\<close>

definition lockAccessibleField :: "string \<Rightarrow> string \<Rightarrow> db \<Rightarrow> (field \<times> bool) res" where
  "lockAccessibleField actor fid s =
     (case find_field actor fid s of
        None \<Rightarrow> Inl NotFound
      | Some parent \<Rightarrow>
          ok_then (lock_active_table actor (fd_table (fr_field parent)) s) (\<lambda>_.
          case find_field actor fid s of
            None \<Rightarrow> Inl NotFound
          | Some r \<Rightarrow> ok_then (scanField (fr_field r)) (\<lambda>f. Inr (f, fr_primary r))))"

definition checkFieldRevision :: "field \<Rightarrow> int \<Rightarrow> unit res" where
  "checkFieldRevision current expected = check_revision ''field'' (fd_id current) expected (fd_revision current)"

definition revise_field :: "(field \<Rightarrow> field) \<Rightarrow> field \<Rightarrow> field" where
  "revise_field set_columns f = (set_columns f)\<lparr>fd_revision := fd_revision f + 1\<rparr>"

text \<open>
  \<open>UPDATE fields ... WHERE id = fid RETURNING\<close>: the columns not set are those of the row.
\<close>

definition write_field :: "env \<Rightarrow> string \<Rightarrow> (field \<Rightarrow> field) \<Rightarrow> string \<Rightarrow> field tx" where
  "write_field E actor set_columns fid s =
     (let rows = update_where (\<lambda>r. field_id r = fid)
            (\<lambda>r. r\<lparr>fr_field := revise_field set_columns (fr_field r)\<rparr>) (db_fields s) in
      case find (\<lambda>r. field_id r = fid) rows of
        None \<Rightarrow> Inl (Internal ''update field'')
      | Some r \<Rightarrow>
          ok_then (scanField (fr_field r)) (\<lambda>updated.
          ok_then (insert_metadata_change E actor ''schemaChanged'' (fd_table updated) (fd_id updated)
                    (fd_revision updated) (s\<lparr>db_fields := rows\<rparr>)) (\<lambda>(_, s).
          ok_then (invalidate_selections E actor (fd_table updated) [] s) (\<lambda>s.
          Inr (updated, s)))))"

definition field_columns :: "field \<Rightarrow> field \<Rightarrow> field" where
  "field_columns target f =
     f\<lparr>fd_name := fd_name target, fd_config := fd_config target, fd_description := fd_description target\<rparr>"

definition UpdateField :: "env \<Rightarrow> string \<Rightarrow> string \<Rightarrow> int \<Rightarrow> field \<Rightarrow> field tx" where
  "UpdateField E actor fid expected target s =
     ok_then (begin_audit E actor s) (\<lambda>(_, s).
     ok_then (lockAccessibleField actor fid s) (\<lambda>(current, _).
     ok_then (checkFieldRevision current expected) (\<lambda>_.
     fail_if (fd_deleted_at current \<noteq> None) (InvalidStateTransition ''field'' fid ''update'' ''deleted'')
    (fail_if (fd_type current \<noteq> fd_type target)
       (NewValidationError [Issue ''/type'' ''format'' ''Field type is immutable in P0''])
    (if fd_name current = fd_name target \<and> fd_description current = fd_description target
        \<and> fd_config current = fd_config target
     then Inr (current, s)
     else write_field E actor (field_columns target) fid s)))))"

definition DeleteField :: "env \<Rightarrow> string \<Rightarrow> string \<Rightarrow> int \<Rightarrow> unit tx" where
  "DeleteField E actor fid expected s =
     ok_then (begin_audit E actor s) (\<lambda>(_, s).
     ok_then (lockAccessibleField actor fid s) (\<lambda>(current, primary).
     ok_then (checkFieldRevision current expected) (\<lambda>_.
     fail_if (fd_deleted_at current \<noteq> None) (InvalidStateTransition ''field'' fid ''delete'' ''deleted'')
    (fail_if primary (InvalidStateTransition ''field'' fid ''delete'' ''primary'')
    (ok_then (write_field E actor (fd_deleted_at_update (\<lambda>_. Some (db_now s))) fid s) (\<lambda>(_, s). Inr ((), s)))))))"

definition RestoreField :: "env \<Rightarrow> string \<Rightarrow> string \<Rightarrow> int \<Rightarrow> field tx" where
  "RestoreField E actor fid expected s =
     ok_then (begin_audit E actor s) (\<lambda>(_, s).
     ok_then (lockAccessibleField actor fid s) (\<lambda>(current, _).
     ok_then (checkFieldRevision current expected) (\<lambda>_.
     fail_if (fd_deleted_at current = None) (InvalidStateTransition ''field'' fid ''restore'' ''active'')
    (write_field E actor (fd_deleted_at_update (\<lambda>_. None)) fid s))))"

end
