(* ===== verification/RecordWrite.thy ===== *)
theory RecordWrite
  imports FieldStore
begin

text \<open>
  Writing Records: internal/storage/postgres/record.go and choice.go, which
  \<open>Service.Mutate\<close> calls in one transaction.

  The commands of a request run in their order in one transaction; the first error ends it.  A panic of
  the normalisation (a \<open>None\<close> of \<open>Values\<close>) is an internal error here;
  \<open>Values\<close> shows that there is none.  \<open>host\<close> holds what the process computes with: the text
  \<open>json.Marshal\<close> gives a value, and the rounding of a \<open>float64\<close> operation.
\<close>

record host =
  ho_json :: "json \<Rightarrow> string"
  ho_round :: "rat \<Rightarrow> rat"

definition panics :: "'a option \<Rightarrow> 'a res" where
  "panics r = (case r of None \<Rightarrow> Inl (Internal ''panic'') | Some x \<Rightarrow> Inr x)"

section \<open>Reading\<close>

definition find_record :: "string \<Rightarrow> db \<Rightarrow> record_row option" where
  "find_record recordID s = find (\<lambda>r. rc_id (rr_record r) = recordID) (db_records s)"

definition GetRecord :: "string \<Rightarrow> string \<Rightarrow> db \<Rightarrow> rec res" where
  "GetRecord actor recordID s =
     (case find (\<lambda>r. rc_id (rr_record r) = recordID \<and> active_table_visible actor (rc_table (rr_record r)) s)
        (db_records s) of
        None \<Rightarrow> Inl NotFound
      | Some r \<Rightarrow> Inr (rr_record r))"

definition lockRecord :: "string \<Rightarrow> string \<Rightarrow> db \<Rightarrow> rec res" where
  "lockRecord tableID recordID s =
     (case find (\<lambda>r. rc_id (rr_record r) = recordID \<and> rc_table (rr_record r) = tableID) (db_records s) of
        None \<Rightarrow> Inl NotFound
      | Some r \<Rightarrow> Inr (rr_record r))"

abbreviation record_id :: "record_row \<Rightarrow> string" where
  "record_id r \<equiv> rc_id (rr_record r)"

text \<open>The columns \<open>loadFieldDefinitions\<close> does not select keep their zero values.\<close>

definition loadFieldDefinitions :: "string \<Rightarrow> db \<Rightarrow> fields" where
  "loadFieldDefinitions tableID s = fmmap (\<lambda>f. f\<lparr>fe_revision := 0, fe_position := 0\<rparr>) (table_fields tableID s)"

definition primaryFieldText :: "host \<Rightarrow> vals \<Rightarrow> fields \<Rightarrow> string" where
  "primaryFieldText H vs fs =
     (case find (\<lambda>k. case fmlookup fs k of None \<Rightarrow> False | Some f \<Rightarrow> fe_primary f) (fm_keys fs) of
        None \<Rightarrow> []
      | Some k \<Rightarrow>
          (case fm_get vs k of
             JNull \<Rightarrow> []
           | JStr text \<Rightarrow> text
           | v \<Rightarrow> if json_finite v then ho_json H v else []))"

definition recordConflict :: "string \<Rightarrow> nat \<Rightarrow> command \<Rightarrow> rec \<Rightarrow> app_error" where
  "recordConflict mutationID index c current =
     RecordConflict mutationID (int index)
       [\<lparr>cf_record = rc_id current, cf_expected = cm_expected c, cf_current = rc_revision current,
         cf_values = rc_values current, cf_set = cm_set c, cf_unset = cm_unset c\<rparr>] []"

definition prefixRecordValidation :: "string \<Rightarrow> app_error \<Rightarrow> app_error" where
  "prefixRecordValidation prefix e =
     (case e of
        Validation issues \<Rightarrow> NewValidationError (map (\<lambda>i. Issue (prefix @ path i) (code i) (message i)) issues)
      | _ \<Rightarrow> e)"

definition prefixed :: "string \<Rightarrow> 'a res \<Rightarrow> 'a res" where
  "prefixed prefix r = (case r of Inl e \<Rightarrow> Inl (prefixRecordValidation prefix e) | Inr x \<Rightarrow> Inr x)"

section \<open>Attachment references\<close>

definition find_attachment :: "string \<Rightarrow> string \<Rightarrow> db \<Rightarrow> attachment option" where
  "find_attachment actor attachmentID s =
     map_option ar_attachment (find (\<lambda>r. at_id (ar_attachment r) = attachmentID \<and> ar_actor r = actor
       \<and> at_deleted_at (ar_attachment r) = None) (db_attachments s))"

definition json_text :: "json \<Rightarrow> string option" where
  "json_text v = (case v of JStr t \<Rightarrow> Some t | _ \<Rightarrow> None)"

definition attachment_ref_issues :: "string \<Rightarrow> string \<Rightarrow> vals \<Rightarrow> db \<Rightarrow> issue list" where
  "attachment_ref_issues actor p ref s =
     (let attachmentID = (case json_text (fm_get ref ''id'') of None \<Rightarrow> [] | Some i \<Rightarrow> i) in
      case find_attachment actor attachmentID s of
        None \<Rightarrow> [Issue (p @ ''/id'') ''invalidReference''
          ''Attachment is unknown, belongs to another Actor, deleted, or not ready'']
      | Some a \<Rightarrow>
          if at_status a \<noteq> ''ready'' \<or> json_text (fm_get ref ''source'') \<noteq> Some (at_source a)
             \<or> json_text (fm_get ref ''filename'') \<noteq> Some (at_filename a)
          then [Issue p ''invalidReference''
            ''Attachment metadata does not match a ready Attachment owned by the current Actor'']
          else [])"

fun attachment_entries_issues :: "string \<Rightarrow> string \<Rightarrow> nat \<Rightarrow> json list \<Rightarrow> db \<Rightarrow> issue list res" where
  "attachment_entries_issues actor p index [] s = Inr []"
| "attachment_entries_issues actor p index (entry # rest) s =
     (case entry of
        JObj ref \<Rightarrow>
          ok_then (attachment_entries_issues actor p (Suc index) rest s) (\<lambda>issues.
          Inr (attachment_ref_issues actor (p @ ''/'' @ show_nat index) ref s @ issues))
      | _ \<Rightarrow> Inl (Internal ''normalized attachment reference is not an object''))"

definition attachment_field_issues :: "string \<Rightarrow> string \<Rightarrow> vals \<Rightarrow> db \<Rightarrow> string \<Rightarrow> issue list res" where
  "attachment_field_issues actor basePath vs s fieldID =
     (case fm_get vs fieldID of
        JNull \<Rightarrow> Inr []
      | JArr entries \<Rightarrow> attachment_entries_issues actor (basePath @ ''/'' @ escape_pointer fieldID) 0 entries s
      | _ \<Rightarrow> Inl (Internal ''normalized attachment value is not an array''))"

definition attachment_fields :: "fields \<Rightarrow> string list" where
  "attachment_fields fs =
     filter (\<lambda>k. case fmlookup fs k of None \<Rightarrow> False | Some f \<Rightarrow> fe_type f = ''attachment'') (fm_keys fs)"

definition validateAttachmentReferences :: "string \<Rightarrow> vals \<Rightarrow> fields \<Rightarrow> string \<Rightarrow> db \<Rightarrow> unit res" where
  "validateAttachmentReferences actor vs fs basePath s =
     ok_then (each_ok (attachment_field_issues actor basePath vs s) (attachment_fields fs)) (\<lambda>issues.
     fail_if (concat issues \<noteq> []) (NewValidationError (concat issues)) (Inr ()))"

section \<open>The statements\<close>

text \<open>\<open>encodeRecordValues\<close>: \<open>json.Marshal\<close> has no text for an infinity or NaN.\<close>

definition encodeRecordValues :: "vals \<Rightarrow> vals \<Rightarrow> unit res" where
  "encodeRecordValues vs q =
     fail_if (\<not> json_finite (JObj vs)) (Internal ''encode Record values'')
    (fail_if (\<not> json_finite (JObj q)) (Internal ''encode Record query values'') (Inr ()))"

text \<open>\<open>COALESCE(max(position) + 1024.0, 1024.0)\<close> over the rows of the Table.\<close>

definition last_position :: "host \<Rightarrow> record_row list \<Rightarrow> rat" where
  "last_position H rows = (if rows = [] then 1024 else ho_round H (Max (set (map rr_position rows)) + 1024))"

definition table_records :: "string \<Rightarrow> db \<Rightarrow> record_row list" where
  "table_records tableID s = filter (\<lambda>r. rc_table (rr_record r) = tableID) (db_records s)"

definition insertRecord :: "host \<Rightarrow> string \<Rightarrow> string \<Rightarrow> vals \<Rightarrow> vals \<Rightarrow> string \<Rightarrow> rec tx" where
  "insertRecord H recordID tableID vs q searchText s =
     ok_then (encodeRecordValues vs q) (\<lambda>_.
     let created = \<lparr>rc_id = recordID, rc_table = tableID, rc_revision = 1, rc_values = vs, rc_created_at = db_now s,
           rc_updated_at = db_now s, rc_deleted_at = None\<rparr> in
     ok_then (insert_row ''insert record'' (\<lambda>r. rc_id (rr_record r))
        \<lparr>rr_record = created, rr_position = last_position H (table_records tableID s), rr_query = q,
         rr_search = searchText\<rparr> (db_records s)) (\<lambda>rows.
     Inr (created, s\<lparr>db_records := rows\<rparr>)))"

text \<open>\<open>UPDATE records SET ... WHERE id = recordID RETURNING\<close>.\<close>

definition write_record :: "string \<Rightarrow> (record_row \<Rightarrow> record_row) \<Rightarrow> string \<Rightarrow> rec tx" where
  "write_record what set_columns recordID s =
     (let rows = update_where (\<lambda>r. rc_id (rr_record r) = recordID) set_columns (db_records s) in
      case find (\<lambda>r. rc_id (rr_record r) = recordID) rows of
        None \<Rightarrow> Inl (Internal what)
      | Some r \<Rightarrow> Inr (rr_record r, s\<lparr>db_records := rows\<rparr>))"

definition value_columns :: "vals \<Rightarrow> vals \<Rightarrow> string \<Rightarrow> instant \<Rightarrow> record_row \<Rightarrow> record_row" where
  "value_columns vs q searchText now r =
     r\<lparr>rr_record := (rr_record r)\<lparr>rc_values := vs, rc_revision := rc_revision (rr_record r) + 1, rc_updated_at := now\<rparr>,
       rr_query := q, rr_search := searchText\<rparr>"

definition updateRecordValues :: "string \<Rightarrow> vals \<Rightarrow> vals \<Rightarrow> string \<Rightarrow> rec tx" where
  "updateRecordValues recordID vs q searchText s =
     ok_then (encodeRecordValues vs q) (\<lambda>_.
     write_record ''update record values'' (value_columns vs q searchText (db_now s)) recordID s)"

definition deleted_columns :: "bool \<Rightarrow> instant \<Rightarrow> record_row \<Rightarrow> record_row" where
  "deleted_columns deleted now r =
     r\<lparr>rr_record := (rr_record r)\<lparr>rc_deleted_at := (if deleted then Some now else None),
       rc_revision := rc_revision (rr_record r) + 1, rc_updated_at := now\<rparr>\<rparr>"

definition setRecordDeleted :: "string \<Rightarrow> bool \<Rightarrow> rec tx" where
  "setRecordDeleted recordID deleted s =
     write_record ''update record lifecycle'' (deleted_columns deleted (db_now s)) recordID s"

definition insertRecordChange :: "env \<Rightarrow> string \<Rightarrow> rec \<Rightarrow> string \<Rightarrow> field_change list \<Rightarrow> string \<Rightarrow> unit tx" where
  "insertRecordChange E actor item kind diff primaryText s =
     insert_change E actor kind (rc_table item) (rc_id item) [] (rc_revision item) diff primaryText s"

section \<open>The commands\<close>

definition applied :: "nat \<Rightarrow> rec \<times> db \<Rightarrow> (command_result \<times> db) res" where
  "applied index r = Inr (\<lparr>cr_index = index, cr_status = ''applied'', cr_record = fst r\<rparr>, snd r)"

definition command_path :: "nat \<Rightarrow> string" where
  "command_path index = ''/commands/'' @ show_nat index"

definition log_record :: "env \<Rightarrow> host \<Rightarrow> string \<Rightarrow> fields \<Rightarrow> nat \<Rightarrow> string \<Rightarrow> field_change list \<Rightarrow> rec \<Rightarrow> command_result tx" where
  "log_record E H actor fs index kind diff item s =
     ok_then (insertRecordChange E actor item kind diff (primaryFieldText H (rc_values item) fs) s) (\<lambda>(_, s).
     applied index (item, s))"

definition applyCreateRecord :: "env \<Rightarrow> host \<Rightarrow> string \<Rightarrow> string \<Rightarrow> nat \<Rightarrow> command \<Rightarrow> fields \<Rightarrow> command_result tx" where
  "applyCreateRecord E H actor tableID index c fs s =
     ok_then (prefixed (command_path index) (ok_then (NormalizeCreateValues (en_lib E) (nil_map (cm_values c)) fs) panics))
       (\<lambda>(vs, q, searchText).
     ok_then (prefixed (command_path index) (validateAttachmentReferences actor vs fs ''/values'' s)) (\<lambda>_.
     ok_then (draw_id E ''generate record ID'' RecordPrefix s) (\<lambda>(recordID, s).
     ok_then (insertRecord H recordID tableID vs q searchText s) (\<lambda>(created, s).
     log_record E H actor fs index ''recordCreated'' [] created s))))"

definition applyUpdateRecord ::
  "env \<Rightarrow> host \<Rightarrow> string \<Rightarrow> string \<Rightarrow> string \<Rightarrow> nat \<Rightarrow> command \<Rightarrow> fields \<Rightarrow> command_result tx" where
  "applyUpdateRecord E H actor tableID mutationID index c fs s =
     ok_then (lockRecord tableID (cm_record c) s) (\<lambda>current.
     fail_if (rc_revision current \<noteq> cm_expected c) (recordConflict mutationID index c current)
    (fail_if (rc_deleted_at current \<noteq> None)
       (InvalidStateTransition ''record'' (rc_id current) ''update'' ''deleted'')
    (ok_then (prefixed (command_path index)
        (ok_then (NormalizeUpdatedValues (en_lib E) (rc_values current) (nil_map (cm_set c)) (cm_unset c) fs) panics))
       (\<lambda>(vs, q, searchText).
     ok_then (prefixed (command_path index) (validateAttachmentReferences actor vs fs ''/set'' s)) (\<lambda>_.
     if vs = rc_values current then Inr (\<lparr>cr_index = index, cr_status = ''unchanged'', cr_record = current\<rparr>, s)
     else
       ok_then (DiffRecordValues (rc_values current) vs) (\<lambda>diff.
       ok_then (updateRecordValues (rc_id current) vs q searchText s) (\<lambda>(updated, s).
       log_record E H actor fs index ''recordUpdated'' diff updated s)))))))"

definition applyRecordLifecycle ::
  "env \<Rightarrow> host \<Rightarrow> string \<Rightarrow> string \<Rightarrow> string \<Rightarrow> nat \<Rightarrow> command \<Rightarrow> fields \<Rightarrow> bool \<Rightarrow> command_result tx" where
  "applyRecordLifecycle E H actor tableID mutationID index c fs deleting s =
     ok_then (lockRecord tableID (cm_record c) s) (\<lambda>current.
     fail_if (rc_revision current \<noteq> cm_expected c) (recordConflict mutationID index c current)
    (fail_if (deleting \<and> rc_deleted_at current \<noteq> None)
       (InvalidStateTransition ''record'' (rc_id current) ''delete'' ''deleted'')
    (fail_if (\<not> deleting \<and> rc_deleted_at current = None)
       (InvalidStateTransition ''record'' (rc_id current) ''restore'' ''active'')
    (ok_then (setRecordDeleted (rc_id current) deleting s) (\<lambda>(updated, s).
     log_record E H actor fs index (if deleting then ''recordDeleted'' else ''recordRestored'') [] updated s)))))"

definition applyCommand ::
  "env \<Rightarrow> host \<Rightarrow> string \<Rightarrow> string \<Rightarrow> string \<Rightarrow> fields \<Rightarrow> nat \<Rightarrow> command \<Rightarrow> command_result tx" where
  "applyCommand E H actor tableID mutationID fs index c s =
     (if cm_kind c = ''createRecord'' then applyCreateRecord E H actor tableID index c fs s
      else if cm_kind c = ''updateRecord'' then applyUpdateRecord E H actor tableID mutationID index c fs s
      else if cm_kind c = ''deleteRecord'' then applyRecordLifecycle E H actor tableID mutationID index c fs True s
      else if cm_kind c = ''restoreRecord'' then applyRecordLifecycle E H actor tableID mutationID index c fs False s
      else Inl (NewValidationError [Issue (command_path index @ ''/kind'') ''format'' ''unsupported mutation command'']))"

fun applyCommands ::
  "env \<Rightarrow> host \<Rightarrow> string \<Rightarrow> string \<Rightarrow> string \<Rightarrow> fields \<Rightarrow> nat \<Rightarrow> command list \<Rightarrow> command_result list tx" where
  "applyCommands E H actor tableID mutationID fs index [] s = Inr ([], s)"
| "applyCommands E H actor tableID mutationID fs index (c # cs) s =
     ok_then (applyCommand E H actor tableID mutationID fs index c s) (\<lambda>(result, s).
     ok_then (applyCommands E H actor tableID mutationID fs (Suc index) cs s) (\<lambda>(results, s).
     Inr (result # results, s)))"

section \<open>Choices: Options named in a command\<close>

type_synonym select_conf = "select_option list \<times> deleted_option list"

text \<open>The Fields that the request names, each with the revision and the index of its first mention.\<close>

fun keep_first :: "string list \<Rightarrow> (string \<times> int \<times> nat) list \<Rightarrow> (string \<times> int \<times> nat) list" where
  "keep_first seen [] = []"
| "keep_first seen (m # ms) =
     (if List.member seen (fst m) then keep_first seen ms else m # keep_first (fst m # seen) ms)"

fun mentions :: "nat \<Rightarrow> command list \<Rightarrow> (string \<times> int \<times> nat) list" where
  "mentions index [] = []"
| "mentions index (c # cs) =
     map (\<lambda>ch. (ca_field ch, ca_expected ch, index)) (cm_choices c) @ mentions (Suc index) cs"

definition choice_fields :: "command list \<Rightarrow> (string \<times> int \<times> nat) list" where
  "choice_fields commands = sort_key fst (keep_first [] (mentions 0 commands))"

definition lock_choice_field ::
  "string \<Rightarrow> string \<Rightarrow> db \<Rightarrow> string \<times> int \<times> nat \<Rightarrow> (field \<times> select_conf) res" where
  "lock_choice_field tableID mutationID s m =
     (case m of (fieldID, expected, first) \<Rightarrow>
      case find (\<lambda>r. field_id r = fieldID \<and> fd_table (fr_field r) = tableID) (db_fields s) of
        None \<Rightarrow> Inl NotFound
      | Some r \<Rightarrow>
          ok_then (scanField (fr_field r)) (\<lambda>f.
          fail_if (fd_revision f \<noteq> expected)
            (RecordConflict mutationID (int first) []
              [\<lparr>fc_field = fieldID, fc_expected = expected, fc_current = fd_revision f\<rparr>])
         (fail_if (fd_deleted_at f \<noteq> None) (InvalidStateTransition ''field'' fieldID ''update'' ''deleted'')
         (case fd_config f of
            SelectConfig active deleted \<Rightarrow> Inr (f, (active, deleted))
          | _ \<Rightarrow> Inl (NewValidationError [Issue (''/commands/'' @ show_nat first @ ''/choices'') ''type''
                  ''choices requires Select or MultiSelect Fields''])))))"

definition lock_targets :: "string \<Rightarrow> command list \<Rightarrow> db \<Rightarrow> (string, rec) fmap res" where
  "lock_targets tableID commands s =
     ok_then (each_ok (\<lambda>i. ok_then (lockRecord tableID i s) (\<lambda>r. Inr (i, r)))
        (sort (filter (\<lambda>i. i \<noteq> []) (map cm_record commands)))) (\<lambda>targets.
     Inr (fmap_of_list targets))"

fun check_targets :: "string \<Rightarrow> (string, rec) fmap \<Rightarrow> nat \<Rightarrow> command list \<Rightarrow> unit res" where
  "check_targets mutationID targets index [] = Inr ()"
| "check_targets mutationID targets index (c # cs) =
     (case (if cm_record c = [] then None else fmlookup targets (cm_record c)) of
        None \<Rightarrow> check_targets mutationID targets (Suc index) cs
      | Some current \<Rightarrow>
          fail_if (rc_revision current \<noteq> cm_expected c) (recordConflict mutationID index c current)
         (fail_if (cm_kind c = ''updateRecord'' \<and> rc_deleted_at current \<noteq> None)
            (InvalidStateTransition ''record'' (rc_id current) ''update'' ''deleted'')
         (check_targets mutationID targets (Suc index) cs)))"

text \<open>An Option by its ID (a deleted one only where the Record has it already), by its name, or a new one.\<close>

definition holds_option :: "json \<Rightarrow> string \<Rightarrow> bool" where
  "holds_option previous i =
     (previous = JStr i \<or> (case previous of JArr vs \<Rightarrow> List.member vs (JStr i) | _ \<Rightarrow> False))"

definition undelete :: "deleted_option \<Rightarrow> select_option" where
  "undelete d = \<lparr>so_id = do_id d, so_name = do_name d, so_color = do_color d\<rparr>"

definition resolve_by_id :: "select_conf \<Rightarrow> string \<Rightarrow> json \<Rightarrow> string \<Rightarrow> select_option res" where
  "resolve_by_id config i previous p =
     (case find (\<lambda>x. so_id x = i) (fst config) of
        Some x \<Rightarrow> Inr x
      | None \<Rightarrow>
          (case (if holds_option previous i then find (\<lambda>d. do_id d = i) (snd config) else None) of
             Some d \<Rightarrow> Inr (undelete d)
           | None \<Rightarrow> Inl (NewValidationError [Issue (p @ ''/optionId'') ''invalidReference''
                 ''Option is unknown, foreign, or a new deleted reference''])))"

definition resolveChoiceOption ::
  "env \<Rightarrow> select_conf \<Rightarrow> choice_option \<Rightarrow> json \<Rightarrow> string \<Rightarrow> (select_option \<times> bool \<times> select_conf) tx" where
  "resolveChoiceOption E config input previous p s =
     (if co_id input \<noteq> [] then
        ok_then (resolve_by_id config (co_id input) previous p) (\<lambda>x. Inr ((x, False, config), s))
      else
        ok_then (NormalizeOptionName (en_lib E) (p @ ''/name'') (co_name input)) (\<lambda>name.
        case find (\<lambda>x. FoldKey (en_lib E) (so_name x) = FoldKey (en_lib E) name) (fst config) of
          Some x \<Rightarrow> Inr ((x, False, config), s)
        | None \<Rightarrow>
            fail_if (length (fst config) \<ge> 500 \<or> length (fst config) + length (snd config) \<ge> 5000)
              (NewValidationError [Issue p ''limit'' ''Field Option budget exceeded''])
           (ok_then (draw_id E ''generate Choice Option ID'' OptionPrefix s) (\<lambda>(i, s).
            let x = \<lparr>so_id = i, so_name = name, so_color = co_color input\<rparr> in
            Inr ((x, True, (fst config @ [x], snd config)), s)))))"

definition note_option :: "select_option \<Rightarrow> bool \<Rightarrow> choice_field_result \<Rightarrow> choice_field_result" where
  "note_option x created d =
     d\<lparr>cfr_resolved := (if list_ex (\<lambda>y. so_id y = so_id x) (cfr_resolved d) then cfr_resolved d
                       else cfr_resolved d @ [x]),
       cfr_created := (if created then cfr_created d @ [x] else cfr_created d)\<rparr>"

fun resolve_options ::
  "env \<Rightarrow> json \<Rightarrow> string \<Rightarrow> nat \<Rightarrow> choice_option list \<Rightarrow> string list \<Rightarrow> select_conf \<Rightarrow> choice_field_result
     \<Rightarrow> (string list \<times> select_conf \<times> choice_field_result) tx" where
  "resolve_options E previous p k [] selected config d s = Inr ((selected, config, d), s)"
| "resolve_options E previous p k (x # xs) selected config d s =
     (let q = p @ ''/options/'' @ show_nat k in
      ok_then (resolveChoiceOption E config x previous q s) (\<lambda>((resolved, created, config), s).
      fail_if (List.member selected (so_id resolved))
        (NewValidationError [Issue q ''duplicate'' ''Option resolves to a repeated identity''])
     (resolve_options E previous p (Suc k) xs (selected @ [so_id resolved]) config
        (note_option resolved created d) s)))"

text \<open>
  Every choice becomes a value of its command: \<open>Values\<close> of a creation, \<open>Set\<close> of an update, copied from the
  request when the first choice of the command is written.
\<close>

definition choice_value :: "field \<Rightarrow> string list \<Rightarrow> json" where
  "choice_value f selected = (if fd_type f = ''select'' then JStr (hd selected) else JArr (map JStr selected))"

definition put_choice :: "command \<Rightarrow> nat \<Rightarrow> string \<Rightarrow> json \<Rightarrow> command \<Rightarrow> command res" where
  "put_choice input j fieldID v c =
     (if cm_kind input = ''createRecord'' then
        (case cm_values (if j = 0 then input else c) of
           None \<Rightarrow> Inl (Internal ''panic'')
         | Some m \<Rightarrow> Inr (c\<lparr>cm_values := Some (fmupd fieldID v m)\<rparr>))
      else Inr (c\<lparr>cm_set := Some (fmupd fieldID v (nil_map (cm_set (if j = 0 then input else c))))\<rparr>))"

record choice_state =
  cs_configs :: "(string, select_conf) fmap"
  cs_deltas :: "(string, choice_field_result) fmap"

definition resolve_choice ::
  "env \<Rightarrow> (string, field) fmap \<Rightarrow> (string, rec) fmap \<Rightarrow> nat \<Rightarrow> command \<Rightarrow> nat \<Rightarrow> choice_assignment
     \<Rightarrow> command \<Rightarrow> choice_state \<Rightarrow> (command \<times> choice_state) tx" where
  "resolve_choice E locked targets index input j ch c st s =
     (let p = command_path index @ ''/choices/'' @ show_nat j; options = nil_slice (ca_options ch);
          previous = (case fmlookup targets (cm_record input) of
            None \<Rightarrow> JNull | Some r \<Rightarrow> fm_get (rc_values r) (ca_field ch)) in
      case (fmlookup locked (ca_field ch), fmlookup (cs_configs st) (ca_field ch), fmlookup (cs_deltas st) (ca_field ch)) of
        (Some f, Some config, Some d) \<Rightarrow>
          fail_if (fd_type f = ''select'' \<and> length options \<noteq> 1)
            (NewValidationError [Issue (p @ ''/options'') ''limit'' ''Select requires exactly one Option''])
         (ok_then (resolve_options E previous p 0 options [] config d s) (\<lambda>((selected, config, d), s).
          ok_then (put_choice input j (ca_field ch) (choice_value f selected) c) (\<lambda>c.
          Inr ((c, st\<lparr>cs_configs := fmupd (ca_field ch) config (cs_configs st),
                      cs_deltas := fmupd (ca_field ch) d (cs_deltas st)\<rparr>), s))))
      | _ \<Rightarrow> Inl (Internal ''panic''))"

fun resolve_choices ::
  "env \<Rightarrow> (string, field) fmap \<Rightarrow> (string, rec) fmap \<Rightarrow> nat \<Rightarrow> command \<Rightarrow> nat \<Rightarrow> choice_assignment list
     \<Rightarrow> command \<Rightarrow> choice_state \<Rightarrow> (command \<times> choice_state) tx" where
  "resolve_choices E locked targets index input j [] c st s = Inr ((c, st), s)"
| "resolve_choices E locked targets index input j (ch # chs) c st s =
     ok_then (resolve_choice E locked targets index input j ch c st s) (\<lambda>((c, st), s).
     resolve_choices E locked targets index input (Suc j) chs c st s)"

fun resolve_commands ::
  "env \<Rightarrow> (string, field) fmap \<Rightarrow> (string, rec) fmap \<Rightarrow> nat \<Rightarrow> command list \<Rightarrow> choice_state
     \<Rightarrow> (command list \<times> choice_state) tx" where
  "resolve_commands E locked targets index [] st s = Inr (([], st), s)"
| "resolve_commands E locked targets index (c # cs) st s =
     ok_then (resolve_choices E locked targets index c 0 (cm_choices c) c st s) (\<lambda>((c, st), s).
     ok_then (resolve_commands E locked targets (Suc index) cs st s) (\<lambda>((cs, st), s).
     Inr ((c # cs, st), s)))"

definition config_of :: "select_conf \<Rightarrow> field_config" where
  "config_of config = SelectConfig (fst config) (snd config)"

text \<open>One Field after the other: its row when it has new Options, its definition, its result.\<close>

definition save_choice_field ::
  "env \<Rightarrow> string \<Rightarrow> string \<Rightarrow> string \<Rightarrow> select_conf \<Rightarrow> choice_field_result \<Rightarrow> choice_field_result tx" where
  "save_choice_field E actor tableID fieldID config d s =
     (if cfr_created d = [] then Inr (d, s)
      else
        ok_then (insert_metadata_change E actor ''schemaChanged'' tableID fieldID (cfr_revision d + 1)
          (s\<lparr>db_fields := update_where (\<lambda>r. field_id r = fieldID)
              (\<lambda>r. r\<lparr>fr_field := revise_field (fd_config_update (\<lambda>_. config_of config)) (fr_field r)\<rparr>)
              (db_fields s)\<rparr>)) (\<lambda>(_, s).
        Inr (d\<lparr>cfr_revision := cfr_revision d + 1\<rparr>, s)))"

fun save_choice_fields ::
  "env \<Rightarrow> string \<Rightarrow> string \<Rightarrow> choice_state \<Rightarrow> string list \<Rightarrow> fields \<Rightarrow> (fields \<times> choice_field_result list) tx" where
  "save_choice_fields E actor tableID st [] fs s = Inr ((fs, []), s)"
| "save_choice_fields E actor tableID st (fieldID # rest) fs s =
     (case (fmlookup (cs_configs st) fieldID, fmlookup (cs_deltas st) fieldID, fmlookup fs fieldID) of
        (Some config, Some d, Some f) \<Rightarrow>
          ok_then (save_choice_field E actor tableID fieldID config d s) (\<lambda>(d, s).
          ok_then (save_choice_fields E actor tableID st rest
            (fmupd fieldID (f\<lparr>fe_config := Some (config_of config), fe_revision := cfr_revision d\<rparr>) fs) s)
            (\<lambda>((fs, ds), s). Inr ((fs, d # ds), s)))
      | _ \<Rightarrow> Inl (Internal ''panic''))"

definition new_delta :: "string \<times> field \<Rightarrow> string \<times> choice_field_result" where
  "new_delta p =
     (fst p, \<lparr>cfr_field = fst p, cfr_before = fd_revision (snd p), cfr_revision = fd_revision (snd p),
              cfr_resolved = [], cfr_created = []\<rparr>)"

definition prepareChoiceMutation ::
  "env \<Rightarrow> string \<Rightarrow> string \<Rightarrow> string \<Rightarrow> command list \<Rightarrow> (command list \<times> fields \<times> choice_field_result list) tx" where
  "prepareChoiceMutation E actor tableID mutationID input s =
     (let named = choice_fields input; fieldIDs = map fst named in
      ok_then (each_ok (lock_choice_field tableID mutationID s) named) (\<lambda>found.
      ok_then (lock_targets tableID input s) (\<lambda>targets.
      ok_then (check_targets mutationID targets 0 input) (\<lambda>_.
      let locked = zip fieldIDs (map fst found); configs = zip fieldIDs (map snd found) in
      ok_then (resolve_commands E (fmap_of_list locked) targets 0 input
        \<lparr>cs_configs = fmap_of_list configs, cs_deltas = fmap_of_list (map new_delta locked)\<rparr> s) (\<lambda>((commands, st), s').
      ok_then (save_choice_fields E actor tableID st fieldIDs (loadFieldDefinitions tableID s) s')
        (\<lambda>((fs, ds), s). Inr ((commands, fs, ds), s)))))))"

section \<open>\<open>MutateRecords\<close>\<close>

definition as_mutation :: "receipt \<Rightarrow> mutation_result option" where
  "as_mutation r = (case r of MutationReceipt m \<Rightarrow> Some m | _ \<Rightarrow> None)"

definition has_choices :: "command list \<Rightarrow> bool" where
  "has_choices commands = list_ex (\<lambda>c. cm_choices c \<noteq> []) commands"

definition changed_ids :: "command_result list \<Rightarrow> string list" where
  "changed_ids results = map (\<lambda>r. rc_id (cr_record r)) (filter (\<lambda>r. cr_status r = ''applied'') results)"

definition prepare_mutation ::
  "env \<Rightarrow> string \<Rightarrow> string \<Rightarrow> string \<Rightarrow> command list \<Rightarrow> (command list \<times> fields \<times> choice_field_result list) tx" where
  "prepare_mutation E actor tableID key commands s =
     (if has_choices commands then prepareChoiceMutation E actor tableID key commands s
      else Inr ((commands, loadFieldDefinitions tableID s, []), s))"

definition mutation_work ::
  "env \<Rightarrow> host \<Rightarrow> string \<Rightarrow> string \<Rightarrow> string \<Rightarrow> string \<Rightarrow> command list \<Rightarrow> mutation_result tx" where
  "mutation_work E H actor tableID key fingerprint commands s =
     ok_then (lock_active_table actor tableID s) (\<lambda>_.
     ok_then (prepare_mutation E actor tableID key commands s) (\<lambda>((cs, fs, choiceFields), s).
     ok_then (applyCommands E H actor tableID key fs 0 cs s) (\<lambda>(results, s).
     ok_then (invalidate_selections E actor tableID (changed_ids results) s) (\<lambda>s.
     let stored = \<lparr>mr_mutation = key, mr_results = results, mr_sequence = change_tail tableID s,
                   mr_choices = choiceFields\<rparr> in
     ok_then (if has_choices commands then save_guard actor key fingerprint s else Inr ((), s)) (\<lambda>(_, s).
     ok_then (save_idempotent actor key fingerprint (MutationReceipt stored) s) (\<lambda>(_, s).
     Inr (stored, s)))))))"

definition MutateRecords ::
  "env \<Rightarrow> host \<Rightarrow> string \<Rightarrow> string \<Rightarrow> string \<Rightarrow> string \<Rightarrow> command list \<Rightarrow> mutation_result tx" where
  "MutateRecords E H actor tableID key fingerprint commands =
     idempotent E as_mutation actor key fingerprint (mutation_work E H actor tableID key fingerprint commands)"

end
