(* ===== verification/RecordOrder.thy ===== *)
theory RecordOrder
  imports RecordWrite
begin

text \<open>
  The manual order of Records (internal/storage/postgres/order.go) and the Record services that write
  (internal/record/service.go and order.go).  A position is a \<open>DOUBLE PRECISION\<close> number; every operation on
  positions is rounded by \<open>ho_round\<close>.
\<close>

section \<open>Positions\<close>

definition active_records :: "string \<Rightarrow> db \<Rightarrow> record_row list" where
  "active_records tableID s =
     filter (\<lambda>r. rc_table (rr_record r) = tableID \<and> rc_deleted_at (rr_record r) = None) (db_records s)"

definition anchor_position :: "string \<Rightarrow> string \<Rightarrow> string \<Rightarrow> db \<Rightarrow> rat res" where
  "anchor_position tableID p recordID s =
     (case find (\<lambda>r. rc_id (rr_record r) = recordID) (active_records tableID s) of
        None \<Rightarrow> Inl (NewValidationError [Issue p ''invalidReference'' ''Record is foreign, unknown, or deleted''])
      | Some r \<Rightarrow> Inr (rr_position r))"

text \<open>The positions of the other active Records: below one, or above one.\<close>

definition neighbours :: "string \<Rightarrow> string \<Rightarrow> (rat \<Rightarrow> bool) \<Rightarrow> db \<Rightarrow> rat list" where
  "neighbours tableID recordID p s =
     map rr_position (filter (\<lambda>r. p (rr_position r) \<and> rc_id (rr_record r) \<noteq> recordID) (active_records tableID s))"

definition midpoint :: "host \<Rightarrow> rat \<Rightarrow> rat \<Rightarrow> rat" where
  "midpoint H a b = ho_round H (ho_round H (a + b) / 2)"

definition between_positions :: "host \<Rightarrow> rat \<Rightarrow> rat \<Rightarrow> rat res" where
  "between_positions H before after =
     fail_if (after \<ge> before)
       (NewValidationError [Issue ''/'' ''format'' ''afterRecordId must be positioned before beforeRecordId''])
    (Inr (midpoint H after before))"

definition position_before :: "host \<Rightarrow> string \<Rightarrow> string \<Rightarrow> rat \<Rightarrow> db \<Rightarrow> rat" where
  "position_before H tableID recordID before s =
     (let previous = neighbours tableID recordID (\<lambda>p. p < before) s;
          lower = (if previous = [] then ho_round H (before - 1024) else Max (set previous)) in
      midpoint H lower before)"

definition position_after :: "host \<Rightarrow> string \<Rightarrow> string \<Rightarrow> rat \<Rightarrow> db \<Rightarrow> rat" where
  "position_after H tableID recordID after s =
     (let following = neighbours tableID recordID (\<lambda>p. p > after) s;
          upper = (if following = [] then ho_round H (after + 1024) else Min (set following)) in
      midpoint H after upper)"

definition moveTargetPosition ::
  "host \<Rightarrow> string \<Rightarrow> string \<Rightarrow> string option \<Rightarrow> string option \<Rightarrow> db \<Rightarrow> rat res" where
  "moveTargetPosition H tableID recordID beforeID afterID s =
     (case (beforeID, afterID) of
        (None, None) \<Rightarrow> Inr (last_position H (active_records tableID s))
      | (Some b, Some a) \<Rightarrow>
          ok_then (anchor_position tableID ''/beforeRecordId'' b s) (\<lambda>before.
          ok_then (anchor_position tableID ''/afterRecordId'' a s) (\<lambda>after.
          between_positions H before after))
      | (Some b, None) \<Rightarrow>
          ok_then (anchor_position tableID ''/beforeRecordId'' b s) (\<lambda>before.
          Inr (position_before H tableID recordID before s))
      | (None, Some a) \<Rightarrow>
          ok_then (anchor_position tableID ''/afterRecordId'' a s) (\<lambda>after.
          Inr (position_after H tableID recordID after s)))"

section \<open>The transactions\<close>

type_synonym order_result = "rec \<times> int"

definition position_columns :: "rat \<Rightarrow> instant \<Rightarrow> record_row \<Rightarrow> record_row" where
  "position_columns target now r = r\<lparr>rr_record := (rr_record r)\<lparr>rc_updated_at := now\<rparr>, rr_position := target\<rparr>"

definition finishRecordOrderChange :: "string \<Rightarrow> rec \<Rightarrow> order_result tx" where
  "finishRecordOrderChange tableID item s = Inr ((item, change_tail tableID s), s)"

definition lock_movable :: "string \<Rightarrow> string \<Rightarrow> string \<Rightarrow> string \<Rightarrow> db \<Rightarrow> rec res" where
  "lock_movable actor tableID recordID action s =
     ok_then (lock_actor actor s) (\<lambda>_.
     ok_then (lock_active_table actor tableID s) (\<lambda>_.
     ok_then (lockRecord tableID recordID s) (\<lambda>current.
     fail_if (rc_deleted_at current \<noteq> None)
       (InvalidStateTransition ''record'' (rc_id current) action ''deleted'')
    (Inr current))))"

definition MoveRecord ::
  "env \<Rightarrow> host \<Rightarrow> string \<Rightarrow> string \<Rightarrow> string \<Rightarrow> string option \<Rightarrow> string option \<Rightarrow> order_result tx" where
  "MoveRecord E H actor tableID recordID beforeID afterID s =
     ok_then (begin_audit E actor s) (\<lambda>(_, s).
     ok_then (lock_movable actor tableID recordID ''move'' s) (\<lambda>current.
     ok_then (moveTargetPosition H tableID recordID beforeID afterID s) (\<lambda>target.
     ok_then (write_record ''move record'' (position_columns target (db_now s)) recordID s) (\<lambda>(moved, s).
     ok_then (insertRecordChange E actor moved ''recordMoved'' []
       (primaryFieldText H (rc_values moved) (loadFieldDefinitions tableID s)) s) (\<lambda>(_, s).
     finishRecordOrderChange tableID moved s)))))"

definition DuplicateRecord :: "env \<Rightarrow> host \<Rightarrow> string \<Rightarrow> string \<Rightarrow> string \<Rightarrow> order_result tx" where
  "DuplicateRecord E H actor tableID recordID s =
     ok_then (begin_audit E actor s) (\<lambda>(_, s).
     ok_then (lock_movable actor tableID recordID ''duplicate'' s) (\<lambda>current.
     let fs = loadFieldDefinitions tableID s in
     ok_then (ok_then (NormalizeCreateValues (en_lib E) (rc_values current) fs) panics) (\<lambda>(vs, q, searchText).
     ok_then (draw_id E ''generate record ID'' RecordPrefix s) (\<lambda>(recordID2, s).
     ok_then (insertRecord H recordID2 tableID vs q searchText s) (\<lambda>(created, s).
     ok_then (insertRecordChange E actor created ''recordCreated'' [] (primaryFieldText H (rc_values created) fs) s)
       (\<lambda>(_, s).
     ok_then (invalidate_selections E actor tableID [rc_id created] s) (\<lambda>s.
     finishRecordOrderChange tableID created s)))))))"

section \<open>The services\<close>

text \<open>\<open>mutationFingerprint\<close>; \<open>J\<close> is the canonical JSON of the request.\<close>

type_synonym mutation_json = "string \<Rightarrow> string \<Rightarrow> command list \<Rightarrow> string option"

definition mutationFingerprint :: "env \<Rightarrow> mutation_json \<Rightarrow> string \<Rightarrow> string \<Rightarrow> command list \<Rightarrow> string res" where
  "mutationFingerprint E J tableID key commands =
     (case J (''/v1/tables/'' @ tableID @ ''/records/mutate'') key commands of
        None \<Rightarrow> Inl (Internal ''canonicalize mutation'')
      | Some canonical \<Rightarrow> Inr (en_hash E canonical))"

definition typed_id :: "string \<Rightarrow> string \<Rightarrow> string \<Rightarrow> unit res" where
  "typed_id what prefix i = fail_if (\<not> Valid prefix i) (BadRequest (what @ '' has an invalid typed ID'')) (Inr ())"

definition Record_Get :: "string \<Rightarrow> string \<Rightarrow> db \<Rightarrow> rec res" where
  "Record_Get actor recordID s =
     ok_then (typed_id ''/recordId'' RecordPrefix recordID) (\<lambda>_. GetRecord actor recordID s)"

definition change_cursor_at :: "change_cursor codec \<Rightarrow> string \<Rightarrow> string \<Rightarrow> string \<Rightarrow> int \<Rightarrow> string res" where
  "change_cursor_at C key actor tableID sequence =
     encode_cursor ''encode change cursor'' C key ''change''
       \<lparr>ccp_actor = actor, ccp_table = tableID, ccp_sequence = sequence\<rparr>"

text \<open>
  The answer and the state the transaction left: an error of the cursor leaves the committed state.
\<close>

definition with_cursor ::
  "change_cursor codec \<Rightarrow> string \<Rightarrow> string \<Rightarrow> string \<Rightarrow> string \<Rightarrow> ('a \<times> int) \<Rightarrow> ('a \<times> string) res" where
  "with_cursor C what key0 actor tableID r =
     ok_then (case NewSigner key0 of Inl e \<Rightarrow> Inl (Internal what) | Inr k \<Rightarrow> Inr k) (\<lambda>key.
     ok_then (change_cursor_at C key actor tableID (snd r)) (\<lambda>encoded.
     Inr (fst r, encoded)))"

definition answer :: "('a \<times> db) res \<Rightarrow> ('a \<Rightarrow> 'b res) \<Rightarrow> db \<Rightarrow> 'b res \<times> db" where
  "answer r f s = (case r of Inl e \<Rightarrow> (Inl e, s) | Inr (x, s') \<Rightarrow> (f x, s'))"

definition mutate_checks :: "env \<Rightarrow> mutation_json \<Rightarrow> string \<Rightarrow> string \<Rightarrow> command list \<Rightarrow> string res" where
  "mutate_checks E J tableID key commands =
     ok_then (typed_id ''/tableId'' TablePrefix tableID) (\<lambda>_.
     ok_then (typed_id ''/clientMutationId'' MutationPrefix key) (\<lambda>_.
     ok_then (validate_commands (en_lib E) commands) (\<lambda>_.
     mutationFingerprint E J tableID key commands)))"

definition Record_Mutate ::
  "env \<Rightarrow> host \<Rightarrow> mutation_json \<Rightarrow> change_cursor codec \<Rightarrow> string \<Rightarrow> string \<Rightarrow> string \<Rightarrow> string \<Rightarrow> command list \<Rightarrow> db
     \<Rightarrow> (mutation_result \<times> string) res \<times> db" where
  "Record_Mutate E H J C key0 actor tableID key commands s =
     (case mutate_checks E J tableID key commands of
        Inl e \<Rightarrow> (Inl e, s)
      | Inr fingerprint \<Rightarrow>
          answer (MutateRecords E H actor tableID key fingerprint commands s)
            (\<lambda>stored. with_cursor C ''create change cursor signer'' key0 actor tableID (stored, mr_sequence stored)) s)"

record move_request =
  mv_before :: string
  mv_after :: string

definition move_issues :: "string \<Rightarrow> move_request \<Rightarrow> issue list" where
  "move_issues recordID r =
     (if mv_before r \<noteq> [] \<and> \<not> Valid RecordPrefix (mv_before r)
      then [Issue ''/beforeRecordId'' ''format'' ''beforeRecordId must be a typed Record ID''] else [])
   @ (if mv_after r \<noteq> [] \<and> \<not> Valid RecordPrefix (mv_after r)
      then [Issue ''/afterRecordId'' ''format'' ''afterRecordId must be a typed Record ID''] else [])
   @ (if mv_before r = recordID \<or> mv_after r = recordID
      then [Issue ''/'' ''format'' ''record cannot be moved relative to itself''] else [])"

definition order_checks :: "string \<Rightarrow> string \<Rightarrow> unit res" where
  "order_checks tableID recordID =
     ok_then (typed_id ''/tableId'' TablePrefix tableID) (\<lambda>_. typed_id ''/recordId'' RecordPrefix recordID)"

definition given_id :: "string \<Rightarrow> string option" where
  "given_id i = (if i = [] then None else Some i)"

definition Record_Move ::
  "env \<Rightarrow> host \<Rightarrow> change_cursor codec \<Rightarrow> string \<Rightarrow> string \<Rightarrow> string \<Rightarrow> string \<Rightarrow> move_request \<Rightarrow> db
     \<Rightarrow> (rec \<times> string) res \<times> db" where
  "Record_Move E H C key0 actor tableID recordID r s =
     (case order_checks tableID recordID of
        Inl e \<Rightarrow> (Inl e, s)
      | Inr _ \<Rightarrow>
          if move_issues recordID r \<noteq> [] then (Inl (NewValidationError (move_issues recordID r)), s)
          else answer (MoveRecord E H actor tableID recordID (given_id (mv_before r)) (given_id (mv_after r)) s)
                 (with_cursor C ''create cursor signer'' key0 actor tableID) s)"

definition Record_Duplicate ::
  "env \<Rightarrow> host \<Rightarrow> change_cursor codec \<Rightarrow> string \<Rightarrow> string \<Rightarrow> string \<Rightarrow> string \<Rightarrow> db \<Rightarrow> (rec \<times> string) res \<times> db" where
  "Record_Duplicate E H C key0 actor tableID recordID s =
     (case order_checks tableID recordID of
        Inl e \<Rightarrow> (Inl e, s)
      | Inr _ \<Rightarrow>
          answer (DuplicateRecord E H actor tableID recordID s)
            (with_cursor C ''create cursor signer'' key0 actor tableID) s)"

end
