(* ===== verification/Effects.thy ===== *)
theory Effects
  imports ViewStore RecordOrder
begin

text \<open>
  What a transaction of the catalog or of the Records does to the database, as a sequence of small effects:
  \<open>db_step\<close> has one rule for every statement that writes, with what the code has checked before it as premises;
  time passes between transactions.
  Every operation is shown to be such a sequence, so an invariant is proved once for each effect.
\<close>

section \<open>The effects\<close>

definition keeps_table :: "(tbl \<Rightarrow> tbl) \<Rightarrow> bool" where
  "keeps_table f \<longleftrightarrow> (\<forall>t. tb_id (f t) = tb_id t \<and> tb_base (f t) = tb_base t
     \<and> tb_primary_field (f t) = tb_primary_field t)"

definition keeps_field :: "(field \<Rightarrow> field) \<Rightarrow> bool" where
  "keeps_field f \<longleftrightarrow> (\<forall>x. fd_id (f x) = fd_id x \<and> fd_table (f x) = fd_table x)"

definition keeps_view :: "(view \<Rightarrow> view) \<Rightarrow> bool" where
  "keeps_view f \<longleftrightarrow> (\<forall>v. vw_id (f v) = vw_id v \<and> vw_table (f v) = vw_table v)"

definition keeps_record :: "(record_row \<Rightarrow> record_row) \<Rightarrow> bool" where
  "keeps_record f = (\<forall>r. rc_id (rr_record (f r)) = rc_id (rr_record r) \<and> rc_table (rr_record (f r)) = rc_table (rr_record r)
     \<and> rc_revision (rr_record (f r)) = rc_revision (rr_record r) + 1)"

definition revise_rows :: "(tbl \<Rightarrow> tbl) \<Rightarrow> instant \<Rightarrow> string \<Rightarrow> table_row list \<Rightarrow> table_row list" where
  "revise_rows f now tid =
     update_where (\<lambda>r. table_id r = tid) (\<lambda>r. r\<lparr>tr_table := revise_table f now (tr_table r)\<rparr>)"

definition revise_fields :: "(field \<Rightarrow> field) \<Rightarrow> string \<Rightarrow> field_row list \<Rightarrow> field_row list" where
  "revise_fields f fid =
     update_where (\<lambda>r. field_id r = fid) (\<lambda>r. r\<lparr>fr_field := revise_field f (fr_field r)\<rparr>)"

definition revise_views :: "(view \<Rightarrow> view) \<Rightarrow> instant \<Rightarrow> string \<Rightarrow> view list \<Rightarrow> view list" where
  "revise_views f now vid = update_where (\<lambda>v. vw_id v = vid) (revise_view f now)"

definition set_order :: "string list \<Rightarrow> string \<Rightarrow> table_row list \<Rightarrow> table_row list" where
  "set_order order' tid =
     update_where (\<lambda>r. table_id r = tid)
       (\<lambda>r. r\<lparr>tr_order := order', tr_order_revision := tr_order_revision r + 1\<rparr>)"

inductive db_step :: "db \<Rightarrow> db \<Rightarrow> bool" where
  tick: "db_step s (s\<lparr>db_draws := n, db_operation := i\<rparr>)"
| logged: "insert_change E a k t r obj n fs x s = Inr (u, s') \<Longrightarrow> db_step s s'"
| receipt: "find_receipt (ir_actor r) (ir_key r) s = None \<Longrightarrow> db_step s (s\<lparr>db_receipts := db_receipts s @ [r]\<rparr>)"
| guard: "find_guard (gr_actor g) (gr_key g) s = None \<Longrightarrow> db_step s (s\<lparr>db_guards := db_guards s @ [g]\<rparr>)"
| scopes: "db_step s (s\<lparr>db_scopes := cs\<rparr>)"
| clock: "db_now s \<le> t \<Longrightarrow> db_step s (s\<lparr>db_now := t\<rparr>)"
| add_record:
    "record_id r \<notin> record_id ` set (db_records s) \<Longrightarrow> db_step s (s\<lparr>db_records := db_records s @ [r]\<rparr>)"
| edit_record:
    "keeps_record f \<Longrightarrow> db_step s (s\<lparr>db_records := update_where (\<lambda>r. record_id r = i) f (db_records s)\<rparr>)"
| move_record:
    "db_step s (s\<lparr>db_records := update_where (\<lambda>r. record_id r = i) (position_columns p now) (db_records s)\<rparr>)"
| add_workspace:
    "workspace_id r \<notin> workspace_id ` set (db_workspaces s) \<Longrightarrow>
     count_rows (\<lambda>q. wr_actor q = wr_actor r) (db_workspaces s) < WorkspaceLimitPerActor \<Longrightarrow>
     db_step s (s\<lparr>db_workspaces := db_workspaces s @ [r]\<rparr>)"
| edit_workspace:
    "db_step s (s\<lparr>db_workspaces := update_where (\<lambda>r. workspace_id r = wid) (rename_workspace name now) (db_workspaces s)\<rparr>)"
| add_base:
    "base_id r \<notin> base_id ` set (db_bases s) \<Longrightarrow>
     count_rows (\<lambda>q. bs_workspace (br_base q) = bs_workspace (br_base r)) (db_bases s) < BaseLimitPerWorkspace \<Longrightarrow>
     db_step s (s\<lparr>db_bases := db_bases s @ [r]\<rparr>)"
| edit_base:
    "db_step s (s\<lparr>db_bases := update_where (\<lambda>r. base_id r = bid) (rename_base name now) (db_bases s)\<rparr>)"
| add_table:
    "tb_id t \<notin> table_id ` set (db_tables s) \<Longrightarrow>
     count_rows (\<lambda>q. tb_base (tr_table q) = tb_base t) (db_tables s) < TableLimitPerBase \<Longrightarrow>
     tb_primary_field t \<notin> field_id ` set (db_fields s) \<Longrightarrow>
     fd_id f = tb_primary_field t \<Longrightarrow> fd_table f = tb_id t \<Longrightarrow> fd_deleted_at f = None \<Longrightarrow>
     vw_id v \<notin> vw_id ` set (db_views s) \<Longrightarrow> vw_table v = tb_id t \<Longrightarrow> vw_deleted_at v = None \<Longrightarrow>
     db_step s (s\<lparr>db_tables := db_tables s @ [\<lparr>tr_table = t, tr_order_revision = 2, tr_order = [vw_id v]\<rparr>],
       db_fields := db_fields s @ [\<lparr>fr_field = f, fr_primary = True\<rparr>], db_views := db_views s @ [v]\<rparr>)"
| edit_table: "keeps_table f \<Longrightarrow> db_step s (s\<lparr>db_tables := revise_rows f now tid (db_tables s)\<rparr>)"
| add_field:
    "fd_id f \<notin> field_id ` set (db_fields s) \<Longrightarrow> fd_table f \<in> table_id ` set (db_tables s) \<Longrightarrow>
     count_rows (\<lambda>q. fd_table (fr_field q) = fd_table f) (db_fields s) < FieldLimitPerTable \<Longrightarrow>
     db_step s (s\<lparr>db_fields := db_fields s @ [\<lparr>fr_field = f, fr_primary = False\<rparr>]\<rparr>)"
| edit_field:
    "keeps_field f \<Longrightarrow>
     (\<And>r. r \<in> set (db_fields s) \<Longrightarrow> field_id r = fid \<Longrightarrow> fr_primary r \<Longrightarrow>
        fd_deleted_at (fr_field r) = None \<Longrightarrow> fd_deleted_at (f (fr_field r)) = None) \<Longrightarrow>
     db_step s (s\<lparr>db_fields := revise_fields f fid (db_fields s)\<rparr>)"
| add_view:
    "vw_id v \<notin> vw_id ` set (db_views s) \<Longrightarrow> vw_table v \<in> table_id ` set (db_tables s) \<Longrightarrow>
     count_rows (\<lambda>w. vw_table w = vw_table v) (db_views s) < ViewLimitPerTable \<Longrightarrow> \<not> vw_default v \<Longrightarrow>
     vw_deleted_at v = None \<Longrightarrow>
     db_step s (maintain_view_order v (s\<lparr>db_views := db_views s @ [v]\<rparr>))"
| edit_view:
    "keeps_view f \<Longrightarrow> find (\<lambda>v. vw_id v = vid) (db_views s) = Some old \<Longrightarrow>
     (is_default_of (vw_table old) (f old) \<Longrightarrow> is_default_of (vw_table old) old
        \<or> (\<forall>v \<in> set (db_views s). \<not> is_default_of (vw_table old) v)) \<Longrightarrow>
     db_step s (trigger_view_order old (revise_view f now old) (s\<lparr>db_views := revise_views f now vid (db_views s)\<rparr>))"
| clear_defaults:
    "db_step s (s\<lparr>db_views := update_where (is_default_of tid) (clear_default now) (db_views s)\<rparr>)"
| reorder:
    "find (\<lambda>r. table_id r = tid) (db_tables s) = Some r \<Longrightarrow> mset order' = mset (tr_order r) \<Longrightarrow>
     db_step s (s\<lparr>db_tables := set_order order' tid (db_tables s)\<rparr>)"

abbreviation db_steps :: "db \<Rightarrow> db \<Rightarrow> bool" where
  "db_steps \<equiv> db_step\<^sup>*\<^sup>*"

lemmas step_then = converse_rtranclp_into_rtranclp[of db_step]
lemmas one_step = r_into_rtranclp[of db_step]

lemma steps_snoc: "db_steps s s1 \<Longrightarrow> db_step s1 s2 \<Longrightarrow> db_steps s s2"
  by (rule rtranclp.rtrancl_into_rtrancl)

text \<open>The parts the transactions share, in the form that extends a sequence at its end.\<close>

lemma after_begin_audit: "begin_audit E actor s1 = Inr (u, s2) \<Longrightarrow> db_steps s s1 \<Longrightarrow> db_steps s s2"
  by (auto simp: begin_audit_Inr intro: steps_snoc tick)

lemma after_insert_change:
  "insert_change E a k t r obj n fs x s1 = Inr (u, s2) \<Longrightarrow> db_steps s s1 \<Longrightarrow> db_steps s s2"
  by (rule steps_snoc, assumption, rule logged)

lemma after_metadata_change:
  "insert_metadata_change E a k t obj n s1 = Inr (u, s2) \<Longrightarrow> db_steps s s1 \<Longrightarrow> db_steps s s2"
  unfolding insert_metadata_change_def by (rule after_insert_change)

lemma after_table_change: "insert_table_change E a t k s1 = Inr (u, s2) \<Longrightarrow> db_steps s s1 \<Longrightarrow> db_steps s s2"
  unfolding insert_table_change_def by (rule after_insert_change)

lemma after_save_idempotent:
  "save_idempotent actor key h r s1 = Inr (u, s2) \<Longrightarrow> db_steps s s1 \<Longrightarrow> db_steps s s2"
  by (clarsimp simp: save_idempotent_Inr) (erule steps_snoc, rule receipt, simp)

lemma after_save_guard: "save_guard actor key h s1 = Inr (u, s2) \<Longrightarrow> db_steps s s1 \<Longrightarrow> db_steps s s2"
  by (clarsimp simp: save_guard_Inr) (erule steps_snoc, rule guard, simp)

lemma after_invalidate:
  "invalidate_selections E actor t changed s1 = Inr s2 \<Longrightarrow> db_steps s s1 \<Longrightarrow> db_steps s s2"
  using invalidate_each_Inr[of E actor t changed "live_scopes t s1" s1 s2]
  by (auto simp: invalidate_selections_def dest: steps_snoc[OF _ scopes])

lemmas after_part = after_begin_audit after_insert_change after_metadata_change after_table_change
  after_save_idempotent after_save_guard after_invalidate

lemma steps_idempotent_at:
  assumes "idempotent E decode actor key h work s = Inr (x, s')"
    and "\<And>n i. work (s\<lparr>db_draws := n, db_operation := i\<rparr>) = Inr (x, s') \<Longrightarrow>
      db_steps (s\<lparr>db_draws := n, db_operation := i\<rparr>) s'"
  shows "db_steps s s'"
proof -
  obtain i where i: "s' = s\<lparr>db_draws := db_draws s + 1, db_operation := i\<rparr>
      \<or> work (s\<lparr>db_draws := db_draws s + 1, db_operation := i\<rparr>) = Inr (x, s')"
    using assms(1) by (auto simp: idempotent_Inr Let_def)
  then show ?thesis
  proof
    assume "s' = s\<lparr>db_draws := db_draws s + 1, db_operation := i\<rparr>"
    then show ?thesis by (simp add: one_step tick)
  next
    assume "work (s\<lparr>db_draws := db_draws s + 1, db_operation := i\<rparr>) = Inr (x, s')"
    from step_then[OF tick assms(2)[OF this]] show ?thesis .
  qed
qed

lemma steps_idempotent:
  assumes "idempotent E decode actor key h work s = Inr (x, s')"
    and "\<And>s x s'. work s = Inr (x, s') \<Longrightarrow> db_steps s s'"
  shows "db_steps s s'"
  using assms(1) by (rule steps_idempotent_at) (rule assms(2))

section \<open>Primary keys\<close>

definition keys_ok :: "db \<Rightarrow> bool" where
  "keys_ok s = (distinct (map workspace_id (db_workspaces s)) \<and> distinct (map base_id (db_bases s))
     \<and> distinct (map table_id (db_tables s)) \<and> distinct (map field_id (db_fields s))
     \<and> distinct (map vw_id (db_views s)) \<and> distinct (map record_id (db_records s)))"

lemma rename_sel [simp]:
  "workspace_id (rename_workspace n now r) = workspace_id r" "wr_actor (rename_workspace n now r) = wr_actor r"
  "base_id (rename_base n now b) = base_id b"
  "bs_workspace (br_base (rename_base n now b)) = bs_workspace (br_base b)"
  by (simp_all add: rename_workspace_def rename_base_def)

lemma record_columns [simp]:
  "keeps_record (value_columns vs q x now)" "keeps_record (deleted_columns d now)"
  "record_id (position_columns p now r) = record_id r"
  by (simp_all add: keeps_record_def value_columns_def deleted_columns_def position_columns_def)

lemma keeps_record_sel [simp]:
  "keeps_record f \<Longrightarrow> rc_id (rr_record (f r)) = rc_id (rr_record r)"
  "keeps_record f \<Longrightarrow> rc_table (rr_record (f r)) = rc_table (rr_record r)"
  "keeps_record f \<Longrightarrow> rc_revision (rr_record (f r)) = rc_revision (rr_record r) + 1"
  by (simp_all add: keeps_record_def)

lemma revise_table_sel [simp]:
  "tb_revision (revise_table f now t) = tb_revision t + 1"
  "keeps_table f \<Longrightarrow> tb_id (revise_table f now t) = tb_id t"
  "keeps_table f \<Longrightarrow> tb_base (revise_table f now t) = tb_base t"
  "keeps_table f \<Longrightarrow> tb_primary_field (revise_table f now t) = tb_primary_field t"
  by (simp_all add: revise_table_def keeps_table_def)

lemma revise_field_sel [simp]:
  "fd_revision (revise_field f x) = fd_revision x + 1"
  "keeps_field f \<Longrightarrow> fd_id (revise_field f x) = fd_id x"
  "keeps_field f \<Longrightarrow> fd_table (revise_field f x) = fd_table x"
  "fd_deleted_at (revise_field f x) = fd_deleted_at (f x)"
  by (simp_all add: revise_field_def keeps_field_def)

lemma revise_view_sel [simp]:
  "vw_revision (revise_view f now v) = vw_revision v + 1"
  "keeps_view f \<Longrightarrow> vw_id (revise_view f now v) = vw_id v"
  "keeps_view f \<Longrightarrow> vw_table (revise_view f now v) = vw_table v"
  "vw_deleted_at (revise_view f now v) = vw_deleted_at (f v)"
  "vw_default (revise_view f now v) = vw_default (f v)"
  by (simp_all add: revise_view_def keeps_view_def)

lemma keeps_intros [simp, intro]:
  "keeps_table (tb_name_update g)" "keeps_table (tb_deleted_at_update h)"
  "keeps_field (fd_deleted_at_update h)" "keeps_field (field_columns target)"
  "keeps_view (vw_deleted_at_update h)" "keeps_view (view_columns v)" "keeps_view restored_columns"
  "keeps_view (vw_default_update d)"
  by (simp_all add: keeps_table_def keeps_field_def keeps_view_def field_columns_def view_columns_def
      restored_columns_def)

lemma map_revise [simp]:
  "keeps_table f \<Longrightarrow> map table_id (revise_rows f now tid rows) = map table_id rows"
  "keeps_field g \<Longrightarrow> map field_id (revise_fields g fid fs) = map field_id fs"
  "keeps_view h \<Longrightarrow> map vw_id (revise_views h now vid views) = map vw_id views"
  "map table_id (set_order ord tid rows) = map table_id rows"
  "map workspace_id (update_where (\<lambda>r. workspace_id r = wid) (rename_workspace n now) ws) = map workspace_id ws"
  "map base_id (update_where (\<lambda>r. base_id r = bid) (rename_base n now) bs) = map base_id bs"
  "map vw_id (update_where p (clear_default now) views) = map vw_id views"
  by (simp_all add: revise_rows_def revise_fields_def revise_views_def set_order_def clear_default_def)

text \<open>The trigger touches no more than the order of the Tables.\<close>

lemma maintain_frame [simp]:
  "db_workspaces (maintain_view_order v s) = db_workspaces s" "db_bases (maintain_view_order v s) = db_bases s"
  "db_fields (maintain_view_order v s) = db_fields s" "db_views (maintain_view_order v s) = db_views s"
  "db_receipts (maintain_view_order v s) = db_receipts s" "db_guards (maintain_view_order v s) = db_guards s"
  "db_changes (maintain_view_order v s) = db_changes s" "db_sequence (maintain_view_order v s) = db_sequence s"
  "db_watermarks (maintain_view_order v s) = db_watermarks s" "db_records (maintain_view_order v s) = db_records s"
  "db_actors (maintain_view_order v s) = db_actors s" "db_now (maintain_view_order v s) = db_now s"
  "db_draws (maintain_view_order v s) = db_draws s" "db_operation (maintain_view_order v s) = db_operation s"
  "db_attachments (maintain_view_order v s) = db_attachments s"
  by (simp_all add: maintain_view_order_def)

lemma maintain_tables [simp]: "map tr_table (db_tables (maintain_view_order v s)) = map tr_table (db_tables s)"
  by (simp add: maintain_view_order_def Let_def)

lemma map_via: "map f rows = map f rows' \<Longrightarrow> map (\<lambda>r. g (f r)) rows = map (\<lambda>r. g (f r)) rows'"
  by (drule arg_cong[of _ _ "map g"]) (simp add: comp_def)

lemma maintain_ids [simp]: "map table_id (db_tables (maintain_view_order v s)) = map table_id (db_tables s)"
  by (rule map_via[where f = tr_table and g = tb_id]) simp

lemma trigger_frame [simp]:
  "db_workspaces (trigger_view_order v w s) = db_workspaces s" "db_bases (trigger_view_order v w s) = db_bases s"
  "db_fields (trigger_view_order v w s) = db_fields s" "db_views (trigger_view_order v w s) = db_views s"
  "db_receipts (trigger_view_order v w s) = db_receipts s" "db_guards (trigger_view_order v w s) = db_guards s"
  "db_changes (trigger_view_order v w s) = db_changes s" "db_sequence (trigger_view_order v w s) = db_sequence s"
  "db_watermarks (trigger_view_order v w s) = db_watermarks s" "db_records (trigger_view_order v w s) = db_records s"
  "map tr_table (db_tables (trigger_view_order v w s)) = map tr_table (db_tables s)"
  "map table_id (db_tables (trigger_view_order v w s)) = map table_id (db_tables s)"
  by (simp_all add: trigger_view_order_def)

lemma db_step_keys: "db_step s s' \<Longrightarrow> keys_ok s \<Longrightarrow> keys_ok s'"
  by (induction rule: db_step.induct) (auto simp: keys_ok_def insert_change_Inr)

lemma db_steps_keys: "db_steps s s' \<Longrightarrow> keys_ok s \<Longrightarrow> keys_ok s'"
  by (induction rule: rtranclp_induct) (auto intro: db_step_keys)

section \<open>Every operation is a sequence of effects\<close>

text \<open>How a transaction that succeeds ran: its parts all succeeded.\<close>

lemma case_option_Inr:
  "(case m of None \<Rightarrow> Inl e | Some r \<Rightarrow> f r) = Inr y \<longleftrightarrow> (\<exists>r. m = Some r \<and> f r = Inr y)"
  by (cases m) auto

lemma if_Inl_Inr: "(if b then Inl e else r) = Inr y \<longleftrightarrow> \<not> b \<and> r = Inr y"
  by simp

lemmas run_simps = ok_then_eq_Inr split_beta case_option_Inr Let_def if_Inl_Inr

named_theorems refines "operations as sequences of effects"

lemma find_workspace_id: "find_workspace actor wid s = Some r \<Longrightarrow> workspace_id r = wid \<and> wr_actor r = actor \<and> r \<in> set (db_workspaces s)"
  unfolding find_workspace_def by (drule find_SomeD) simp

lemma find_base_id: "find_base actor bid s = Some r \<Longrightarrow> base_id r = bid \<and> r \<in> set (db_bases s)"
  unfolding find_base_def by (drule find_SomeD) simp

lemma find_table_id: "find_table actor tid s = Some r \<Longrightarrow> table_id r = tid \<and> r \<in> set (db_tables s)"
  unfolding find_table_def by (drule find_SomeD) simp

lemma find_field_id: "find_field actor fid s = Some r \<Longrightarrow> field_id r = fid \<and> r \<in> set (db_fields s)"
  unfolding find_field_def by (drule find_SomeD) simp

lemma find_view_id: "find_view actor vid s = Some v \<Longrightarrow> vw_id v = vid \<and> v \<in> set (db_views s)"
  unfolding find_view_def by (drule find_SomeD) simp

lemma active_table_in: "active_table_visible actor tid s \<Longrightarrow> tid \<in> table_id ` set (db_tables s)"
  unfolding active_table_visible_def find_active_table_def
  by (auto dest!: find_SomeD split: option.splits)

lemma CreateWorkspace_steps [refines]:
  assumes "CreateWorkspace E actor key h p s = Inr (x, s')" shows "db_steps s s'"
  using assms unfolding CreateWorkspace_def
  by (rule steps_idempotent)
    (auto simp: run_simps insert_row_Inr not_le elim!: after_part,
      rule one_step, rule add_workspace, simp_all)

lemma UpdateWorkspace_steps [refines]:
  assumes "UpdateWorkspace E actor wid expected name s = Inr (x, s')" shows "db_steps s s'"
  using assms unfolding UpdateWorkspace_def
  by (auto simp: run_simps split: if_splits elim!: after_part intro!: steps_snoc[OF _ edit_workspace])

lemma CreateBase_steps [refines]:
  assumes "CreateBase E actor key h p s = Inr (x, s')" shows "db_steps s s'"
  using assms unfolding CreateBase_def
  by (rule steps_idempotent)
    (auto simp: run_simps insert_row_Inr not_le elim!: after_part,
      rule one_step, rule add_base, simp_all)

lemma UpdateBase_steps [refines]:
  assumes "UpdateBase E actor bid expected name s = Inr (x, s')" shows "db_steps s s'"
  using assms unfolding UpdateBase_def
  by (auto simp: run_simps split: if_splits elim!: after_part intro!: steps_snoc[OF _ edit_base])

lemma write_table_steps:
  assumes "write_table E actor f current s1 = Inr (x, s2)" "db_steps s s1" "keeps_table f"
  shows "db_steps s s2"
proof -
  have "db_steps s (s1\<lparr>db_tables := revise_rows f (db_now s1) (table_id current) (db_tables s1)\<rparr>)"
    using assms(2) by (rule steps_snoc) (rule edit_table[OF assms(3)])
  then show ?thesis using assms(1)
    by (auto simp: write_table_def revise_rows_def run_simps elim!: after_part)
qed

lemma UpdateTable_steps [refines]:
  assumes "UpdateTable E actor tid expected name s = Inr (x, s')" shows "db_steps s s'"
  using assms unfolding UpdateTable_def
  by (auto simp: run_simps split: if_splits elim!: after_part write_table_steps)

lemma DeleteTable_steps [refines]:
  assumes "DeleteTable E actor tid expected s = Inr (x, s')" shows "db_steps s s'"
  using assms unfolding DeleteTable_def
  by (auto simp: run_simps split: if_splits elim!: after_part write_table_steps)

lemma RestoreTable_steps [refines]:
  assumes "RestoreTable E actor tid expected s = Inr (x, s')" shows "db_steps s s'"
  using assms unfolding RestoreTable_def
  by (auto simp: run_simps split: if_splits elim!: after_part write_table_steps)


text \<open>The request's Table names the Field it comes with as its primary Field.\<close>

definition table_proposal_ok :: "create_table_result \<Rightarrow> bool" where
  "table_proposal_ok p \<longleftrightarrow> fd_id (ct_field p) = tb_primary_field (ct_table p)"

lemma insert_view_Inr:
  "insert_view what v s = Inr s' \<longleftrightarrow>
     vw_id v \<notin> vw_id ` set (db_views s) \<and> s' = maintain_view_order v (s\<lparr>db_views := db_views s @ [v]\<rparr>)"
  by (auto simp: insert_view_def run_simps insert_row_Inr)

text \<open>The trigger for the first View of a new Table.\<close>

lemma maintain_new_table:
  assumes "tb_id t \<notin> table_id ` set (db_tables s)" "vw_table v = tb_id t" "vw_deleted_at v = None"
  shows "maintain_view_order v
      (s\<lparr>db_tables := db_tables s @ [\<lparr>tr_table = t, tr_order_revision = 1, tr_order = []\<rparr>],
         db_fields := fs, db_views := vs\<rparr>)
    = s\<lparr>db_tables := db_tables s @ [\<lparr>tr_table = t, tr_order_revision = 2, tr_order = [vw_id v]\<rparr>],
         db_fields := fs, db_views := vs\<rparr>"
proof -
  have "\<forall>r \<in> set (db_tables s). table_id r \<noteq> tb_id t" using assms(1) by (auto simp: image_iff)
  then have "update_where (\<lambda>r. table_id r = tb_id t) h (db_tables s) = db_tables s" for h
    by (intro update_where_none) simp
  moreover have "update_where p h (xs @ [x]) = update_where p h xs @ [if p x then h x else x]" for p h x
    and xs :: "table_row list"
    by (simp add: update_where_def)
  ultimately show ?thesis
    using assms(2,3) by (simp add: maintain_view_order_def next_order_def)
qed

lemma CreateTable_steps [refines]:
  assumes "CreateTable E actor key h p s = Inr (x, s')" and p: "table_proposal_ok p" shows "db_steps s s'"
  using assms(1) unfolding CreateTable_def
proof (rule steps_idempotent, goal_cases)
  case (1 s x s')
  let ?t = "\<lambda>b. \<lparr>tb_id = tb_id (ct_table p), tb_base = base_id b, tb_name = tb_name (ct_table p),
    tb_primary_field = tb_primary_field (ct_table p), tb_revision = 1, tb_created_at = db_now s,
    tb_updated_at = db_now s, tb_deleted_at = None\<rparr>"
  let ?f = "(ct_field p)\<lparr>fd_table := tb_id (ct_table p), fd_description := [], fd_revision := 1, fd_deleted_at := None\<rparr>"
  let ?v = "(ct_view p)\<lparr>vw_created_at := db_now s, vw_updated_at := db_now s, vw_table := tb_id (ct_table p),
    vw_revision := 1, vw_deleted_at := None\<rparr>"
  let ?s = "\<lambda>b n ord. s\<lparr>db_tables := db_tables s @ [\<lparr>tr_table = ?t b, tr_order_revision = n, tr_order = ord\<rparr>],
    db_fields := db_fields s @ [\<lparr>fr_field = ?f, fr_primary = True\<rparr>], db_views := db_views s @ [?v]\<rparr>"
  obtain b where b: "count_rows (\<lambda>r. tb_base (tr_table r) = base_id b) (db_tables s) < TableLimitPerBase"
    and t: "tb_id (ct_table p) \<notin> table_id ` set (db_tables s)" "fd_id (ct_field p) \<notin> field_id ` set (db_fields s)"
      "vw_id (ct_view p) \<notin> vw_id ` set (db_views s)"
    and e: "\<exists>r u. save_idempotent actor key h r (maintain_view_order ?v (?s b 1 [])) = Inr (u, s')"
    using 1 by (auto simp: run_simps insert_row_Inr insert_view_Inr not_le)
  have eq: "maintain_view_order ?v (?s b 1 []) = ?s b 2 [vw_id ?v]"
    by (rule maintain_new_table) (use t in simp_all)
  have "db_step s (?s b 2 [vw_id ?v])"
    by (rule add_table) (use b t p in \<open>simp_all add: table_proposal_ok_def\<close>)
  then show ?case using e unfolding eq by (auto elim!: after_part intro: one_step)
qed

section \<open>Fields and Views\<close>

lemma scanField_sel:
  "scanField f = Inr g \<Longrightarrow> fd_id g = fd_id f \<and> fd_table g = fd_table f \<and> fd_revision g = fd_revision f
     \<and> fd_deleted_at g = fd_deleted_at f \<and> fd_type g = fd_type f \<and> fd_name g = fd_name f
     \<and> fd_description g = fd_description f"
  by (auto simp: scanField_def ok_then_eq_Inr)

lemma scanView_sel:
  "scanView v = Inr w \<Longrightarrow> vw_id w = vw_id v \<and> vw_table w = vw_table v \<and> vw_revision w = vw_revision v
     \<and> vw_deleted_at w = vw_deleted_at v \<and> vw_type w = vw_type v \<and> vw_name w = vw_name v
     \<and> vw_default w = vw_default v"
  by (auto simp: scanView_def ok_then_eq_Inr)

lemma lockAccessibleField_Inr:
  "lockAccessibleField actor fid s = Inr (f, b) \<Longrightarrow>
     \<exists>r. find_field actor fid s = Some r \<and> scanField (fr_field r) = Inr f \<and> fr_primary r = b"
  by (auto simp: lockAccessibleField_def run_simps)

lemma lockAccessibleView_Inr:
  "lockAccessibleView actor vid s = Inr v \<Longrightarrow> \<exists>r. find_view actor vid s = Some r \<and> scanView r = Inr v"
  by (auto simp: lockAccessibleView_def run_simps)

lemma begin_audit_keys: "begin_audit E actor s = Inr (u, s1) \<Longrightarrow> keys_ok s \<Longrightarrow> keys_ok s1"
  by (auto simp: begin_audit_Inr keys_ok_def)

text \<open>A primary key selects one row.\<close>

lemma key_unique: "distinct (map key rows) \<Longrightarrow> r \<in> set rows \<Longrightarrow> q \<in> set rows \<Longrightarrow> key r = key q \<Longrightarrow> r = q"
  by (simp add: distinct_map inj_on_def)

lemma find_key: "distinct (map key rows) \<Longrightarrow> r \<in> set rows \<Longrightarrow> find (\<lambda>x. key x = key r) rows = Some r"
  by (rule find_unique[where key = key]) auto

lemma write_field_Inr:
  assumes "write_field E actor f fid s1 = Inr (x, s2)" "db_steps s s1" "keeps_field f"
    and ok: "\<And>r. r \<in> set (db_fields s1) \<Longrightarrow> field_id r = fid \<Longrightarrow> fr_primary r \<Longrightarrow>
      fd_deleted_at (fr_field r) = None \<Longrightarrow> fd_deleted_at (f (fr_field r)) = None"
  shows "db_steps s s2"
proof -
  have "db_steps s (s1\<lparr>db_fields := revise_fields f fid (db_fields s1)\<rparr>)"
    using assms(2) by (rule steps_snoc) (rule edit_field[OF assms(3)], rule ok)
  then show ?thesis using assms(1)
    by (auto simp: write_field_def revise_fields_def run_simps elim!: after_part)
qed

lemma CreateField_steps [refines]:
  assumes "CreateField E actor key h p s = Inr (x, s')" shows "db_steps s s'"
  using assms unfolding CreateField_def
proof (rule steps_idempotent, goal_cases)
  case (1 s x s')
  let ?f = "p\<lparr>fd_position := next_position (table_field_rows (fd_table p) s), fd_revision := 1, fd_deleted_at := None\<rparr>"
  let ?s = "s\<lparr>db_fields := db_fields s @ [\<lparr>fr_field = ?f, fr_primary = False\<rparr>]\<rparr>"
  have t: "active_table_visible actor (fd_table p) s" "fd_id p \<notin> field_id ` set (db_fields s)"
    and c: "count_rows (\<lambda>r. True) (table_field_rows (fd_table p) s) < FieldLimitPerTable"
    and r: "\<exists>g a b u t obj n s1 s2 r v. insert_metadata_change E actor a t obj n ?s = Inr (u, s1)
      \<and> invalidate_selections E actor b [] s1 = Inr s2 \<and> save_idempotent actor key h r s2 = Inr (v, s')"
    using 1 by (auto simp: run_simps insert_row_Inr not_le)
  have "db_step s ?s"
    using t c active_table_in[OF t(1)]
    by (intro add_field) (simp_all add: count_rows_def table_field_rows_def)
  then show ?case using r by (auto elim!: after_part intro: one_step)
qed

lemma UpdateField_steps [refines]:
  assumes "UpdateField E actor fid expected target s = Inr (x, s')" shows "db_steps s s'"
  using assms unfolding UpdateField_def
  by (auto simp: run_simps split: if_splits elim!: after_part write_field_Inr)
    (simp_all add: field_columns_def)

lemma DeleteField_steps [refines]:
  assumes "DeleteField E actor fid expected s = Inr (x, s')" and k: "keys_ok s" shows "db_steps s s'"
proof -
  obtain s1 f u where a: "begin_audit E actor s = Inr (u, s1)" and l: "lockAccessibleField actor fid s1 = Inr (f, False)"
    and w: "\<exists>y. write_field E actor (fd_deleted_at_update (\<lambda>_. Some (db_now s1))) fid s1 = Inr (y, s')"
    using assms(1) unfolding DeleteField_def by (auto simp: run_simps)
  obtain q where q: "find_field actor fid s1 = Some q" "\<not> fr_primary q"
    using lockAccessibleField_Inr[OF l] by auto
  have "r = q" if "r \<in> set (db_fields s1)" "field_id r = fid" for r
    using that find_field_id[OF q(1)] begin_audit_keys[OF a k] unfolding keys_ok_def
    by (intro key_unique[of field_id "db_fields s1"]) simp_all
  then show ?thesis using w a q(2) by (auto elim!: write_field_Inr after_part)
qed

lemma RestoreField_steps [refines]:
  assumes "RestoreField E actor fid expected s = Inr (x, s')" shows "db_steps s s'"
  using assms unfolding RestoreField_def
  by (auto simp: run_simps elim!: after_part write_field_Inr)

text \<open>An update keeps the default View single: no row becomes the default beside another.\<close>

definition default_alone :: "(view \<Rightarrow> view) \<Rightarrow> string \<Rightarrow> db \<Rightarrow> bool" where
  "default_alone f vid s \<longleftrightarrow> (\<forall>old. find (\<lambda>v. vw_id v = vid) (db_views s) = Some old \<longrightarrow>
     is_default_of (vw_table old) (f old) \<longrightarrow> is_default_of (vw_table old) old
       \<or> (\<forall>v \<in> set (db_views s). \<not> is_default_of (vw_table old) v))"

lemma write_view_Inr:
  assumes "write_view E actor f vid s1 = Inr (x, s2)" "db_steps s s1" "keeps_view f" "default_alone f vid s1"
  shows "db_steps s s2"
proof -
  obtain old where old: "find (\<lambda>v. vw_id v = vid) (db_views s1) = Some old"
    and w: "log_view E actor x (trigger_view_order old (revise_view f (db_now s1) old)
      (s1\<lparr>db_views := revise_views f (db_now s1) vid (db_views s1)\<rparr>)) = Inr (x, s2)"
    using assms(1) by (auto simp: write_view_def revise_views_def run_simps log_view_def)
  have "db_steps s (trigger_view_order old (revise_view f (db_now s1) old)
      (s1\<lparr>db_views := revise_views f (db_now s1) vid (db_views s1)\<rparr>))"
    using assms(2) by (rule steps_snoc)
      (use assms(4) old in \<open>auto simp: default_alone_def intro: edit_view[OF assms(3) old]\<close>)
  then show ?thesis using w by (auto simp: log_view_def run_simps elim!: after_part)
qed

lemma CreateView_steps [refines]:
  assumes "CreateView E actor key h p s = Inr (x, s')" shows "db_steps s s'"
  using assms unfolding CreateView_def
proof (rule steps_idempotent, goal_cases)
  case (1 s x s')
  let ?v = "p\<lparr>vw_default := False, vw_revision := 1, vw_created_at := db_now s, vw_updated_at := db_now s,
    vw_deleted_at := None\<rparr>"
  let ?s = "maintain_view_order ?v (s\<lparr>db_views := db_views s @ [?v]\<rparr>)"
  have t: "active_table_visible actor (vw_table p) s" "vw_id p \<notin> vw_id ` set (db_views s)"
    and c: "count_rows (\<lambda>v. vw_table v = vw_table p) (db_views s) < ViewLimitPerTable"
    and r: "\<exists>a b u t obj n s1 s2 r v. insert_metadata_change E actor a t obj n ?s = Inr (u, s1)
      \<and> invalidate_selections E actor b [] s1 = Inr s2 \<and> save_idempotent actor key h r s2 = Inr (v, s')"
    using 1 by (auto simp: run_simps insert_view_Inr not_le)
  have "db_step s ?s"
    using t c active_table_in[OF t(1)] by (intro add_view) simp_all
  then show ?case using r by (auto elim!: after_part intro: one_step)
qed

lemma find_view_find:
  assumes "keys_ok s" "find_view actor vid s = Some v"
  shows "find (\<lambda>w. vw_id w = vid) (db_views s) = Some v"
  using find_key[of vw_id "db_views s" v] find_view_id[OF assms(2)] assms(1) by (simp add: keys_ok_def)

lemma default_alone_columns [simp]:
  "default_alone (view_columns target) vid s" "default_alone restored_columns vid s"
  "default_alone (vw_deleted_at_update (\<lambda>_. Some now)) vid s"
  by (simp_all add: default_alone_def is_default_of_def view_columns_def restored_columns_def)

lemma UpdateView_steps [refines]:
  assumes "UpdateView E same actor vid expected target s = Inr (x, s')" shows "db_steps s s'"
  using assms unfolding UpdateView_def
  by (auto simp: run_simps split: if_splits elim!: after_part write_view_Inr)

lemma DeleteView_steps [refines]:
  assumes "DeleteView E actor vid expected s = Inr (x, s')" shows "db_steps s s'"
  using assms unfolding DeleteView_def
  by (auto simp: run_simps elim!: after_part write_view_Inr)

lemma RestoreView_steps [refines]:
  assumes "RestoreView E actor vid expected s = Inr (x, s')" shows "db_steps s s'"
  using assms unfolding RestoreView_def
  by (auto simp: run_simps elim!: after_part write_view_Inr)

lemma log_cleared_Inr:
  "log_cleared E actor tid vs s1 = Inr s2 \<Longrightarrow> db_views s2 = db_views s1 \<and> (db_steps s s1 \<longrightarrow> db_steps s s2)"
proof (induction vs arbitrary: s1)
  case Nil
  then show ?case by simp
next
  case (Cons v vs)
  then obtain s3 u where c: "insert_metadata_change E actor ''viewChanged'' tid (vw_id v) (vw_revision v) s1 = Inr (u, s3)"
    and r: "log_cleared E actor tid vs s3 = Inr s2"
    by (auto simp: run_simps)
  have "db_views s3 = db_views s1" using c by (auto simp: insert_metadata_change_def insert_change_Inr)
  then show ?case using Cons.IH[OF r] after_metadata_change[OF c] by auto
qed

lemma clear_default_sel [simp]:
  "vw_id (clear_default now v) = vw_id v" "vw_table (clear_default now v) = vw_table v"
  "vw_deleted_at (clear_default now v) = vw_deleted_at v" "vw_revision (clear_default now v) = vw_revision v + 1"
  "\<not> is_default_of t (clear_default now v)"
  by (simp_all add: clear_default_def is_default_of_def)

lemma SetDefaultView_steps [refines]:
  assumes "SetDefaultView E actor vid expected s = Inr (x, s')" and k: "keys_ok s" shows "db_steps s s'"
proof -
  obtain s1 u c where a: "begin_audit E actor s = Inr (u, s1)" and l: "lockAccessibleView actor vid s1 = Inr c"
    and w: "(x = c \<and> s' = s1) \<or> (\<exists>s2 cleared. log_cleared E actor (vw_table c) cleared
          (s1\<lparr>db_views := update_where (is_default_of (vw_table c)) (clear_default (db_now s1)) (db_views s1)\<rparr>) = Inr s2
        \<and> write_view E actor (vw_default_update (\<lambda>_. True)) vid s2 = Inr (x, s'))"
    using assms(1) unfolding SetDefaultView_def by (auto simp: run_simps split: if_splits)
  have s1: "db_steps s s1" using a by (auto elim: after_part)
  from w show ?thesis
  proof (elim disjE exE conjE)
    fix s2 cleared
    let ?views = "update_where (is_default_of (vw_table c)) (clear_default (db_now s1)) (db_views s1)"
    assume cl: "log_cleared E actor (vw_table c) cleared (s1\<lparr>db_views := ?views\<rparr>) = Inr s2"
      and wv: "write_view E actor (vw_default_update (\<lambda>_. True)) vid s2 = Inr (x, s')"
    obtain r where r: "find_view actor vid s1 = Some r" "vw_table c = vw_table r"
      using lockAccessibleView_Inr[OF l] scanView_sel by auto
    have "find (\<lambda>v. vw_id v = vid) ?views
        = map_option (\<lambda>v. if is_default_of (vw_table c) v then clear_default (db_now s1) v else v)
            (find (\<lambda>v. vw_id v = vid) (db_views s1))"
      by (rule find_update_where) simp
    then have f: "\<exists>v. find (\<lambda>v. vw_id v = vid) ?views = Some v \<and> vw_table v = vw_table c"
      using find_view_find[OF begin_audit_keys[OF a k] r(1)] r(2) by simp
    have none: "\<not> is_default_of (vw_table c) v" if "v \<in> set ?views" for v
      using that by (auto simp: set_update_where)
    have "db_views s2 = ?views" and s2: "db_steps s s2"
      using log_cleared_Inr[OF cl] steps_snoc[OF s1 clear_defaults] by auto
    then have "default_alone (vw_default_update (\<lambda>_. True)) vid s2"
      using f none unfolding default_alone_def by auto
    then show ?thesis using write_view_Inr[OF wv s2] by simp
  qed (use s1 in simp)
qed

section \<open>The order of the Views\<close>

lemma strike_members_rest: "snd (strike_members is ms) = filter (\<lambda>m. m \<notin> set is) ms"
  by (induction "is" arbitrary: ms) (auto simp: split_beta intro: filter_cong)

lemma strike_members_valid: "fst (strike_members is ms) \<longleftrightarrow> distinct is \<and> set is \<subseteq> set ms"
  by (induction "is" arbitrary: ms) (auto simp: split_beta)

lemma complete_permutation_iff:
  assumes "distinct current"
  shows "complete_permutation current requested \<longleftrightarrow> mset requested = mset current"
proof -
  have "complete_permutation current requested \<longleftrightarrow> length current = length requested \<and> distinct requested
      \<and> set requested = set current"
    by (auto simp: complete_permutation_def split_beta Let_def strike_members_rest strike_members_valid filter_empty_conv)
  also have "\<dots> \<longleftrightarrow> mset requested = mset current"
    using assms by (metis distinct_card mset_eq_imp_distinct_iff mset_eq_length set_eq_iff_mset_eq_distinct mset_eq_setD)
  finally show ?thesis .
qed

definition orders_distinct :: "db \<Rightarrow> bool" where
  "orders_distinct s \<longleftrightarrow> (\<forall>r \<in> set (db_tables s). distinct (tr_order r))"

lemma save_view_order_Inr:
  assumes "save_view_order E actor key order requested s1 = Inr (x, s2)" "db_steps s s1"
    and "readViewOrder (vo_table order) s1 = Inr order" "mset requested = mset (vo_views order)"
  shows "db_steps s s2"
proof (cases "vo_views order = requested")
  case True
  then show ?thesis using assms(1,2) by (simp add: save_view_order_def)
next
  case False
  obtain r where r: "find (\<lambda>r. table_id r = vo_table order) (db_tables s1) = Some r" "vo_views order = tr_order r"
    using assms(3) by (cases order) (auto simp: readViewOrder_def split: option.splits)
  have "db_steps s (s1\<lparr>db_tables := set_order requested (vo_table order) (db_tables s1)\<rparr>)"
    using assms(2) by (rule steps_snoc) (rule reorder[OF r(1)], simp add: r(2) assms(4))
  then show ?thesis using assms(1) False
    by (auto simp: save_view_order_def set_order_def run_simps elim!: after_part)
qed

lemma ReorderViews_steps [refines]:
  assumes "ReorderViews E actor key tid h input s = Inr (x, s')" and o: "orders_distinct s" shows "db_steps s s'"
  using assms(1) unfolding ReorderViews_def
proof (rule steps_idempotent_at, goal_cases)
  case (1 n i)
  let ?s = "s\<lparr>db_draws := n, db_operation := i\<rparr>"
  obtain order s2 where ro: "readViewOrder tid ?s = Inr order"
    and c: "complete_permutation (vo_views order) (vi_views input)"
    and sv: "save_view_order E actor key order (vi_views input) ?s = Inr (x, s2)"
    and e: "\<exists>s3 u v hash r. save_guard actor key h s2 = Inr (u, s3) \<and> save_idempotent actor key hash r s3 = Inr (v, s')"
    using 1 by (clarsimp simp: run_simps) (rule that, assumption+, blast)
  have "vo_table order = tid" "distinct (vo_views order)"
    using ro o by (auto simp: readViewOrder_def orders_distinct_def dest!: find_SomeD split: option.splits)
  then have "db_steps ?s s2"
    using save_view_order_Inr[OF sv rtranclp.rtrancl_refl] ro c by (simp add: complete_permutation_iff)
  then show ?case using e by (auto elim!: after_part)
qed

end
