(* ===== verification/Catalog_Invariants.thy ===== *)
theory Catalog_Invariants
  imports Effects
begin

text \<open>
  The invariants of the catalog, each preserved by every effect of \<open>Effects\<close>: the parents of Fields and
  Views exist, no parent has more children than its limit, the order of a Table's Views lists its active
  Views once each, a Table has at most one default View and exactly one primary Field, which is active.
\<close>

section \<open>The invariants\<close>

definition parents_ok :: "db \<Rightarrow> bool" where
  "parents_ok s \<longleftrightarrow> (\<forall>f \<in> set (db_fields s). fd_table (fr_field f) \<in> table_id ` set (db_tables s))
     \<and> (\<forall>v \<in> set (db_views s). vw_table v \<in> table_id ` set (db_tables s))"

definition limits_ok :: "db \<Rightarrow> bool" where
  "limits_ok s \<longleftrightarrow>
     (\<forall>a. count_rows (\<lambda>r. wr_actor r = a) (db_workspaces s) \<le> WorkspaceLimitPerActor)
     \<and> (\<forall>w. count_rows (\<lambda>r. bs_workspace (br_base r) = w) (db_bases s) \<le> BaseLimitPerWorkspace)
     \<and> (\<forall>b. count_rows (\<lambda>r. tb_base (tr_table r) = b) (db_tables s) \<le> TableLimitPerBase)
     \<and> (\<forall>t. count_rows (\<lambda>r. fd_table (fr_field r) = t) (db_fields s) \<le> FieldLimitPerTable)
     \<and> (\<forall>t. count_rows (\<lambda>v. vw_table v = t) (db_views s) \<le> ViewLimitPerTable)"

definition active_view_ids :: "string \<Rightarrow> view list \<Rightarrow> string set" where
  "active_view_ids t views = vw_id ` {v \<in> set views. vw_table v = t \<and> vw_deleted_at v = None}"

definition order_ok :: "db \<Rightarrow> bool" where
  "order_ok s \<longleftrightarrow> (\<forall>r \<in> set (db_tables s). distinct (tr_order r)
     \<and> set (tr_order r) = active_view_ids (table_id r) (db_views s))"

definition default_ok :: "db \<Rightarrow> bool" where
  "default_ok s \<longleftrightarrow> (\<forall>t. count_rows (is_default_of t) (db_views s) \<le> 1)"

definition primary_ok :: "db \<Rightarrow> bool" where
  "primary_ok s \<longleftrightarrow>
     (\<forall>r \<in> set (db_tables s). \<exists>f \<in> set (db_fields s). field_id f = tb_primary_field (tr_table r)
        \<and> fd_table (fr_field f) = table_id r \<and> fr_primary f \<and> fd_deleted_at (fr_field f) = None)
     \<and> (\<forall>f \<in> set (db_fields s). fr_primary f \<longrightarrow>
        (\<exists>r \<in> set (db_tables s). table_id r = fd_table (fr_field f) \<and> tb_primary_field (tr_table r) = field_id f))"

definition catalog_ok :: "db \<Rightarrow> bool" where
  "catalog_ok s \<longleftrightarrow> keys_ok s \<and> parents_ok s \<and> limits_ok s \<and> order_ok s \<and> default_ok s \<and> primary_ok s"

section \<open>Counting\<close>

lemma count_rows_append [simp]: "count_rows p (xs @ ys) = count_rows p xs + count_rows p ys"
  by (simp add: count_rows_def)

lemma count_rows_one [simp]: "count_rows p [x] = (if p x then 1 else 0)"
  by (simp add: count_rows_def)

lemma count_rows_none: "(\<And>x. x \<in> set xs \<Longrightarrow> \<not> p x) \<Longrightarrow> count_rows p xs = 0"
  by (simp add: count_rows_def filter_empty_conv)

lemma count_rows_map: "map key rows = map key rows' \<Longrightarrow> count_rows (\<lambda>r. P (key r)) rows = count_rows (\<lambda>r. P (key r)) rows'"
proof -
  assume "map key rows = map key rows'"
  then have "length (filter P (map key rows)) = length (filter P (map key rows'))" by simp
  then show ?thesis by (simp add: count_rows_def filter_map comp_def)
qed

lemma count_rows_update [simp]:
  "(\<And>r. p r \<Longrightarrow> q (f r) = q r) \<Longrightarrow> count_rows q (update_where p f rows) = count_rows q rows"
  by (simp add: count_rows_def)

lemma set_from_map: "map f xs = map f ys \<Longrightarrow> f ` set xs = f ` set ys"
  by (metis list.set_map)

section \<open>Parents and limits\<close>

lemma map_revise_more [simp]:
  "keeps_field g \<Longrightarrow> map (\<lambda>r. fd_table (fr_field r)) (revise_fields g fid fs) = map (\<lambda>r. fd_table (fr_field r)) fs"
  "keeps_view h \<Longrightarrow> map vw_table (revise_views h now vid views) = map vw_table views"
  "keeps_table f \<Longrightarrow> map (\<lambda>r. tb_base (tr_table r)) (revise_rows f now tid rows) = map (\<lambda>r. tb_base (tr_table r)) rows"
  "map vw_table (update_where p (clear_default now) views) = map vw_table views"
  "map (\<lambda>r. tb_base (tr_table r)) (set_order ord tid rows) = map (\<lambda>r. tb_base (tr_table r)) rows"
  by (simp_all add: revise_rows_def revise_fields_def revise_views_def set_order_def)

lemma map_base_triggers [simp]:
  "map (\<lambda>r. tb_base (tr_table r)) (db_tables (maintain_view_order v s)) = map (\<lambda>r. tb_base (tr_table r)) (db_tables s)"
  "map (\<lambda>r. tb_base (tr_table r)) (db_tables (trigger_view_order v w s)) = map (\<lambda>r. tb_base (tr_table r)) (db_tables s)"
  by (rule map_via[where f = tr_table and g = tb_base], simp)+

lemma parents_ok_maps:
  "parents_ok s \<longleftrightarrow> set (map (\<lambda>r. fd_table (fr_field r)) (db_fields s)) \<subseteq> set (map table_id (db_tables s))
     \<and> set (map vw_table (db_views s)) \<subseteq> set (map table_id (db_tables s))"
  by (auto simp: parents_ok_def)

lemma db_step_parents: "db_step s s' \<Longrightarrow> parents_ok s \<Longrightarrow> parents_ok s'"
  unfolding parents_ok_maps
  by (induction rule: db_step.induct) (auto simp: insert_change_Inr simp del: set_map, auto)

lemma limits_ok_maps:
  "limits_ok s \<longleftrightarrow>
     (\<forall>a. count_rows (\<lambda>x. x = a) (map wr_actor (db_workspaces s)) \<le> WorkspaceLimitPerActor)
     \<and> (\<forall>w. count_rows (\<lambda>x. x = w) (map (\<lambda>r. bs_workspace (br_base r)) (db_bases s)) \<le> BaseLimitPerWorkspace)
     \<and> (\<forall>b. count_rows (\<lambda>x. x = b) (map (\<lambda>r. tb_base (tr_table r)) (db_tables s)) \<le> TableLimitPerBase)
     \<and> (\<forall>t. count_rows (\<lambda>x. x = t) (map (\<lambda>r. fd_table (fr_field r)) (db_fields s)) \<le> FieldLimitPerTable)
     \<and> (\<forall>t. count_rows (\<lambda>x. x = t) (map vw_table (db_views s)) \<le> ViewLimitPerTable)"
  by (simp add: limits_ok_def count_rows_def filter_map comp_def)

lemma map_actor_rename [simp]:
  "map wr_actor (update_where p (rename_workspace n now) ws) = map wr_actor ws"
  "map (\<lambda>r. bs_workspace (br_base r)) (update_where q (rename_base n now) bs) = map (\<lambda>r. bs_workspace (br_base r)) bs"
  by simp+

lemma db_step_limits: "db_step s s' \<Longrightarrow> parents_ok s \<Longrightarrow> limits_ok s \<Longrightarrow> limits_ok s'"
proof (induction rule: db_step.induct)
  case (add_workspace r s)
  then show ?case by (auto simp: limits_ok_def)
next
  case (add_base r s)
  then show ?case by (auto simp: limits_ok_def)
next
  case (add_table t s f v)
  have "count_rows (\<lambda>r. fd_table (fr_field r) = tb_id t) (db_fields s) = 0"
    "count_rows (\<lambda>w. vw_table w = tb_id t) (db_views s) = 0"
    using add_table.hyps(1) add_table.prems(1) by (intro count_rows_none, force simp: parents_ok_def)+
  then show ?case using add_table
    by (auto simp: limits_ok_def FieldLimitPerTable_def ViewLimitPerTable_def)
next
  case (add_field f s)
  then show ?case by (auto simp: limits_ok_def)
next
  case (add_view v s)
  then show ?case unfolding limits_ok_maps by (auto simp: count_rows_def filter_map comp_def)
qed (simp_all add: limits_ok_maps insert_change_Inr, auto)

section \<open>The order of the Views\<close>

lemma set_next_order:
  "set (next_order i active current) = (if active then insert i (set current) else set current - {i})"
  by (auto simp: next_order_def)

lemma distinct_next_order: "distinct current \<Longrightarrow> distinct (next_order i active current)"
  by (auto simp: next_order_def)

text \<open>After the trigger for \<open>v\<close>, a row holds the order it had, with \<open>v\<close> put in or taken out.\<close>

lemma maintain_view_order_rows:
  "r' \<in> set (db_tables (maintain_view_order v s)) \<Longrightarrow>
     \<exists>r \<in> set (db_tables s). tr_table r' = tr_table r
       \<and> tr_order r' = (if table_id r = vw_table v then next_order (vw_id v) (vw_deleted_at v = None) (tr_order r)
                        else tr_order r)"
  by (auto simp: maintain_view_order_def set_update_where Let_def split: if_splits)

lemma order_ok_maintain:
  assumes "\<forall>r \<in> set (db_tables s). distinct (tr_order r)
      \<and> (table_id r \<noteq> vw_table v \<longrightarrow> set (tr_order r) = active_view_ids (table_id r) (db_views s))
      \<and> (table_id r = vw_table v \<longrightarrow> set (tr_order r) - {vw_id v} = active_view_ids (table_id r) (db_views s) - {vw_id v})"
    and "v \<in> set (db_views s)" "distinct (map vw_id (db_views s))"
  shows "order_ok (maintain_view_order v s)"
proof -
  have i: "vw_id v \<in> active_view_ids (vw_table v) (db_views s) \<longleftrightarrow> vw_deleted_at v = None"
    using assms(2,3) by (auto simp: active_view_ids_def dest: key_unique[of vw_id "db_views s" _ v])
  show ?thesis unfolding order_ok_def
  proof
    fix r' assume "r' \<in> set (db_tables (maintain_view_order v s))"
    then obtain r where r: "r \<in> set (db_tables s)" "tr_table r' = tr_table r"
      "tr_order r' = (if table_id r = vw_table v then next_order (vw_id v) (vw_deleted_at v = None) (tr_order r)
                      else tr_order r)"
      using maintain_view_order_rows by blast
    show "distinct (tr_order r') \<and> set (tr_order r') = active_view_ids (table_id r') (db_views (maintain_view_order v s))"
    proof (cases "table_id r = vw_table v")
      case True
      have "set (tr_order r) - {vw_id v} = active_view_ids (vw_table v) (db_views s) - {vw_id v}" "distinct (tr_order r)"
        using assms(1) r(1) True by auto
      then show ?thesis using r(2,3) i True by (auto simp: set_next_order distinct_next_order)
    next
      case False
      then show ?thesis using assms(1) r by auto
    qed
  qed
qed

lemma active_ids_append [simp]:
  "active_view_ids t (views @ [v]) =
     active_view_ids t views \<union> (if vw_table v = t \<and> vw_deleted_at v = None then {vw_id v} else {})"
  by (auto simp: active_view_ids_def)

lemma active_ids_Cons:
  "active_view_ids t (v # views) =
     (if vw_table v = t \<and> vw_deleted_at v = None then {vw_id v} else {}) \<union> active_view_ids t views"
  by (auto simp: active_view_ids_def)

lemma active_ids_clear [simp]:
  "active_view_ids t (update_where p (clear_default now) views) = active_view_ids t views"
proof (induction views)
  case (Cons v views)
  then show ?case by (cases "p v") (simp_all add: active_ids_Cons update_where_def)
qed (simp add: update_where_def)

lemma image_filter_insert:
  "f ` {v \<in> insert x S. P v} = f ` {v \<in> S. P v} \<union> (if P x then {f x} else {})"
  by auto

text \<open>Updating one View changes no more than its own membership.\<close>

lemma active_ids_revise:
  assumes "keeps_view f" "distinct (map vw_id views)" "find (\<lambda>v. vw_id v = vid) views = Some old"
  shows "active_view_ids t (revise_views f now vid views) - {vid} = active_view_ids t views - {vid}"
    and "t \<noteq> vw_table old \<Longrightarrow> active_view_ids t (revise_views f now vid views) = active_view_ids t views"
    and "(vw_deleted_at old = None) = (vw_deleted_at (f old) = None) \<Longrightarrow>
      active_view_ids t (revise_views f now vid views) = active_view_ids t views"
proof -
  have o: "old \<in> set views" "vw_id old = vid" using find_SomeD[OF assms(3)] by auto
  have u: "v = old" if "v \<in> set views" "vw_id v = vid" for v
    using key_unique[OF assms(2) that(1) o(1)] that o by simp
  have rows: "set (revise_views f now vid views) = insert (revise_view f now old) {v \<in> set views. vw_id v \<noteq> vid}"
  proof -
    have "{v \<in> set views. vw_id v = vid} = {old}" using u o by blast
    then show ?thesis by (simp add: revise_views_def set_update_where)
  qed
  have old: "set views = insert old {v \<in> set views. vw_id v \<noteq> vid}" using u o by blast
  let ?rest = "vw_id ` {v \<in> set views. vw_id v \<noteq> vid \<and> vw_table v = t \<and> vw_deleted_at v = None}"
  have a: "active_view_ids t (revise_views f now vid views) =
      ?rest \<union> (if vw_table old = t \<and> vw_deleted_at (f old) = None then {vid} else {})"
    using o assms(1) unfolding active_view_ids_def rows image_filter_insert by (simp add: conj_assoc)
  have b: "active_view_ids t views = ?rest \<union> (if vw_table old = t \<and> vw_deleted_at old = None then {vid} else {})"
    using o unfolding active_view_ids_def by (subst old, simp only: image_filter_insert) (simp add: conj_assoc)
  show "active_view_ids t (revise_views f now vid views) - {vid} = active_view_ids t views - {vid}"
    unfolding a b by auto
  show "active_view_ids t (revise_views f now vid views) = active_view_ids t views" if "t \<noteq> vw_table old"
    using that unfolding a b by auto
  show "active_view_ids t (revise_views f now vid views) = active_view_ids t views"
    if "(vw_deleted_at old = None) = (vw_deleted_at (f old) = None)"
    using that unfolding a b by auto
qed

lemma db_step_order: "db_step s s' \<Longrightarrow> keys_ok s \<Longrightarrow> parents_ok s \<Longrightarrow> order_ok s \<Longrightarrow> order_ok s'"
proof (induction rule: db_step.induct)
  case (add_table t s f v)
  have "active_view_ids (table_id r) (db_views s @ [v]) = active_view_ids (table_id r) (db_views s)"
    if "r \<in> set (db_tables s)" for r
    using that add_table.hyps(1,8) by (auto simp: image_iff)
  moreover have "active_view_ids (tb_id t) (db_views s) = {}"
    using add_table.hyps(1) add_table.prems(2) by (force simp: parents_ok_def active_view_ids_def)
  ultimately show ?case using add_table by (auto simp: order_ok_def simp del: active_ids_append) simp_all
next
  case (edit_table f s now tid)
  then show ?case by (force simp: order_ok_def revise_rows_def set_update_where)
next
  case (add_view v s)
  show ?case
    by (rule order_ok_maintain)
      (use add_view in \<open>auto simp: order_ok_def keys_ok_def active_view_ids_def\<close>)
next
  case (edit_view f vid s old now)
  have d: "distinct (map vw_id (db_views s))" using edit_view.prems(1) by (simp add: keys_ok_def)
  have o: "old \<in> set (db_views s)" "vw_id old = vid" using find_SomeD[OF edit_view.hyps(2)] by auto
  note a = active_ids_revise[OF edit_view.hyps(1) d edit_view.hyps(2)]
  let ?s = "s\<lparr>db_views := revise_views f now vid (db_views s)\<rparr>"
  show ?case
  proof (cases "(vw_deleted_at old = None) = (vw_deleted_at (f old) = None)")
    case True
    then show ?thesis using a(3)[OF True] edit_view.prems(3) by (simp add: trigger_view_order_def order_ok_def)
  next
    case False
    have "order_ok (maintain_view_order (revise_view f now old) ?s)"
    proof (rule order_ok_maintain)
      show "\<forall>r \<in> set (db_tables ?s). distinct (tr_order r)
        \<and> (table_id r \<noteq> vw_table (revise_view f now old) \<longrightarrow> set (tr_order r) = active_view_ids (table_id r) (db_views ?s))
        \<and> (table_id r = vw_table (revise_view f now old) \<longrightarrow>
             set (tr_order r) - {vw_id (revise_view f now old)}
             = active_view_ids (table_id r) (db_views ?s) - {vw_id (revise_view f now old)})"
        using edit_view.prems(3) edit_view.hyps(1) a(1,2) o by (simp add: order_ok_def)
      show "revise_view f now old \<in> set (db_views ?s)"
        using o by (auto simp: revise_views_def set_update_where)
      show "distinct (map vw_id (db_views ?s))" using d edit_view.hyps(1) by simp
    qed
    then show ?thesis by (simp only: trigger_view_order_def revise_view_sel False if_False)
  qed
next
  case (clear_defaults s tid now)
  then show ?case by (simp add: order_ok_def)
next
  case (reorder tid s r order')
  have "r \<in> set (db_tables s)" "table_id r = tid" using find_SomeD[OF reorder.hyps(1)] by auto
  then have "q = r" if "q \<in> set (db_tables s)" "table_id q = tid" for q
    using that reorder.prems(1) key_unique[of table_id "db_tables s" q r] by (simp add: keys_ok_def)
  moreover have "distinct order' \<longleftrightarrow> distinct (tr_order r)" "set order' = set (tr_order r)"
    using reorder.hyps(2) by (auto dest: mset_eq_setD mset_eq_imp_distinct_iff)
  ultimately show ?case using reorder.prems(3)
    by (auto simp: order_ok_def set_order_def set_update_where)
qed (auto simp: order_ok_def insert_change_Inr)

section \<open>The default View and the primary Field\<close>

lemma count_rows_update_one:
  "distinct (map key rows) \<Longrightarrow> find (\<lambda>v. key v = i) rows = Some old \<Longrightarrow>
     count_rows q (update_where (\<lambda>v. key v = i) f rows)
       = count_rows q rows - (if q old then 1 else 0) + (if q (f old) then 1 else 0)"
proof (induction rows)
  case Nil
  then show ?case by simp
next
  case (Cons v rows)
  have c: "count_rows q (x # xs) = (if q x then 1 else 0) + count_rows q xs" for x xs
    by (simp add: count_rows_def)
  show ?case
  proof (cases "key v = i")
    case True
    then have "update_where (\<lambda>v. key v = i) f rows = rows" using Cons.prems(1)
      by (intro update_where_none) (auto simp: image_iff)
    then show ?thesis using True Cons.prems by (simp add: c) (simp add: update_where_def c)
  next
    case False
    have u: "update_where (\<lambda>v. key v = i) f (v # rows) = v # update_where (\<lambda>v. key v = i) f rows"
      using False by (simp add: update_where_def)
    show ?thesis using False Cons unfolding u by (simp add: c)
  qed
qed

lemma count_rows_lowered: "(\<And>r. \<not> q (f r)) \<Longrightarrow> count_rows q (update_where p f rows) \<le> count_rows q rows"
  by (induction rows) (auto simp: count_rows_def update_where_def)

lemma db_step_default: "db_step s s' \<Longrightarrow> keys_ok s \<Longrightarrow> parents_ok s \<Longrightarrow> default_ok s \<Longrightarrow> default_ok s'"
proof (induction rule: db_step.induct)
  case (add_table t s f v)
  have "count_rows (is_default_of (tb_id t)) (db_views s) = 0"
    using add_table.hyps(1) add_table.prems(2) by (intro count_rows_none) (force simp: parents_ok_def is_default_of_def)
  then show ?case using add_table by (auto simp: default_ok_def is_default_of_def)
next
  case (add_view v s)
  then show ?case by (auto simp: default_ok_def is_default_of_def)
next
  case (edit_view f vid s old now)
  have d: "distinct (map vw_id (db_views s))" using edit_view.prems(1) by (simp add: keys_ok_def)
  have c: "count_rows (is_default_of t) (revise_views f now vid (db_views s)) =
      count_rows (is_default_of t) (db_views s) - (if is_default_of t old then 1 else 0)
        + (if is_default_of t (f old) then 1 else 0)" for t
    using edit_view.hyps(1) unfolding revise_views_def count_rows_update_one[OF d edit_view.hyps(2)]
    by (simp add: is_default_of_def keeps_view_def)
  have e: "is_default_of t (f old) \<Longrightarrow> t = vw_table old" for t
    using edit_view.hyps(1) by (auto simp: is_default_of_def keeps_view_def)
  have "count_rows (is_default_of t) (revise_views f now vid (db_views s)) \<le> 1" for t
  proof (cases "is_default_of t (f old) \<and> \<not> is_default_of t old")
    case True
    then have "t = vw_table old" using e by blast
    then have "\<forall>v \<in> set (db_views s). \<not> is_default_of t v" using True edit_view.hyps(3) by blast
    then have "count_rows (is_default_of t) (db_views s) = 0" by (intro count_rows_none) blast
    then show ?thesis using True unfolding c by simp
  next
    case False
    have "count_rows (is_default_of t) (db_views s) \<le> 1" using edit_view.prems(3) by (simp add: default_ok_def)
    then show ?thesis using False unfolding c by auto
  qed
  then show ?case by (simp add: default_ok_def)
next
  case (clear_defaults s tid now)
  have "count_rows (is_default_of t) (update_where (is_default_of tid) (clear_default now) (db_views s)) \<le> 1" for t
  proof (rule order_trans)
    show "count_rows (is_default_of t) (update_where (is_default_of tid) (clear_default now) (db_views s))
        \<le> count_rows (is_default_of t) (db_views s)"
      by (rule count_rows_lowered) simp
    show "count_rows (is_default_of t) (db_views s) \<le> 1" using clear_defaults by (simp add: default_ok_def)
  qed
  then show ?case by (simp add: default_ok_def)
qed (auto simp: default_ok_def insert_change_Inr)

text \<open>What the invariant of the primary Field looks at in a Table and in a Field.\<close>

definition table_key :: "table_row \<Rightarrow> string \<times> string" where
  "table_key r = (table_id r, tb_primary_field (tr_table r))"

lemma primary_ok_keys:
  "primary_ok s \<longleftrightarrow>
     (\<forall>(t, p) \<in> set (map table_key (db_tables s)). \<exists>f \<in> set (db_fields s). field_id f = p
        \<and> fd_table (fr_field f) = t \<and> fr_primary f \<and> fd_deleted_at (fr_field f) = None)
     \<and> (\<forall>f \<in> set (db_fields s). fr_primary f \<longrightarrow>
        (fd_table (fr_field f), field_id f) \<in> set (map table_key (db_tables s)))"
  by (force simp: primary_ok_def table_key_def)

lemma table_key_frame [simp]:
  "keeps_table f \<Longrightarrow> map table_key (revise_rows f now tid rows) = map table_key rows"
  "map table_key (set_order ord tid rows) = map table_key rows"
  "map table_key (db_tables (maintain_view_order v s)) = map table_key (db_tables s)"
  "map table_key (db_tables (trigger_view_order v w s)) = map table_key (db_tables s)"
  by (simp_all add: revise_rows_def set_order_def trigger_view_order_def maintain_view_order_def table_key_def Let_def)

lemma set_revise_fields:
  "set (revise_fields g fid fs) =
     (\<lambda>r. r\<lparr>fr_field := revise_field g (fr_field r)\<rparr>) ` {r \<in> set fs. field_id r = fid}
     \<union> {r \<in> set fs. field_id r \<noteq> fid}"
  by (simp add: revise_fields_def set_update_where)

lemma db_step_primary: "db_step s s' \<Longrightarrow> parents_ok s \<Longrightarrow> primary_ok s \<Longrightarrow> primary_ok s'"
proof (induction rule: db_step.induct)
  case (add_table t s f v)
  then show ?case by (auto simp: primary_ok_keys table_key_def simp del: set_map)
next
  case (edit_field g s fid)
  let ?u = "\<lambda>r. r\<lparr>fr_field := revise_field g (fr_field r)\<rparr>"
  have "\<exists>f \<in> set (revise_fields g fid (db_fields s)). field_id f = p \<and> fd_table (fr_field f) = t \<and> fr_primary f
      \<and> fd_deleted_at (fr_field f) = None"
    if tp: "(t, p) \<in> set (map table_key (db_tables s))" for t p
  proof -
    obtain f where f: "f \<in> set (db_fields s)" "field_id f = p" "fd_table (fr_field f) = t" "fr_primary f"
      "fd_deleted_at (fr_field f) = None"
      using bspec[OF conjunct1[OF edit_field.prems(2)[unfolded primary_ok_keys]] tp] by auto
    show ?thesis
    proof (cases "field_id f = fid")
      case True
      then have "?u f \<in> set (revise_fields g fid (db_fields s))" using f by (auto simp: set_revise_fields)
      then show ?thesis using f edit_field.hyps(1) edit_field.hyps(2)[OF f(1) True f(4,5)] by (intro bexI[of _ "?u f"]) simp_all
    next
      case False
      then have "f \<in> set (revise_fields g fid (db_fields s))" using f by (auto simp: set_revise_fields)
      then show ?thesis using f by blast
    qed
  qed
  moreover have "(fd_table (fr_field f), field_id f) \<in> set (map table_key (db_tables s))"
    if "f \<in> set (revise_fields g fid (db_fields s))" "fr_primary f" for f
    using that edit_field.prems(2) edit_field.hyps(1) unfolding primary_ok_keys set_revise_fields
    by (elim UnE imageE) auto
  ultimately show ?case by (auto simp: primary_ok_keys simp del: set_map)
next
  case (add_field f s)
  then show ?case by (auto simp: primary_ok_keys simp del: set_map)
qed (auto simp: primary_ok_keys insert_change_Inr simp del: set_map)

lemma db_step_catalog: "db_step s s' \<Longrightarrow> catalog_ok s \<Longrightarrow> catalog_ok s'"
  unfolding catalog_ok_def
  using db_step_keys db_step_parents db_step_limits db_step_order db_step_default db_step_primary by blast

lemma db_steps_catalog: "db_steps s s' \<Longrightarrow> catalog_ok s \<Longrightarrow> catalog_ok s'"
  by (induction rule: rtranclp_induct) (auto intro: db_step_catalog)

section \<open>The change log and the receipts\<close>

lemma log_ok_cong:
  "db_changes s' = db_changes s \<Longrightarrow> db_sequence s' = db_sequence s \<Longrightarrow> db_watermarks s' = db_watermarks s \<Longrightarrow>
     log_ok s \<Longrightarrow> log_ok s'"
  by (simp add: log_ok_def watermark_def)

lemma db_step_log: "db_step s s' \<Longrightarrow> log_ok s \<Longrightarrow> log_ok s'"
proof (induction rule: db_step.induct)
  case (logged E a k t r obj n fs x s u s')
  show ?case by (rule log_ok_insert_change[OF logged.prems logged.hyps])
qed (erule log_ok_cong[rotated 3], simp, simp, simp)+

lemma find_receipt_cong: "db_receipts s' = db_receipts s \<Longrightarrow> find_receipt a k s' = find_receipt a k s"
  by (simp add: find_receipt_def)

text \<open>No effect takes a receipt away or changes it.\<close>

lemma db_step_receipt: "db_step s s' \<Longrightarrow> find_receipt a k s = Some r \<Longrightarrow> find_receipt a k s' = Some r"
  by (induction rule: db_step.induct) (auto simp: find_receipt_def find_append insert_change_Inr)

lemma db_steps_receipt: "db_steps s s' \<Longrightarrow> find_receipt a k s = Some r \<Longrightarrow> find_receipt a k s' = Some r"
  by (induction rule: rtranclp_induct) (auto intro: db_step_receipt)

lemma db_step_actors: "db_step s s' \<Longrightarrow> db_actors s' = db_actors s"
  by (induction rule: db_step.induct) (auto simp: insert_change_Inr trigger_view_order_def)

lemma db_steps_actors: "db_steps s s' \<Longrightarrow> db_actors s' = db_actors s"
  by (induction rule: rtranclp_induct) (auto dest: db_step_actors)

end
