(* ===== verification/Concurrency.thy ===== *)
theory Concurrency
  imports Catalog_Invariants
begin

text \<open>
  Runs of the catalog's operations, in any order and by any Actors: \<open>api_step\<close> has one rule for each
  operation that writes.  Three things hold along every run: the invariants of \<open>Catalog_Invariants\<close>; a row
  read with some revision is still what is stored as long as its revision is the current one (locale
  \<open>revisioned\<close>, interpreted for each kind of row); and a creating request that is sent again is answered from its
  receipt (locale \<open>receipted\<close>, interpreted for each creating operation).
\<close>

section \<open>Rows with a revision\<close>

text \<open>Every row of \<open>xs\<close> is still in \<open>ys\<close>, as it was or with a higher revision.\<close>

definition evolved :: "('r \<Rightarrow> string) \<Rightarrow> ('r \<Rightarrow> int) \<Rightarrow> 'r list \<Rightarrow> 'r list \<Rightarrow> bool" where
  "evolved key revno xs ys \<longleftrightarrow>
     (\<forall>r \<in> set xs. \<exists>r' \<in> set ys. key r' = key r \<and> (r' = r \<or> revno r < revno r'))"

lemma evolved_refl [simp, intro]: "evolved key revno xs xs"
  by (auto simp: evolved_def)

lemma evolved_append [simp, intro]: "evolved key revno xs (xs @ ys)"
  by (auto simp: evolved_def)

lemma evolved_trans: "evolved key revno xs ys \<Longrightarrow> evolved key revno ys zs \<Longrightarrow> evolved key revno xs zs"
  unfolding evolved_def by (metis (no_types, opaque_lifting) order_less_trans)

lemma evolved_map_update:
  assumes "\<And>q. p q \<Longrightarrow> key (g (f q)) = key (g q) \<and> (g (f q) = g q \<or> revno (g q) < revno (g (f q)))"
  shows "evolved key revno (map g rows) (map g (update_where p f rows))"
  unfolding evolved_def
proof
  fix r assume "r \<in> set (map g rows)"
  then obtain q where q: "q \<in> set rows" "r = g q" by auto
  show "\<exists>r' \<in> set (map g (update_where p f rows)). key r' = key r \<and> (r' = r \<or> revno r < revno r')"
    using q assms[of q] by (cases "p q") (force simp: set_update_where)+
qed

lemma evolved_update:
  "(\<And>q. p q \<Longrightarrow> key (f q) = key q \<and> revno q < revno (f q)) \<Longrightarrow> evolved key revno rows (update_where p f rows)"
  using evolved_map_update[of p key "\<lambda>x. x" f revno rows] by simp

locale revisioned =
  fixes rows :: "db \<Rightarrow> 'r list"
    and key :: "'r \<Rightarrow> string"
    and revno :: "'r \<Rightarrow> int"
  assumes keyed: "keys_ok s \<Longrightarrow> distinct (map key (rows s))"
    and evolves: "db_step s s' \<Longrightarrow> evolved key revno (rows s) (rows s')"
begin

lemma run_evolves: "db_steps s s' \<Longrightarrow> evolved key revno (rows s) (rows s')"
  by (induction rule: rtranclp_induct) (auto intro: evolved_trans evolves)

text \<open>A row with the revision it was read with is the row that was read.\<close>

lemma revision_grows:
  assumes "keys_ok s" "db_steps s s'" "r \<in> set (rows s)" "r' \<in> set (rows s')" "key r' = key r"
  shows "r' = r \<or> revno r < revno r'"
proof -
  obtain q where q: "q \<in> set (rows s')" "key q = key r" "q = r \<or> revno r < revno q"
    using run_evolves[OF assms(2)] assms(3) by (auto simp: evolved_def)
  have "q = r'"
    using key_unique[OF keyed[OF db_steps_keys[OF assms(2,1)]] q(1) assms(4)] q(2) assms(5) by simp
  then show ?thesis using q(3) by simp
qed

lemma same_revision_same_row:
  "keys_ok s \<Longrightarrow> db_steps s s' \<Longrightarrow> r \<in> set (rows s) \<Longrightarrow> r' \<in> set (rows s') \<Longrightarrow> key r' = key r \<Longrightarrow>
     revno r' = revno r \<Longrightarrow> r' = r"
  using revision_grows by fastforce

end

interpretation workspaces: revisioned "\<lambda>s. map wr_workspace (db_workspaces s)" ws_id ws_revision
proof
  show "distinct (map ws_id (map wr_workspace (db_workspaces s)))" if "keys_ok s" for s
    using that by (simp add: keys_ok_def comp_def)
  show "evolved ws_id ws_revision (map wr_workspace (db_workspaces s)) (map wr_workspace (db_workspaces s'))"
    if "db_step s s'" for s s'
    using that by (induction rule: db_step.induct)
      (auto simp: insert_change_Inr rename_workspace_def intro!: evolved_map_update)
qed

interpretation bases: revisioned "\<lambda>s. map br_base (db_bases s)" bs_id bs_revision
proof
  show "distinct (map bs_id (map br_base (db_bases s)))" if "keys_ok s" for s
    using that by (simp add: keys_ok_def comp_def)
  show "evolved bs_id bs_revision (map br_base (db_bases s)) (map br_base (db_bases s'))" if "db_step s s'" for s s'
    using that by (induction rule: db_step.induct)
      (auto simp: insert_change_Inr rename_base_def intro!: evolved_map_update)
qed

text \<open>A Table has two revisions: that of the row and that of the order of its Views.\<close>

interpretation tables: revisioned "\<lambda>s. map tr_table (db_tables s)" tb_id tb_revision
proof
  show "distinct (map tb_id (map tr_table (db_tables s)))" if "keys_ok s" for s
    using that by (simp add: keys_ok_def comp_def)
  show "evolved tb_id tb_revision (map tr_table (db_tables s)) (map tr_table (db_tables s'))" if "db_step s s'" for s s'
    using that by (induction rule: db_step.induct)
      (auto simp: insert_change_Inr revise_rows_def set_order_def intro!: evolved_map_update)
qed

definition order_row :: "table_row \<Rightarrow> string \<times> int \<times> string list" where
  "order_row r = (table_id r, tr_order_revision r, tr_order r)"

abbreviation order_revision :: "string \<times> int \<times> string list \<Rightarrow> int" where
  "order_revision r \<equiv> fst (snd r)"

interpretation orders: revisioned "\<lambda>s. map order_row (db_tables s)" fst order_revision
proof
  show "distinct (map fst (map order_row (db_tables s)))" if "keys_ok s" for s
    using that by (simp add: keys_ok_def comp_def order_row_def)
  have m: "evolved fst order_revision (map order_row (db_tables s)) (map order_row (db_tables (maintain_view_order v s)))"
    for v s
    by (auto simp: maintain_view_order_def order_row_def Let_def intro!: evolved_map_update split: if_splits)
  have t: "evolved fst order_revision (map order_row (db_tables s)) (map order_row (db_tables (trigger_view_order v w s)))"
    for v w s
    by (simp add: trigger_view_order_def m)
  show "evolved fst order_revision (map order_row (db_tables s)) (map order_row (db_tables s'))"
    if "db_step s s'" for s s'
    using that
  proof (induction rule: db_step.induct)
    case (add_view v s)
    show ?case using m[of "s\<lparr>db_views := db_views s @ [v]\<rparr>" v] by simp
  next
    case (edit_view f vid s old now)
    show ?case using t[of "s\<lparr>db_views := revise_views f now vid (db_views s)\<rparr>"] by simp
  qed (auto simp: insert_change_Inr revise_rows_def set_order_def order_row_def intro!: evolved_map_update)
qed

interpretation fields: revisioned "\<lambda>s. map fr_field (db_fields s)" fd_id fd_revision
proof
  show "distinct (map fd_id (map fr_field (db_fields s)))" if "keys_ok s" for s
    using that by (simp add: keys_ok_def comp_def)
  show "evolved fd_id fd_revision (map fr_field (db_fields s)) (map fr_field (db_fields s'))" if "db_step s s'" for s s'
    using that by (induction rule: db_step.induct)
      (auto simp: insert_change_Inr revise_fields_def intro!: evolved_map_update)
qed

interpretation views: revisioned db_views vw_id vw_revision
proof
  show "distinct (map vw_id (db_views s))" if "keys_ok s" for s
    using that by (simp add: keys_ok_def)
  show "evolved vw_id vw_revision (db_views s) (db_views s')" if "db_step s s'" for s s'
    using that by (induction rule: db_step.induct)
      (auto simp: insert_change_Inr revise_views_def intro!: evolved_update)
qed

section \<open>Requests with a receipt\<close>

lemma idempotent_found:
  assumes "find_receipt actor key s = Some r" "actor \<in> set (db_actors s)" "en_ids E (db_draws s) ''op_'' = Some i"
  shows "idempotent E decode actor key h work s =
     (if ir_hash r \<noteq> h then Inl IdempotencyKeyReused
      else case decode (ir_response r) of
             None \<Rightarrow> Inl (Internal ''decode idempotency result'')
           | Some x \<Rightarrow> Inr (x, s\<lparr>db_draws := db_draws s + 1, db_operation := i\<rparr>))"
  using assms
  by (simp add: idempotent_def begin_audit_def draw_id_def lock_actor_def replay_idempotent_def find_receipt_def
      split: option.splits)

lemma save_idempotent_found:
  "save_idempotent actor key h r s = Inr (u, s') \<Longrightarrow>
     \<exists>q. find_receipt actor key s' = Some q \<and> ir_hash q = h \<and> ir_response q = r"
  by (auto simp: save_idempotent_Inr find_receipt_def find_append)

text \<open>
  An operation that answers a key it has seen from the receipt, and leaves a receipt of what it answered.
\<close>

locale receipted =
  fixes create :: "env \<Rightarrow> string \<Rightarrow> string \<Rightarrow> string \<Rightarrow> 'p \<Rightarrow> 'a tx"
    and decode :: "receipt \<Rightarrow> 'a option"
  assumes answers: "find_receipt actor key s = Some r \<Longrightarrow> actor \<in> set (db_actors s) \<Longrightarrow>
      en_ids E (db_draws s) ''op_'' = Some i \<Longrightarrow> create E actor key h p s =
        (if ir_hash r \<noteq> h then Inl IdempotencyKeyReused
         else case decode (ir_response r) of
                None \<Rightarrow> Inl (Internal ''decode idempotency result'')
              | Some x \<Rightarrow> Inr (x, s\<lparr>db_draws := db_draws s + 1, db_operation := i\<rparr>))"
    and saves: "create E actor key h p s = Inr (x, s') \<Longrightarrow> actor \<in> set (db_actors s') \<and>
      (\<exists>r. find_receipt actor key s' = Some r \<and> ir_hash r = h \<and> decode (ir_response r) = Some x)"
begin

text \<open>Sent again, whatever has happened since, the request has the same answer and no effect of its own.\<close>

lemma sent_again:
  assumes "create E actor key h p s = Inr (x, s1)" "db_steps s1 s2" "en_ids E' (db_draws s2) ''op_'' = Some i"
  shows "create E' actor key h q s2 = Inr (x, s2\<lparr>db_draws := db_draws s2 + 1, db_operation := i\<rparr>)"
proof -
  obtain r where r: "find_receipt actor key s1 = Some r" "ir_hash r = h" "decode (ir_response r) = Some x"
    and a: "actor \<in> set (db_actors s1)"
    using saves[OF assms(1)] by blast
  show ?thesis
    using answers[OF db_steps_receipt[OF assms(2) r(1)] _ assms(3)] a r(2,3) db_steps_actors[OF assms(2)] by simp
qed

text \<open>The key cannot be used for another request.\<close>

lemma key_taken:
  assumes "create E actor key h p s = Inr (x, s1)" "db_steps s1 s2" "en_ids E' (db_draws s2) ''op_'' = Some i" "h' \<noteq> h"
  shows "create E' actor key h' q s2 = Inl IdempotencyKeyReused"
proof -
  obtain r where r: "find_receipt actor key s1 = Some r" "ir_hash r = h" and a: "actor \<in> set (db_actors s1)"
    using saves[OF assms(1)] by blast
  show ?thesis
    using answers[OF db_steps_receipt[OF assms(2) r(1)] _ assms(3)] a r(2) assms(4) db_steps_actors[OF assms(2)] by simp
qed

end

text \<open>What the interpretations share: the work of a creating operation ends with its receipt.\<close>

lemma idempotent_saves:
  assumes "idempotent E decode actor key h work s = Inr (x, s')"
    and "\<And>s x s'. work s = Inr (x, s') \<Longrightarrow> db_actors s' = db_actors s"
    and "\<And>s x s'. work s = Inr (x, s') \<Longrightarrow>
      \<exists>s1 r. save_idempotent actor key h r s1 = Inr ((), s') \<and> decode r = Some x"
  shows "actor \<in> set (db_actors s') \<and>
      (\<exists>r. find_receipt actor key s' = Some r \<and> ir_hash r = h \<and> decode (ir_response r) = Some x)"
proof -
  obtain i where a: "actor \<in> set (db_actors s)" and i:
    "(\<exists>r. find_receipt actor key s = Some r \<and> ir_hash r = h \<and> decode (ir_response r) = Some x
        \<and> s' = s\<lparr>db_draws := db_draws s + 1, db_operation := i\<rparr>)
      \<or> work (s\<lparr>db_draws := db_draws s + 1, db_operation := i\<rparr>) = Inr (x, s')"
    using assms(1) by (auto simp: idempotent_Inr Let_def)
  from i show ?thesis
  proof
    assume w: "work (s\<lparr>db_draws := db_draws s + 1, db_operation := i\<rparr>) = Inr (x, s')"
    obtain s1 r where "save_idempotent actor key h r s1 = Inr ((), s')" "decode r = Some x"
      using assms(3)[OF w] by blast
    then show ?thesis using save_idempotent_found assms(2)[OF w] a by fastforce
  qed (use a in \<open>auto simp: find_receipt_def\<close>)
qed

lemmas part_actors = after_part[OF _ rtranclp.rtrancl_refl, THEN db_steps_actors]

lemma insert_view_actors: "insert_view what v s = Inr s' \<Longrightarrow> db_actors s' = db_actors s"
  by (auto simp: insert_view_Inr)

lemma save_view_order_actors: "save_view_order E a k ord req s = Inr (x, s') \<Longrightarrow> db_actors s' = db_actors s"
  by (auto simp: save_view_order_def run_simps dest!: part_actors split: if_splits)

lemma saved_last:
  "save_idempotent actor key h r s1 = Inr ((), s') \<Longrightarrow> decode r = Some x \<Longrightarrow>
     \<exists>s1 r. save_idempotent actor key h r s1 = Inr ((), s') \<and> decode r = Some x"
  by blast

lemma decode_receipt [simp]:
  "as_workspace (WorkspaceReceipt w) = Some w" "as_base (BaseReceipt b) = Some b" "as_table (TableReceipt t) = Some t"
  "as_field (FieldReceipt f) = Some f" "as_view (ViewReceipt v) = Some v" "as_view_order (ViewOrderReceipt r) = Some r"
  by (simp_all add: as_workspace_def as_base_def as_table_def as_field_def as_view_def as_view_order_def)

lemma receiptedI:
  assumes "\<And>E actor key h p. create E actor key h p = idempotent E decode actor key h (work E actor key h p)"
    and "\<And>E actor key h p s x s'. work E actor key h p s = Inr (x, s') \<Longrightarrow> db_actors s' = db_actors s"
    and "\<And>E actor key h p s x s'. work E actor key h p s = Inr (x, s') \<Longrightarrow>
      \<exists>s1 r. save_idempotent actor key h r s1 = Inr ((), s') \<and> decode r = Some x"
  shows "receipted create decode"
proof
  show "create E actor key h p s =
      (if ir_hash r \<noteq> h then Inl IdempotencyKeyReused
       else case decode (ir_response r) of
              None \<Rightarrow> Inl (Internal ''decode idempotency result'')
            | Some x \<Rightarrow> Inr (x, s\<lparr>db_draws := db_draws s + 1, db_operation := i\<rparr>))"
    if "find_receipt actor key s = Some r" "actor \<in> set (db_actors s)" "en_ids E (db_draws s) ''op_'' = Some i"
    for E actor key h p s r i
    unfolding assms(1) by (rule idempotent_found[OF that])
  show "actor \<in> set (db_actors s') \<and>
      (\<exists>r. find_receipt actor key s' = Some r \<and> ir_hash r = h \<and> decode (ir_response r) = Some x)"
    if "create E actor key h p s = Inr (x, s')" for E actor key h p s x s'
    by (rule idempotent_saves[OF that[unfolded assms(1)] assms(2) assms(3)])
qed

definition reorder_request :: "env \<Rightarrow> string \<Rightarrow> string \<Rightarrow> string \<Rightarrow> string \<times> view_order_input \<Rightarrow> view_order_result tx" where
  "reorder_request E actor key h p = ReorderViews E actor key (fst p) h (snd p)"

interpretation create_workspace: receipted CreateWorkspace as_workspace
  by (rule receiptedI, rule CreateWorkspace_def, (auto simp: run_simps dest!: part_actors insert_view_actors save_view_order_actors)[1])
    (clarsimp simp: run_simps, erule saved_last, simp)

interpretation create_base: receipted CreateBase as_base
  by (rule receiptedI, rule CreateBase_def, (auto simp: run_simps dest!: part_actors insert_view_actors save_view_order_actors)[1])
    (clarsimp simp: run_simps, erule saved_last, simp)

interpretation create_table: receipted CreateTable as_table
  by (rule receiptedI, rule CreateTable_def, (auto simp: run_simps dest!: part_actors insert_view_actors save_view_order_actors)[1])
    (clarsimp simp: run_simps, erule saved_last, simp)

interpretation create_field: receipted CreateField as_field
  by (rule receiptedI, rule CreateField_def, (auto simp: run_simps dest!: part_actors insert_view_actors save_view_order_actors)[1])
    (clarsimp simp: run_simps, erule saved_last, simp)

interpretation create_view: receipted CreateView as_view
  by (rule receiptedI, rule CreateView_def, (auto simp: run_simps dest!: part_actors insert_view_actors save_view_order_actors)[1])
    (clarsimp simp: run_simps, erule saved_last, simp)

interpretation reorder_views: receipted reorder_request as_view_order
  by (rule receiptedI, unfold reorder_request_def, rule ReorderViews_def, (auto simp: run_simps dest!: part_actors insert_view_actors save_view_order_actors)[1])
    (clarsimp simp: run_simps, erule saved_last, simp)

end
