(* ===== verification/RecordEffects.thy ===== *)
theory RecordEffects
  imports Concurrency
begin

text \<open>
  The writes to the Records as sequences of effects: what each command does (\<open>applyCommand_steps\<close>), what the
  choices of a request do to the Fields, and the three transactions \<open>MutateRecords\<close>, \<open>MoveRecord\<close> and
  \<open>DuplicateRecord\<close>.  With that the Records join the runs of the catalog, and a request with commands is one of
  the requests with a receipt.
\<close>

section \<open>Parts\<close>

lemma panics_Inr [simp]: "panics r = Inr x \<longleftrightarrow> r = Some x"
  by (auto simp: panics_def split: option.splits)

lemma prefixed_Inr [simp]: "prefixed p r = Inr x \<longleftrightarrow> r = Inr x"
  by (auto simp: prefixed_def split: sum.splits)

lemma insertRecord_Inr:
  "insertRecord H i t vs q x s = Inr (created, s') \<Longrightarrow>
     i \<notin> record_id ` set (db_records s)
     \<and> created = \<lparr>rc_id = i, rc_table = t, rc_revision = 1, rc_values = vs, rc_created_at = db_now s,
         rc_updated_at = db_now s, rc_deleted_at = None\<rparr>
     \<and> s' = s\<lparr>db_records := db_records s @ [\<lparr>rr_record = created,
         rr_position = last_position H (table_records t s), rr_query = q, rr_search = x\<rparr>]\<rparr>"
  by (auto simp: insertRecord_def run_simps insert_row_Inr)

lemma write_record_Inr:
  "write_record what f i s = Inr (x, s') \<Longrightarrow>
     s' = s\<lparr>db_records := update_where (\<lambda>r. record_id r = i) f (db_records s)\<rparr>
     \<and> (\<exists>r. find (\<lambda>r. record_id r = i) (db_records s') = Some r \<and> x = rr_record r)"
  by (auto simp: write_record_def run_simps)

lemma after_insertRecord: "insertRecord H i t vs q x s1 = Inr (y, s2) \<Longrightarrow> db_steps s s1 \<Longrightarrow> db_steps s s2"
  by (frule insertRecord_Inr, clarsimp) (erule steps_snoc, rule add_record, simp)

lemma after_write_record:
  "write_record what f i s1 = Inr (y, s2) \<Longrightarrow> keeps_record f \<Longrightarrow> db_steps s s1 \<Longrightarrow> db_steps s s2"
  by (frule write_record_Inr, clarsimp) (erule steps_snoc, erule edit_record)

lemma after_draw_id: "draw_id E what p s1 = Inr (i, s2) \<Longrightarrow> db_steps s s1 \<Longrightarrow> db_steps s s2"
  using steps_snoc[OF _ tick[where s = s1 and i = "db_operation s1" and n = "db_draws s1 + 1"]] by (auto simp: draw_id_Inr)

lemma after_insertRecordChange:
  "insertRecordChange E a item k d x s1 = Inr (u, s2) \<Longrightarrow> db_steps s s1 \<Longrightarrow> db_steps s s2"
  unfolding insertRecordChange_def by (rule after_insert_change)

lemma after_log_record:
  "log_record E H a fs n k d item s1 = Inr (r, s2) \<Longrightarrow> db_steps s s1 \<Longrightarrow> db_steps s s2"
  by (auto simp: log_record_def applied_def run_simps elim: after_insertRecordChange)

section \<open>Commands\<close>

lemma applyCommand_steps:
  assumes "applyCommand E H actor t key fs n c s = Inr (r, s')"
  shows "db_steps s s'"
proof -
  have "db_steps s s'" if "applyCreateRecord E H actor t n c fs s = Inr (r, s')"
    using that
    by (auto simp: applyCreateRecord_def run_simps
        elim!: after_log_record after_insertRecord after_draw_id)
  moreover have "db_steps s s'" if "applyUpdateRecord E H actor t key n c fs s = Inr (r, s')"
    using that
    by (auto simp: applyUpdateRecord_def updateRecordValues_def run_simps split: if_splits
        elim!: after_log_record after_write_record)
  moreover have "db_steps s s'" if "applyRecordLifecycle E H actor t key n c fs d s = Inr (r, s')" for d
    using that
    by (auto simp: applyRecordLifecycle_def setRecordDeleted_def run_simps split: if_splits
        elim!: after_log_record after_write_record)
  ultimately show ?thesis using assms by (auto simp: applyCommand_def split: if_splits)
qed

lemma applyCommands_steps: "applyCommands E H actor t key fs n cs s = Inr (rs, s') \<Longrightarrow> db_steps s s'"
proof (induction cs arbitrary: n s rs)
  case Nil
  then show ?case by simp
next
  case (Cons c cs)
  then obtain r s1 rs1 where "applyCommand E H actor t key fs n c s = Inr (r, s1)"
    "applyCommands E H actor t key fs (Suc n) cs s1 = Inr (rs1, s')"
    by (auto simp: run_simps)
  then show ?case using applyCommand_steps Cons.IH by (meson rtranclp_trans)
qed

section \<open>Choices\<close>

text \<open>Resolving the Options draws IDs and does nothing else.\<close>

definition only_draws :: "db \<Rightarrow> db \<Rightarrow> bool" where
  "only_draws s s' \<longleftrightarrow> (\<exists>n. s' = s\<lparr>db_draws := n\<rparr>)"

lemma only_draws_refl [simp]: "only_draws s s"
  unfolding only_draws_def by (rule exI[of _ "db_draws s"]) simp

lemma only_draws_trans: "only_draws s s1 \<Longrightarrow> only_draws s1 s2 \<Longrightarrow> only_draws s s2"
  by (auto simp: only_draws_def)

lemma only_draws_steps: "only_draws s s' \<Longrightarrow> db_steps s s'"
  using tick[where i = "db_operation s" and s = s] by (auto simp: only_draws_def)

lemma only_draws_draw [simp]: "only_draws s (s\<lparr>db_draws := n\<rparr>)"
  by (auto simp: only_draws_def)

lemma resolveChoiceOption_draws: "resolveChoiceOption E config x previous p s = Inr (y, s') \<Longrightarrow> only_draws s s'"
  by (auto simp: resolveChoiceOption_def run_simps draw_id_Inr split: if_splits option.splits)

lemma resolve_options_draws:
  "resolve_options E previous p k xs selected config d s = Inr (y, s') \<Longrightarrow> only_draws s s'"
proof (induction xs arbitrary: k selected config d s)
  case Nil
  then show ?case by simp
next
  case (Cons x xs)
  then obtain z s1 k' sel c d' where "resolveChoiceOption E config x previous (p @ ''/options/'' @ show_nat k) s = Inr (z, s1)"
    "resolve_options E previous p k' xs sel c d' s1 = Inr (y, s')"
    by (fastforce simp: run_simps)
  then show ?case using resolveChoiceOption_draws Cons.IH only_draws_trans by meson
qed

lemma resolve_choice_draws:
  "resolve_choice E locked targets n input j ch c st s = Inr (y, s') \<Longrightarrow> only_draws s s'"
  by (auto simp: resolve_choice_def run_simps split: option.splits dest!: resolve_options_draws)

lemma resolve_choices_draws:
  "resolve_choices E locked targets n input j chs c st s = Inr (y, s') \<Longrightarrow> only_draws s s'"
proof (induction chs arbitrary: j c st s)
  case Nil
  then show ?case by simp
next
  case (Cons ch chs)
  then obtain z s1 where "resolve_choice E locked targets n input j ch c st s = Inr (z, s1)"
    "resolve_choices E locked targets n input (Suc j) chs (fst z) (snd z) s1 = Inr (y, s')"
    by (fastforce simp: run_simps)
  then show ?case using resolve_choice_draws Cons.IH only_draws_trans by meson
qed

lemma resolve_commands_draws:
  "resolve_commands E locked targets n cs st s = Inr (y, s') \<Longrightarrow> only_draws s s'"
proof (induction cs arbitrary: n st s y)
  case Nil
  then show ?case by simp
next
  case (Cons c cs)
  then obtain z s1 w where "resolve_choices E locked targets n c 0 (cm_choices c) c st s = Inr (z, s1)"
    "resolve_commands E locked targets (Suc n) cs (snd z) s1 = Inr (w, s')"
    by (fastforce simp: run_simps)
  then show ?case using resolve_choices_draws Cons.IH only_draws_trans by meson
qed

lemma save_choice_field_steps: "save_choice_field E a t i config d s = Inr (r, s') \<Longrightarrow> db_steps s s'"
proof -
  have e: "db_step s (s\<lparr>db_fields := revise_fields (fd_config_update g) i (db_fields s)\<rparr>)" for g
    by (rule edit_field) (simp_all add: keeps_field_def)
  show "save_choice_field E a t i config d s = Inr (r, s') \<Longrightarrow> db_steps s s'"
    by (auto simp: save_choice_field_def revise_fields_def[symmetric] run_simps split: if_splits
        elim!: after_metadata_change intro: one_step[OF e])
qed

lemma save_choice_fields_steps: "save_choice_fields E a t st is fs s = Inr (r, s') \<Longrightarrow> db_steps s s'"
proof (induction "is" arbitrary: fs s r)
  case Nil
  then show ?case by simp
next
  case (Cons i rest)
  then obtain z s1 config d fs' w where "save_choice_field E a t i config d s = Inr (z, s1)"
    "save_choice_fields E a t st rest fs' s1 = Inr (w, s')"
    by (fastforce simp: run_simps split: option.splits)
  then show ?case using save_choice_field_steps Cons.IH by (meson rtranclp_trans)
qed

lemma prepare_mutation_steps: "prepare_mutation E a t key cs s = Inr (r, s') \<Longrightarrow> db_steps s s'"
  by (auto simp: prepare_mutation_def prepareChoiceMutation_def run_simps split: if_splits
      dest!: resolve_commands_draws only_draws_steps save_choice_fields_steps elim: rtranclp_trans)

section \<open>The transactions\<close>

lemma mutation_work_steps: "mutation_work E H a t key h cs s = Inr (r, s') \<Longrightarrow> db_steps s s'"
  by (auto simp: mutation_work_def run_simps split: if_splits
      dest!: prepare_mutation_steps applyCommands_steps
      elim!: after_save_idempotent after_save_guard after_invalidate elim: rtranclp_trans)

lemma MutateRecords_steps [refines]: "MutateRecords E H a t key h cs s = Inr (r, s') \<Longrightarrow> db_steps s s'"
  unfolding MutateRecords_def by (erule steps_idempotent) (rule mutation_work_steps)

lemma after_move:
  "write_record what (position_columns p now) i s1 = Inr (y, s2) \<Longrightarrow> db_steps s s1 \<Longrightarrow> db_steps s s2"
  by (frule write_record_Inr, clarsimp) (erule steps_snoc, rule move_record)

lemma MoveRecord_steps [refines]: "MoveRecord E H a t i b c s = Inr (r, s') \<Longrightarrow> db_steps s s'"
  by (auto simp: MoveRecord_def finishRecordOrderChange_def run_simps
      elim!: after_insertRecordChange after_move after_begin_audit)

lemma DuplicateRecord_steps [refines]: "DuplicateRecord E H a t i s = Inr (r, s') \<Longrightarrow> db_steps s s'"
  by (auto simp: DuplicateRecord_def finishRecordOrderChange_def run_simps
      elim!: after_insertRecordChange after_insertRecord after_draw_id after_begin_audit after_invalidate)

section \<open>What a revision covers\<close>

text \<open>Moving a Record writes the time of the update and leaves the revision.\<close>

definition contents :: "rec \<Rightarrow> rec" where
  "contents r = r\<lparr>rc_updated_at := 0\<rparr>"

lemma contents_sel [simp]:
  "rc_id (contents r) = rc_id r" "rc_revision (contents r) = rc_revision r" "rc_table (contents r) = rc_table r"
  by (simp_all add: contents_def)

interpretation records: revisioned "\<lambda>s. map (\<lambda>r. contents (rr_record r)) (db_records s)" rc_id rc_revision
proof
  show "distinct (map rc_id (map (\<lambda>r. contents (rr_record r)) (db_records s)))" if "keys_ok s" for s
    using that by (simp add: keys_ok_def comp_def)
  show "evolved rc_id rc_revision (map (\<lambda>r. contents (rr_record r)) (db_records s))
      (map (\<lambda>r. contents (rr_record r)) (db_records s'))" if "db_step s s'" for s s'
    using that by (induction rule: db_step.induct)
      (auto simp: insert_change_Inr position_columns_def contents_def intro!: evolved_map_update)
qed

section \<open>The targets of a request\<close>

lemma lockRecord_Inr:
  "lockRecord t i s = Inr r \<Longrightarrow> \<exists>q \<in> set (db_records s). rr_record q = r \<and> rc_id r = i \<and> rc_table r = t"
  by (auto simp: lockRecord_def case_option_Inr dest: find_SomeD)

lemma applyCommand_target:
  "applyCommand E H a t key fs n c s = Inr (r, s') \<Longrightarrow> cm_kind c \<noteq> ''createRecord'' \<Longrightarrow>
     \<exists>q. lockRecord t (cm_record c) s = Inr q \<and> rc_revision q = cm_expected c"
  by (auto simp: applyCommand_def applyUpdateRecord_def applyRecordLifecycle_def run_simps split: if_splits)

lemma applyCommands_target:
  "applyCommands E H a t key fs n cs s = Inr (rs, s') \<Longrightarrow> c \<in> set cs \<Longrightarrow> cm_kind c \<noteq> ''createRecord'' \<Longrightarrow>
     \<exists>s1 q. db_steps s s1 \<and> lockRecord t (cm_record c) s1 = Inr q \<and> rc_revision q = cm_expected c"
proof (induction cs arbitrary: n s rs)
  case Nil
  then show ?case by simp
next
  case (Cons d cs)
  then obtain r s1 rs1 where d: "applyCommand E H a t key fs n d s = Inr (r, s1)"
    and cs: "applyCommands E H a t key fs (Suc n) cs s1 = Inr (rs1, s')"
    by (auto simp: run_simps)
  show ?case
  proof (cases "c = d")
    case True
    then show ?thesis using applyCommand_target[OF d] Cons.prems(3) by blast
  next
    case False
    then obtain s2 q where q: "db_steps s1 s2" "lockRecord t (cm_record c) s2 = Inr q" "rc_revision q = cm_expected c"
      using Cons.IH[OF cs] Cons.prems(2,3) by auto
    have "db_steps s s2" using rtranclp_trans[OF applyCommand_steps[OF d] q(1)] .
    then show ?thesis using q(2,3) by blast
  qed
qed

text \<open>The choices change neither the kind of a command nor its target.\<close>

definition target_of :: "command \<Rightarrow> string \<times> string \<times> int" where
  "target_of c = (cm_kind c, cm_record c, cm_expected c)"

lemma put_choice_target: "put_choice input j i v c = Inr c' \<Longrightarrow> target_of c' = target_of c"
  by (auto simp: put_choice_def target_of_def case_option_Inr split: if_splits)

lemma resolve_choices_target:
  "resolve_choices E locked targets n input j chs c st s = Inr (y, s') \<Longrightarrow> target_of (fst y) = target_of c"
proof (induction chs arbitrary: j c st s)
  case Nil
  then show ?case by auto
next
  case (Cons ch chs)
  then obtain z s1 where z: "resolve_choice E locked targets n input j ch c st s = Inr (z, s1)"
    "resolve_choices E locked targets n input (Suc j) chs (fst z) (snd z) s1 = Inr (y, s')"
    by (fastforce simp: run_simps)
  have "target_of (fst z) = target_of c"
    using z(1) by (auto simp: resolve_choice_def run_simps put_choice_target split: option.splits)
  then show ?case using Cons.IH[OF z(2)] by simp
qed

lemma resolve_commands_target:
  "resolve_commands E locked targets n cs st s = Inr (y, s') \<Longrightarrow> map target_of (fst y) = map target_of cs"
proof (induction cs arbitrary: n st s y)
  case Nil
  then show ?case by auto
next
  case (Cons c cs)
  then obtain z s1 w where z: "resolve_choices E locked targets n c 0 (cm_choices c) c st s = Inr (z, s1)"
    and w: "resolve_commands E locked targets (Suc n) cs (snd z) s1 = Inr (w, s')" and y: "fst y = fst z # fst w"
    by (fastforce simp: run_simps)
  show ?case using resolve_choices_target[OF z] Cons.IH[OF w] by (simp add: y)
qed

lemma prepare_mutation_target:
  "prepare_mutation E a t key cs s = Inr (y, s') \<Longrightarrow> map target_of (fst y) = map target_of cs"
  by (auto simp: prepare_mutation_def prepareChoiceMutation_def run_simps split: if_splits
      dest!: resolve_commands_target)

text \<open>A request that is not a replay finds every target with the revision it expects.\<close>

lemma MutateRecords_fresh:
  assumes "MutateRecords E H a t key h cs s = Inr (x, s')" "find_receipt a key s = None"
  shows "\<exists>s1. db_steps s s1 \<and> mutation_work E H a t key h cs s1 = Inr (x, s')
    \<and> (\<exists>i. s1 = s\<lparr>db_draws := db_draws s + 1, db_operation := i\<rparr>)"
  using assms by (auto simp: MutateRecords_def idempotent_Inr Let_def intro: one_step[OF tick])

lemma MutateRecords_target:
  assumes m: "MutateRecords E H a t key h cs s = Inr (x, s')" "find_receipt a key s = None"
    and c: "c \<in> set cs" "cm_kind c \<noteq> ''createRecord''"
  shows "active_table_visible a t s \<and>
    (\<exists>s1 q. db_steps s s1 \<and> lockRecord t (cm_record c) s1 = Inr q \<and> rc_revision q = cm_expected c)"
proof -
  obtain s1 i where s1: "db_steps s s1" and w: "mutation_work E H a t key h cs s1 = Inr (x, s')"
    and e: "s1 = s\<lparr>db_draws := db_draws s + 1, db_operation := i\<rparr>"
    using MutateRecords_fresh[OF m] by blast
  obtain y s2 rs s3 where l: "lock_active_table a t s1 = Inr ()" and y: "prepare_mutation E a t key cs s1 = Inr (y, s2)"
    and r: "applyCommands E H a t key (fst (snd y)) 0 (fst y) s2 = Inr (rs, s3)"
    using w by (auto simp: mutation_work_def run_simps)
  obtain d where d: "d \<in> set (fst y)" "target_of d = target_of c"
    using prepare_mutation_target[OF y] c(1) by (metis (no_types, lifting) image_iff list.set_map)
  obtain s4 q where q: "db_steps s2 s4" "lockRecord t (cm_record c) s4 = Inr q" "rc_revision q = cm_expected c"
    using applyCommands_target[OF r d(1)] d(2) c(2) by (auto simp: target_of_def)
  have "db_steps s s4" using s1 prepare_mutation_steps[OF y] q(1) by (meson rtranclp_trans)
  moreover have "active_table_visible a t s"
    using l by (simp add: e active_table_visible_def find_active_table_def find_base_def find_workspace_def)
  ultimately show ?thesis using q by blast
qed

lemma mutation_unchanged:
  assumes k: "keys_ok s0" and steps: "db_steps s0 s" and g: "GetRecord a i s0 = Inr r"
    and m: "MutateRecords E H a t key h cs s = Inr (x, s')" "find_receipt a key s = None"
    and c: "c \<in> set cs" "cm_kind c \<noteq> ''createRecord''" "cm_record c = i" "cm_expected c = rc_revision r"
  shows "\<exists>r'. GetRecord a i s = Inr r' \<and> contents r' = contents r"
proof -
  obtain s1 q where v: "active_table_visible a t s" and s1: "db_steps s s1"
    and q: "lockRecord t i s1 = Inr q" "rc_revision q = rc_revision r"
    using MutateRecords_target[OF m c(1,2)] c(3,4) by auto
  obtain row where row: "row \<in> set (db_records s0)" "rr_record row = r" "rc_id r = i"
    using g by (auto simp: GetRecord_def case_option_Inr dest: find_SomeD)
  obtain p where p: "p \<in> set (db_records s1)" "rr_record p = q" "rc_id q = i" "rc_table q = t"
    using lockRecord_Inr[OF q(1)] by blast
  have ks: "keys_ok s" using db_steps_keys[OF steps k] .
  obtain m where m: "m \<in> set (db_records s)" "record_id m = i"
    using records.run_evolves[OF steps] row by (force simp: evolved_def)
  have "contents (rr_record m) = contents r \<or> rc_revision r < rc_revision (rr_record m)"
    using records.revision_grows[OF k steps, of "contents r" "contents (rr_record m)"] row m by auto
  moreover have "contents q = contents (rr_record m) \<or> rc_revision (rr_record m) < rc_revision q"
    using records.revision_grows[OF ks s1, of "contents (rr_record m)" "contents q"] p m by auto
  moreover have "contents q = contents r \<or> rc_revision r < rc_revision q"
    using records.revision_grows[OF k rtranclp_trans[OF steps s1], of "contents r" "contents q"] row p by auto
  ultimately have e: "contents (rr_record m) = contents r" "contents q = contents r"
    using q(2) contents_sel(2)[of r] by auto
  then have "rc_table (rr_record m) = t" using p(4) contents_sel(3) by metis
  then have f: "find (\<lambda>r. record_id r = i \<and> active_table_visible a (rc_table (rr_record r)) s) (db_records s) \<noteq> None"
    using m v by (auto simp: find_None_all)
  then obtain n where n: "find (\<lambda>r. record_id r = i \<and> active_table_visible a (rc_table (rr_record r)) s) (db_records s) = Some n"
    by blast
  then have "n = m" using find_SomeD[OF n] m ks key_unique[of record_id "db_records s" n m] by (simp add: keys_ok_def)
  then show ?thesis using n e(1) by (simp add: GetRecord_def)
qed

section \<open>The receipt of a request\<close>

definition mutate_request ::
  "host \<Rightarrow> env \<Rightarrow> string \<Rightarrow> string \<Rightarrow> string \<Rightarrow> string \<times> command list \<Rightarrow> mutation_result tx" where
  "mutate_request H E actor key h p = MutateRecords E H actor (fst p) key h (snd p)"

lemma as_mutation_receipt [simp]: "as_mutation (MutationReceipt m) = Some m"
  by (simp add: as_mutation_def)

lemma mutation_work_saves:
  "mutation_work E H a t key h cs s = Inr (x, s') \<Longrightarrow>
     \<exists>s1 r. save_idempotent a key h r s1 = Inr ((), s') \<and> as_mutation r = Some x"
  by (clarsimp simp: mutation_work_def run_simps) (erule saved_last, simp)

interpretation mutate: receipted "mutate_request H" as_mutation for H
  by (rule receiptedI, unfold mutate_request_def, rule MutateRecords_def)
    (erule mutation_work_steps[THEN db_steps_actors], erule mutation_work_saves)

end
