(* ===== verification/Runs.thy ===== *)
theory Runs
  imports RecordEffects
begin

text \<open>
  The operations of the catalog and of the Records as steps of one system, \<open>api_step\<close>, and what holds of every
  run of it.
  A run may interleave the requests of any Actors; each operation is one transaction.
\<close>

inductive api_step :: "db \<Rightarrow> db \<Rightarrow> bool" where
  create_workspace: "CreateWorkspace E actor key h p s = Inr (x, s') \<Longrightarrow> api_step s s'"
| update_workspace: "UpdateWorkspace E actor i expected name s = Inr (x, s') \<Longrightarrow> api_step s s'"
| create_base: "CreateBase E actor key h p s = Inr (x, s') \<Longrightarrow> api_step s s'"
| update_base: "UpdateBase E actor i expected name s = Inr (x, s') \<Longrightarrow> api_step s s'"
| create_table: "CreateTable E actor key h p s = Inr (x, s') \<Longrightarrow> table_proposal_ok p \<Longrightarrow> api_step s s'"
| update_table: "UpdateTable E actor i expected name s = Inr (x, s') \<Longrightarrow> api_step s s'"
| delete_table: "DeleteTable E actor i expected s = Inr (x, s') \<Longrightarrow> api_step s s'"
| restore_table: "RestoreTable E actor i expected s = Inr (x, s') \<Longrightarrow> api_step s s'"
| create_field: "CreateField E actor key h p s = Inr (x, s') \<Longrightarrow> api_step s s'"
| update_field: "UpdateField E actor i expected target s = Inr (x, s') \<Longrightarrow> api_step s s'"
| delete_field: "DeleteField E actor i expected s = Inr (x, s') \<Longrightarrow> api_step s s'"
| restore_field: "RestoreField E actor i expected s = Inr (x, s') \<Longrightarrow> api_step s s'"
| create_view: "CreateView E actor key h p s = Inr (x, s') \<Longrightarrow> api_step s s'"
| update_view: "UpdateView E same actor i expected target s = Inr (x, s') \<Longrightarrow> api_step s s'"
| delete_view: "DeleteView E actor i expected s = Inr (x, s') \<Longrightarrow> api_step s s'"
| restore_view: "RestoreView E actor i expected s = Inr (x, s') \<Longrightarrow> api_step s s'"
| set_default_view: "SetDefaultView E actor i expected s = Inr (x, s') \<Longrightarrow> api_step s s'"
| reorder_views: "ReorderViews E actor key i h input s = Inr (x, s') \<Longrightarrow> api_step s s'"
| mutate_records: "MutateRecords E H actor i key h cs s = Inr (x, s') \<Longrightarrow> api_step s s'"
| move_record: "MoveRecord E H actor i r before after s = Inr (x, s') \<Longrightarrow> api_step s s'"
| duplicate_record: "DuplicateRecord E H actor i r s = Inr (x, s') \<Longrightarrow> api_step s s'"
| time_passes: "db_now s \<le> t \<Longrightarrow> api_step s (s\<lparr>db_now := t\<rparr>)"

abbreviation api_run :: "db \<Rightarrow> db \<Rightarrow> bool" where
  "api_run \<equiv> api_step\<^sup>*\<^sup>*"

lemma catalog_ok_parts: "catalog_ok s \<Longrightarrow> keys_ok s" "catalog_ok s \<Longrightarrow> orders_distinct s"
  by (simp_all add: catalog_ok_def order_ok_def orders_distinct_def)

lemma api_step_steps: "api_step s s' \<Longrightarrow> catalog_ok s \<Longrightarrow> db_steps s s'"
  by (induction rule: api_step.induct) (blast intro: refines catalog_ok_parts one_step clock)+

lemma api_run_steps: "api_run s s' \<Longrightarrow> catalog_ok s \<Longrightarrow> db_steps s s' \<and> catalog_ok s'"
proof (induction rule: rtranclp_induct)
  case base
  then show ?case by simp
next
  case (step y z)
  then have y: "db_steps s y" "catalog_ok y" by auto
  have z: "db_steps y z" using api_step_steps[OF step.hyps(2) y(2)] .
  show ?case using rtranclp_trans[OF y(1) z] db_steps_catalog[OF z y(2)] by simp
qed

section \<open>Looking up in a later state\<close>

lemma find_field_draws [simp]: "find_field actor fid (s\<lparr>db_draws := n, db_operation := i\<rparr>) = find_field actor fid s"
  by (simp add: find_field_def active_table_visible_def find_active_table_def find_base_def find_workspace_def)

lemma find_view_draws [simp]: "find_view actor vid (s\<lparr>db_draws := n, db_operation := i\<rparr>) = find_view actor vid s"
  by (simp add: find_view_def active_table_visible_def find_active_table_def find_base_def find_workspace_def)

lemma find_parent_draws [simp]:
  "find_workspace actor wid (s\<lparr>db_draws := n, db_operation := i\<rparr>) = find_workspace actor wid s"
  "find_base actor bid (s\<lparr>db_draws := n, db_operation := i\<rparr>) = find_base actor bid s"
  "find_table actor tid (s\<lparr>db_draws := n, db_operation := i\<rparr>) = find_table actor tid s"
  by (simp_all add: find_table_def find_base_def find_workspace_def)

text \<open>An update that succeeds has seen the row with the revision it expects.\<close>

lemma UpdateWorkspace_saw:
  "UpdateWorkspace E actor i expected name s = Inr (x, s') \<Longrightarrow>
     \<exists>r. find_workspace actor i s = Some r \<and> ws_revision (wr_workspace r) = expected"
  by (auto simp: UpdateWorkspace_def run_simps begin_audit_Inr)

lemma UpdateBase_saw:
  "UpdateBase E actor i expected name s = Inr (x, s') \<Longrightarrow>
     \<exists>r. find_base actor i s = Some r \<and> bs_revision (br_base r) = expected"
  by (auto simp: UpdateBase_def run_simps begin_audit_Inr)

definition table_write :: "env \<Rightarrow> string \<Rightarrow> string \<Rightarrow> int \<Rightarrow> string \<Rightarrow> db \<Rightarrow> bool" where
  "table_write E actor i expected name s \<longleftrightarrow>
     (\<exists>x. UpdateTable E actor i expected name s = Inr x) \<or> (\<exists>x. DeleteTable E actor i expected s = Inr x)
     \<or> (\<exists>x. RestoreTable E actor i expected s = Inr x)"

definition field_write :: "env \<Rightarrow> string \<Rightarrow> string \<Rightarrow> int \<Rightarrow> field \<Rightarrow> db \<Rightarrow> bool" where
  "field_write E actor i expected target s \<longleftrightarrow>
     (\<exists>x. UpdateField E actor i expected target s = Inr x) \<or> (\<exists>x. DeleteField E actor i expected s = Inr x)
     \<or> (\<exists>x. RestoreField E actor i expected s = Inr x)"

definition view_write ::
  "env \<Rightarrow> (view_config \<Rightarrow> view_config \<Rightarrow> bool) \<Rightarrow> string \<Rightarrow> string \<Rightarrow> int \<Rightarrow> view \<Rightarrow> db \<Rightarrow> bool" where
  "view_write E same actor i expected target s \<longleftrightarrow>
     (\<exists>x. UpdateView E same actor i expected target s = Inr x) \<or> (\<exists>x. DeleteView E actor i expected s = Inr x)
     \<or> (\<exists>x. RestoreView E actor i expected s = Inr x) \<or> (\<exists>x. SetDefaultView E actor i expected s = Inr x)"

lemma table_write_saw:
  "table_write E actor i expected name s \<Longrightarrow>
     \<exists>r. find_table actor i s = Some r \<and> tb_revision (tr_table r) = expected"
  by (auto simp: table_write_def UpdateTable_def DeleteTable_def RestoreTable_def lockAccessibleTable_def
      checkTableRevision_def run_simps begin_audit_Inr)

lemma field_write_saw:
  assumes "field_write E actor i expected target s"
  shows "\<exists>r f. find_field actor i s = Some r \<and> scanField (fr_field r) = Inr f \<and> fd_revision f = expected"
proof -
  have "\<exists>s1 u f b. begin_audit E actor s = Inr (u, s1) \<and> lockAccessibleField actor i s1 = Inr (f, b) \<and> fd_revision f = expected"
    using assms by (auto simp: field_write_def UpdateField_def DeleteField_def RestoreField_def checkFieldRevision_def run_simps)
  then show ?thesis by (auto simp: begin_audit_Inr dest!: lockAccessibleField_Inr)
qed

lemma view_write_saw:
  assumes "view_write E same actor i expected target s"
  shows "\<exists>r v. find_view actor i s = Some r \<and> scanView r = Inr v \<and> vw_revision v = expected"
proof -
  have "\<exists>s1 u v. begin_audit E actor s = Inr (u, s1) \<and> lockAccessibleView actor i s1 = Inr v \<and> vw_revision v = expected"
    using assms by (auto simp: view_write_def UpdateView_def DeleteView_def RestoreView_def SetDefaultView_def
        checkViewRevision_def run_simps)
  then show ?thesis by (auto simp: begin_audit_Inr dest!: lockAccessibleView_Inr)
qed

text \<open>A Field or View that is written with the revision it was read with is still what was read.\<close>

lemma field_write_unchanged:
  assumes k: "keys_ok s0" and steps: "db_steps s0 s"
    and g: "GetField actor i s0 = Inr f" and u: "field_write E actor i (fd_revision f) target s"
  shows "GetField actor i s = Inr f"
proof -
  obtain r0 where r0: "find_field actor i s0 = Some r0" "scanField (fr_field r0) = Inr f"
    using g by (auto simp: GetField_def split: option.splits)
  obtain r h where r: "find_field actor i s = Some r" "scanField (fr_field r) = Inr h" "fd_revision h = fd_revision f"
    using field_write_saw[OF u] by auto
  have "fr_field r = fr_field r0"
    by (rule fields.same_revision_same_row[OF k steps])
      (use r(3) find_field_id[OF r0(1)] find_field_id[OF r(1)] scanField_sel[OF r0(2)] scanField_sel[OF r(2)] in auto)
  then show "GetField actor i s = Inr f" using r(1) r0(2) by (simp add: GetField_def)
qed

lemma view_write_unchanged:
  assumes k: "keys_ok s0" and steps: "db_steps s0 s"
    and g: "GetView actor i s0 = Inr v" and u: "view_write E same actor i (vw_revision v) view s"
  shows "GetView actor i s = Inr v"
proof -
  obtain r0 where r0: "find_view actor i s0 = Some r0" "scanView r0 = Inr v"
    using g by (auto simp: GetView_def split: option.splits)
  obtain r h where r: "find_view actor i s = Some r" "scanView r = Inr h" "vw_revision h = vw_revision v"
    using view_write_saw[OF u] by auto
  have "r = r0"
    by (rule views.same_revision_same_row[OF k steps])
      (use r(3) find_view_id[OF r0(1)] find_view_id[OF r(1)] scanView_sel[OF r0(2)] scanView_sel[OF r(2)] in auto)
  then show "GetView actor i s = Inr v" using r(1) r0(2) by (simp add: GetView_def)
qed


section \<open>Invariants of every run\<close>

text \<open>C6: along every run the catalog stays consistent: primary keys are unique, Fields and Views have a Table,
  no Actor, Workspace, Base or Table has more children than its limit, the order of every Table lists exactly its
  active Views once each, no Table has two default Views, and every Table has exactly one primary Field, which
  is never deleted. The change log stays well-formed too.\<close>

theorem catalog_invariant:
  assumes "catalog_ok s" "log_ok s" "api_run s s'"
  shows "catalog_ok s' \<and> log_ok s'"
proof -
  have steps: "db_steps s s'" and c: "catalog_ok s'" using api_run_steps[OF assms(3,1)] by auto
  have "log_ok s'" using steps assms(2) by (induction rule: rtranclp_induct) (auto intro: db_step_log)
  then show ?thesis using c by simp
qed

text \<open>C5: a creating request, and a request with Record commands, is idempotent. Sent again with the same key and the same content, after any run of other
  requests and whatever would now be proposed, it gives the answer it gave the first time and changes nothing but
  the counter of drawn IDs and the current operation; with the same key and another content it is refused.\<close>

theorem requests_replayed:
  assumes ok: "catalog_ok s1" and run: "api_run s1 s2" and i: "en_ids E' (db_draws s2) ''op_'' = Some i"
    and s3: "s3 = s2\<lparr>db_draws := db_draws s2 + 1, db_operation := i\<rparr>"
  shows "(\<forall>x p q. CreateWorkspace E actor key h p s = Inr (x, s1) \<longrightarrow> CreateWorkspace E' actor key h q s2 = Inr (x, s3)
        \<and> (h' \<noteq> h \<longrightarrow> CreateWorkspace E' actor key h' q s2 = Inl IdempotencyKeyReused))
    \<and> (\<forall>x p q. CreateBase E actor key h p s = Inr (x, s1) \<longrightarrow> CreateBase E' actor key h q s2 = Inr (x, s3)
        \<and> (h' \<noteq> h \<longrightarrow> CreateBase E' actor key h' q s2 = Inl IdempotencyKeyReused))
    \<and> (\<forall>x p q. CreateTable E actor key h p s = Inr (x, s1) \<longrightarrow> CreateTable E' actor key h q s2 = Inr (x, s3)
        \<and> (h' \<noteq> h \<longrightarrow> CreateTable E' actor key h' q s2 = Inl IdempotencyKeyReused))
    \<and> (\<forall>x p q. CreateField E actor key h p s = Inr (x, s1) \<longrightarrow> CreateField E' actor key h q s2 = Inr (x, s3)
        \<and> (h' \<noteq> h \<longrightarrow> CreateField E' actor key h' q s2 = Inl IdempotencyKeyReused))
    \<and> (\<forall>x p q. CreateView E actor key h p s = Inr (x, s1) \<longrightarrow> CreateView E' actor key h q s2 = Inr (x, s3)
        \<and> (h' \<noteq> h \<longrightarrow> CreateView E' actor key h' q s2 = Inl IdempotencyKeyReused))
    \<and> (\<forall>x t p q. ReorderViews E actor key t h p s = Inr (x, s1) \<longrightarrow> ReorderViews E' actor key t h q s2 = Inr (x, s3)
        \<and> (h' \<noteq> h \<longrightarrow> ReorderViews E' actor key t h' q s2 = Inl IdempotencyKeyReused))
    \<and> (\<forall>x t p q. MutateRecords E H actor t key h p s = Inr (x, s1) \<longrightarrow> MutateRecords E' H actor t key h q s2 = Inr (x, s3)
        \<and> (h' \<noteq> h \<longrightarrow> MutateRecords E' H actor t key h' q s2 = Inl IdempotencyKeyReused))"
proof -
  note steps = conjunct1[OF api_run_steps[OF run ok]]
  have r: "ReorderViews E actor key t h p s = reorder_request E actor key h (t, p) s" for E actor key t h p s
    by (simp add: reorder_request_def)
  have m: "MutateRecords E H actor t key h p s = mutate_request H E actor key h (t, p) s" for E actor key t h p s
    by (simp add: mutate_request_def)
  note again = create_workspace.sent_again[OF _ steps i] create_base.sent_again[OF _ steps i]
    create_table.sent_again[OF _ steps i] create_field.sent_again[OF _ steps i]
    create_view.sent_again[OF _ steps i] reorder_views.sent_again[OF _ steps i]
    mutate.sent_again[OF _ steps i]
  note taken = create_workspace.key_taken[OF _ steps i] create_base.key_taken[OF _ steps i]
    create_table.key_taken[OF _ steps i] create_field.key_taken[OF _ steps i]
    create_view.key_taken[OF _ steps i] reorder_views.key_taken[OF _ steps i]
    mutate.key_taken[OF _ steps i]
  show ?thesis
    unfolding s3 r m by (intro conjI allI impI; (erule again | (erule taken, assumption)))
qed

section \<open>The order of the Views, abstractly\<close>

text \<open>What a client may rely on: each Table has a list of Views, and every operation is one event on it.\<close>

datatype order_event =
    Untouched
  | Appended string string
  | Removed string string
  | Arranged string "string list"

type_synonym view_orders = "string \<Rightarrow> string list"

fun apply_event :: "order_event \<Rightarrow> view_orders \<Rightarrow> view_orders" where
  "apply_event Untouched o1 = o1"
| "apply_event (Appended t v) o1 = o1(t := o1 t @ [v])"
| "apply_event (Removed t v) o1 = o1(t := filter (\<lambda>i. i \<noteq> v) (o1 t))"
| "apply_event (Arranged t vs) o1 = o1(t := vs)"

definition order_of :: "db \<Rightarrow> view_orders" where
  "order_of s = (\<lambda>t. case find (\<lambda>r. table_id r = t) (db_tables s) of None \<Rightarrow> [] | Some r \<Rightarrow> tr_order r)"

lemma order_of_cong: "db_tables s' = db_tables s \<Longrightarrow> order_of s' = order_of s"
  by (simp add: order_of_def)

text \<open>What the parts of a transaction leave alone.\<close>

definition same_tables :: "db \<Rightarrow> db \<Rightarrow> bool" where
  "same_tables s s' \<longleftrightarrow> db_tables s' = db_tables s \<and> db_views s' = db_views s"

lemma same_tables_order: "same_tables s s' \<Longrightarrow> order_of s' = order_of s"
  unfolding same_tables_def by (rule order_of_cong) blast

lemma part_same_tables:
  "begin_audit E actor s = Inr (u, s') \<Longrightarrow> same_tables s s'"
  "insert_metadata_change E a k t obj n s = Inr (u, s') \<Longrightarrow> same_tables s s'"
  "save_idempotent actor key h r s = Inr (u, s') \<Longrightarrow> same_tables s s'"
  "save_guard actor key h s = Inr (u, s') \<Longrightarrow> same_tables s s'"
  "invalidate_selections E actor t changed s = Inr s' \<Longrightarrow> same_tables s s'"
  using invalidate_each_Inr[of E actor t changed "live_scopes t s" s s']
  by (auto simp: same_tables_def begin_audit_Inr insert_metadata_change_def insert_change_Inr save_idempotent_Inr
      save_guard_Inr invalidate_selections_def)

lemma order_of_update:
  assumes "\<And>r. table_id r = t \<Longrightarrow> table_id (f r) = t"
  shows "order_of (s\<lparr>db_tables := update_where (\<lambda>r. table_id r = t) f (db_tables s)\<rparr>) =
    (case find (\<lambda>r. table_id r = t) (db_tables s) of None \<Rightarrow> order_of s
     | Some r \<Rightarrow> (order_of s)(t := tr_order (f r)))"
proof
  fix u
  have "find (\<lambda>r. table_id r = u) (update_where (\<lambda>r. table_id r = t) f (db_tables s))
      = map_option (\<lambda>r. if table_id r = t then f r else r) (find (\<lambda>r. table_id r = u) (db_tables s))"
    by (rule find_update_where) (use assms in auto)
  then show "order_of (s\<lparr>db_tables := update_where (\<lambda>r. table_id r = t) f (db_tables s)\<rparr>) u =
    (case find (\<lambda>r. table_id r = t) (db_tables s) of None \<Rightarrow> order_of s
     | Some r \<Rightarrow> (order_of s)(t := tr_order (f r))) u"
    by (cases "u = t") (auto simp: order_of_def dest: find_SomeD split: option.splits)
qed

lemma order_of_maintain:
  assumes "vw_table v \<in> table_id ` set (db_tables s)"
  shows "order_of (maintain_view_order v s) =
    (order_of s)(vw_table v := next_order (vw_id v) (vw_deleted_at v = None) (order_of s (vw_table v)))"
proof -
  obtain r where r: "find (\<lambda>r. table_id r = vw_table v) (db_tables s) = Some r"
    using assms by (cases "find (\<lambda>r. table_id r = vw_table v) (db_tables s)") (auto simp: find_None_all)
  show ?thesis unfolding maintain_view_order_def
    by (subst order_of_update) (simp_all add: r Let_def, simp add: order_of_def r)
qed

lemma order_of_set:
  "order_ok s \<Longrightarrow> t \<in> table_id ` set (db_tables s) \<Longrightarrow> set (order_of s t) = active_view_ids t (db_views s)"
  by (cases "find (\<lambda>r. table_id r = t) (db_tables s)")
    (auto simp: order_of_def order_ok_def find_None_all dest!: find_SomeD)

lemma same_tables_trans: "same_tables s s1 \<Longrightarrow> same_tables s1 s2 \<Longrightarrow> same_tables s s2"
  by (simp add: same_tables_def)

lemma begin_audit_ok:
  assumes "begin_audit E actor s = Inr (u, s1)" "catalog_ok s"
  shows "catalog_ok s1" "order_of s1 = order_of s" "db_views s1 = db_views s"
proof -
  note st = part_same_tables(1)[OF assms(1)]
  show "catalog_ok s1" by (rule db_steps_catalog[OF after_begin_audit[OF assms(1) rtranclp.rtrancl_refl] assms(2)])
  show "order_of s1 = order_of s" by (rule same_tables_order[OF st])
  show "db_views s1 = db_views s" using st by (simp add: same_tables_def)
qed

text \<open>A transaction without a receipt does its work in the state its audit left.\<close>

lemma idempotent_fresh:
  assumes "idempotent E decode actor key h work s = Inr (x, s')" "find_receipt actor key s = None" "catalog_ok s"
  obtains s1 where "work s1 = Inr (x, s')" "catalog_ok s1" "order_of s1 = order_of s"
proof -
  obtain i where i: "work (s\<lparr>db_draws := db_draws s + 1, db_operation := i\<rparr>) = Inr (x, s')"
    using assms(1,2) by (auto simp: idempotent_Inr Let_def)
  have "order_of (s\<lparr>db_draws := db_draws s + 1, db_operation := i\<rparr>) = order_of s" by (simp add: order_of_def)
  then show ?thesis by (rule that[OF i db_step_catalog[OF tick assms(3)]])
qed

lemma in_order_active:
  assumes "catalog_ok s" "i \<in> set (order_of s t)"
  shows "\<exists>v \<in> set (db_views s). vw_id v = i \<and> vw_table v = t \<and> vw_deleted_at v = None"
proof -
  obtain r where r: "find (\<lambda>r. table_id r = t) (db_tables s) = Some r" "i \<in> set (tr_order r)"
    using assms(2) by (cases "find (\<lambda>r. table_id r = t) (db_tables s)") (simp_all add: order_of_def)
  then have "r \<in> set (db_tables s)" "table_id r = t" by (auto dest: find_SomeD)
  then have "i \<in> active_view_ids t (db_views s)"
    using assms(1) r(2) by (auto simp: catalog_ok_def order_ok_def)
  then show ?thesis by (auto simp: active_view_ids_def)
qed

lemma insert_view_order:
  assumes "catalog_ok s" "insert_view what v s = Inr s'" "vw_deleted_at v = None"
    and "vw_table v \<in> table_id ` set (db_tables s)"
  shows "order_of s' = (order_of s)(vw_table v := order_of s (vw_table v) @ [vw_id v])"
proof -
  have "vw_id v \<notin> set (order_of s (vw_table v))"
    using assms(2) by (auto simp: insert_view_Inr image_iff dest!: in_order_active[OF assms(1)])
  moreover have "order_of (s\<lparr>db_views := db_views s @ [v]\<rparr>) = order_of s" by (simp add: order_of_def)
  ultimately show ?thesis
    using assms(2-4) order_of_maintain[of v "s\<lparr>db_views := db_views s @ [v]\<rparr>"]
    by (auto simp: insert_view_Inr next_order_def)
qed

lemma CreateView_order:
  assumes "catalog_ok s" "find_receipt actor key s = None" "CreateView E actor key h p s = Inr (x, s')"
  shows "order_of s' = apply_event (Appended (vw_table p) (vw_id p)) (order_of s)"
proof -
  let ?v = "\<lambda>s1. p\<lparr>vw_default := False, vw_revision := 1, vw_created_at := db_now s1, vw_updated_at := db_now s1,
    vw_deleted_at := None\<rparr>"
  obtain s1 where w: "catalog_ok s1" "order_of s1 = order_of s" and r: "\<exists>a b c g s2 s3 s4 u t r.
      active_table_visible actor (vw_table p) s1 \<and> insert_view ''insert view'' (?v s1) s1 = Inr s2
      \<and> insert_metadata_change E actor a b c g s2 = Inr (u, s3) \<and> invalidate_selections E actor t [] s3 = Inr s4
      \<and> save_idempotent actor key h r s4 = Inr (u, s')"
    using assms(3) unfolding CreateView_def
    by (rule idempotent_fresh[OF _ assms(2,1)]) (fastforce simp: run_simps)
  then obtain s2 where i: "insert_view ''insert view'' (?v s1) s1 = Inr s2"
    and t: "active_table_visible actor (vw_table p) s1" and e: "same_tables s2 s'"
    by (elim exE conjE) (blast intro: same_tables_trans part_same_tables)
  have "order_of s2 = (order_of s1)(vw_table p := order_of s1 (vw_table p) @ [vw_id p])"
    using insert_view_order[OF w(1) i] active_table_in[OF t] by simp
  then show ?thesis using same_tables_order[OF e] w(2) by simp
qed

lemma write_view_order:
  assumes "write_view E actor f vid s1 = Inr (x, s2)" "keeps_view f"
  obtains old where "find (\<lambda>v. vw_id v = vid) (db_views s1) = Some old" "vw_table x = vw_table old"
    and "same_tables (trigger_view_order old (revise_view f (db_now s1) old)
      (s1\<lparr>db_views := revise_views f (db_now s1) vid (db_views s1)\<rparr>)) s2"
proof -
  obtain old where old: "find (\<lambda>v. vw_id v = vid) (db_views s1) = Some old"
    and x: "scanView (revise_view f (db_now s1) old) = Inr x"
    and l: "log_view E actor x (trigger_view_order old (revise_view f (db_now s1) old)
      (s1\<lparr>db_views := revise_views f (db_now s1) vid (db_views s1)\<rparr>)) = Inr (x, s2)"
    using assms(1) by (auto simp: write_view_def revise_views_def run_simps log_view_def)
  have "same_tables (trigger_view_order old (revise_view f (db_now s1) old)
      (s1\<lparr>db_views := revise_views f (db_now s1) vid (db_views s1)\<rparr>)) s2"
    using l by (auto simp: log_view_def run_simps intro: same_tables_trans part_same_tables)
  then show ?thesis using that old scanView_sel[OF x] assms(2) by simp
qed

text \<open>What writing a View does to the order, by whether it is active before and after.\<close>

lemma write_view_event:
  assumes ok: "catalog_ok s1" and w: "write_view E actor f vid s1 = Inr (x, s2)" and k: "keeps_view f"
  obtains old where "find (\<lambda>v. vw_id v = vid) (db_views s1) = Some old" "vw_table x = vw_table old"
    and "order_of s2 = apply_event
      (if (vw_deleted_at old = None) = (vw_deleted_at (f old) = None) then Untouched
       else if vw_deleted_at old = None then Removed (vw_table old) vid else Appended (vw_table old) vid) (order_of s1)"
proof -
  obtain old where old: "find (\<lambda>v. vw_id v = vid) (db_views s1) = Some old" "vw_table x = vw_table old"
    and st: "same_tables (trigger_view_order old (revise_view f (db_now s1) old)
      (s1\<lparr>db_views := revise_views f (db_now s1) vid (db_views s1)\<rparr>)) s2"
    using write_view_order[OF w k] .
  let ?s = "s1\<lparr>db_views := revise_views f (db_now s1) vid (db_views s1)\<rparr>"
  let ?new = "revise_view f (db_now s1) old"
  have o: "old \<in> set (db_views s1)" "vw_id old = vid" using find_SomeD[OF old(1)] by auto
  have t: "vw_table ?new \<in> table_id ` set (db_tables ?s)"
    using ok o(1) k by (auto simp: catalog_ok_def parents_ok_def)
  have same: "order_of ?s = order_of s1" by (simp add: order_of_def)
  have active: "vid \<in> set (order_of s1 (vw_table old)) \<longleftrightarrow> vw_deleted_at old = None"
  proof -
    have "table_id ` set (db_tables s1) = table_id ` set (db_tables ?s)" by simp
    then have s: "set (order_of s1 (vw_table old)) = active_view_ids (vw_table old) (db_views s1)"
      using ok t k by (intro order_of_set) (auto simp: catalog_ok_def)
    have "v = old" if "v \<in> set (db_views s1)" "vw_id v = vid" for v
      using key_unique[of vw_id "db_views s1" v old] ok that o by (simp add: catalog_ok_def keys_ok_def)
    then show ?thesis unfolding s active_view_ids_def using o by blast
  qed
  have "order_of s2 = order_of (trigger_view_order old ?new ?s)" using same_tables_order[OF st] .
  also have "\<dots> = apply_event
      (if (vw_deleted_at old = None) = (vw_deleted_at (f old) = None) then Untouched
       else if vw_deleted_at old = None then Removed (vw_table old) vid else Appended (vw_table old) vid) (order_of s1)"
    using order_of_maintain[OF t] active same k o(2)
    by (cases "vw_deleted_at old"; cases "vw_deleted_at (f old)")
      (simp_all add: trigger_view_order_def next_order_def)
  finally show ?thesis using that old by blast
qed

lemma view_locked:
  assumes "begin_audit E actor s = Inr (u, s1)" "lockAccessibleView actor vid s1 = Inr v" "catalog_ok s"
  obtains old where "find_view actor vid s = Some old" "scanView old = Inr v"
    and "find (\<lambda>v. vw_id v = vid) (db_views s1) = Some old"
proof -
  obtain old where old: "find_view actor vid s1 = Some old" "scanView old = Inr v"
    using lockAccessibleView_Inr[OF assms(2)] by blast
  have "find_view actor vid s = Some old" using old(1) assms(1) by (auto simp: begin_audit_Inr)
  then show ?thesis
    using that old find_view_find[OF catalog_ok_parts(1)[OF begin_audit_ok(1)[OF assms(1,3)]] old(1)] by blast
qed

lemma DeleteView_order:
  assumes ok: "catalog_ok s" and d: "DeleteView E actor vid expected s = Inr (x, s')"
  shows "\<exists>v. GetView actor vid s = Inr v \<and> order_of s' = apply_event (Removed (vw_table v) vid) (order_of s)"
proof -
  obtain s1 u v y where a: "begin_audit E actor s = Inr (u, s1)" and l: "lockAccessibleView actor vid s1 = Inr v"
    and n: "vw_deleted_at v = None"
    and w: "write_view E actor (vw_deleted_at_update (\<lambda>_. Some (db_now s1))) vid s1 = Inr (y, s')"
    using d by (auto simp: DeleteView_def run_simps)
  obtain old where old: "find_view actor vid s = Some old" "scanView old = Inr v"
      "find (\<lambda>v. vw_id v = vid) (db_views s1) = Some old"
    using view_locked[OF a l ok] .
  show ?thesis
    using write_view_event[OF begin_audit_ok(1)[OF a ok] w] old scanView_sel[OF old(2)] n begin_audit_ok(2)[OF a ok]
    by (fastforce simp: GetView_def)
qed

lemma RestoreView_order:
  assumes ok: "catalog_ok s" and d: "RestoreView E actor vid expected s = Inr (x, s')"
  shows "order_of s' = apply_event (Appended (vw_table x) vid) (order_of s)"
proof -
  obtain s1 u v where a: "begin_audit E actor s = Inr (u, s1)" and l: "lockAccessibleView actor vid s1 = Inr v"
    and n: "vw_deleted_at v \<noteq> None" and w: "write_view E actor restored_columns vid s1 = Inr (x, s')"
    using d by (auto simp: RestoreView_def run_simps)
  obtain old where old: "find_view actor vid s = Some old" "scanView old = Inr v"
      "find (\<lambda>v. vw_id v = vid) (db_views s1) = Some old"
    using view_locked[OF a l ok] .
  show ?thesis
    using write_view_event[OF begin_audit_ok(1)[OF a ok] w] old scanView_sel[OF old(2)] n begin_audit_ok(2)[OF a ok]
    by (fastforce simp: restored_columns_def)
qed

lemma UpdateView_order:
  assumes ok: "catalog_ok s" and d: "UpdateView E same actor vid expected target s = Inr (x, s')"
  shows "order_of s' = order_of s"
proof -
  obtain s1 u v where a: "begin_audit E actor s = Inr (u, s1)"
    and w: "s' = s1 \<or> write_view E actor (view_columns target) vid s1 = Inr (x, s')"
    using d by (auto simp: UpdateView_def run_simps split: if_splits)
  from w show ?thesis
  proof
    assume w: "write_view E actor (view_columns target) vid s1 = Inr (x, s')"
    show ?thesis
      using write_view_event[OF begin_audit_ok(1)[OF a ok] w] begin_audit_ok(2)[OF a ok]
      by (auto simp: view_columns_def)
  qed (use begin_audit_ok(2)[OF a ok] in simp)
qed

lemma log_cleared_tables: "log_cleared E actor tid vs s = Inr s' \<Longrightarrow> same_tables s s'"
proof (induction vs arbitrary: s)
  case Nil
  then show ?case by (simp add: same_tables_def)
next
  case (Cons v vs)
  then show ?case by (auto simp: run_simps intro: same_tables_trans part_same_tables)
qed

lemma SetDefaultView_parts:
  assumes ok: "catalog_ok s" and d: "SetDefaultView E actor vid expected s = Inr (x, s')"
  obtains (kept) s1 u where "begin_audit E actor s = Inr (u, s1)" "vw_default x" "vw_deleted_at x = None"
      "GetView actor vid s = Inr x" "s' = s1"
  | (set) s1 u v s2 where "begin_audit E actor s = Inr (u, s1)" "GetView actor vid s = Inr v" "vw_deleted_at v = None"
      "same_tables (s1\<lparr>db_views := update_where (is_default_of (vw_table v)) (clear_default (db_now s1)) (db_views s1)\<rparr>) s2"
      "db_steps (s1\<lparr>db_views := update_where (is_default_of (vw_table v)) (clear_default (db_now s1)) (db_views s1)\<rparr>) s2"
      "write_view E actor (vw_default_update (\<lambda>_. True)) vid s2 = Inr (x, s')"
proof -
  obtain s1 u v where a: "begin_audit E actor s = Inr (u, s1)" and l: "lockAccessibleView actor vid s1 = Inr v"
    and n: "vw_deleted_at v = None"
    and w: "(vw_default v \<and> x = v \<and> s' = s1) \<or> (\<exists>s2 cleared. log_cleared E actor (vw_table v) cleared
          (s1\<lparr>db_views := update_where (is_default_of (vw_table v)) (clear_default (db_now s1)) (db_views s1)\<rparr>) = Inr s2
        \<and> write_view E actor (vw_default_update (\<lambda>_. True)) vid s2 = Inr (x, s'))"
    using d unfolding SetDefaultView_def by (auto simp: run_simps split: if_splits)
  obtain old where old: "find_view actor vid s = Some old" "scanView old = Inr v"
    using view_locked[OF a l ok] by blast
  then have g: "GetView actor vid s = Inr v" by (simp add: GetView_def)
  from w show ?thesis
  proof (elim disjE exE conjE)
    fix s2 cleared
    assume cl: "log_cleared E actor (vw_table v) cleared
          (s1\<lparr>db_views := update_where (is_default_of (vw_table v)) (clear_default (db_now s1)) (db_views s1)\<rparr>) = Inr s2"
      and wv: "write_view E actor (vw_default_update (\<lambda>_. True)) vid s2 = Inr (x, s')"
    show ?thesis
      using set[OF a g n log_cleared_tables[OF cl] _ wv] log_cleared_Inr[OF cl] by blast
  qed (use kept[OF a] g n in auto)
qed

lemma SetDefaultView_order:
  assumes ok: "catalog_ok s" and d: "SetDefaultView E actor vid expected s = Inr (x, s')"
  shows "order_of s' = order_of s"
proof (cases rule: SetDefaultView_parts[OF ok d])
  case (1 s1 u)
  then show ?thesis using begin_audit_ok(2)[OF 1(1) ok] by simp
next
  case (2 s1 u v s2)
  let ?s = "s1\<lparr>db_views := update_where (is_default_of (vw_table v)) (clear_default (db_now s1)) (db_views s1)\<rparr>"
  have c: "catalog_ok s2"
    by (rule db_steps_catalog[OF 2(5) db_step_catalog[OF clear_defaults begin_audit_ok(1)[OF 2(1) ok]]])
  have "order_of s2 = order_of s1" using same_tables_order[OF 2(4)] by (simp add: order_of_def)
  then show ?thesis
    using write_view_event[OF c 2(6)] begin_audit_ok(2)[OF 2(1) ok] by auto
qed

lemma readViewOrder_Inr:
  "readViewOrder tid s = Inr ord \<longleftrightarrow> (\<exists>r. find (\<lambda>r. table_id r = tid) (db_tables s) = Some r
     \<and> ord = \<lparr>vo_table = tid, vo_revision = tr_order_revision r, vo_views = tr_order r\<rparr>)"
  by (auto simp: readViewOrder_def split: option.splits)

lemma ReorderViews_order:
  assumes ok: "catalog_ok s" "find_receipt actor key s = None"
    and d: "ReorderViews E actor key tid h input s = Inr (x, s')"
  shows "order_of s' = apply_event (Arranged tid (vi_views input)) (order_of s)
    \<and> mset (vi_views input) = mset (order_of s tid)"
proof -
  obtain s1 where w: "catalog_ok s1" "order_of s1 = order_of s" and r: "\<exists>ord s2 s3 s4 u r. readViewOrder tid s1 = Inr ord
      \<and> complete_permutation (vo_views ord) (vi_views input)
      \<and> save_view_order E actor key ord (vi_views input) s1 = Inr (x, s2) \<and> save_guard actor key h s2 = Inr (u, s3)
      \<and> save_idempotent actor key h r s3 = Inr (u, s')"
    using d unfolding ReorderViews_def
    by (rule idempotent_fresh[OF _ ok(2,1)]) (fastforce simp: run_simps)
  then obtain ord s2 where o: "readViewOrder tid s1 = Inr ord" and p: "complete_permutation (vo_views ord) (vi_views input)"
    and sv: "save_view_order E actor key ord (vi_views input) s1 = Inr (x, s2)" and e: "same_tables s2 s'"
    by (elim exE conjE) (blast intro: same_tables_trans part_same_tables)
  obtain q where q: "find (\<lambda>r. table_id r = tid) (db_tables s1) = Some q" "vo_views ord = tr_order q" "vo_table ord = tid"
    using o by (auto simp: readViewOrder_Inr)
  have q': "order_of s1 tid = tr_order q" using q(1) by (simp add: order_of_def)
  have dq: "distinct (tr_order q)"
    using find_SomeD[OF q(1)] w(1) by (auto simp: catalog_ok_def order_ok_def)
  have "order_of s2 = (order_of s1)(tid := vi_views input)"
  proof (cases "vo_views ord = vi_views input")
    case True
    then have "s2 = s1" using sv by (simp add: save_view_order_def)
    then show ?thesis using True q(2) q' by (metis fun_upd_triv)
  next
    case False
    obtain u a b c where m: "insert_metadata_change E actor ''schemaChanged'' a b c
        (s1\<lparr>db_tables := update_where (\<lambda>r. table_id r = tid)
           (\<lambda>r. r\<lparr>tr_order := vi_views input, tr_order_revision := tr_order_revision r + 1\<rparr>) (db_tables s1)\<rparr>) = Inr (u, s2)"
      using sv False q(3) by (auto simp: save_view_order_def run_simps)
    show ?thesis unfolding same_tables_order[OF part_same_tables(2)[OF m]]
      by (subst order_of_update) (simp_all add: q(1))
  qed
  then show ?thesis
    using same_tables_order[OF e] w(2) p dq q(2) q' by (simp add: complete_permutation_iff)
qed

lemma order_of_new_table:
  assumes "tb_id t \<notin> table_id ` set (db_tables s)"
  shows "order_of (s\<lparr>db_tables := db_tables s @ [\<lparr>tr_table = t, tr_order_revision = n, tr_order = ord\<rparr>],
           db_fields := fs, db_views := vs\<rparr>) = (order_of s)(tb_id t := ord)"
proof
  fix u
  have "find (\<lambda>r. table_id r = tb_id t) (db_tables s) = None" using assms by (auto simp: find_None_all image_iff)
  then show "order_of (s\<lparr>db_tables := db_tables s @ [\<lparr>tr_table = t, tr_order_revision = n, tr_order = ord\<rparr>],
           db_fields := fs, db_views := vs\<rparr>) u = ((order_of s)(tb_id t := ord)) u"
    by (cases "u = tb_id t"; cases "find (\<lambda>r. table_id r = u) (db_tables s)") (simp_all add: order_of_def find_append)
qed

lemma CreateTable_order:
  assumes ok: "catalog_ok s" "find_receipt actor key s = None"
    and d: "CreateTable E actor key h p s = Inr (x, s')"
  shows "order_of s' = apply_event (Arranged (tb_id (ct_table p)) [vw_id (ct_view p)]) (order_of s)"
proof -
  let ?t = "\<lambda>s b. \<lparr>tb_id = tb_id (ct_table p), tb_base = base_id b, tb_name = tb_name (ct_table p),
    tb_primary_field = tb_primary_field (ct_table p), tb_revision = 1, tb_created_at = db_now s,
    tb_updated_at = db_now s, tb_deleted_at = None\<rparr>"
  let ?v = "\<lambda>s. (ct_view p)\<lparr>vw_created_at := db_now s, vw_updated_at := db_now s, vw_table := tb_id (ct_table p),
    vw_revision := 1, vw_deleted_at := None\<rparr>"
  obtain s1 where w: "order_of s1 = order_of s" and r: "\<exists>b fs vs u r. tb_id (ct_table p) \<notin> table_id ` set (db_tables s1)
      \<and> save_idempotent actor key h r (maintain_view_order (?v s1)
        (s1\<lparr>db_tables := db_tables s1 @ [\<lparr>tr_table = ?t s1 b, tr_order_revision = 1, tr_order = []\<rparr>],
           db_fields := fs, db_views := vs\<rparr>)) = Inr (u, s')"
    using d unfolding CreateTable_def
    by (rule idempotent_fresh[OF _ ok(2,1)]) (fastforce simp: run_simps insert_row_Inr insert_view_Inr)
  then obtain b fs vs where n: "tb_id (ct_table p) \<notin> table_id ` set (db_tables s1)"
    and e: "same_tables (maintain_view_order (?v s1)
        (s1\<lparr>db_tables := db_tables s1 @ [\<lparr>tr_table = ?t s1 b, tr_order_revision = 1, tr_order = []\<rparr>],
           db_fields := fs, db_views := vs\<rparr>)) s'"
    by (blast intro: part_same_tables)
  have "order_of (maintain_view_order (?v s1)
        (s1\<lparr>db_tables := db_tables s1 @ [\<lparr>tr_table = ?t s1 b, tr_order_revision = 1, tr_order = []\<rparr>],
           db_fields := fs, db_views := vs\<rparr>)) = (order_of s1)(tb_id (?t s1 b) := [vw_id (?v s1)])"
    by (subst maintain_new_table) (use n in \<open>simp_all add: order_of_new_table\<close>)
  then show ?thesis using same_tables_order[OF e] w by simp
qed

text \<open>C4: the order of a Table's Views refines its specification. Seen as one list of View IDs for each Table, a new View is
  appended, a deleted one taken out, a restored one appended, a reordering replaces the list by a permutation of it, a
  new Table starts with its initial View, and updating a View or choosing the default leaves every list alone: the
  column, its trigger and \<open>ReorderViews\<close> together do exactly this.\<close>

theorem view_order_refined:
  assumes ok: "catalog_ok s" and fresh: "find_receipt actor key s = None"
  shows "(\<forall>p x s'. CreateTable E actor key h p s = Inr (x, s') \<longrightarrow>
        order_of s' = apply_event (Arranged (tb_id (ct_table p)) [vw_id (ct_view p)]) (order_of s))
    \<and> (\<forall>p x s'. CreateView E actor key h p s = Inr (x, s') \<longrightarrow>
        order_of s' = apply_event (Appended (vw_table p) (vw_id p)) (order_of s))
    \<and> (\<forall>i e x s'. DeleteView E actor i e s = Inr (x, s') \<longrightarrow>
        (\<exists>v. GetView actor i s = Inr v \<and> order_of s' = apply_event (Removed (vw_table v) i) (order_of s)))
    \<and> (\<forall>i e v s'. RestoreView E actor i e s = Inr (v, s') \<longrightarrow>
        order_of s' = apply_event (Appended (vw_table v) i) (order_of s))
    \<and> (\<forall>t input x s'. ReorderViews E actor key t h input s = Inr (x, s') \<longrightarrow>
        order_of s' = apply_event (Arranged t (vi_views input)) (order_of s)
        \<and> mset (vi_views input) = mset (order_of s t))
    \<and> (\<forall>i e target x s'. UpdateView E same actor i e target s = Inr (x, s') \<longrightarrow>
        order_of s' = apply_event Untouched (order_of s))
    \<and> (\<forall>i e x s'. SetDefaultView E actor i e s = Inr (x, s') \<longrightarrow> order_of s' = apply_event Untouched (order_of s))"
  unfolding apply_event.simps(1)
  by (intro conjI allI impI; (erule CreateTable_order[OF ok fresh] CreateView_order[OF ok fresh] DeleteView_order[OF ok]
      RestoreView_order[OF ok] UpdateView_order[OF ok] SetDefaultView_order[OF ok]
      conjunct1[OF ReorderViews_order[OF ok fresh]] conjunct2[OF ReorderViews_order[OF ok fresh]]))

section \<open>Listing the Views of a Table\<close>

lemma fold_fmupd_lookup:
  "distinct (map key vs) \<Longrightarrow> v \<in> set vs \<Longrightarrow> fmlookup (fold (\<lambda>v m. fmupd (key v) v m) vs m) (key v) = Some v"
proof (induction vs arbitrary: m)
  case Nil
  then show ?case by simp
next
  case (Cons w vs)
  have keep: "key w \<notin> key ` set vs \<Longrightarrow> fmlookup (fold (\<lambda>v m. fmupd (key v) v m) vs m) (key w) = fmlookup m (key w)" for m
    by (induction vs arbitrary: m) auto
  show ?case
  proof (cases "v = w")
    case True
    then show ?thesis using Cons.prems(1) keep by simp
  next
    case False
    then show ?thesis using Cons by simp
  qed
qed

lemma place_views_ok:
  "distinct is \<Longrightarrow> (\<And>i. i \<in> set is \<Longrightarrow> \<exists>v. fmlookup m i = Some v \<and> vw_id v = i) \<Longrightarrow>
     \<exists>vs. place_views is m = Inr vs \<and> map vw_id vs = is \<and> (\<forall>v \<in> set vs. \<exists>i. fmlookup m i = Some v)"
proof (induction "is" arbitrary: m)
  case Nil
  then show ?case by simp
next
  case (Cons i "is")
  obtain v where v: "fmlookup m i = Some v" "vw_id v = i" using Cons.prems(2)[of i] by auto
  have "\<exists>w. fmlookup (fmdrop i m) j = Some w \<and> vw_id w = j" if "j \<in> set is" for j
    using Cons.prems that by auto
  then obtain vs where vs: "place_views is (fmdrop i m) = Inr vs" "map vw_id vs = is"
    "\<forall>v \<in> set vs. \<exists>j. fmlookup (fmdrop i m) j = Some v"
    using Cons.IH[of "fmdrop i m"] Cons.prems(1) by auto
  have "\<exists>j. fmlookup m j = Some w" if "w \<in> set vs" for w
    using vs(3) that by (auto split: if_splits)
  then show ?case using vs(1,2) v by auto
qed

lemma fold_fmupd_range: "fmlookup (fold (\<lambda>v m. fmupd (key v) v m) vs m) i = Some v \<Longrightarrow> v \<in> set vs \<or> fmlookup m i = Some v"
proof (induction vs arbitrary: m)
  case (Cons w vs)
  then show ?case using Cons.IH[of "fmupd (key w) w m"] by (auto split: if_splits)
qed simp

definition known_view_type :: "view \<Rightarrow> bool" where
  "known_view_type v \<longleftrightarrow> vw_type v = ''grid'' \<or> vw_type v = ''map''"

lemma scanView_ok: "known_view_type v \<Longrightarrow> \<exists>w. scanView v = Inr w"
  by (auto simp: known_view_type_def scanView_def decodeViewConfig_def)

lemma scan_all: "\<forall>v \<in> set vs. known_view_type v \<Longrightarrow> \<exists>ws. each_ok scanView vs = Inr ws \<and> list_all2 (\<lambda>v w. scanView v = Inr w) vs ws"
proof (induction vs)
  case (Cons v vs)
  then show ?case using scanView_ok[of v] by (auto simp: list_all2_Cons1)
qed simp

lemma active_views_listed:
  assumes ok: "catalog_ok s" and vis: "active_table_visible actor t s" and types: "\<forall>v \<in> set (db_views s). known_view_type v"
  shows "\<exists>items rev. ListViewsSnapshot actor t ''active'' s = Inr (items, \<lparr>vo_table = t, vo_revision = rev, vo_views = order_of s t\<rparr>)
    \<and> map vw_id items = order_of s t
    \<and> (\<forall>w \<in> set items. \<exists>v \<in> set (db_views s). scanView v = Inr w \<and> vw_table v = t \<and> vw_deleted_at v = None)"
proof -
  obtain r where r: "find (\<lambda>r. table_id r = t) (db_tables s) = Some r"
    using active_table_in[OF vis] by (cases "find (\<lambda>r. table_id r = t) (db_tables s)") (auto simp: find_None_all)
  have ord: "order_of s t = tr_order r" using r by (simp add: order_of_def)
  have rs: "set (tr_order r) = active_view_ids t (db_views s)" "distinct (tr_order r)"
    using find_SomeD[OF r] ok by (auto simp: catalog_ok_def order_ok_def)
  let ?rows = "sort_key (\<lambda>v. (vw_created_at v, vw_id v)) (filter (\<lambda>v. vw_table v = t \<and> vw_deleted_at v = None) (db_views s))"
  obtain ws where ws: "each_ok scanView ?rows = Inr ws" "list_all2 (\<lambda>v w. scanView v = Inr w) ?rows ws"
    using scan_all[of ?rows] types by auto
  have ids: "map vw_id ws = map vw_id ?rows"
    using ws(2) by (induction rule: list_all2_induct) (auto dest: scanView_sel)
  have scanned: "\<exists>v \<in> set ?rows. scanView v = Inr w" if "w \<in> set ws" for w
    using ws(2) that by (induction rule: list_all2_induct) auto
  have dist: "distinct (map vw_id ws)"
    unfolding ids using ok by (simp add: catalog_ok_def keys_ok_def distinct_map inj_on_def)
  have set: "vw_id ` set ws = set (tr_order r)"
  proof -
    have "vw_id ` set ws = set (map vw_id ?rows)" using ids by (metis list.set_map)
    then show ?thesis using rs(1) by (simp add: active_view_ids_def)
  qed
  have len: "length (tr_order r) = length ws"
    using distinct_card[OF rs(2)] distinct_card[OF dist] set by simp
  let ?m = "fold (\<lambda>v m. fmupd (vw_id v) v m) ws fmempty"
  have "\<exists>v. fmlookup ?m i = Some v \<and> vw_id v = i" if i: "i \<in> set (tr_order r)" for i
  proof -
    obtain w where "w \<in> set ws" "vw_id w = i" using i unfolding set[symmetric] by auto
    then show ?thesis using fold_fmupd_lookup[OF dist, of w fmempty] by auto
  qed
  then obtain vs where vs: "place_views (tr_order r) ?m = Inr vs" "map vw_id vs = tr_order r"
      "\<forall>v \<in> set vs. \<exists>i. fmlookup ?m i = Some v"
    using place_views_ok[OF rs(2)] by blast
  have "ListViewsSnapshot actor t ''active'' s
      = Inr (vs, \<lparr>vo_table = t, vo_revision = tr_order_revision r, vo_views = tr_order r\<rparr>)"
    using vis r ws(1) len vs(1)
    by (simp add: ListViewsSnapshot_def lifecycle_condition_def readViewOrder_def ordered_views_def)
  moreover have "\<exists>v \<in> set (db_views s). scanView v = Inr w \<and> vw_table v = t \<and> vw_deleted_at v = None" if "w \<in> set vs" for w
    using vs(3) that scanned fold_fmupd_range[of vw_id ws fmempty] by fastforce
  ultimately show ?thesis using vs(2) ord by auto
qed

text \<open>C37: listing the active Views never fails on a consistent catalog: in every state a run can reach, a visible Table
  gives its active Views in the stored order, all of them and each once.\<close>

theorem view_list_follows_order:
  assumes "catalog_ok s0" "api_run s0 s" "active_table_visible actor t s" "\<forall>v \<in> set (db_views s). known_view_type v"
  shows "\<exists>items rev. ListViewsSnapshot actor t ''active'' s = Inr (items, \<lparr>vo_table = t, vo_revision = rev, vo_views = order_of s t\<rparr>)
    \<and> map vw_id items = order_of s t \<and> set (order_of s t) = active_view_ids t (db_views s) \<and> distinct (order_of s t)"
proof -
  have ok: "catalog_ok s" using api_run_steps[OF assms(2,1)] by simp
  have t: "t \<in> table_id ` set (db_tables s)" by (rule active_table_in[OF assms(3)])
  have "set (order_of s t) = active_view_ids t (db_views s)"
    using order_of_set[OF _ t] ok by (simp add: catalog_ok_def)
  moreover have "distinct (order_of s t)"
    using ok by (cases "find (\<lambda>r. table_id r = t) (db_tables s)")
      (auto simp: order_of_def catalog_ok_def order_ok_def dest: find_SomeD)
  ultimately show ?thesis using active_views_listed[OF ok assms(3,4)] by blast
qed

section \<open>A short run\<close>

lemma sample_db_catalog: "catalog_ok sample_db"
proof -
  have "keys_ok sample_db" by (simp add: keys_ok_def sample_db_def)
  moreover have "parents_ok sample_db"
    by (simp add: parents_ok_def sample_db_def sample_tbl_def sample_view_def)
  moreover have "limits_ok sample_db"
    by (simp add: limits_ok_def sample_db_def count_rows_def WorkspaceLimitPerActor_def BaseLimitPerWorkspace_def
        TableLimitPerBase_def FieldLimitPerTable_def ViewLimitPerTable_def)
  moreover have "order_ok sample_db"
  proof -
    have "active_view_ids sample_table [] = {}" by (simp add: active_view_ids_def)
    then show ?thesis
      by (simp add: order_ok_def sample_db_def sample_tbl_def active_ids_Cons) (simp add: sample_view_def)
  qed
  moreover have "default_ok sample_db"
    by (simp add: default_ok_def count_rows_def sample_db_def)
  moreover have "primary_ok sample_db"
    by (simp add: primary_ok_def sample_db_def sample_tbl_def)
  ultimately show ?thesis by (simp add: catalog_ok_def)
qed

definition second_view :: view where
  "second_view = sample_view\<lparr>vw_id := sample_id ''view_'' (CHR ''W''), vw_name := ''Board''\<rparr>"

definition viewed :: "(view \<times> db) res" where
  "viewed = CreateView sample_env sample_actor ''mut_1'' ''h'' second_view sample_db"

definition viewed_db :: db where
  "viewed_db = (case viewed of Inl e \<Rightarrow> sample_db | Inr (v, s) \<Rightarrow> s)"

lemma viewed_Inr: "\<exists>v. viewed = Inr (v, viewed_db)"
proof -
  have "case viewed of Inl e \<Rightarrow> False | Inr y \<Rightarrow> True" by code_simp
  from case_InrD[OF this] obtain v s where y: "viewed = Inr (v, s)" by auto
  have "viewed_db = s" unfolding viewed_db_def y by simp
  then show ?thesis using y by blast
qed

lemma viewed_run: "api_run sample_db viewed_db"
  using viewed_Inr unfolding viewed_def by (auto intro: create_view)

definition sample_field :: string where "sample_field = sample_id ''fld_'' (CHR ''F'')"

definition renamed_field :: field where
  "renamed_field = \<lparr>fd_id = sample_field, fd_table = sample_table, fd_name = ''Title'', fd_description = [],
     fd_position = 0, fd_schema_version = 1, fd_revision = 1, fd_type = ''text'', fd_config = EmptyConfig,
     fd_deleted_at = None\<rparr>"


theorem catalog_invariant_witness: "catalog_ok viewed_db \<and> log_ok viewed_db \<and> length (db_views viewed_db) = 2"
proof -
  have "length (db_views viewed_db) = 2" by code_simp
  then show ?thesis using catalog_invariant[OF sample_db_catalog sample_db_log viewed_run] by blast
qed

theorem requests_replayed_witness:
  "\<exists>v i. viewed = Inr (v, viewed_db)
     \<and> CreateView sample_env sample_actor ''mut_1'' ''h'' second_view viewed_db
         = Inr (v, viewed_db\<lparr>db_draws := db_draws viewed_db + 1, db_operation := i\<rparr>)
     \<and> CreateView sample_env sample_actor ''mut_1'' ''other'' second_view viewed_db = Inl IdempotencyKeyReused"
proof -
  obtain v where v: "viewed = Inr (v, viewed_db)" using viewed_Inr by blast
  obtain i where i: "en_ids sample_env (db_draws viewed_db) ''op_'' = Some i"
    by (simp add: sample_env_def numbered_ids_def)
  have ok: "catalog_ok viewed_db"
    using api_run_steps[OF viewed_run sample_db_catalog] by simp
  have "''other'' \<noteq> ''h''" by simp
  then have "CreateView sample_env sample_actor ''mut_1'' ''h'' second_view viewed_db
         = Inr (v, viewed_db\<lparr>db_draws := db_draws viewed_db + 1, db_operation := i\<rparr>)
     \<and> CreateView sample_env sample_actor ''mut_1'' ''other'' second_view viewed_db = Inl IdempotencyKeyReused"
    using requests_replayed[OF ok rtranclp.rtrancl_refl i refl, of sample_env sample_actor "''mut_1''" "''h''" sample_db "''other''"]
      v[unfolded viewed_def] by blast
  then show ?thesis using v by blast
qed

theorem view_order_refined_witness:
  "order_of viewed_db sample_table = [vw_id sample_view, vw_id second_view]"
proof -
  obtain v where v: "CreateView sample_env sample_actor ''mut_1'' ''h'' second_view sample_db = Inr (v, viewed_db)"
    using viewed_Inr unfolding viewed_def by blast
  have n: "find_receipt sample_actor ''mut_1'' sample_db = None" by (simp add: find_receipt_def sample_db_def)
  have "order_of viewed_db = apply_event (Appended (vw_table second_view) (vw_id second_view)) (order_of sample_db)"
    by (rule view_order_refined[OF sample_db_catalog n, THEN conjunct2, THEN conjunct1, rule_format, OF v])
  moreover have "order_of sample_db sample_table = [vw_id sample_view]" "vw_table second_view = sample_table"
    by (simp_all add: order_of_def sample_db_def sample_tbl_def second_view_def sample_view_def)
  ultimately show ?thesis by simp
qed

theorem view_list_follows_order_witness:
  "\<exists>items rev. ListViewsSnapshot sample_actor sample_table ''active'' viewed_db
       = Inr (items, \<lparr>vo_table = sample_table, vo_revision = rev, vo_views = order_of viewed_db sample_table\<rparr>)
     \<and> map vw_id items = order_of viewed_db sample_table"
proof -
  have "active_table_visible sample_actor sample_table viewed_db" by code_simp
  moreover have "\<forall>v \<in> set (db_views viewed_db). known_view_type v" by code_simp
  ultimately show ?thesis
    using view_list_follows_order[OF sample_db_catalog viewed_run, of sample_actor sample_table] by blast
qed

end
