(* ===== verification/CatalogService.thy ===== *)
theory CatalogService
  imports Runs
begin

text \<open>
  The handlers of internal/catalog/service.go and view_order.go: what they check before they call the
  store, the proposal and the request fingerprint they build, and the store's transaction.  A handler
  that reads before it writes (\<open>UpdateField\<close>, \<open>CreateView\<close>, \<open>UpdateView\<close>) does so outside of the
  transaction; the definitions take the two in one database, \<open>update_field_atomic\<close> below lets other
  requests run in between.  \<open>J\<close> is \<open>json.Marshal\<close> of the canonical request, \<open>None\<close> when it fails.
  \<open>New\<close> gives the service its store, so the guards on a missing one are not modelled.
\<close>

section \<open>Requests\<close>

record field_input =
  fi_name :: string
  fi_type :: string
  fi_config :: raw_config
  fi_description :: "string option"

record field_update =
  fu_name :: "string option"
  fu_type :: string
  fu_config :: raw_config
  fu_description :: "string option"
  fu_description_present :: bool
  fu_expected :: int

record view_input =
  vn_name :: string
  vn_type :: string
  vn_config :: raw_config

record view_update =
  vu_name :: "string option"
  vu_type :: string
  vu_config :: raw_config
  vu_expected :: int

datatype request_body =
    WorkspaceBody string
  | BaseBody string string
  | TableBody string string string string
  | FieldBody string string raw_config "string option"
  | ViewBody string string view_config
  | OrderBody int "string list"

type_synonym request_json = "string \<Rightarrow> string \<Rightarrow> request_body \<Rightarrow> string option"

definition requestFingerprint :: "env \<Rightarrow> request_json \<Rightarrow> string \<Rightarrow> string \<Rightarrow> request_body \<Rightarrow> string res" where
  "requestFingerprint E J method p body =
     (case J method p body of
        None \<Rightarrow> Inl (Internal ''canonicalize request'')
      | Some canonical \<Rightarrow> Inr (en_hash E canonical))"

definition validateID :: "string \<Rightarrow> string \<Rightarrow> string \<Rightarrow> unit res" where
  "validateID p prefix v =
     (if Valid prefix v then Inr () else Inl (BadRequest (p @ '' has an invalid typed ID'')))"

definition validateLifecycle :: "string \<Rightarrow> unit res" where
  "validateLifecycle v =
     (if v = ''active'' \<or> v = ''deleted'' \<or> v = ''all'' then Inr ()
      else Inl (BadRequest ''lifecycle must be active, deleted, or all''))"

text \<open>The two forms of the test \<open>expectedRevision < 1\<close>: in a body, and in the query of a \<open>DELETE\<close>.\<close>

definition body_revision :: "int \<Rightarrow> unit res" where
  "body_revision expected =
     (if expected < 1
      then Inl (NewValidationError
        [Issue ''/expectedRevision'' ''required'' ''expectedRevision must be at least 1''])
      else Inr ())"

definition query_revision :: "int \<Rightarrow> unit res" where
  "query_revision expected =
     (if expected < 1 then Inl (BadRequest ''expectedRevision must be at least 1'') else Inr ())"

lemma request_checks [simp]:
  "validateID p prefix v = Inr u \<longleftrightarrow> Valid prefix v"
  "body_revision expected = Inr u \<longleftrightarrow> 1 \<le> expected"
  "query_revision expected = Inr u \<longleftrightarrow> 1 \<le> expected"
  by (auto simp: validateID_def body_revision_def query_revision_def)

definition validate_key :: "string \<Rightarrow> unit res" where
  "validate_key key = validateID ''/headers/Idempotency-Key'' MutationPrefix key"

lemma validate_key_Inr [simp]: "validate_key key = Inr u \<longleftrightarrow> Valid MutationPrefix key"
  by (simp add: validate_key_def)

section \<open>Workspaces and Bases\<close>

definition Service_GetWorkspace :: "string \<Rightarrow> string \<Rightarrow> db \<Rightarrow> workspace res" where
  "Service_GetWorkspace actor wid s =
     ok_then (validateID ''/workspaceId'' WorkspacePrefix wid) (\<lambda>_. GetWorkspace actor wid s)"

definition Service_CreateWorkspace :: "env \<Rightarrow> request_json \<Rightarrow> string \<Rightarrow> string \<Rightarrow> string \<Rightarrow> workspace tx" where
  "Service_CreateWorkspace E J actor key name s =
     ok_then (validate_key key) (\<lambda>_.
     ok_then (NormalizeResourceName (en_lib E) ''/name'' name) (\<lambda>normalized.
     ok_then (draw_id E ''generate workspace ID'' WorkspacePrefix s) (\<lambda>(wid, s).
     ok_then (requestFingerprint E J ''POST'' ''/v1/workspaces'' (WorkspaceBody normalized)) (\<lambda>fingerprint.
     CreateWorkspace E actor key fingerprint
       \<lparr>ws_id = wid, ws_name = normalized, ws_revision = 1, ws_created_at = 0, ws_updated_at = 0\<rparr> s))))"

definition Service_UpdateWorkspace :: "env \<Rightarrow> string \<Rightarrow> string \<Rightarrow> int \<Rightarrow> string \<Rightarrow> workspace tx" where
  "Service_UpdateWorkspace E actor wid expected name s =
     ok_then (validateID ''/workspaceId'' WorkspacePrefix wid) (\<lambda>_.
     ok_then (body_revision expected) (\<lambda>_.
     ok_then (NormalizeResourceName (en_lib E) ''/name'' name) (\<lambda>normalized.
     UpdateWorkspace E actor wid expected normalized s)))"

definition Service_ListBases :: "string \<Rightarrow> string \<Rightarrow> db \<Rightarrow> base list res" where
  "Service_ListBases actor wid s =
     ok_then (validateID ''/workspaceId'' WorkspacePrefix wid) (\<lambda>_. ListBases actor wid s)"

definition Service_GetBase :: "string \<Rightarrow> string \<Rightarrow> db \<Rightarrow> base res" where
  "Service_GetBase actor bid s = ok_then (validateID ''/baseId'' BasePrefix bid) (\<lambda>_. GetBase actor bid s)"

definition Service_CreateBase ::
  "env \<Rightarrow> request_json \<Rightarrow> string \<Rightarrow> string \<Rightarrow> string \<Rightarrow> string \<Rightarrow> base tx" where
  "Service_CreateBase E J actor key wid name s =
     ok_then (validate_key key) (\<lambda>_.
     ok_then (validateID ''/workspaceId'' WorkspacePrefix wid) (\<lambda>_.
     ok_then (NormalizeResourceName (en_lib E) ''/name'' name) (\<lambda>normalized.
     ok_then (draw_id E ''generate base ID'' BasePrefix s) (\<lambda>(bid, s).
     ok_then (requestFingerprint E J ''POST'' ''/v1/bases'' (BaseBody wid normalized)) (\<lambda>fingerprint.
     CreateBase E actor key fingerprint
       \<lparr>bs_id = bid, bs_workspace = wid, bs_name = normalized, bs_revision = 1, bs_created_at = 0,
        bs_updated_at = 0\<rparr> s)))))"

definition Service_UpdateBase :: "env \<Rightarrow> string \<Rightarrow> string \<Rightarrow> int \<Rightarrow> string \<Rightarrow> base tx" where
  "Service_UpdateBase E actor bid expected name s =
     ok_then (validateID ''/baseId'' BasePrefix bid) (\<lambda>_.
     ok_then (body_revision expected) (\<lambda>_.
     ok_then (NormalizeResourceName (en_lib E) ''/name'' name) (\<lambda>normalized.
     UpdateBase E actor bid expected normalized s)))"

section \<open>Tables\<close>

definition Service_ListTables :: "string \<Rightarrow> string \<Rightarrow> string \<Rightarrow> db \<Rightarrow> tbl list res" where
  "Service_ListTables actor bid lifecycle s =
     ok_then (validateID ''/baseId'' BasePrefix bid) (\<lambda>_.
     ok_then (validateLifecycle lifecycle) (\<lambda>_. ListTables actor bid lifecycle s))"

definition Service_GetTable :: "string \<Rightarrow> string \<Rightarrow> db \<Rightarrow> tbl res" where
  "Service_GetTable actor tid s = ok_then (validateID ''/tableId'' TablePrefix tid) (\<lambda>_. GetTable actor tid s)"

text \<open>A name that may be left out.\<close>

definition name_or :: "lib \<Rightarrow> string \<Rightarrow> string \<Rightarrow> string option \<Rightarrow> string res" where
  "name_or L p otherwise given =
     (case given of None \<Rightarrow> Inr otherwise | Some name \<Rightarrow> NormalizeResourceName L p name)"

definition table_proposal :: "string \<Rightarrow> string \<Rightarrow> string \<Rightarrow> string \<Rightarrow> string \<Rightarrow> string \<Rightarrow> string \<Rightarrow> create_table_result" where
  "table_proposal tid fid vid bid name primaryName viewName =
     \<lparr>ct_table = \<lparr>tb_id = tid, tb_base = bid, tb_name = name, tb_primary_field = fid, tb_revision = 1,
        tb_created_at = 0, tb_updated_at = 0, tb_deleted_at = None\<rparr>,
      ct_field = \<lparr>fd_id = fid, fd_table = tid, fd_name = primaryName, fd_description = [], fd_position = 0,
        fd_schema_version = 1, fd_revision = 1, fd_type = ''text'', fd_config = EmptyConfig, fd_deleted_at = None\<rparr>,
      ct_view = \<lparr>vw_id = vid, vw_table = tid, vw_name = viewName, vw_type = ''grid'',
        vw_config = GridConfig \<lparr>gc_projection = [fid], gc_column_order = [fid], gc_column_widths = fmempty,
          gc_frozen = [], gc_row_height = ''standard'', gc_filter = None, gc_sort = [], gc_manual_sort = False\<rparr>,
        vw_default = True, vw_revision = 1, vw_created_at = 0, vw_updated_at = 0, vw_deleted_at = None\<rparr>\<rparr>"

definition Service_CreateTable ::
  "env \<Rightarrow> request_json \<Rightarrow> string \<Rightarrow> string \<Rightarrow> string \<Rightarrow> string \<Rightarrow> string option \<Rightarrow> string option
     \<Rightarrow> create_table_result tx" where
  "Service_CreateTable E J actor key bid name primaryFieldName initialViewName s =
     ok_then (validate_key key) (\<lambda>_.
     ok_then (validateID ''/baseId'' BasePrefix bid) (\<lambda>_.
     ok_then (NormalizeResourceName (en_lib E) ''/name'' name) (\<lambda>normalized.
     ok_then (name_or (en_lib E) ''/primaryFieldName'' ''Name'' primaryFieldName) (\<lambda>primaryName.
     ok_then (name_or (en_lib E) ''/initialViewName'' ''Grid'' initialViewName) (\<lambda>viewName.
     ok_then (draw_id E ''generate table ID'' TablePrefix s) (\<lambda>(tid, s).
     ok_then (draw_id E ''generate primary field ID'' FieldPrefix s) (\<lambda>(fid, s).
     ok_then (draw_id E ''generate initial view ID'' ViewPrefix s) (\<lambda>(vid, s).
     ok_then (requestFingerprint E J ''POST'' ''/v1/tables''
                (TableBody bid normalized primaryName viewName)) (\<lambda>fingerprint.
     CreateTable E actor key fingerprint
       (table_proposal tid fid vid bid normalized primaryName viewName) s)))))))))"

definition Service_UpdateTable :: "env \<Rightarrow> string \<Rightarrow> string \<Rightarrow> int \<Rightarrow> string \<Rightarrow> tbl tx" where
  "Service_UpdateTable E actor tid expected name s =
     ok_then (validateID ''/tableId'' TablePrefix tid) (\<lambda>_.
     ok_then (body_revision expected) (\<lambda>_.
     ok_then (NormalizeResourceName (en_lib E) ''/name'' name) (\<lambda>normalized.
     UpdateTable E actor tid expected normalized s)))"

definition Service_DeleteTable :: "env \<Rightarrow> string \<Rightarrow> string \<Rightarrow> int \<Rightarrow> unit tx" where
  "Service_DeleteTable E actor tid expected s =
     ok_then (validateID ''/tableId'' TablePrefix tid) (\<lambda>_.
     ok_then (query_revision expected) (\<lambda>_. DeleteTable E actor tid expected s))"

definition Service_RestoreTable :: "env \<Rightarrow> string \<Rightarrow> string \<Rightarrow> int \<Rightarrow> tbl tx" where
  "Service_RestoreTable E actor tid expected s =
     ok_then (validateID ''/tableId'' TablePrefix tid) (\<lambda>_.
     ok_then (body_revision expected) (\<lambda>_. RestoreTable E actor tid expected s))"

section \<open>Fields\<close>

definition Service_ListFields :: "string \<Rightarrow> string \<Rightarrow> string \<Rightarrow> db \<Rightarrow> field list res" where
  "Service_ListFields actor tid lifecycle s =
     ok_then (validateID ''/tableId'' TablePrefix tid) (\<lambda>_.
     ok_then (validateLifecycle lifecycle) (\<lambda>_. ListFields actor tid lifecycle s))"

text \<open>
  The configuration loops draw one ID for every option of a new Field, and for every option of an update
  that comes without one.
\<close>

definition draw_more :: "nat \<Rightarrow> db \<Rightarrow> db" where
  "draw_more n s = s\<lparr>db_draws := db_draws s + n\<rparr>"

definition new_options :: "raw_config \<Rightarrow> nat" where
  "new_options raw = (case raw of RawSelect input \<Rightarrow> length (filter (\<lambda>i. oi_id i = None) input) | _ \<Rightarrow> 0)"

text \<open>The description, and the one that enters the fingerprint.\<close>

definition new_description :: "lib \<Rightarrow> string option \<Rightarrow> (string \<times> string option) res" where
  "new_description L given =
     (case given of
        None \<Rightarrow> Inr ([], None)
      | Some d \<Rightarrow> ok_then (NormalizeFieldDescription L ''/description'' d) (\<lambda>description.
          Inr (description, if description \<noteq> [] then Some description else None)))"

definition Service_CreateField ::
  "env \<Rightarrow> request_json \<Rightarrow> string \<Rightarrow> string \<Rightarrow> string \<Rightarrow> field_input \<Rightarrow> field tx" where
  "Service_CreateField E J actor key tid input s =
     ok_then (validate_key key) (\<lambda>_.
     ok_then (validateID ''/tableId'' TablePrefix tid) (\<lambda>_.
     ok_then (NormalizeResourceName (en_lib E) ''/name'' (fi_name input)) (\<lambda>name.
     ok_then (normalize_new_field_config (en_lib E) (en_ids E) (db_draws s) (fi_type input) (fi_config input))
       (\<lambda>(config, fingerprintConfig).
     ok_then (new_description (en_lib E) (fi_description input)) (\<lambda>(description, fingerprintDescription).
     ok_then (draw_id E ''generate field ID'' FieldPrefix (draw_more (new_options (fi_config input)) s)) (\<lambda>(fid, s).
     ok_then (requestFingerprint E J ''POST'' (''/v1/tables/'' @ tid @ ''/fields'')
                (FieldBody name (fi_type input) fingerprintConfig fingerprintDescription)) (\<lambda>fingerprint.
     CreateField E actor key fingerprint
       \<lparr>fd_id = fid, fd_table = tid, fd_name = name, fd_description = description, fd_position = 0,
        fd_schema_version = 1, fd_revision = 1, fd_type = fi_type input, fd_config = config,
        fd_deleted_at = None\<rparr> s)))))))"

text \<open>What \<open>UpdateField\<close> makes of the Field it read.\<close>

definition updated_name :: "lib \<Rightarrow> string option \<Rightarrow> string \<Rightarrow> string res" where
  "updated_name L given current =
     (case given of None \<Rightarrow> Inr current | Some name \<Rightarrow> NormalizeResourceName L ''/name'' name)"

definition updated_description :: "lib \<Rightarrow> field_update \<Rightarrow> string \<Rightarrow> string res" where
  "updated_description L u current =
     (if \<not> fu_description_present u then Inr current
      else case fu_description u of
          None \<Rightarrow> Inr []
        | Some d \<Rightarrow> NormalizeFieldDescription L ''/description'' d)"

definition updated_field ::
  "lib \<Rightarrow> id_source \<Rightarrow> nat \<Rightarrow> instant \<Rightarrow> string \<Rightarrow> field_update \<Rightarrow> field \<Rightarrow> field res" where
  "updated_field L gen draws now fid u current =
     ok_then (check_revision ''field'' fid (fu_expected u) (fd_revision current)) (\<lambda>_.
     fail_if (fd_deleted_at current \<noteq> None) (InvalidStateTransition ''field'' fid ''update'' ''deleted'')
    (fail_if (fu_type u \<noteq> fd_type current)
       (NewValidationError [Issue ''/type'' ''format'' ''Field type is immutable in P0''])
    (fail_if (fu_name u = None \<and> fu_config u = RawNil \<and> \<not> fu_description_present u)
       (NewValidationError [Issue [] ''required'' ''name, config, or description is required''])
    (ok_then (updated_name L (fu_name u) (fd_name current)) (\<lambda>name.
     ok_then (if fu_config u = RawNil then Inr (fd_config current)
              else normalize_updated_field_config L gen draws now current (fu_config u)) (\<lambda>config.
     ok_then (updated_description L u (fd_description current)) (\<lambda>description.
     Inr (current\<lparr>fd_name := name, fd_config := config, fd_description := description\<rparr>))))))))"

definition Service_UpdateField :: "env \<Rightarrow> string \<Rightarrow> string \<Rightarrow> field_update \<Rightarrow> field tx" where
  "Service_UpdateField E actor fid u s =
     ok_then (validateID ''/fieldId'' FieldPrefix fid) (\<lambda>_.
     ok_then (body_revision (fu_expected u)) (\<lambda>_.
     ok_then (GetField actor fid s) (\<lambda>current.
     ok_then (updated_field (en_lib E) (en_ids E) (db_draws s) (db_now s) fid u current) (\<lambda>target.
     UpdateField E actor fid (fu_expected u) target (draw_more (new_options (fu_config u)) s)))))"

definition Service_DeleteField :: "env \<Rightarrow> string \<Rightarrow> string \<Rightarrow> int \<Rightarrow> unit tx" where
  "Service_DeleteField E actor fid expected s =
     ok_then (validateID ''/fieldId'' FieldPrefix fid) (\<lambda>_.
     ok_then (query_revision expected) (\<lambda>_. DeleteField E actor fid expected s))"

definition Service_RestoreField :: "env \<Rightarrow> string \<Rightarrow> string \<Rightarrow> int \<Rightarrow> field tx" where
  "Service_RestoreField E actor fid expected s =
     ok_then (validateID ''/fieldId'' FieldPrefix fid) (\<lambda>_.
     ok_then (body_revision expected) (\<lambda>_. RestoreField E actor fid expected s))"

section \<open>Views\<close>

definition Service_CreateView ::
  "env \<Rightarrow> request_json \<Rightarrow> string \<Rightarrow> string \<Rightarrow> string \<Rightarrow> view_input \<Rightarrow> view tx" where
  "Service_CreateView E J actor key tid input s =
     ok_then (validate_key key) (\<lambda>_.
     ok_then (validateID ''/tableId'' TablePrefix tid) (\<lambda>_.
     ok_then (NormalizeResourceName (en_lib E) ''/name'' (vn_name input)) (\<lambda>name.
     ok_then (ListFields actor tid ''all'' s) (\<lambda>fs.
     ok_then (normalize_view_config (en_lib E) (vn_type input) (vn_config input) fs) (\<lambda>config.
     ok_then (draw_id E ''generate view ID'' ViewPrefix s) (\<lambda>(vid, s).
     ok_then (requestFingerprint E J ''POST'' (''/v1/tables/'' @ tid @ ''/views'')
                (ViewBody name (vn_type input) config)) (\<lambda>fingerprint.
     CreateView E actor key fingerprint
       \<lparr>vw_id = vid, vw_table = tid, vw_name = name, vw_type = vn_type input, vw_config = config,
        vw_default = False, vw_revision = 1, vw_created_at = 0, vw_updated_at = 0, vw_deleted_at = None\<rparr>
       s)))))))"

definition Service_ListViews :: "string \<Rightarrow> string \<Rightarrow> string \<Rightarrow> db \<Rightarrow> view list res" where
  "Service_ListViews actor tid lifecycle s =
     ok_then (validateID ''/tableId'' TablePrefix tid) (\<lambda>_.
     ok_then (validateLifecycle lifecycle) (\<lambda>_. ListViews actor tid lifecycle s))"

definition Service_GetView :: "string \<Rightarrow> string \<Rightarrow> db \<Rightarrow> view res" where
  "Service_GetView actor vid s = ok_then (validateID ''/viewId'' ViewPrefix vid) (\<lambda>_. GetView actor vid s)"

text \<open>What \<open>UpdateView\<close> makes of the View it read; \<open>listed\<close> is the answer of \<open>ListFields\<close>.\<close>

definition updated_view ::
  "lib \<Rightarrow> string \<Rightarrow> view_update \<Rightarrow> (string \<Rightarrow> field list res) \<Rightarrow> view \<Rightarrow> view res" where
  "updated_view L vid u listed current =
     ok_then (check_revision ''view'' vid (vu_expected u) (vw_revision current)) (\<lambda>_.
     fail_if (vw_deleted_at current \<noteq> None) (InvalidStateTransition ''view'' vid ''update'' ''deleted'')
    (fail_if (vu_type u \<noteq> vw_type current)
       (NewValidationError [Issue ''/type'' ''format'' ''View type is immutable in P0''])
    (fail_if (vu_config u = RawNil)
       (NewValidationError [Issue ''/config'' ''required'' ''config is required''])
    (ok_then (updated_name L (vu_name u) (vw_name current)) (\<lambda>name.
     ok_then (listed (vw_table current)) (\<lambda>fs.
     ok_then (normalize_view_config L (vw_type current) (vu_config u) fs) (\<lambda>config.
     Inr (current\<lparr>vw_name := name, vw_config := config\<rparr>))))))))"

definition Service_UpdateView ::
  "env \<Rightarrow> (view_config \<Rightarrow> view_config \<Rightarrow> bool) \<Rightarrow> string \<Rightarrow> string \<Rightarrow> view_update \<Rightarrow> view tx" where
  "Service_UpdateView E same_config actor vid u s =
     ok_then (validateID ''/viewId'' ViewPrefix vid) (\<lambda>_.
     ok_then (body_revision (vu_expected u)) (\<lambda>_.
     ok_then (GetView actor vid s) (\<lambda>current.
     ok_then (updated_view (en_lib E) vid u (\<lambda>tid. ListFields actor tid ''all'' s) current) (\<lambda>target.
     UpdateView E same_config actor vid (vu_expected u) target s))))"

definition Service_DeleteView :: "env \<Rightarrow> string \<Rightarrow> string \<Rightarrow> int \<Rightarrow> unit tx" where
  "Service_DeleteView E actor vid expected s =
     ok_then (validateID ''/viewId'' ViewPrefix vid) (\<lambda>_.
     ok_then (query_revision expected) (\<lambda>_. DeleteView E actor vid expected s))"

definition Service_RestoreView :: "env \<Rightarrow> string \<Rightarrow> string \<Rightarrow> int \<Rightarrow> view tx" where
  "Service_RestoreView E actor vid expected s =
     ok_then (validateID ''/viewId'' ViewPrefix vid) (\<lambda>_.
     ok_then (body_revision expected) (\<lambda>_. RestoreView E actor vid expected s))"

definition Service_SetDefaultView :: "env \<Rightarrow> string \<Rightarrow> string \<Rightarrow> int \<Rightarrow> view tx" where
  "Service_SetDefaultView E actor vid expected s =
     ok_then (validateID ''/viewId'' ViewPrefix vid) (\<lambda>_.
     ok_then (body_revision expected) (\<lambda>_. SetDefaultView E actor vid expected s))"

section \<open>The order of the Views: internal/catalog/view_order.go\<close>

definition Service_ListViewsSnapshot :: "string \<Rightarrow> string \<Rightarrow> string \<Rightarrow> db \<Rightarrow> (view list \<times> view_order) res" where
  "Service_ListViewsSnapshot actor tid lifecycle s =
     ok_then (validateID ''/tableId'' TablePrefix tid) (\<lambda>_.
     ok_then (validateLifecycle lifecycle) (\<lambda>_. ListViewsSnapshot actor tid lifecycle s))"

fun order_member_issues :: "nat \<Rightarrow> string list \<Rightarrow> string list \<Rightarrow> issue list" where
  "order_member_issues index seen [] = []"
| "order_member_issues index seen (vid # rest) =
     (let p = ''/viewIds/'' @ show_nat index in
      (if Valid ViewPrefix vid then [] else [Issue p ''format'' ''viewId must be a typed View ID''])
      @ (if List.member seen vid then [Issue p ''duplicate'' ''View ID occurs more than once''] else [])
      @ order_member_issues (Suc index) (vid # seen) rest)"

definition order_issues :: "int \<Rightarrow> string list option \<Rightarrow> issue list" where
  "order_issues expected viewIDs =
     (let ids = case_option [] (\<lambda>ids. ids) viewIDs in
      (if expected < 1
       then [Issue ''/expectedOrderRevision'' ''required'' ''expectedOrderRevision must be at least 1''] else [])
      @ (if viewIDs = None then [Issue ''/viewIds'' ''required'' ''viewIds must be an array''] else [])
      @ (if int (length ids) > ViewLimitPerTable then [Issue ''/viewIds'' ''limit'' ''at most 100 Views''] else [])
      @ order_member_issues 0 [] ids)"

definition Service_ReorderViews ::
  "env \<Rightarrow> request_json \<Rightarrow> string \<Rightarrow> string \<Rightarrow> string \<Rightarrow> int \<Rightarrow> string list option \<Rightarrow> view_order_result tx" where
  "Service_ReorderViews E J actor key tid expected viewIDs s =
     ok_then (validate_key key) (\<lambda>_.
     ok_then (validateID ''/tableId'' TablePrefix tid) (\<lambda>_.
     let issues = order_issues expected viewIDs; ids = case_option [] (\<lambda>ids. ids) viewIDs in
     fail_if (issues \<noteq> []) (NewValidationError issues)
    (ok_then (requestFingerprint E J ''PUT'' (''/v1/tables/'' @ tid @ ''/views/order'') (OrderBody expected ids))
       (\<lambda>hash. ReorderViews E actor key tid hash \<lparr>vi_expected = expected, vi_views = ids\<rparr> s))))"

end
