(* ===== verification/Stored.thy ===== *)
theory Stored
  imports CatalogService
begin

text \<open>
  What the handlers of the catalog let into the database: \<open>stored_ok\<close> says that every name is canonical,
  every Field configuration is one its type allows and every View configuration is within its bounds;
  \<open>service_step\<close> is one successful request, and every run of requests keeps \<open>stored_ok\<close>.
\<close>

section \<open>What a row promises\<close>

text \<open>NFC as Unicode defines it: \<open>lib_ok\<close>, and ASCII text is already normal.\<close>

definition nfc_ok :: "lib \<Rightarrow> bool" where
  "nfc_ok L \<longleftrightarrow> lib_ok L \<and> (\<forall>s. list_all (\<lambda>c. byte c < 128) s \<longrightarrow> nfc L s = s)"

definition name_ok :: "lib \<Rightarrow> string \<Rightarrow> bool" where
  "name_ok L n \<longleftrightarrow> n \<noteq> [] \<and> \<not> contains_control n \<and> rune_count n \<le> ResourceNameMaxCodePoints
     \<and> nfc L (trim_unicode_space n) = n"

definition description_ok :: "lib \<Rightarrow> string \<Rightarrow> bool" where
  "description_ok L d \<longleftrightarrow> d = [] \<or> (\<not> contains_control d \<and> rune_count d \<le> FieldDescriptionMaxCodePoints
     \<and> nfc L (trim_unicode_space d) = d)"

definition field_ok :: "lib \<Rightarrow> field \<Rightarrow> bool" where
  "field_ok L f \<longleftrightarrow> name_ok L (fd_name f) \<and> description_ok L (fd_description f)
     \<and> field_config_ok L (fd_type f) (fd_config f)"

definition grid_bounds_ok :: "grid_config \<Rightarrow> bool" where
  "grid_bounds_ok g \<longleftrightarrow> length (gc_projection g) \<le> 500 \<and> distinct (gc_projection g)
     \<and> distinct (gc_column_order g) \<and> distinct (gc_frozen g)
     \<and> (\<forall>k w. fmlookup (gc_column_widths g) k = Some w \<longrightarrow> 80 \<le> w \<and> w \<le> 1000)
     \<and> gc_row_height g \<in> {''compact'', ''standard'', ''comfortable''}
     \<and> length (gc_sort g) \<le> 10 \<and> distinct (map sp_field (gc_sort g))
     \<and> list_all (\<lambda>x. sp_direction x \<in> {''asc'', ''desc''} \<and> sp_nulls x \<in> {''first'', ''last''}) (gc_sort g)"

definition view_ok :: "lib \<Rightarrow> view \<Rightarrow> bool" where
  "view_ok L v \<longleftrightarrow> name_ok L (vw_name v) \<and>
     (case vw_config v of GridConfig g \<Rightarrow> vw_type v = ''grid'' \<and> grid_bounds_ok g | MapConfig m \<Rightarrow> vw_type v = ''map'')"

definition stored_ok :: "lib \<Rightarrow> db \<Rightarrow> bool" where
  "stored_ok L s \<longleftrightarrow> list_all (\<lambda>r. name_ok L (ws_name (wr_workspace r))) (db_workspaces s)
     \<and> list_all (\<lambda>r. name_ok L (bs_name (br_base r))) (db_bases s)
     \<and> list_all (\<lambda>t. name_ok L (tb_name t)) (map tr_table (db_tables s))
     \<and> list_all (field_ok L) (map fr_field (db_fields s)) \<and> list_all (view_ok L) (db_views s)"

section \<open>What the checks of the handlers establish\<close>

lemma resource_name_ok: "lib_ok L \<Longrightarrow> NormalizeResourceName L p s = Inr r \<Longrightarrow> name_ok L r"
  using lib_ok_trim by (auto simp: NormalizeResourceName_def normalize_name_cases name_ok_def)

lemma new_description_ok: "lib_ok L \<Longrightarrow> NormalizeFieldDescription L p s = Inr r \<Longrightarrow> description_ok L r"
  using lib_ok_trim by (auto simp: NormalizeFieldDescription_def description_ok_def Let_def)

lemma new_description_stored: "lib_ok L \<Longrightarrow> new_description L given = Inr (d, fp) \<Longrightarrow> description_ok L d"
  by (auto simp: new_description_def ok_then_eq_Inr description_ok_def dest: new_description_ok split: option.splits)

lemma updated_name_ok: "lib_ok L \<Longrightarrow> name_ok L n \<Longrightarrow> updated_name L given n = Inr r \<Longrightarrow> name_ok L r"
  by (auto simp: updated_name_def dest: resource_name_ok split: option.splits)

lemma updated_description_ok:
  "lib_ok L \<Longrightarrow> description_ok L d \<Longrightarrow> updated_description L u d = Inr r \<Longrightarrow> description_ok L r"
  by (auto simp: updated_description_def description_ok_def[of L "[]"] dest: new_description_ok
      split: option.splits if_splits)

lemma default_names_ok: "nfc_ok L \<Longrightarrow> name_ok L ''Name'' \<and> name_ok L ''Grid''"
proof -
  assume L: "nfc_ok L"
  have t: "trim_unicode_space ''Name'' = ''Name''" "trim_unicode_space ''Grid'' = ''Grid''"
    "\<not> contains_control ''Name''" "\<not> contains_control ''Grid''" "rune_count ''Name'' \<le> 200" "rune_count ''Grid'' \<le> 200"
    by code_simp+
  have "list_all (\<lambda>c. byte c < 128) ''Name''" "list_all (\<lambda>c. byte c < 128) ''Grid''" by code_simp+
  then have "nfc L ''Name'' = ''Name''" "nfc L ''Grid'' = ''Grid''" using L unfolding nfc_ok_def by blast+
  then show ?thesis using t by (simp add: name_ok_def ResourceNameMaxCodePoints_def)
qed

lemma name_or_ok:
  "lib_ok L \<Longrightarrow> name_ok L otherwise \<Longrightarrow> name_or L p otherwise given = Inr r \<Longrightarrow> name_ok L r"
  by (auto simp: name_or_def dest: resource_name_ok split: option.splits)

lemma default_nulls_field [simp]: "sp_field (default_nulls x) = sp_field x"
  by (simp add: default_nulls_def)

lemma default_nulls_bounds:
  "view_sort_ok fs x \<Longrightarrow> sp_direction (default_nulls x) \<in> {''asc'', ''desc''} \<and> sp_nulls (default_nulls x) \<in> {''first'', ''last''}"
  by (auto simp: view_sort_ok_def default_nulls_def)

lemma grid_config_bounds:
  "grid_config_ok fs g \<Longrightarrow> grid_bounds_ok (g\<lparr>gc_sort := map default_nulls (gc_sort g), gc_filter := f\<rparr>)"
  using default_nulls_bounds[of fs]
  by (auto simp: grid_config_ok_def grid_bounds_ok_def field_ids_ok_def list_all_iff comp_def)

lemma view_config_bounds:
  assumes "normalize_view_config L t raw fs = Inr c"
  shows "case c of GridConfig g \<Rightarrow> t = ''grid'' \<and> grid_bounds_ok g | MapConfig m \<Rightarrow> t = ''map''"
  using assms
  by (cases raw)
    (auto simp: normalize_view_config_def ok_then_eq_Inr normalize_grid_view_config_iff grid_config_bounds
      split: if_splits)

text \<open>A configuration that is allowed is read back as it was written.\<close>

lemma decodeFieldConfig_ok: "field_config_ok L t c \<Longrightarrow> decodeFieldConfig t c = Inr c"
  by (cases c) (auto simp: field_config_ok_simps decodeFieldConfig_def select_type_def plain_type_def)

lemma scanField_ok: "field_ok L f \<Longrightarrow> scanField f = Inr f"
  by (clarsimp simp: scanField_def field_ok_def decodeFieldConfig_ok)

lemma scanView_stored: "view_ok L v \<Longrightarrow> scanView v = Inr v"
  by (auto simp: scanView_def view_ok_def decodeViewConfig_def split: view_config.splits)

section \<open>Every operation keeps what is stored\<close>

definition same_contents :: "db \<Rightarrow> db \<Rightarrow> bool" where
  "same_contents s s' \<longleftrightarrow> db_workspaces s' = db_workspaces s \<and> db_bases s' = db_bases s
     \<and> map tr_table (db_tables s') = map tr_table (db_tables s) \<and> db_fields s' = db_fields s
     \<and> db_views s' = db_views s"

lemma same_contents_stored: "same_contents s s' \<Longrightarrow> stored_ok L s' = stored_ok L s"
  by (simp add: same_contents_def stored_ok_def)

lemma same_contents_refl [simp]: "same_contents s s"
  by (simp add: same_contents_def)

lemma part_same_contents:
  "begin_audit E actor s = Inr (u, s') \<Longrightarrow> same_contents s s'"
  "insert_change E a k t r obj n fs x s = Inr (u, s') \<Longrightarrow> same_contents s s'"
  "insert_metadata_change E a k t obj n s = Inr (u, s') \<Longrightarrow> same_contents s s'"
  "insert_table_change E a tb k s = Inr (u, s') \<Longrightarrow> same_contents s s'"
  "save_idempotent actor key h rc s = Inr (u, s') \<Longrightarrow> same_contents s s'"
  "save_guard actor key h s = Inr (u, s') \<Longrightarrow> same_contents s s'"
  "invalidate_selections E actor t changed s = Inr s' \<Longrightarrow> same_contents s s'"
  using invalidate_each_Inr[of E actor t changed "live_scopes t s" s s']
  by (auto simp: same_contents_def begin_audit_Inr insert_metadata_change_def insert_table_change_def
      insert_change_Inr save_idempotent_Inr save_guard_Inr invalidate_selections_def)

lemma draws_stored [simp]: "stored_ok L (s\<lparr>db_draws := n\<rparr>) = stored_ok L s"
  "stored_ok L (s\<lparr>db_draws := n, db_operation := i\<rparr>) = stored_ok L s"
  "stored_ok L (s\<lparr>db_now := t\<rparr>) = stored_ok L s"
  by (simp_all add: stored_ok_def)

lemma maintain_stored [simp]: "stored_ok L (maintain_view_order v s) = stored_ok L s"
  unfolding stored_ok_def maintain_tables by simp

lemma trigger_stored [simp]: "stored_ok L (trigger_view_order v w s) = stored_ok L s"
  by (simp add: trigger_view_order_def)

lemmas part_stored = part_same_contents[THEN same_contents_stored]

text \<open>A creating transaction replays, or does its work on the same rows.\<close>

lemma idempotent_stored:
  assumes "idempotent E decode actor key h work s = Inr (x, s')" and "stored_ok L s"
    and "\<And>s. stored_ok L s \<Longrightarrow> work s = Inr (x, s') \<Longrightarrow> stored_ok L s'"
  shows "stored_ok L s'"
proof -
  obtain i where i: "s' = s\<lparr>db_draws := db_draws s + 1, db_operation := i\<rparr>
      \<or> work (s\<lparr>db_draws := db_draws s + 1, db_operation := i\<rparr>) = Inr (x, s')"
    using assms(1) by (auto simp: idempotent_Inr Let_def)
  then show ?thesis
  proof
    assume "s' = s\<lparr>db_draws := db_draws s + 1, db_operation := i\<rparr>"
    then show ?thesis using assms(2) by simp
  next
    assume "work (s\<lparr>db_draws := db_draws s + 1, db_operation := i\<rparr>) = Inr (x, s')"
    then show ?thesis by (rule assms(3)[rotated]) (use assms(2) in simp)
  qed
qed

named_theorems stores "operations that keep stored_ok"

lemma CreateWorkspace_stored [stores]:
  assumes "CreateWorkspace E actor key h p s = Inr (x, s')" "stored_ok L s" "name_ok L (ws_name p)"
  shows "stored_ok L s'"
  using assms(1,2) unfolding CreateWorkspace_def
  by (rule idempotent_stored)
    (use assms(3) in \<open>auto simp: run_simps insert_row_Inr stored_ok_def save_idempotent_Inr\<close>)

lemma CreateBase_stored [stores]:
  assumes "CreateBase E actor key h p s = Inr (x, s')" "stored_ok L s" "name_ok L (bs_name p)"
  shows "stored_ok L s'"
  using assms(1,2) unfolding CreateBase_def
  by (rule idempotent_stored)
    (use assms(3) in \<open>auto simp: run_simps insert_row_Inr stored_ok_def save_idempotent_Inr\<close>)

lemma UpdateWorkspace_stored [stores]:
  "UpdateWorkspace E actor wid expected name s = Inr (x, s') \<Longrightarrow> stored_ok L s \<Longrightarrow> name_ok L name \<Longrightarrow> stored_ok L s'"
  by (auto simp: UpdateWorkspace_def run_simps begin_audit_Inr stored_ok_def list_all_iff set_update_where
      rename_workspace_def split: if_splits)

lemma UpdateBase_stored [stores]:
  "UpdateBase E actor bid expected name s = Inr (x, s') \<Longrightarrow> stored_ok L s \<Longrightarrow> name_ok L name \<Longrightarrow> stored_ok L s'"
  by (auto simp: UpdateBase_def run_simps begin_audit_Inr stored_ok_def list_all_iff set_update_where
      rename_base_def split: if_splits)

lemma CreateTable_stored [stores]:
  assumes "CreateTable E actor key h p s = Inr (x, s')" "stored_ok L s"
    "name_ok L (tb_name (ct_table p))" "field_ok L (ct_field p)" "view_ok L (ct_view p)"
  shows "stored_ok L s'"
  using assms(1,2) unfolding CreateTable_def
proof (rule idempotent_stored, goal_cases)
  case (1 s)
  have "field_ok L ((ct_field p)\<lparr>fd_table := t, fd_description := [], fd_revision := 1, fd_deleted_at := None\<rparr>)" for t
    using assms(4) by (simp add: field_ok_def description_ok_def)
  moreover have "view_ok L ((ct_view p)\<lparr>vw_created_at := a, vw_updated_at := b, vw_table := t, vw_revision := 1,
      vw_deleted_at := None\<rparr>)" for a b t
    using assms(5) by (cases "vw_config (ct_view p)") (simp_all add: view_ok_def)
  ultimately show ?case using 1 assms(3)
    by (auto simp: run_simps insert_row_Inr insert_view_Inr part_stored) (auto simp: stored_ok_def)
qed

lemma write_table_stored:
  assumes "write_table E actor f current s = Inr (x, s')" "stored_ok L s" "\<And>t. name_ok L (tb_name t) \<Longrightarrow> name_ok L (tb_name (f t))"
  shows "stored_ok L s'"
  using assms
  by (auto simp: write_table_def run_simps part_stored)
    (auto simp: stored_ok_def list_all_iff set_update_where revise_table_def)

lemma table_writes_stored [stores]:
  "UpdateTable E actor tid expected name s = Inr (y, s') \<Longrightarrow> stored_ok L s \<Longrightarrow> name_ok L name \<Longrightarrow> stored_ok L s'"
  "DeleteTable E actor tid expected s = Inr (u, s') \<Longrightarrow> stored_ok L s \<Longrightarrow> stored_ok L s'"
  "RestoreTable E actor tid expected s = Inr (y, s') \<Longrightarrow> stored_ok L s \<Longrightarrow> stored_ok L s'"
  by (auto simp: UpdateTable_def DeleteTable_def RestoreTable_def run_simps begin_audit_Inr split: if_splits
      elim!: write_table_stored)

lemma field_ok_bookkeeping [simp]:
  "field_ok L (f\<lparr>fd_revision := n\<rparr>) = field_ok L f" "field_ok L (f\<lparr>fd_deleted_at := d\<rparr>) = field_ok L f"
  "field_ok L (f\<lparr>fd_position := i\<rparr>) = field_ok L f"
  "field_ok L (f\<lparr>fd_position := i, fd_revision := n, fd_deleted_at := d\<rparr>) = field_ok L f"
  by (simp_all add: field_ok_def)

lemma CreateField_stored [stores]:
  assumes "CreateField E actor key h p s = Inr (x, s')" "stored_ok L s" "field_ok L p"
  shows "stored_ok L s'"
  using assms(1,2) unfolding CreateField_def
  by (rule idempotent_stored)
    (use assms(3) in \<open>auto simp: run_simps insert_row_Inr part_stored\<close>, simp add: stored_ok_def)

lemma write_field_stored:
  assumes "write_field E actor f fid s = Inr (x, s')" "stored_ok L s"
    and "\<And>r. r \<in> set (db_fields s) \<Longrightarrow> field_id r = fid \<Longrightarrow> field_ok L (fr_field r) \<Longrightarrow> field_ok L (f (fr_field r))"
  shows "stored_ok L s'"
proof -
  have "stored_ok L s' = stored_ok L (s\<lparr>db_fields := revise_fields f fid (db_fields s)\<rparr>)"
    using assms(1) by (auto simp: write_field_def revise_fields_def run_simps part_stored)
  then show ?thesis using assms(2,3)
    by (auto simp: stored_ok_def revise_fields_def revise_field_def list_all_iff set_update_where)
qed

lemma UpdateField_stored [stores]:
  assumes "UpdateField E actor fid expected target s = Inr (x, s')" "stored_ok L s" "keys_ok s" "field_ok L target"
  shows "stored_ok L s'"
proof -
  obtain s1 u f b where a: "begin_audit E actor s = Inr (u, s1)" and l: "lockAccessibleField actor fid s1 = Inr (f, b)"
    and t: "fd_type f = fd_type target" and w: "s' = s1 \<or> write_field E actor (field_columns target) fid s1 = Inr (x, s')"
    using assms(1) unfolding UpdateField_def by (auto simp: run_simps split: if_splits)
  have s1: "stored_ok L s1" using part_stored(1)[OF a] assms(2) by simp
  obtain q where q: "find_field actor fid s1 = Some q" "fd_type (fr_field q) = fd_type target"
    using lockAccessibleField_Inr[OF l] scanField_sel t by metis
  have "r = q" if "r \<in> set (db_fields s1)" "field_id r = fid" for r
    using that find_field_id[OF q(1)] begin_audit_keys[OF a assms(3)] unfolding keys_ok_def
    by (intro key_unique[of field_id "db_fields s1"]) simp_all
  then have "field_ok L (field_columns target (fr_field r))" if "r \<in> set (db_fields s1)" "field_id r = fid" for r
    using that q(2) assms(4) by (auto simp: field_ok_def field_columns_def)
  then show ?thesis using w s1 write_field_stored[OF _ s1] by blast
qed

lemma field_lifecycle_stored [stores]:
  "DeleteField E actor fid expected s = Inr (u, s') \<Longrightarrow> stored_ok L s \<Longrightarrow> stored_ok L s'"
  "RestoreField E actor fid expected s = Inr (f, s') \<Longrightarrow> stored_ok L s \<Longrightarrow> stored_ok L s'"
  by (auto simp: DeleteField_def RestoreField_def run_simps begin_audit_Inr elim!: write_field_stored)

lemma view_ok_bookkeeping [simp]:
  "view_ok L (v\<lparr>vw_revision := n\<rparr>) = view_ok L v" "view_ok L (v\<lparr>vw_updated_at := t\<rparr>) = view_ok L v"
  "view_ok L (v\<lparr>vw_deleted_at := d\<rparr>) = view_ok L v" "view_ok L (v\<lparr>vw_default := b\<rparr>) = view_ok L v"
  "view_ok L (v\<lparr>vw_created_at := t\<rparr>) = view_ok L v"
  by (cases "vw_config v"; simp add: view_ok_def)+

lemma view_ok_revise: "view_ok L (revise_view f now v) = view_ok L (f v)"
  by (cases "vw_config (f v)"; simp add: view_ok_def revise_view_def)

lemma CreateView_stored [stores]:
  assumes "CreateView E actor key h p s = Inr (x, s')" "stored_ok L s" "view_ok L p"
  shows "stored_ok L s'"
  using assms(1,2) unfolding CreateView_def
proof (rule idempotent_stored, goal_cases)
  case (1 s)
  have "view_ok L (p\<lparr>vw_default := False, vw_revision := n, vw_created_at := a, vw_updated_at := b, vw_deleted_at := None\<rparr>)"
    for n a b
    using assms(3) by (cases "vw_config p") (simp_all add: view_ok_def)
  then show ?case using 1 by (auto simp: run_simps insert_view_Inr part_stored) (simp add: stored_ok_def)
qed

lemma write_view_stored:
  assumes "write_view E actor f vid s = Inr (x, s')" "stored_ok L s"
    and "\<And>v. v \<in> set (db_views s) \<Longrightarrow> vw_id v = vid \<Longrightarrow> view_ok L v \<Longrightarrow> view_ok L (f v)"
  shows "stored_ok L s'"
proof -
  have "stored_ok L s' = stored_ok L (s\<lparr>db_views := revise_views f (db_now s) vid (db_views s)\<rparr>)"
    using assms(1) by (auto simp: write_view_def log_view_def revise_views_def run_simps part_stored)
  then show ?thesis using assms(2,3)
    by (auto simp: stored_ok_def revise_views_def view_ok_revise list_all_iff set_update_where)
qed

lemma UpdateView_stored [stores]:
  assumes "UpdateView E same actor vid expected target s = Inr (x, s')" "stored_ok L s" "keys_ok s" "view_ok L target"
  shows "stored_ok L s'"
proof -
  obtain s1 u c where a: "begin_audit E actor s = Inr (u, s1)" and l: "lockAccessibleView actor vid s1 = Inr c"
    and t: "vw_type c = vw_type target" and w: "s' = s1 \<or> write_view E actor (view_columns target) vid s1 = Inr (x, s')"
    using assms(1) unfolding UpdateView_def by (auto simp: run_simps split: if_splits)
  have s1: "stored_ok L s1" using part_stored(1)[OF a] assms(2) by simp
  obtain q where q: "find_view actor vid s1 = Some q" "vw_type q = vw_type target"
    using lockAccessibleView_Inr[OF l] scanView_sel t by metis
  have "v = q" if "v \<in> set (db_views s1)" "vw_id v = vid" for v
    using that find_view_id[OF q(1)] begin_audit_keys[OF a assms(3)] unfolding keys_ok_def
    by (intro key_unique[of vw_id "db_views s1"]) simp_all
  then have "view_ok L (view_columns target v)" if "v \<in> set (db_views s1)" "vw_id v = vid" for v
    using that q(2) assms(4) by (cases "vw_config target") (auto simp: view_ok_def view_columns_def)
  then show ?thesis using w s1 write_view_stored[OF _ s1] by blast
qed

lemma view_lifecycle_stored [stores]:
  "DeleteView E actor vid expected s = Inr (u, s') \<Longrightarrow> stored_ok L s \<Longrightarrow> stored_ok L s'"
  "RestoreView E actor vid expected s = Inr (v, s') \<Longrightarrow> stored_ok L s \<Longrightarrow> stored_ok L s'"
  by (auto simp: DeleteView_def RestoreView_def restored_columns_def run_simps begin_audit_Inr elim!: write_view_stored)

lemma log_cleared_stored: "log_cleared E actor tid vs s = Inr s' \<Longrightarrow> stored_ok L s' = stored_ok L s"
  by (induction vs arbitrary: s) (auto simp: run_simps dest: part_stored(3)[where L = L])

lemma SetDefaultView_stored [stores]:
  assumes "SetDefaultView E actor vid expected s = Inr (x, s')" "stored_ok L s"
  shows "stored_ok L s'"
proof -
  obtain s1 u c where a: "begin_audit E actor s = Inr (u, s1)" and l: "lockAccessibleView actor vid s1 = Inr c"
    and w: "s' = s1 \<or> (\<exists>s2 cleared. log_cleared E actor (vw_table c) cleared
          (s1\<lparr>db_views := update_where (is_default_of (vw_table c)) (clear_default (db_now s1)) (db_views s1)\<rparr>) = Inr s2
        \<and> write_view E actor (vw_default_update (\<lambda>_. True)) vid s2 = Inr (x, s'))"
    using assms(1) unfolding SetDefaultView_def by (auto simp: run_simps split: if_splits)
  have s1: "stored_ok L s1" using part_stored(1)[OF a] assms(2) by simp
  then have "stored_ok L (s1\<lparr>db_views := update_where (is_default_of (vw_table c)) (clear_default (db_now s1)) (db_views s1)\<rparr>)"
    by (auto simp: stored_ok_def list_all_iff set_update_where clear_default_def view_ok_revise)
  then show ?thesis using w s1 by (auto dest!: log_cleared_stored[where L = L] elim!: write_view_stored)
qed

lemma save_view_order_stored: "save_view_order E actor key order requested s = Inr (x, s') \<Longrightarrow> stored_ok L s' = stored_ok L s"
proof -
  assume "save_view_order E actor key order requested s = Inr (x, s')"
  moreover have "stored_ok L (s\<lparr>db_tables := update_where p (\<lambda>r. r\<lparr>tr_order := requested,
      tr_order_revision := tr_order_revision r + 1\<rparr>) (db_tables s)\<rparr>) = stored_ok L s" for p
    by (simp add: stored_ok_def)
  ultimately show ?thesis by (auto simp: save_view_order_def run_simps part_stored split: if_splits)
qed

lemma ReorderViews_stored [stores]:
  assumes "ReorderViews E actor key tid h input s = Inr (x, s')" "stored_ok L s"
  shows "stored_ok L s'"
  using assms unfolding ReorderViews_def
  by (rule idempotent_stored) (auto simp: run_simps part_stored save_view_order_stored)

end
