(* ===== verification/RecordChoices.thy ===== *)
theory RecordChoices
  imports Stored RecordEffects
begin

text \<open>
  Options created by the choices of a request (internal/storage/postgres/choice.go): the configuration
  of every Field named stays one that the Field's type allows, its Options are the ones it had and then the
  new ones, and the definitions the commands run with are the ones that are stored.
\<close>

section \<open>Configurations grow\<close>

definition conf_ids :: "select_conf \<Rightarrow> string set" where
  "conf_ids c = so_id ` set (fst c) \<union> do_id ` set (snd c)"

text \<open>\<open>c\<close> is \<open>c0\<close> with the Options \<open>new\<close>, whose IDs were drawn since \<open>d0\<close>.\<close>

definition grown :: "lib \<Rightarrow> id_source \<Rightarrow> nat \<Rightarrow> nat \<Rightarrow> select_conf \<Rightarrow> select_conf \<Rightarrow> select_option list \<Rightarrow> bool" where
  "grown L gen d0 n c0 c new \<longleftrightarrow> select_config_ok L (fst c) (snd c) \<and> snd c = snd c0 \<and> fst c = fst c0 @ new
     \<and> so_id ` set new \<subseteq> drawn gen d0 n"

lemma drawn_later: "n \<le> m \<Longrightarrow> drawn gen d0 n \<subseteq> drawn gen d0 m"
  by (auto simp: drawn_def)

lemma grown_later: "grown L gen d0 n c0 c new \<Longrightarrow> n \<le> m \<Longrightarrow> grown L gen d0 m c0 c new"
  using drawn_later by (fastforce simp: grown_def)

lemma option_name_normal: "lib_ok L \<Longrightarrow> NormalizeOptionName L p x = Inr name \<Longrightarrow> option_name_ok L name"
  using lib_ok_trim by (auto simp: NormalizeOptionName_def normalize_name_cases option_name_ok_def)

lemma new_option_ok:
  assumes L: "lib_ok L" and f: "fresh_source gen used" "conf_ids c0 \<subseteq> used"
    and g: "grown L gen d0 n c0 c new" and i: "gen n OptionPrefix = Some i" "d0 \<le> n"
    and name: "NormalizeOptionName L p x = Inr name" "ValidSelectOptionColor color"
    and unused: "\<forall>y \<in> set (fst c). FoldKey L (so_name y) \<noteq> FoldKey L name"
    and limit: "length (fst c) < 500" "length (fst c) + length (snd c) < 5000"
  defines "opt \<equiv> \<lparr>so_id = i, so_name = name, so_color = color\<rparr>"
  shows "grown L gen d0 (Suc n) c0 (fst c @ [opt], snd c) (new @ [opt])"
proof -
  have v: "Valid OptionPrefix i" "i \<notin> used" using f(1) i(1) unfolding fresh_source_def by blast+
  have "i \<notin> drawn gen d0 n" using f(1) i unfolding fresh_source_def drawn_def by blast
  then have "i \<notin> so_id ` set new" using g by (auto simp: grown_def)
  moreover have "i \<notin> so_id ` set (fst c0)" "i \<notin> do_id ` set (snd c0)" using v(2) f(2) by (auto simp: conf_ids_def)
  ultimately have fresh: "i \<notin> so_id ` set (fst c)" "i \<notin> do_id ` set (snd c)" using g by (auto simp: grown_def)
  have c: "select_config_ok L (fst c) (snd c)" using g unfolding grown_def by blast
  then have "active_options_ok L (fst c)" by (simp add: select_config_ok_def)
  then have "active_options_ok L (fst c @ [opt])"
    using fresh(1) v unused option_name_normal[OF L name(1)] name(2)
    by (auto simp: active_options_ok_def opt_def)
  then have "select_config_ok L (fst c @ [opt]) (snd c)"
    using c fresh(2) limit by (auto simp: select_config_ok_def max_active_options_def max_total_options_def opt_def)
  moreover have "i \<in> drawn gen d0 (Suc n)" using i by (auto simp: drawn_def)
  ultimately show ?thesis
    using g drawn_later[of n "Suc n" gen d0] unfolding grown_def by (auto simp: opt_def)
qed

definition delta_created :: "choice_field_result \<Rightarrow> bool" where
  "delta_created d \<longleftrightarrow> set (cfr_created d) \<subseteq> set (cfr_resolved d)"

lemma resolveChoiceOption_grown:
  assumes L: "lib_ok L" "en_lib E = L" and f: "fresh_source (en_ids E) used" "conf_ids c0 \<subseteq> used"
    and g: "grown L (en_ids E) d0 (db_draws s) c0 c (cfr_created d)" "d0 \<le> db_draws s"
    and x: "choice_option_ok L x" and r: "resolveChoiceOption E c x previous p s = Inr ((y, created, c'), s')"
  shows "grown L (en_ids E) d0 (db_draws s') c0 c' (cfr_created (note_option y created d)) \<and> db_draws s \<le> db_draws s'"
proof (cases "co_id x \<noteq> []")
  case True
  then have "s' = s" "c' = c" "\<not> created" using r by (auto simp: resolveChoiceOption_def run_simps)
  then show ?thesis using g by (simp add: note_option_def)
next
  case False
  obtain name where n: "NormalizeOptionName L (p @ ''/name'') (co_name x) = Inr name"
    and rest: "(case find (\<lambda>x. FoldKey L (so_name x) = FoldKey L name) (fst c) of
          Some x \<Rightarrow> Inr ((x, False, c), s)
        | None \<Rightarrow>
            fail_if (length (fst c) \<ge> 500 \<or> length (fst c) + length (snd c) \<ge> 5000)
              (NewValidationError [Issue p ''limit'' ''Field Option budget exceeded''])
           (ok_then (draw_id E ''generate Choice Option ID'' OptionPrefix s) (\<lambda>(i, s).
            let x = \<lparr>so_id = i, so_name = name, so_color = co_color x\<rparr> in
            Inr ((x, True, (fst c @ [x], snd c)), s)))) = Inr ((y, created, c'), s')"
    using r False L(2) by (auto simp: resolveChoiceOption_def ok_then_eq_Inr)
  show ?thesis
  proof (cases "find (\<lambda>x. FoldKey L (so_name x) = FoldKey L name) (fst c)")
    case (Some z)
    then have "s' = s" "c' = c" "\<not> created" using rest by auto
    then show ?thesis using g by (simp add: note_option_def)
  next
    case None
    then obtain i where i: "en_ids E (db_draws s) OptionPrefix = Some i" "s' = s\<lparr>db_draws := Suc (db_draws s)\<rparr>"
      and y: "y = \<lparr>so_id = i, so_name = name, so_color = co_color x\<rparr>" "created" "c' = (fst c @ [y], snd c)"
      and limit: "length (fst c) < 500" "length (fst c) + length (snd c) < 5000"
      using rest by (auto simp: run_simps draw_id_Inr)
    have color: "ValidSelectOptionColor (co_color x)" using x False by (simp add: choice_option_ok_def)
    have "\<forall>y \<in> set (fst c). FoldKey L (so_name y) \<noteq> FoldKey L name" using None by (simp add: find_None_all)
    from new_option_ok[OF L(1) f g(1) i(1) g(2) n color this limit] show ?thesis
      by (simp add: i(2) y note_option_def)
  qed
qed

lemma resolve_options_grown:
  assumes L: "lib_ok L" "en_lib E = L" and f: "fresh_source (en_ids E) used" "conf_ids c0 \<subseteq> used"
  shows "grown L (en_ids E) d0 (db_draws s) c0 c (cfr_created d) \<Longrightarrow> d0 \<le> db_draws s \<Longrightarrow>
    list_all (choice_option_ok L) xs \<Longrightarrow> resolve_options E previous p k xs selected c d s = Inr ((sel, c', d'), s') \<Longrightarrow>
    grown L (en_ids E) d0 (db_draws s') c0 c' (cfr_created d') \<and> db_draws s \<le> db_draws s'"
proof (induction xs arbitrary: k selected c d s)
  case Nil
  then show ?case by simp
next
  case (Cons x xs)
  obtain y created c1 s1 where r: "resolveChoiceOption E c x previous (p @ ''/options/'' @ show_nat k) s = Inr ((y, created, c1), s1)"
    and rest: "resolve_options E previous p (Suc k) xs (selected @ [so_id y]) c1 (note_option y created d) s1 = Inr ((sel, c', d'), s')"
    using Cons.prems(4) by (fastforce simp: run_simps)
  have "choice_option_ok L x" using Cons.prems(3) by simp
  note one = resolveChoiceOption_grown[OF L f Cons.prems(1,2) this r]
  then have "d0 \<le> db_draws s1" using Cons.prems(2) by simp
  then show ?case using Cons.IH[OF _ _ _ rest] one Cons.prems(3) by simp
qed

section \<open>All Fields of a request\<close>

definition choice_inv :: "lib \<Rightarrow> id_source \<Rightarrow> nat \<Rightarrow> nat \<Rightarrow> (string, select_conf) fmap \<Rightarrow> choice_state \<Rightarrow> bool" where
  "choice_inv L gen d0 n C0 st \<longleftrightarrow> d0 \<le> n \<and> (\<forall>k c d. fmlookup (cs_configs st) k = Some c \<longrightarrow> fmlookup (cs_deltas st) k = Some d \<longrightarrow>
     (\<exists>c0. fmlookup C0 k = Some c0 \<and> grown L gen d0 n c0 c (cfr_created d)))"

lemma resolve_choice_inv:
  assumes L: "lib_ok L" "en_lib E = L"
    and f: "fresh_source (en_ids E) used" "\<forall>k c. fmlookup C0 k = Some c \<longrightarrow> conf_ids c \<subseteq> used"
    and i: "choice_inv L (en_ids E) d0 (db_draws s) C0 st" and ch: "choice_ok L ch"
    and r: "resolve_choice E locked targets n input j ch c st s = Inr ((c', st'), s')"
  shows "choice_inv L (en_ids E) d0 (db_draws s') C0 st'"
proof -
  obtain config d previous p sel config' d' where k: "fmlookup (cs_configs st) (ca_field ch) = Some config"
      "fmlookup (cs_deltas st) (ca_field ch) = Some d"
    and ro: "resolve_options E previous p 0 (nil_slice (ca_options ch)) [] config d s = Inr ((sel, config', d'), s')"
    and st': "st' = st\<lparr>cs_configs := fmupd (ca_field ch) config' (cs_configs st),
        cs_deltas := fmupd (ca_field ch) d' (cs_deltas st)\<rparr>"
    using r by (auto simp: resolve_choice_def run_simps Let_def split: option.splits)
  obtain c0 where c0: "fmlookup C0 (ca_field ch) = Some c0" "grown L (en_ids E) d0 (db_draws s) c0 config (cfr_created d)"
    and d0: "d0 \<le> db_draws s"
    using i k unfolding choice_inv_def by blast
  have u: "conf_ids c0 \<subseteq> used" using f(2) c0(1) by blast
  have "list_all (choice_option_ok L) (nil_slice (ca_options ch))" using ch by (simp add: choice_ok_def)
  note g = resolve_options_grown[OF L f(1) u c0(2) d0 this ro]
  show ?thesis unfolding choice_inv_def
  proof (intro conjI allI impI)
    show "d0 \<le> db_draws s'" using d0 g by simp
  next
    fix k c1 d1 assume l: "fmlookup (cs_configs st') k = Some c1" "fmlookup (cs_deltas st') k = Some d1"
    show "\<exists>c0. fmlookup C0 k = Some c0 \<and> grown L (en_ids E) d0 (db_draws s') c0 c1 (cfr_created d1)"
    proof (cases "k = ca_field ch")
      case True
      then show ?thesis using l g c0(1) by (simp add: st')
    next
      case False
      then have "fmlookup (cs_configs st) k = Some c1" "fmlookup (cs_deltas st) k = Some d1" using l by (simp_all add: st')
      then obtain c2 where "fmlookup C0 k = Some c2" "grown L (en_ids E) d0 (db_draws s) c2 c1 (cfr_created d1)"
        using i unfolding choice_inv_def by blast
      then show ?thesis using grown_later g by blast
    qed
  qed
qed

lemma resolve_choices_inv:
  assumes L: "lib_ok L" "en_lib E = L"
    and f: "fresh_source (en_ids E) used" "\<forall>k c. fmlookup C0 k = Some c \<longrightarrow> conf_ids c \<subseteq> used"
  shows "choice_inv L (en_ids E) d0 (db_draws s) C0 st \<Longrightarrow> list_all (choice_ok L) chs \<Longrightarrow>
    resolve_choices E locked targets n input j chs c st s = Inr (y, s') \<Longrightarrow>
    choice_inv L (en_ids E) d0 (db_draws s') C0 (snd y)"
proof (induction chs arbitrary: j c st s)
  case Nil
  then show ?case by auto
next
  case (Cons ch chs)
  obtain c1 st1 s1 where r: "resolve_choice E locked targets n input j ch c st s = Inr ((c1, st1), s1)"
    and rest: "resolve_choices E locked targets n input (Suc j) chs c1 st1 s1 = Inr (y, s')"
    using Cons.prems(3) by (fastforce simp: run_simps)
  show ?case using Cons.IH[OF resolve_choice_inv[OF L f Cons.prems(1) _ r] _ rest] Cons.prems(2) by simp
qed

lemma resolve_commands_inv:
  assumes L: "lib_ok L" "en_lib E = L"
    and f: "fresh_source (en_ids E) used" "\<forall>k c. fmlookup C0 k = Some c \<longrightarrow> conf_ids c \<subseteq> used"
  shows "choice_inv L (en_ids E) d0 (db_draws s) C0 st \<Longrightarrow> \<forall>c \<in> set cs. list_all (choice_ok L) (cm_choices c) \<Longrightarrow>
    resolve_commands E locked targets n cs st s = Inr (y, s') \<Longrightarrow>
    choice_inv L (en_ids E) d0 (db_draws s') C0 (snd y)"
proof (induction cs arbitrary: n st s y)
  case Nil
  then show ?case by auto
next
  case (Cons c cs)
  obtain z s1 w where r: "resolve_choices E locked targets n c 0 (cm_choices c) c st s = Inr (z, s1)"
    and rest: "resolve_commands E locked targets (Suc n) cs (snd z) s1 = Inr (w, s')" and y: "snd y = snd w"
    using Cons.prems(3) by (fastforce simp: run_simps)
  show ?case using Cons.IH[OF resolve_choices_inv[OF L f Cons.prems(1) _ r] _ rest] Cons.prems(2) y by simp
qed

section \<open>Definitions of a Table's Fields\<close>

lemma map_of_filtered: "map_of (map (\<lambda>r. (key r, g r)) (filter P xs)) k = map_option g (find (\<lambda>r. key r = k \<and> P r) xs)"
  by (induction xs) auto

definition definition_of :: "field_row \<Rightarrow> field_def" where
  "definition_of r = (field_definition r)\<lparr>fe_revision := 0, fe_position := 0\<rparr>"

definition field_in :: "string \<Rightarrow> string \<Rightarrow> db \<Rightarrow> field_row option" where
  "field_in t i s = find (\<lambda>r. field_id r = i \<and> fd_table (fr_field r) = t) (db_fields s)"

lemma lookup_definitions: "fmlookup (loadFieldDefinitions t s) k = map_option definition_of (field_in t k s)"
  by (cases "find (\<lambda>r. field_id r = k \<and> fd_table (fr_field r) = t) (db_fields s)")
    (simp_all add: loadFieldDefinitions_def table_fields_def fmlookup_of_list map_of_filtered definition_of_def field_in_def)

text \<open>What the values of a Record depend on in a definition.\<close>

definition core :: "field_def \<Rightarrow> string \<times> instant option \<times> field_config option" where
  "core f = (fe_type f, fe_deleted_at f, fe_config f)"

definition same_definitions :: "fields \<Rightarrow> fields \<Rightarrow> bool" where
  "same_definitions fs gs \<longleftrightarrow> (\<forall>k. map_option core (fmlookup fs k) = map_option core (fmlookup gs k))"

definition wider :: "field_def \<Rightarrow> field_def \<Rightarrow> bool" where
  "wider f g \<longleftrightarrow> fe_type g = fe_type f \<and> fe_deleted_at g = fe_deleted_at f \<and> (fe_config g = fe_config f
     \<or> (\<exists>a new d. fe_config f = Some (SelectConfig a d) \<and> fe_config g = Some (SelectConfig (a @ new) d)))"

definition wider_definitions :: "fields \<Rightarrow> fields \<Rightarrow> bool" where
  "wider_definitions fs gs \<longleftrightarrow> (\<forall>k. rel_option wider (fmlookup fs k) (fmlookup gs k))"

lemma wider_refl [simp]: "wider f f"
  by (simp add: wider_def)

lemma wider_trans: "wider f g \<Longrightarrow> wider g h \<Longrightarrow> wider f h"
  unfolding wider_def by (elim conjE disjE exE) auto

lemma wider_definitions_refl [simp]: "wider_definitions fs fs"
  by (simp add: wider_definitions_def option.rel_refl)

lemma wider_definitions_trans: "wider_definitions fs gs \<Longrightarrow> wider_definitions gs hs \<Longrightarrow> wider_definitions fs hs"
  unfolding wider_definitions_def
proof
  fix k assume "\<forall>k. rel_option wider (fmlookup fs k) (fmlookup gs k)" "\<forall>k. rel_option wider (fmlookup gs k) (fmlookup hs k)"
  then have "rel_option wider (fmlookup fs k) (fmlookup gs k)" "rel_option wider (fmlookup gs k) (fmlookup hs k)" by simp_all
  then show "rel_option wider (fmlookup fs k) (fmlookup hs k)"
    by (cases "fmlookup fs k"; cases "fmlookup gs k"; cases "fmlookup hs k") (auto intro: wider_trans)
qed

section \<open>Saving the new Options\<close>

lemma keys_fields: "keys_ok s \<Longrightarrow> distinct (map field_id (db_fields s))"
  by (simp add: keys_ok_def)

definition with_config :: "field_config \<Rightarrow> field_row \<Rightarrow> field_row" where
  "with_config c r = r\<lparr>fr_field := revise_field (fd_config_update (\<lambda>_. c)) (fr_field r)\<rparr>"

lemma field_in_saved:
  assumes "db_fields s' = revise_fields (fd_config_update (\<lambda>_. c)) i (db_fields s)"
  shows "field_in t k s' = map_option (\<lambda>r. if field_id r = i then with_config c r else r) (field_in t k s)"
  unfolding field_in_def assms revise_fields_def with_config_def
  by (rule find_update_where) (simp add: revise_field_def)

lemma save_choice_field_fields:
  assumes "save_choice_field E a t i config d s = Inr (d', s')"
  shows "field_in u k s' = (if cfr_created d = [] then field_in u k s
      else map_option (\<lambda>r. if field_id r = i then with_config (config_of config) r else r) (field_in u k s))"
proof (cases "cfr_created d = []")
  case True
  then show ?thesis using assms by (simp add: save_choice_field_def)
next
  case False
  let ?s = "s\<lparr>db_fields := revise_fields (fd_config_update (\<lambda>_. config_of config)) i (db_fields s)\<rparr>"
  have "db_fields s' = db_fields ?s"
    using assms False
    by (auto simp: save_choice_field_def revise_fields_def[symmetric] insert_metadata_change_def insert_change_Inr run_simps)
  from field_in_saved[of s' "config_of config" i s u k] this False show ?thesis by simp
qed

lemma field_in_id: "field_in t k s = Some r \<Longrightarrow> field_id r = k \<and> fd_table (fr_field r) = t \<and> r \<in> set (db_fields s)"
  unfolding field_in_def by (drule find_SomeD) simp

text \<open>A Field that the request names, with what it had and what it gets.\<close>

definition pending :: "lib \<Rightarrow> id_source \<Rightarrow> nat \<Rightarrow> nat \<Rightarrow> string \<Rightarrow> choice_state \<Rightarrow> db \<Rightarrow> string \<Rightarrow> bool" where
  "pending L gen d0 n t st s i \<longleftrightarrow> (\<exists>r c0 c d. field_in t i s = Some r \<and> fd_config (fr_field r) = config_of c0
     \<and> fmlookup (cs_configs st) i = Some c \<and> fmlookup (cs_deltas st) i = Some d
     \<and> grown L gen d0 n c0 c (cfr_created d))"

lemma save_choice_field_other:
  assumes "save_choice_field E a t i config d s = Inr (d', s')" "k \<noteq> i"
  shows "field_in t k s' = field_in t k s"
proof -
  have "map_option (\<lambda>r. if field_id r = i then with_config c r else r) (field_in t k s) = field_in t k s" for c
    using field_in_id[of t k s] assms(2) by (cases "field_in t k s") auto
  then show ?thesis using save_choice_field_fields[OF assms(1)] by simp
qed

lemma config_of_split: "config_of c = SelectConfig (fst c) (snd c)"
  by (simp add: config_of_def)

lemma save_choice_field_definitions:
  assumes save: "save_choice_field E a t i c d s = Inr (d', s')"
    and r: "field_in t i s = Some r" "fd_config (fr_field r) = config_of c0"
    and g: "grown L gen d0 n c0 c (cfr_created d)"
    and same: "same_definitions fs (loadFieldDefinitions t s)" and f: "fmlookup fs i = Some f"
  shows "same_definitions (fmupd i (f\<lparr>fe_config := Some (config_of c), fe_revision := v\<rparr>) fs) (loadFieldDefinitions t s')
    \<and> wider_definitions (loadFieldDefinitions t s) (loadFieldDefinitions t s')"
proof -
  have new: "\<exists>q. field_in t i s' = Some q \<and> definition_of q = (definition_of r)\<lparr>fe_config := Some (config_of c)\<rparr>"
  proof (cases "cfr_created d = []")
    case True
    then have "config_of c = config_of c0" using g by (simp add: grown_def config_of_split)
    then show ?thesis using save_choice_field_fields[OF save, of t i] True r
      by (simp add: definition_of_def field_definition_def)
  next
    case False
    then show ?thesis using save_choice_field_fields[OF save, of t i] r field_in_id[OF r(1)]
      by (simp add: definition_of_def field_definition_def with_config_def revise_field_def)
  qed
  have fi: "core f = core (definition_of r)"
    using same f r(1) unfolding same_definitions_def by (metis lookup_definitions option.inject option.simps(9))
  have "same_definitions (fmupd i (f\<lparr>fe_config := Some (config_of c), fe_revision := v\<rparr>) fs) (loadFieldDefinitions t s')"
    unfolding same_definitions_def
  proof
    fix k
    show "map_option core (fmlookup (fmupd i (f\<lparr>fe_config := Some (config_of c), fe_revision := v\<rparr>) fs) k)
        = map_option core (fmlookup (loadFieldDefinitions t s') k)"
    proof (cases "k = i")
      case True
      then show ?thesis using new fi by (auto simp: lookup_definitions core_def)
    next
      case False
      then show ?thesis using same save_choice_field_other[OF save False]
        by (simp add: same_definitions_def lookup_definitions)
    qed
  qed
  moreover have "wider (definition_of r) ((definition_of r)\<lparr>fe_config := Some (config_of c)\<rparr>)"
    using g r(2) by (auto simp: wider_def definition_of_def field_definition_def grown_def config_of_split)
  then have "rel_option wider (fmlookup (loadFieldDefinitions t s) k) (fmlookup (loadFieldDefinitions t s') k)" for k
    using new r(1) save_choice_field_other[OF save, of k]
    by (cases "k = i"; cases "field_in t k s") (auto simp: lookup_definitions)
  then have "wider_definitions (loadFieldDefinitions t s) (loadFieldDefinitions t s')"
    unfolding wider_definitions_def by blast
  ultimately show ?thesis by blast
qed

lemma save_choice_field_stored:
  assumes save: "save_choice_field E a t i c d s = Inr (d', s')" and k: "keys_ok s"
    and r: "field_in t i s = Some r" "fd_config (fr_field r) = config_of c0"
    and g: "grown L gen d0 n c0 c (cfr_created d)" and st: "stored_ok L s"
  shows "stored_ok L s'"
proof (cases "cfr_created d = []")
  case True
  then show ?thesis using save st by (simp add: save_choice_field_def)
next
  case False
  let ?s = "s\<lparr>db_fields := revise_fields (fd_config_update (\<lambda>_. config_of c)) i (db_fields s)\<rparr>"
  have "stored_ok L s' = stored_ok L ?s"
    using save False by (auto simp: save_choice_field_def revise_fields_def[symmetric] run_simps part_stored)
  moreover have "field_ok L (revise_field (fd_config_update (\<lambda>_. config_of c)) (fr_field q))"
    if "q \<in> set (db_fields s)" "field_id q = i" for q
  proof -
    have "q = r" using key_unique[OF keys_fields[OF k] that(1)] field_in_id[OF r(1)] that(2) by simp
    moreover have "field_ok L (fr_field r)" using st field_in_id[OF r(1)] by (auto simp: stored_ok_def list_all_iff)
    moreover have "select_config_ok L (fst c) (snd c)" using g unfolding grown_def by blast
    ultimately show ?thesis using r(2)
      by (simp add: field_ok_def revise_field_def config_of_split field_config_ok_simps)
  qed
  ultimately show ?thesis using st by (auto simp: stored_ok_def list_all_iff set_revise_fields)
qed

lemma save_choice_fields_definitions:
  assumes "save_choice_fields E a t st is fs s = Inr ((fs', ds), s')" "distinct is"
    and "\<forall>i \<in> set is. pending L gen d0 n t st s i" "same_definitions fs (loadFieldDefinitions t s)"
    and "keys_ok s" "stored_ok L s"
  shows "same_definitions fs' (loadFieldDefinitions t s')
    \<and> wider_definitions (loadFieldDefinitions t s) (loadFieldDefinitions t s') \<and> stored_ok L s'"
  using assms
proof (induction "is" arbitrary: fs s ds)
  case Nil
  then show ?case by simp
next
  case (Cons i rest)
  obtain config d f d1 s1 ds1 where l: "fmlookup (cs_configs st) i = Some config" "fmlookup (cs_deltas st) i = Some d"
      "fmlookup fs i = Some f"
    and save: "save_choice_field E a t i config d s = Inr (d1, s1)"
    and more: "save_choice_fields E a t st rest (fmupd i (f\<lparr>fe_config := Some (config_of config), fe_revision := cfr_revision d1\<rparr>) fs) s1
        = Inr ((fs', ds1), s')"
    using Cons.prems(1) by (fastforce simp: run_simps split: option.splits)
  obtain r c0 where r: "field_in t i s = Some r" "fd_config (fr_field r) = config_of c0"
    and g: "grown L gen d0 n c0 config (cfr_created d)"
    using Cons.prems(3) l by (auto simp: pending_def)
  note one = save_choice_field_definitions[OF save r g Cons.prems(4) l(3)]
  have "pending L gen d0 n t st s1 k" if "k \<in> set rest" for k
  proof -
    have "k \<noteq> i" using that Cons.prems(2) by auto
    then have "field_in t k s1 = field_in t k s" using save_choice_field_other[OF save] by blast
    then show ?thesis using Cons.prems(3) that by (simp add: pending_def)
  qed
  then have p: "\<forall>k \<in> set rest. pending L gen d0 n t st s1 k" by blast
  have ih: "same_definitions fs' (loadFieldDefinitions t s')
      \<and> wider_definitions (loadFieldDefinitions t s1) (loadFieldDefinitions t s') \<and> stored_ok L s'"
    by (rule Cons.IH[OF more _ p])
      (use Cons.prems one db_steps_keys[OF save_choice_field_steps[OF save]]
        save_choice_field_stored[OF save Cons.prems(5) r g Cons.prems(6)] in simp_all)
  then show ?case using one wider_definitions_trans by blast
qed

section \<open>\<open>prepareChoiceMutation\<close>\<close>

lemma save_choice_fields_looked:
  "save_choice_fields E a t st is fs s = Inr (r, s') \<Longrightarrow> i \<in> set is \<Longrightarrow>
     fmlookup (cs_configs st) i \<noteq> None \<and> fmlookup (cs_deltas st) i \<noteq> None"
proof (induction "is" arbitrary: fs s r)
  case Nil
  then show ?case by simp
next
  case (Cons k rest)
  obtain fs1 s1 w where rest: "save_choice_fields E a t st rest fs1 s1 = Inr (w, s')"
    and k: "fmlookup (cs_configs st) k \<noteq> None" "fmlookup (cs_deltas st) k \<noteq> None"
    using Cons.prems(1) by (fastforce simp: run_simps split: option.splits)
  show ?case
  proof (cases "i = k")
    case True
    then show ?thesis using k by blast
  next
    case False
    then show ?thesis using Cons.IH[OF rest] Cons.prems(2) by simp
  qed
qed

lemma keep_first_fst: "set (map fst (keep_first seen ms)) \<inter> set seen = {} \<and> distinct (map fst (keep_first seen ms))"
proof (induction seen ms rule: keep_first.induct)
  case (1 seen)
  then show ?case by simp
next
  case (2 seen m ms)
  then show ?case by auto
qed

lemma choice_fields_distinct: "distinct (map fst (choice_fields commands))"
proof -
  have "mset (map fst (choice_fields commands)) = mset (map fst (keep_first [] (mentions 0 commands)))"
    by (simp add: choice_fields_def)
  then show ?thesis using keep_first_fst[of "[]" "mentions 0 commands"] by (metis mset_eq_imp_distinct_iff)
qed

lemma lock_choice_field_Inr:
  assumes "lock_choice_field t key s m = Inr (f, c)" "stored_ok L s"
  shows "\<exists>r. field_in t (fst m) s = Some r \<and> f = fr_field r \<and> fd_config (fr_field r) = config_of c \<and> field_ok L (fr_field r)"
proof -
  obtain i expected first where m: "m = (i, expected, first)" by (cases m) auto
  obtain r where r: "find (\<lambda>r. field_id r = i \<and> fd_table (fr_field r) = t) (db_fields s) = Some r"
    and rest: "ok_then (scanField (fr_field r)) (\<lambda>f.
          fail_if (fd_revision f \<noteq> expected)
            (RecordConflict key (int first) []
              [\<lparr>fc_field = i, fc_expected = expected, fc_current = fd_revision f\<rparr>])
         (fail_if (fd_deleted_at f \<noteq> None) (InvalidStateTransition ''field'' i ''update'' ''deleted'')
         (case fd_config f of
            SelectConfig active deleted \<Rightarrow> Inr (f, (active, deleted))
          | _ \<Rightarrow> Inl (NewValidationError [Issue (''/commands/'' @ show_nat first @ ''/choices'') ''type''
                  ''choices requires Select or MultiSelect Fields''])))) = Inr (f, c)"
    using assms(1) by (auto simp: lock_choice_field_def m case_option_Inr)
  have ok: "field_ok L (fr_field r)" using assms(2) find_SomeD[OF r] by (auto simp: stored_ok_def list_all_iff)
  have "f = fr_field r \<and> fd_config (fr_field r) = SelectConfig (fst c) (snd c)"
    using rest by (cases "fd_config (fr_field r)") (auto simp: scanField_ok[OF ok])
  then show ?thesis using r ok by (simp add: m field_in_def config_of_split)
qed

lemma prepare_choices_definitions:
  assumes L: "lib_ok L" "en_lib E = L" and st: "stored_ok L s" and k: "keys_ok s"
    and f: "fresh_source (en_ids E) used" "\<forall>r \<in> set (db_fields s). config_ids (fd_config (fr_field r)) \<subseteq> used"
    and v: "\<forall>c \<in> set input. list_all (choice_ok L) (cm_choices c)"
    and p: "prepareChoiceMutation E a t key input s = Inr ((cs, fs, ds), s')"
  shows "same_definitions fs (loadFieldDefinitions t s')
    \<and> wider_definitions (loadFieldDefinitions t s) (loadFieldDefinitions t s') \<and> stored_ok L s'"
proof -
  let ?is = "map fst (choice_fields input)"
  obtain found targets y s1 where found: "each_ok (lock_choice_field t key s) (choice_fields input) = Inr found"
    and r: "resolve_commands E (fmap_of_list (zip ?is (map fst found))) targets 0 input
        \<lparr>cs_configs = fmap_of_list (zip ?is (map snd found)),
         cs_deltas = fmap_of_list (map new_delta (zip ?is (map fst found)))\<rparr> s = Inr (y, s1)"
    and save: "save_choice_fields E a t (snd y) ?is (loadFieldDefinitions t s) s1 = Inr ((fs, ds), s')"
    using p unfolding prepareChoiceMutation_def run_simps by (auto simp: Let_def)
  let ?C0 = "fmap_of_list (zip ?is (map snd found))"
  let ?st0 = "\<lparr>cs_configs = ?C0, cs_deltas = fmap_of_list (map new_delta (zip ?is (map fst found)))\<rparr>"
  let ?d = "db_draws s"
  have len: "length found = length ?is" using found by (simp add: each_ok_Inr_iff list_all2_lengthD)
  have locked: "\<exists>q. field_in t i s = Some q \<and> fd_config (fr_field q) = config_of c0 \<and> field_ok L (fr_field q)"
    if "fmlookup ?C0 i = Some c0" for i c0
  proof -
    have "(i, c0) \<in> set (zip ?is (map snd found))"
      using that by (simp add: fmlookup_of_list map_of_SomeD)
    then obtain j where j: "j < length found" "i = fst (choice_fields input ! j)" "c0 = snd (found ! j)"
      using len by (auto simp: set_zip)
    then have "lock_choice_field t key s (choice_fields input ! j) = Inr (found ! j)"
      using found by (simp add: each_ok_Inr_iff list_all2_conv_all_nth)
    then show ?thesis using lock_choice_field_Inr[OF _ st, of t key "choice_fields input ! j" "fst (found ! j)" c0] j by auto
  qed
  have ok: "select_config_ok L (fst c0) (snd c0) \<and> conf_ids c0 \<subseteq> used"
    if look: "fmlookup ?C0 i = Some c0" for i c0
  proof -
    obtain q where q: "field_in t i s = Some q" "fd_config (fr_field q) = config_of c0" "field_ok L (fr_field q)"
      using locked[OF look] by blast
    have "conf_ids c0 = config_ids (fd_config (fr_field q))" by (simp add: q(2) config_of_split config_ids_def conf_ids_def)
    moreover have "config_ids (fd_config (fr_field q)) \<subseteq> used" using f(2) field_in_id[OF q(1)] by blast
    moreover have "select_config_ok L (fst c0) (snd c0)"
      using q(3) by (simp add: field_ok_def q(2) config_of_split field_config_ok_simps)
    ultimately show ?thesis by simp
  qed
  have created0: "cfr_created d = []" if "fmlookup (cs_deltas ?st0) i = Some d" for i d
    using that by (auto simp: fmlookup_of_list new_delta_def dest!: map_of_SomeD)
  have "choice_inv L (en_ids E) ?d ?d ?C0 ?st0"
    unfolding choice_inv_def using ok created0 by (auto simp: grown_def)
  then have inv: "choice_inv L (en_ids E) ?d (db_draws s1) ?C0 (snd y)"
    using resolve_commands_inv[OF L f(1) _ _ v r] ok by simp
  have s1: "\<exists>n. s1 = s\<lparr>db_draws := n\<rparr>" using resolve_commands_draws[OF r] by (simp add: only_draws_def)
  have fin: "field_in t i s1 = field_in t i s" for i using s1 by (auto simp: field_in_def)
  have st1: "stored_ok L s1" "keys_ok s1" "loadFieldDefinitions t s1 = loadFieldDefinitions t s"
    using s1 st k by (auto simp: keys_ok_def loadFieldDefinitions_def table_fields_def)
  have looked: "fmlookup (cs_configs (snd y)) i \<noteq> None \<and> fmlookup (cs_deltas (snd y)) i \<noteq> None" if "i \<in> set ?is" for i
    using save that by (rule save_choice_fields_looked)
  have pend: "\<forall>i \<in> set ?is. pending L (en_ids E) ?d (db_draws s1) t (snd y) s1 i"
  proof
    fix i assume "i \<in> set ?is"
    then obtain c d where cd: "fmlookup (cs_configs (snd y)) i = Some c" "fmlookup (cs_deltas (snd y)) i = Some d"
      using looked by blast
    then obtain c0 where "fmlookup ?C0 i = Some c0" "grown L (en_ids E) ?d (db_draws s1) c0 c (cfr_created d)"
      using inv unfolding choice_inv_def by blast
    then show "pending L (en_ids E) ?d (db_draws s1) t (snd y) s1 i"
      using locked cd unfolding pending_def fin by blast
  qed
  have "same_definitions (loadFieldDefinitions t s) (loadFieldDefinitions t s1)"
    by (simp add: st1(3) same_definitions_def)
  from save_choice_fields_definitions[OF save choice_fields_distinct pend this st1(2,1)] show ?thesis
    by (simp add: st1(3))
qed

end
