(* ===== verification/RecordResults.thy ===== *)
theory RecordResults
  imports Runs
begin

text \<open>
  What a successful request does to the Records: the results answer the commands one by one, the log gets one
  change for each applied command, and every other Record stays as it is.
\<close>

section \<open>The result of a command\<close>

definition change_kind :: "string \<Rightarrow> string" where
  "change_kind k =
     (if k = ''createRecord'' then ''recordCreated'' else if k = ''updateRecord'' then ''recordUpdated''
      else if k = ''deleteRecord'' then ''recordDeleted'' else ''recordRestored'')"

definition summary :: "change \<Rightarrow> string \<times> string \<times> string \<times> string \<times> int" where
  "summary c = (ch_kind c, ch_actor c, ch_table c, ch_record c, ch_revision c)"

definition logged_as :: "string \<Rightarrow> string \<Rightarrow> command \<Rightarrow> command_result \<Rightarrow> (string \<times> string \<times> string \<times> string \<times> int) list" where
  "logged_as a t c r =
     (if cr_status r = ''applied''
      then [(change_kind (cm_kind c), a, t, rc_id (cr_record r), rc_revision (cr_record r))] else [])"

text \<open>What a client learns of a command from its result.\<close>

definition outcome :: "string \<Rightarrow> nat \<Rightarrow> command \<Rightarrow> command_result \<Rightarrow> bool" where
  "outcome t n c r \<longleftrightarrow> cr_index r = n \<and> rc_table (cr_record r) = t \<and>
     (if cm_kind c = ''createRecord''
      then cr_status r = ''applied'' \<and> rc_revision (cr_record r) = 1 \<and> rc_deleted_at (cr_record r) = None
      else rc_id (cr_record r) = cm_record c \<and>
        (if cm_kind c = ''updateRecord''
         then rc_deleted_at (cr_record r) = None
           \<and> (cr_status r = ''applied'' \<and> rc_revision (cr_record r) = cm_expected c + 1
              \<or> cr_status r = ''unchanged'' \<and> rc_revision (cr_record r) = cm_expected c)
         else cr_status r = ''applied'' \<and> rc_revision (cr_record r) = cm_expected c + 1
           \<and> (rc_deleted_at (cr_record r) = None \<longleftrightarrow> cm_kind c = ''restoreRecord'')))"

lemma outcome_target: "target_of c = target_of d \<Longrightarrow> outcome t n c r = outcome t n d r \<and> logged_as a t c r = logged_as a t d r"
  by (simp add: outcome_def logged_as_def target_of_def)

lemma log_record_Inr:
  "log_record E H a fs n k d item s = Inr (r, s') \<Longrightarrow>
     r = \<lparr>cr_index = n, cr_status = ''applied'', cr_record = item\<rparr> \<and> db_records s' = db_records s
     \<and> (\<exists>ch. db_changes s' = db_changes s @ [ch] \<and> summary ch = (k, a, rc_table item, rc_id item, rc_revision item))"
  by (auto simp: log_record_def applied_def insertRecordChange_def insert_change_Inr run_simps summary_def)

text \<open>A write of a row that the transaction has locked.\<close>

lemma write_locked:
  assumes k: "keys_ok s" and l: "lockRecord t i s = Inr cur" and f: "keeps_record f"
    and w: "write_record what f (rc_id cur) s = Inr (item, s')"
  shows "\<exists>q \<in> set (db_records s). rr_record q = cur \<and> item = rr_record (f q)
    \<and> db_records s' = update_where (\<lambda>r. record_id r = i) f (db_records s) \<and> db_changes s' = db_changes s
    \<and> rc_id cur = i \<and> rc_table cur = t \<and> f q \<in> set (db_records s')"
proof -
  obtain q where q: "q \<in> set (db_records s)" "rr_record q = cur" "rc_id cur = i" "rc_table cur = t"
    using lockRecord_Inr[OF l] by blast
  have s': "s' = s\<lparr>db_records := update_where (\<lambda>r. record_id r = i) f (db_records s)\<rparr>"
    and item: "\<exists>r. find (\<lambda>r. record_id r = i) (db_records s') = Some r \<and> item = rr_record r"
    using write_record_Inr[OF w] q(3) by auto
  have "find (\<lambda>r. record_id r = i) (db_records s) = Some q"
    using find_key[of record_id "db_records s" q] q k by (simp add: keys_ok_def)
  moreover have "find (\<lambda>r. record_id r = i) (db_records s')
      = map_option (\<lambda>r. if record_id r = i then f r else r) (find (\<lambda>r. record_id r = i) (db_records s))"
    unfolding s' by simp (rule find_update_where, use f in simp)
  ultimately have "find (\<lambda>r. record_id r = i) (db_records s') = Some (f q)" using q by simp
  then have "item = rr_record (f q)" "f q \<in> set (db_records s')" using item by (auto dest: find_SomeD)
  then show ?thesis using q s' by auto
qed

definition untouched :: "string \<Rightarrow> db \<Rightarrow> db \<Rightarrow> bool" where
  "untouched i s s' \<longleftrightarrow> (\<forall>q \<in> set (db_records s). record_id q \<noteq> i \<longrightarrow> q \<in> set (db_records s'))"

text \<open>What each command leaves behind.\<close>

definition effect_of :: "string \<Rightarrow> string \<Rightarrow> nat \<Rightarrow> command \<Rightarrow> command_result \<Rightarrow> db \<Rightarrow> db \<Rightarrow> bool" where
  "effect_of a t n c r s s' \<longleftrightarrow> outcome t n c r
     \<and> (\<exists>new. db_changes s' = db_changes s @ new \<and> map summary new = logged_as a t c r)
     \<and> untouched (rc_id (cr_record r)) s s'
     \<and> (cr_status r \<noteq> ''applied'' \<longrightarrow> db_records s' = db_records s)
     \<and> cr_record r \<in> rr_record ` set (db_records s')
     \<and> (cm_kind c = ''createRecord'' \<longrightarrow> rc_id (cr_record r) \<notin> record_id ` set (db_records s))"

lemma applyCreateRecord_effect:
  assumes "applyCreateRecord E H a t n c fs s = Inr (r, s')" "cm_kind c = ''createRecord''"
  shows "effect_of a t n c r s s'"
proof -
  obtain vs q x i s1 created s2 where i: "draw_id E ''generate record ID'' RecordPrefix s = Inr (i, s1)"
    and ins: "insertRecord H i t vs q x s1 = Inr (created, s2)"
    and l: "log_record E H a fs n ''recordCreated'' [] created s2 = Inr (r, s')"
    using assms(1) by (auto simp: applyCreateRecord_def run_simps)
  show ?thesis
    using i insertRecord_Inr[OF ins] log_record_Inr[OF l] assms(2)
    by (auto simp: draw_id_Inr effect_of_def outcome_def logged_as_def change_kind_def untouched_def)
qed

lemma applyUpdateRecord_Inr:
  assumes "applyUpdateRecord E H a t key n c fs s = Inr (r, s')"
  shows "\<exists>cur vs q x. lockRecord t (cm_record c) s = Inr cur \<and> rc_revision cur = cm_expected c \<and> rc_deleted_at cur = None
    \<and> NormalizeUpdatedValues (en_lib E) (rc_values cur) (nil_map (cm_set c)) (cm_unset c) fs = Inr (Some (vs, q, x))
    \<and> (vs = rc_values cur \<and> r = \<lparr>cr_index = n, cr_status = ''unchanged'', cr_record = cur\<rparr> \<and> s' = s
      \<or> (\<exists>diff item s1. write_record ''update record values'' (value_columns vs q x (db_now s)) (rc_id cur) s = Inr (item, s1)
          \<and> log_record E H a fs n ''recordUpdated'' diff item s1 = Inr (r, s')))"
proof -
  obtain cur vs q x where cur: "lockRecord t (cm_record c) s = Inr cur" "rc_revision cur = cm_expected c"
      "rc_deleted_at cur = None"
    and n: "NormalizeUpdatedValues (en_lib E) (rc_values cur) (nil_map (cm_set c)) (cm_unset c) fs = Inr (Some (vs, q, x))"
    and w: "(if vs = rc_values cur then Inr (\<lparr>cr_index = n, cr_status = ''unchanged'', cr_record = cur\<rparr>, s)
      else ok_then (DiffRecordValues (rc_values cur) vs) (\<lambda>diff.
        ok_then (updateRecordValues (rc_id cur) vs q x s) (\<lambda>(updated, s).
        log_record E H a fs n ''recordUpdated'' diff updated s))) = Inr (r, s')"
    using assms by (auto simp: applyUpdateRecord_def ok_then_eq_Inr)
  have "vs = rc_values cur \<and> r = \<lparr>cr_index = n, cr_status = ''unchanged'', cr_record = cur\<rparr> \<and> s' = s
      \<or> (\<exists>diff item s1. write_record ''update record values'' (value_columns vs q x (db_now s)) (rc_id cur) s = Inr (item, s1)
          \<and> log_record E H a fs n ''recordUpdated'' diff item s1 = Inr (r, s'))"
    using w by (cases "vs = rc_values cur") (auto simp: updateRecordValues_def ok_then_eq_Inr)
  then show ?thesis using cur n by blast
qed

lemma applyUpdateRecord_effect:
  assumes k: "keys_ok s" and u: "applyUpdateRecord E H a t key n c fs s = Inr (r, s')" "cm_kind c = ''updateRecord''"
  shows "effect_of a t n c r s s'"
proof -
  obtain cur vs q x where cur: "lockRecord t (cm_record c) s = Inr cur" "rc_revision cur = cm_expected c"
      "rc_deleted_at cur = None"
    and w: "vs = rc_values cur \<and> r = \<lparr>cr_index = n, cr_status = ''unchanged'', cr_record = cur\<rparr> \<and> s' = s
      \<or> (\<exists>diff item s1. write_record ''update record values'' (value_columns vs q x (db_now s)) (rc_id cur) s = Inr (item, s1)
          \<and> log_record E H a fs n ''recordUpdated'' diff item s1 = Inr (r, s'))"
    using applyUpdateRecord_Inr[OF u(1)] by blast
  from w show ?thesis
  proof (elim disjE exE conjE)
    assume "r = \<lparr>cr_index = n, cr_status = ''unchanged'', cr_record = cur\<rparr>" "s' = s"
    then show ?thesis using lockRecord_Inr[OF cur(1)] cur u(2)
      by (auto simp: effect_of_def outcome_def logged_as_def untouched_def)
  next
    fix diff item s1
    assume wr: "write_record ''update record values'' (value_columns vs q x (db_now s)) (rc_id cur) s = Inr (item, s1)"
      and l: "log_record E H a fs n ''recordUpdated'' diff item s1 = Inr (r, s')"
    obtain p where p: "p \<in> set (db_records s)" "rr_record p = cur" "item = rr_record (value_columns vs q x (db_now s) p)"
      "db_records s1 = update_where (\<lambda>r. record_id r = cm_record c) (value_columns vs q x (db_now s)) (db_records s)"
      "db_changes s1 = db_changes s" "rc_id cur = cm_record c" "rc_table cur = t"
      "value_columns vs q x (db_now s) p \<in> set (db_records s1)"
      using write_locked[OF k cur(1) _ wr] by auto
    have "item \<in> rr_record ` set (db_records s1)" using p(3,8) by blast
    then show ?thesis using log_record_Inr[OF l] p cur u(2)
      by (auto simp: effect_of_def outcome_def logged_as_def change_kind_def untouched_def set_update_where value_columns_def)
  qed
qed

lemma applyRecordLifecycle_effect:
  assumes k: "keys_ok s" and u: "applyRecordLifecycle E H a t key n c fs d s = Inr (r, s')"
    and c: "cm_kind c = (if d then ''deleteRecord'' else ''restoreRecord'')"
  shows "effect_of a t n c r s s'"
proof -
  obtain cur item s1 where cur: "lockRecord t (cm_record c) s = Inr cur" "rc_revision cur = cm_expected c"
    and wr: "write_record ''update record lifecycle'' (deleted_columns d (db_now s)) (rc_id cur) s = Inr (item, s1)"
    and l: "log_record E H a fs n (if d then ''recordDeleted'' else ''recordRestored'') [] item s1 = Inr (r, s')"
    using u by (auto simp: applyRecordLifecycle_def setRecordDeleted_def run_simps split: if_splits)
  obtain p where p: "p \<in> set (db_records s)" "rr_record p = cur" "item = rr_record (deleted_columns d (db_now s) p)"
    "db_records s1 = update_where (\<lambda>r. record_id r = cm_record c) (deleted_columns d (db_now s)) (db_records s)"
    "db_changes s1 = db_changes s" "rc_id cur = cm_record c" "rc_table cur = t"
    "deleted_columns d (db_now s) p \<in> set (db_records s1)"
    using write_locked[OF k cur(1) _ wr] by auto
  have "item \<in> rr_record ` set (db_records s1)" using p(3,8) by blast
  then show ?thesis using log_record_Inr[OF l] p cur c
    by (auto simp: effect_of_def outcome_def logged_as_def change_kind_def untouched_def set_update_where deleted_columns_def)
qed

lemma applyCommand_effect:
  assumes "keys_ok s" "applyCommand E H a t key fs n c s = Inr (r, s')"
  shows "effect_of a t n c r s s'"
  using assms(2)
  by (auto simp: applyCommand_def split: if_splits
      intro: applyCreateRecord_effect applyUpdateRecord_effect[OF assms(1)] applyRecordLifecycle_effect[OF assms(1)])

section \<open>The results of a request\<close>

fun log_of :: "string \<Rightarrow> string \<Rightarrow> command list \<Rightarrow> command_result list \<Rightarrow> (string \<times> string \<times> string \<times> string \<times> int) list" where
  "log_of a t (c # cs) (r # rs) = logged_as a t c r @ log_of a t cs rs"
| "log_of a t cs rs = []"

definition kept :: "string set \<Rightarrow> db \<Rightarrow> db \<Rightarrow> bool" where
  "kept changed s s' \<longleftrightarrow> (\<forall>q \<in> set (db_records s). record_id q \<notin> changed \<longrightarrow> q \<in> set (db_records s'))"

lemma kept_trans: "kept A s s1 \<Longrightarrow> kept B s1 s2 \<Longrightarrow> kept (A \<union> B) s s2"
  by (auto simp: kept_def)

lemma effect_kept: "effect_of a t n c r s s' \<Longrightarrow> kept (set (changed_ids [r])) s s'"
  by (auto simp: effect_of_def kept_def untouched_def changed_ids_def)

lemma changed_ids_simps [simp]:
  "changed_ids [] = []"
  "changed_ids (r # rs) = (if cr_status r = ''applied'' then rc_id (cr_record r) # changed_ids rs else changed_ids rs)"
  by (simp_all add: changed_ids_def)

lemma changed_ids_Cons: "set (changed_ids (r # rs)) = set (changed_ids [r]) \<union> set (changed_ids rs)"
  by simp

text \<open>No later command has the Record of this result as its target, or creates it.\<close>

definition settled :: "command list \<Rightarrow> command_result list \<Rightarrow> db \<Rightarrow> bool" where
  "settled cs rs s \<longleftrightarrow> (\<forall>k < length rs. (\<forall>j < length cs. j \<noteq> k \<longrightarrow> cm_record (cs ! j) \<noteq> rc_id (cr_record (rs ! k))) \<longrightarrow>
     cr_record (rs ! k) \<in> rr_record ` set (db_records s))"

lemma later_keep:
  assumes "applyCommands E H a t key fs n cs s = Inr (rs, s')" "keys_ok s"
    and "q \<in> set (db_records s)" "\<forall>c \<in> set cs. cm_record c \<noteq> record_id q"
  shows "q \<in> set (db_records s')"
  using assms
proof (induction cs arbitrary: n s rs)
  case Nil
  then show ?case by simp
next
  case (Cons c cs)
  then obtain r s1 rs1 where c: "applyCommand E H a t key fs n c s = Inr (r, s1)"
    and cs: "applyCommands E H a t key fs (Suc n) cs s1 = Inr (rs1, s')"
    by (auto simp: run_simps)
  note e = applyCommand_effect[OF Cons.prems(2) c]
  have "rc_id (cr_record r) \<noteq> record_id q"
    using e Cons.prems(3,4) by (auto simp: effect_of_def outcome_def split: if_splits)
  then have "q \<in> set (db_records s1)" using e Cons.prems(3) by (auto simp: effect_of_def untouched_def)
  then show ?case
    using Cons.IH[OF cs db_steps_keys[OF applyCommand_steps[OF c] Cons.prems(2)]] Cons.prems(4) by simp
qed

lemma applyCommands_effect:
  assumes "applyCommands E H a t key fs n cs s = Inr (rs, s')" "keys_ok s"
  shows "length rs = length cs \<and> (\<forall>k < length cs. outcome t (n + k) (cs ! k) (rs ! k))
    \<and> (\<exists>new. db_changes s' = db_changes s @ new \<and> map summary new = log_of a t cs rs)
    \<and> kept (set (changed_ids rs)) s s' \<and> settled cs rs s'"
  using assms
proof (induction cs arbitrary: n s rs)
  case Nil
  then show ?case by (simp add: kept_def settled_def)
next
  case (Cons c cs)
  then obtain r s1 rs1 where c: "applyCommand E H a t key fs n c s = Inr (r, s1)"
    and cs: "applyCommands E H a t key fs (Suc n) cs s1 = Inr (rs1, s')" and rs: "rs = r # rs1"
    by (auto simp: run_simps)
  note e = applyCommand_effect[OF Cons.prems(2) c]
  have k1: "keys_ok s1" using db_steps_keys[OF applyCommand_steps[OF c] Cons.prems(2)] .
  note ih = Cons.IH[OF cs k1]
  have out: "outcome t (n + k) ((c # cs) ! k) (rs ! k)" if "k < length (c # cs)" for k
    using that e ih by (cases k) (auto simp: rs effect_of_def)
  obtain new1 where new1: "db_changes s1 = db_changes s @ new1" "map summary new1 = logged_as a t c r"
    using e by (auto simp: effect_of_def)
  obtain new2 where new2: "db_changes s' = db_changes s1 @ new2" "map summary new2 = log_of a t cs rs1"
    using ih by blast
  note new = new1 new2
  have "settled (c # cs) rs s'" unfolding settled_def
  proof (intro allI impI)
    fix k assume k: "k < length rs"
      and alone: "\<forall>j < length (c # cs). j \<noteq> k \<longrightarrow> cm_record ((c # cs) ! j) \<noteq> rc_id (cr_record (rs ! k))"
    show "cr_record (rs ! k) \<in> rr_record ` set (db_records s')"
    proof (cases k)
      case 0
      obtain q where q: "q \<in> set (db_records s1)" "rr_record q = cr_record r"
        using e unfolding effect_of_def by fastforce
      have "\<forall>d \<in> set cs. cm_record d \<noteq> record_id q"
        using alone q(2) 0 rs by (fastforce simp: in_set_conv_nth)
      then show ?thesis using later_keep[OF cs k1 q(1)] q(2) 0 rs by force
    next
      case (Suc j)
      then have "\<forall>i < length cs. i \<noteq> j \<longrightarrow> cm_record (cs ! i) \<noteq> rc_id (cr_record (rs1 ! j))"
        using alone rs by fastforce
      then show ?thesis using ih k Suc rs by (auto simp: settled_def)
    qed
  qed
  moreover have "kept (set (changed_ids rs)) s s'"
    unfolding rs by (subst changed_ids_Cons, rule kept_trans[OF effect_kept[OF e]]) (use ih in blast)
  moreover have "db_changes s' = db_changes s @ (new1 @ new2) \<and> map summary (new1 @ new2) = log_of a t (c # cs) rs"
    using new by (simp add: rs)
  moreover have "length rs = length (c # cs)" using ih by (simp add: rs)
  ultimately show ?case using out by blast
qed

section \<open>The Fields a request extends\<close>

lemma save_choice_fields_changes:
  "save_choice_fields E a t st is fs s = Inr (r, s') \<Longrightarrow>
     db_records s' = db_records s
     \<and> (\<exists>new. db_changes s' = db_changes s @ new \<and> (\<forall>c \<in> set new. ch_kind c = ''schemaChanged'' \<and> ch_table c = t))"
proof (induction "is" arbitrary: fs s r)
  case Nil
  then show ?case by simp
next
  case (Cons i rest)
  then obtain z s1 config d fs' w where z: "save_choice_field E a t i config d s = Inr (z, s1)"
    and w: "save_choice_fields E a t st rest fs' s1 = Inr (w, s')"
    by (fastforce simp: run_simps split: option.splits)
  have "db_records s1 = db_records s
      \<and> (\<exists>new. db_changes s1 = db_changes s @ new \<and> (\<forall>c \<in> set new. ch_kind c = ''schemaChanged'' \<and> ch_table c = t))"
    using z by (auto simp: save_choice_field_def insert_metadata_change_def insert_change_Inr run_simps split: if_splits)
  then show ?case using Cons.IH[OF w] by fastforce
qed

lemma prepare_mutation_changes:
  "prepare_mutation E a t key cs s = Inr (r, s') \<Longrightarrow>
     db_records s' = db_records s
     \<and> (\<exists>new. db_changes s' = db_changes s @ new \<and> (\<forall>c \<in> set new. ch_kind c = ''schemaChanged'' \<and> ch_table c = t))"
  by (auto simp: prepare_mutation_def prepareChoiceMutation_def run_simps only_draws_def split: if_splits
      dest!: resolve_commands_draws save_choice_fields_changes)

lemma log_of_target: "map target_of cs = map target_of ds \<Longrightarrow> log_of a t cs rs = log_of a t ds rs"
proof (induction cs arbitrary: ds rs)
  case Nil
  then show ?case by simp
next
  case (Cons c cs)
  then obtain d ds' where ds: "ds = d # ds'" "target_of c = target_of d" "map target_of cs = map target_of ds'"
    by (cases ds) auto
  show ?case
    by (cases rs) (use ds Cons.IH[OF ds(3)] outcome_target[OF ds(2)] in auto)
qed

lemma nth_target: "map target_of cs = map target_of ds \<Longrightarrow> k < length ds \<Longrightarrow> target_of (cs ! k) = target_of (ds ! k)"
  by (metis length_map nth_map)

lemma settled_target: "map target_of cs = map target_of ds \<Longrightarrow> settled cs rs s = settled ds rs s"
proof -
  assume m: "map target_of cs = map target_of ds"
  have l: "length cs = length ds" using map_eq_imp_length_eq[OF m] .
  have "cm_record (cs ! j) = cm_record (ds ! j)" if "j < length ds" for j
    using nth_target[OF m that] by (simp add: target_of_def)
  then show ?thesis by (auto simp: settled_def l)
qed

text \<open>What is left of a request once its Fields and its commands are done.\<close>

lemma mutation_work_end:
  assumes "mutation_work E H a t key h cs s = Inr (m, s')"
  shows "\<exists>y s1 s2. lock_active_table a t s = Inr () \<and> prepare_mutation E a t key cs s = Inr (y, s1)
    \<and> applyCommands E H a t key (fst (snd y)) 0 (fst y) s1 = Inr (mr_results m, s2)
    \<and> db_records s' = db_records s2 \<and> db_changes s' = db_changes s2 \<and> db_fields s' = db_fields s2
    \<and> mr_sequence m = change_tail t s2 \<and> mr_choices m = snd (snd y)"
proof -
  have i: "db_records s4 = db_records s3 \<and> db_changes s4 = db_changes s3 \<and> db_fields s4 = db_fields s3"
    if "invalidate_selections E a t ids s3 = Inr s4" for ids s3 s4
    using invalidate_each_Inr[OF that[unfolded invalidate_selections_def]] by auto
  obtain y s1 rs s2 s3 s4 u where l: "lock_active_table a t s = Inr ()" and y: "prepare_mutation E a t key cs s = Inr (y, s1)"
    and r: "applyCommands E H a t key (fst (snd y)) 0 (fst y) s1 = Inr (rs, s2)"
    and v: "invalidate_selections E a t (changed_ids rs) s2 = Inr s3"
    and g: "(if has_choices cs then save_guard a key h s3 else Inr ((), s3)) = Inr (u, s4)"
    and m: "m = \<lparr>mr_mutation = key, mr_results = rs, mr_sequence = change_tail t s3, mr_choices = snd (snd y)\<rparr>"
    and z: "save_idempotent a key h (MutationReceipt m) s4 = Inr ((), s')"
    using assms unfolding mutation_work_def run_simps by auto
  have "db_records s' = db_records s3 \<and> db_changes s' = db_changes s3 \<and> db_fields s' = db_fields s3"
    using g z by (auto simp: save_guard_Inr save_idempotent_Inr split: if_splits)
  moreover have "change_tail t s3 = change_tail t s2" using i[OF v] by (simp add: change_tail_def)
  ultimately show ?thesis using l y r m i[OF v] by auto
qed

section \<open>Properties\<close>

text \<open>C2: a request of Record commands that succeeds and is no replay answers each command: a created Record has
  revision 1, an updated, deleted or restored one the revision its command expected plus one, an update that
  changes nothing keeps the revision. The change log grows by the schema changes of the Options the request
  created and then by exactly one change for each applied command, in their order; a Record that no
  applied command names stays as it is, and each result is what is stored, unless another command of the request
  has the same target.\<close>

theorem mutation_effect:
  assumes "catalog_ok s" "find_receipt actor key s = None"
    and "MutateRecords E H actor t key h cs s = Inr (m, s')"
  shows "length (mr_results m) = length cs \<and> (\<forall>k < length cs. outcome t k (cs ! k) (mr_results m ! k))
    \<and> (\<exists>schema new. db_changes s' = db_changes s @ schema @ new \<and> (\<forall>c \<in> set schema. ch_kind c = ''schemaChanged'')
        \<and> map summary new = log_of actor t cs (mr_results m))
    \<and> kept (set (changed_ids (mr_results m))) s s' \<and> settled cs (mr_results m) s'
    \<and> mr_sequence m = change_tail t s'"
proof -
  obtain s0 i where s0: "db_steps s s0" and w: "mutation_work E H actor t key h cs s0 = Inr (m, s')"
    and e: "s0 = s\<lparr>db_draws := db_draws s + 1, db_operation := i\<rparr>"
    using MutateRecords_fresh[OF assms(3,2)] by blast
  obtain y s1 s2 where y: "prepare_mutation E actor t key cs s0 = Inr (y, s1)"
    and r: "applyCommands E H actor t key (fst (snd y)) 0 (fst y) s1 = Inr (mr_results m, s2)"
    and s': "db_records s' = db_records s2" "db_changes s' = db_changes s2" "mr_sequence m = change_tail t s2"
    using mutation_work_end[OF w] by blast
  have "keys_ok s1" using db_steps_keys[OF rtranclp_trans[OF s0 prepare_mutation_steps[OF y]]] catalog_ok_parts(1)[OF assms(1)] .
  note a = applyCommands_effect[OF r this]
  note p = prepare_mutation_changes[OF y]
  note t = prepare_mutation_target[OF y]
  have l: "length (fst y) = length cs" using map_eq_imp_length_eq[OF t] .
  obtain schema new where log: "db_changes s1 = db_changes s0 @ schema" "\<forall>c \<in> set schema. ch_kind c = ''schemaChanged''"
    "db_changes s2 = db_changes s1 @ new" "map summary new = log_of actor t (fst y) (mr_results m)"
    using a p by auto
  have "outcome t k (cs ! k) (mr_results m ! k)" if "k < length cs" for k
  proof -
    have "outcome t (0 + k) (fst y ! k) (mr_results m ! k)" using a that l by simp
    then show ?thesis using outcome_target[OF nth_target[OF t that]] by simp
  qed
  moreover have "db_changes s' = db_changes s @ schema @ new" "map summary new = log_of actor t cs (mr_results m)"
    using log s' e log_of_target[OF t] by simp_all
  moreover have "kept (set (changed_ids (mr_results m))) s s'"
    using a p e s'(1) by (simp add: kept_def)
  moreover have "settled cs (mr_results m) s'"
    using a s'(1) settled_target[OF t] by (simp add: settled_def)
  moreover have "length (mr_results m) = length cs" using a l by simp
  moreover have "mr_sequence m = change_tail t s'" using s' by (simp add: change_tail_def)
  ultimately show ?thesis using log(2) by blast
qed

end
