(* ===== verification/RecordValid.thy ===== *)
theory RecordValid
  imports RecordChoices RecordResults
begin

text \<open>
  What the writes of Records keep: \<open>records_ok\<close> says that the values of every Record are well formed for the
  Fields of its Table and that its query columns are the projection of its values.
\<close>

section \<open>Rows\<close>

definition row_ok :: "lib \<Rightarrow> fields \<Rightarrow> record_row \<Rightarrow> bool" where
  "row_ok L fs r \<longleftrightarrow> record_ok L fs (rc_values (rr_record r))
     \<and> build_query_projection L (rc_values (rr_record r)) fs = Some (rr_query r, rr_search r)"

definition rows_with :: "lib \<Rightarrow> string \<Rightarrow> fields \<Rightarrow> db \<Rightarrow> bool" where
  "rows_with L t fs s \<longleftrightarrow> (\<forall>r \<in> set (db_records s). rc_table (rr_record r) = t \<longrightarrow> row_ok L fs r)"

definition records_ok :: "lib \<Rightarrow> db \<Rightarrow> bool" where
  "records_ok L s \<longleftrightarrow> (\<forall>r \<in> set (db_records s). row_ok L (loadFieldDefinitions (rc_table (rr_record r)) s) r)"

lemma records_ok_tables: "records_ok L s \<longleftrightarrow> (\<forall>t. rows_with L t (loadFieldDefinitions t s) s)"
  by (auto simp: records_ok_def rows_with_def)

text \<open>Wider definitions accept what they accepted, and project it as before.\<close>

lemma wider_value_ok: "wider f g \<Longrightarrow> value_ok L f v \<Longrightarrow> value_ok L g v"
proof -
  assume w: "wider f g" and v: "value_ok L f v"
  have t: "fe_type g = fe_type f" using w by (simp add: wider_def)
  have o: "known_option f x \<Longrightarrow> known_option g x" for x
    using w by (auto simp: wider_def known_option_def select_options_def)
  have s: "select_options (fe_config f) \<noteq> None \<Longrightarrow> select_options (fe_config g) \<noteq> None"
    using w by (auto simp: wider_def select_options_def)
  have a: "max_attachments g = max_attachments f"
    using w by (auto simp: wider_def max_attachments_def attachment_config_def)
  show ?thesis using v s unfolding value_ok_def t a
    by (auto simp: is_text_def is_array_def list_all_iff split: json.splits if_splits intro: o)
qed

lemma wider_project: "wider f g \<Longrightarrow> project_value L g v = project_value L f v"
  by (simp add: wider_def project_value_def)

lemma wider_project_loop: "wider_definitions fs gs \<Longrightarrow> project_loop L gs vs keys = project_loop L fs vs keys"
proof (induction keys)
  case Nil
  then show ?case by simp
next
  case (Cons k keys)
  have w: "rel_option wider (fmlookup fs k) (fmlookup gs k)" using Cons.prems by (simp add: wider_definitions_def)
  show ?case
  proof (cases "fmlookup fs k")
    case None
    then show ?thesis using w Cons by simp
  next
    case (Some f)
    then obtain g where g: "fmlookup gs k = Some g" "wider f g" using w by (cases "fmlookup gs k") auto
    then have "fe_deleted_at g = fe_deleted_at f" by (simp add: wider_def)
    then show ?thesis using Cons Some g wider_project[OF g(2)] by (simp cong: option.case_cong)
  qed
qed

lemma wider_record_ok:
  assumes "wider_definitions fs gs" "record_ok L fs m"
  shows "record_ok L gs m"
  unfolding record_ok_def
proof (intro allI impI)
  fix k v g assume a: "fmlookup m k = Some v" "fmlookup gs k = Some g" "fe_deleted_at g = None"
  have "rel_option wider (fmlookup fs k) (fmlookup gs k)" using assms(1) by (simp add: wider_definitions_def)
  then obtain f where f: "fmlookup fs k = Some f" "wider f g" using a(2) by (cases "fmlookup fs k") auto
  then have "value_ok L f v" using assms(2) a by (auto simp: record_ok_def wider_def)
  then show "value_ok L g v" by (rule wider_value_ok[OF f(2)])
qed

lemma wider_row_ok: "wider_definitions fs gs \<Longrightarrow> row_ok L fs r \<Longrightarrow> row_ok L gs r"
  using wider_project_loop[of fs gs L] wider_record_ok by (simp add: row_ok_def build_query_projection_def)

lemma wider_rows_with: "wider_definitions fs gs \<Longrightarrow> rows_with L t fs s \<Longrightarrow> rows_with L t gs s"
  using wider_row_ok by (auto simp: rows_with_def)

lemma same_wider:
  assumes "same_definitions fs gs"
  shows "wider_definitions fs gs" "wider_definitions gs fs"
proof -
  have c: "map_option core (fmlookup fs k) = map_option core (fmlookup gs k)" for k
    using assms by (simp add: same_definitions_def)
  have "rel_option wider (fmlookup fs k) (fmlookup gs k) \<and> rel_option wider (fmlookup gs k) (fmlookup fs k)" for k
    using c[of k] by (cases "fmlookup fs k"; cases "fmlookup gs k") (auto simp: core_def wider_def)
  then show "wider_definitions fs gs" "wider_definitions gs fs" by (simp_all add: wider_definitions_def)
qed

section \<open>What the normalisation gives\<close>

lemma create_values_row:
  assumes "lib_ok L" "NormalizeCreateValues L vs fds = Inr (Some (m, q, x))"
  shows "record_ok L fds m \<and> build_query_projection L m fds = Some (q, x)"
proof -
  let ?st = "write_values L ''/values/'' vs fmempty fds (fm_keys vs) (fmempty, [])"
  have none: "snd ?st = []" and m: "m = fst ?st" "build_query_projection L m fds = Some (q, x)"
    using assms(2) by (auto simp: NormalizeCreateValues_def finish_values_def)
  have "record_ok L fds (fst ?st)"
    by (rule record_ok_write[OF assms(1) _ none distinct_fm_keys]) (simp add: record_ok_def)
  then show ?thesis using m by simp
qed

lemma update_values_row:
  assumes "lib_ok L" "record_ok L fds current" "NormalizeUpdatedValues L current set' unset fds = Inr (Some (m, q, x))"
  shows "record_ok L fds m \<and> build_query_projection L m fds = Some (q, x)"
proof -
  let ?u = "unset_loop set' fds 0 [] unset (current, [])"
  let ?st = "write_values L ''/set/'' set' current fds (fm_keys set') (fst ?u, [])"
  have u: "snd ?u = []" and none: "snd ?st = []" and m: "m = fst ?st" "build_query_projection L m fds = Some (q, x)"
    using assms(3) by (auto simp: NormalizeUpdatedValues_def finish_values_def split: prod.splits)
  have "record_ok L fds (fst ?u)" using assms(2) unset_loop_ok[OF u] by (simp add: record_ok_drop)
  then have "record_ok L fds (fst ?st)" by (intro record_ok_write[OF assms(1) _ none distinct_fm_keys]) simp
  then show ?thesis using m by simp
qed

section \<open>Commands\<close>

lemma log_record_rows: "log_record E H a fs n k d item s = Inr (r, s') \<Longrightarrow> rows_with L t gs s' = rows_with L t gs s"
  using log_record_Inr[of E H a fs n k d item s r s'] by (simp add: rows_with_def)

lemma insertRecord_rows:
  assumes "insertRecord H i t vs q x s = Inr (created, s')" "rows_with L u gs s"
    and "u = t \<Longrightarrow> record_ok L gs vs \<and> build_query_projection L vs gs = Some (q, x)"
  shows "rows_with L u gs s'"
  using insertRecord_Inr[OF assms(1)] assms(2,3) by (auto simp: rows_with_def row_ok_def)

lemma applyCommand_rows:
  assumes L: "lib_ok L" "en_lib E = L" and k: "keys_ok s"
    and rows: "rows_with L t fs s" and c: "applyCommand E H a t key fs n c s = Inr (r, s')"
  shows "rows_with L t fs s'"
proof -
  have create: "rows_with L t fs s'" if a: "applyCreateRecord E H a t n c fs s = Inr (r, s')"
  proof -
    obtain vs q x i s1 created s2 where nv: "NormalizeCreateValues L (nil_map (cm_values c)) fs = Inr (Some (vs, q, x))"
      and i: "draw_id E ''generate record ID'' RecordPrefix s = Inr (i, s1)"
      and ins: "insertRecord H i t vs q x s1 = Inr (created, s2)"
      and l: "log_record E H a fs n ''recordCreated'' [] created s2 = Inr (r, s')"
      using a L(2) by (auto simp: applyCreateRecord_def run_simps)
    have "rows_with L t fs s1" using i rows by (auto simp: draw_id_Inr rows_with_def)
    then have "rows_with L t fs s2" by (rule insertRecord_rows[OF ins]) (rule create_values_row[OF L(1) nv])
    then show ?thesis by (simp add: log_record_rows[OF l])
  qed
  have update: "rows_with L t fs s'" if u: "applyUpdateRecord E H a t key n c fs s = Inr (r, s')"
  proof -
    obtain cur vs q x where cur: "lockRecord t (cm_record c) s = Inr cur"
      and nv: "NormalizeUpdatedValues L (rc_values cur) (nil_map (cm_set c)) (cm_unset c) fs = Inr (Some (vs, q, x))"
      and w: "s' = s \<or> (\<exists>diff item s1. write_record ''update record values'' (value_columns vs q x (db_now s)) (rc_id cur) s = Inr (item, s1)
          \<and> log_record E H a fs n ''recordUpdated'' diff item s1 = Inr (r, s'))"
      using applyUpdateRecord_Inr[OF u] L(2) by blast
    have "record_ok L fs (rc_values cur)" using lockRecord_Inr[OF cur] rows by (auto simp: rows_with_def row_ok_def)
    note ok = update_values_row[OF L(1) this nv]
    show ?thesis using w
    proof (elim disjE exE conjE)
      fix diff item s1
      assume wr: "write_record ''update record values'' (value_columns vs q x (db_now s)) (rc_id cur) s = Inr (item, s1)"
        and l: "log_record E H a fs n ''recordUpdated'' diff item s1 = Inr (r, s')"
      have "rows_with L t fs s1"
        using write_record_Inr[OF wr] rows ok by (auto simp: rows_with_def row_ok_def set_update_where value_columns_def)
      then show ?thesis by (simp add: log_record_rows[OF l])
    qed (use rows in simp)
  qed
  have life: "rows_with L t fs s'" if u: "applyRecordLifecycle E H a t key n c fs d s = Inr (r, s')" for d
  proof -
    obtain cur item s1 where cur: "lockRecord t (cm_record c) s = Inr cur"
      and wr: "write_record ''update record lifecycle'' (deleted_columns d (db_now s)) (rc_id cur) s = Inr (item, s1)"
      and l: "log_record E H a fs n (if d then ''recordDeleted'' else ''recordRestored'') [] item s1 = Inr (r, s')"
      using u by (auto simp: applyRecordLifecycle_def setRecordDeleted_def run_simps split: if_splits)
    have "rows_with L t fs s1"
      using write_record_Inr[OF wr] rows by (auto simp: rows_with_def row_ok_def set_update_where deleted_columns_def)
    then show ?thesis by (simp add: log_record_rows[OF l])
  qed
  show ?thesis using c create update life by (auto simp: applyCommand_def split: if_splits)
qed

lemma applyCommands_rows:
  assumes L: "lib_ok L" "en_lib E = L"
  shows "applyCommands E H a t key fs n cs s = Inr (rs, s') \<Longrightarrow> keys_ok s \<Longrightarrow> rows_with L t fs s \<Longrightarrow> rows_with L t fs s'"
proof (induction cs arbitrary: n s rs)
  case Nil
  then show ?case by simp
next
  case (Cons c cs)
  obtain r s1 rs1 where c: "applyCommand E H a t key fs n c s = Inr (r, s1)"
    and cs: "applyCommands E H a t key fs (Suc n) cs s1 = Inr (rs1, s')"
    using Cons.prems(1) by (auto simp: run_simps)
  show ?case
    using Cons.IH[OF cs db_steps_keys[OF applyCommand_steps[OF c] Cons.prems(2)] applyCommand_rows[OF L Cons.prems(2,3) c]] .
qed

section \<open>Requests\<close>

lemma applyCommand_fields: "applyCommand E H a t key fs n c s = Inr (r, s') \<Longrightarrow> db_fields s' = db_fields s"
  by (auto simp: applyCommand_def applyCreateRecord_def applyUpdateRecord_def applyRecordLifecycle_def log_record_def
      applied_def updateRecordValues_def setRecordDeleted_def insertRecordChange_def insert_change_Inr draw_id_Inr
      run_simps split: if_splits dest!: insertRecord_Inr write_record_Inr)

lemma applyCommands_fields: "applyCommands E H a t key fs n cs s = Inr (rs, s') \<Longrightarrow> db_fields s' = db_fields s"
proof (induction cs arbitrary: n s rs)
  case Nil
  then show ?case by simp
next
  case (Cons c cs)
  obtain r s1 rs1 where c: "applyCommand E H a t key fs n c s = Inr (r, s1)"
    and cs: "applyCommands E H a t key fs (Suc n) cs s1 = Inr (rs1, s')"
    using Cons.prems(1) by (auto simp: run_simps)
  show ?case using Cons.IH[OF cs] applyCommand_fields[OF c] by simp
qed

lemma definitions_cong: "db_fields s' = db_fields s \<Longrightarrow> loadFieldDefinitions t s' = loadFieldDefinitions t s"
  by (simp add: loadFieldDefinitions_def table_fields_def)

lemma records_ok_cong: "db_records s' = db_records s \<Longrightarrow> db_fields s' = db_fields s \<Longrightarrow> records_ok L s' = records_ok L s"
  unfolding records_ok_def using definitions_cong[of s' s] by simp

text \<open>A request touches the Fields of its Table alone.\<close>

lemma save_choice_field_elsewhere:
  assumes save: "save_choice_field E a t i config d s = Inr (d', s')" and k: "keys_ok s"
    and r: "field_in t i s = Some r" and u: "u \<noteq> t"
  shows "field_in u k s' = field_in u k s"
proof -
  have "field_id q \<noteq> i" if q: "field_in u k s = Some q" for q
  proof
    assume "field_id q = i"
    then have "q = r"
      using key_unique[OF keys_fields[OF k]] field_in_id[OF q] field_in_id[OF r] by simp
    then show False using field_in_id[OF q] field_in_id[OF r] u by simp
  qed
  then show ?thesis using save_choice_field_fields[OF save, of u k] by (cases "field_in u k s") auto
qed

lemma save_choice_field_kept:
  "save_choice_field E a t i config d s = Inr (d', s') \<Longrightarrow> field_in u k s' = None \<longleftrightarrow> field_in u k s = None"
  by (simp add: save_choice_field_fields)

lemma save_choice_fields_elsewhere:
  assumes "save_choice_fields E a t st is fs s = Inr (r, s')" "keys_ok s" "u \<noteq> t"
    and "\<forall>i \<in> set is. field_in t i s \<noteq> None"
  shows "field_in u k s' = field_in u k s"
  using assms
proof (induction "is" arbitrary: fs s r)
  case Nil
  then show ?case by simp
next
  case (Cons i rest)
  obtain z s1 config d fs1 w where z: "save_choice_field E a t i config d s = Inr (z, s1)"
    and w: "save_choice_fields E a t st rest fs1 s1 = Inr (w, s')"
    using Cons.prems(1) by (fastforce simp: run_simps split: option.splits)
  obtain q where q: "field_in t i s = Some q" using Cons.prems(4) by auto
  have more: "\<forall>j \<in> set rest. field_in t j s1 \<noteq> None"
    using Cons.prems(4) save_choice_field_kept[OF z] by simp
  show ?case
    using Cons.IH[OF w db_steps_keys[OF save_choice_field_steps[OF z] Cons.prems(2)] Cons.prems(3) more]
      save_choice_field_elsewhere[OF z Cons.prems(2) q Cons.prems(3)] by simp
qed

lemma list_all2_member: "list_all2 P xs ys \<Longrightarrow> x \<in> set xs \<Longrightarrow> \<exists>y. P x y"
  by (induction rule: list_all2_induct) auto

lemma prepare_mutation_definitions:
  assumes L: "lib_ok L" "en_lib E = L" and st: "stored_ok L s" and k: "keys_ok s"
    and f: "fresh_source (en_ids E) used" "\<forall>r \<in> set (db_fields s). config_ids (fd_config (fr_field r)) \<subseteq> used"
    and v: "\<forall>c \<in> set input. list_all (choice_ok L) (cm_choices c)"
    and p: "prepare_mutation E a t key input s = Inr ((cs, fs, ds), s')"
  shows "same_definitions fs (loadFieldDefinitions t s')
    \<and> wider_definitions (loadFieldDefinitions t s) (loadFieldDefinitions t s') \<and> stored_ok L s'
    \<and> (\<forall>u. u \<noteq> t \<longrightarrow> loadFieldDefinitions u s' = loadFieldDefinitions u s)"
proof (cases "has_choices input")
  case False
  then show ?thesis using p st by (auto simp: prepare_mutation_def same_definitions_def)
next
  case True
  then have c: "prepareChoiceMutation E a t key input s = Inr ((cs, fs, ds), s')"
    using p by (simp add: prepare_mutation_def)
  obtain found y s1 where found: "each_ok (lock_choice_field t key s) (choice_fields input) = Inr found"
    and s1: "\<exists>n. s1 = s\<lparr>db_draws := n\<rparr>"
    and save: "save_choice_fields E a t y (map fst (choice_fields input)) (loadFieldDefinitions t s) s1 = Inr ((fs, ds), s')"
    using c unfolding prepareChoiceMutation_def run_simps
    by (auto simp: Let_def only_draws_def dest!: resolve_commands_draws)
  have "field_in t i s \<noteq> None" if i: "i \<in> set (map fst (choice_fields input))" for i
  proof -
    obtain m where m: "m \<in> set (choice_fields input)" "i = fst m" using i by auto
    have "\<exists>z. lock_choice_field t key s m = Inr z"
      using list_all2_member[OF found[unfolded each_ok_Inr_iff] m(1)] .
    then obtain f c where "lock_choice_field t key s m = Inr (f, c)" by auto
    from lock_choice_field_Inr[OF this st] show ?thesis using m(2) by auto
  qed
  moreover have "field_in t i s1 = field_in t i s" for i using s1 by (auto simp: field_in_def)
  ultimately have "\<forall>i \<in> set (map fst (choice_fields input)). field_in t i s1 \<noteq> None" by metis
  then have "loadFieldDefinitions u s' = loadFieldDefinitions u s" if "u \<noteq> t" for u
    using save_choice_fields_elsewhere[OF save _ that] s1 k
    by (intro fmap_ext) (auto simp: lookup_definitions keys_ok_def field_in_def)
  then show ?thesis using prepare_choices_definitions[OF L st k f v c] by blast
qed

lemma stored_ok_fields:
  "db_fields s' = db_fields s \<Longrightarrow> db_workspaces s' = db_workspaces s \<Longrightarrow> db_bases s' = db_bases s \<Longrightarrow>
     db_tables s' = db_tables s \<Longrightarrow> db_views s' = db_views s \<Longrightarrow> stored_ok L s' = stored_ok L s"
  by (simp add: stored_ok_def)

lemma applyCommand_catalog:
  "applyCommand E H a t key fs n c s = Inr (r, s') \<Longrightarrow> db_workspaces s' = db_workspaces s \<and> db_bases s' = db_bases s
     \<and> db_tables s' = db_tables s \<and> db_views s' = db_views s"
  by (auto simp: applyCommand_def applyCreateRecord_def applyUpdateRecord_def applyRecordLifecycle_def log_record_def
      applied_def updateRecordValues_def setRecordDeleted_def insertRecordChange_def insert_change_Inr draw_id_Inr
      run_simps split: if_splits dest!: insertRecord_Inr write_record_Inr)

lemma applyCommands_stored: "applyCommands E H a t key fs n cs s = Inr (rs, s') \<Longrightarrow> stored_ok L s' = stored_ok L s"
proof (induction cs arbitrary: n s rs)
  case Nil
  then show ?case by simp
next
  case (Cons c cs)
  obtain r s1 rs1 where c: "applyCommand E H a t key fs n c s = Inr (r, s1)"
    and cs: "applyCommands E H a t key fs (Suc n) cs s1 = Inr (rs1, s')"
    using Cons.prems(1) by (auto simp: run_simps)
  have "stored_ok L s1 = stored_ok L s"
    using stored_ok_fields applyCommand_fields[OF c] applyCommand_catalog[OF c] by blast
  then show ?case using Cons.IH[OF cs] by simp
qed

text \<open>Nor does it touch the Records of another Table.\<close>

lemma applyCommand_elsewhere:
  assumes k: "keys_ok s" and c: "applyCommand E H a t key fs n c s = Inr (r, s')"
    and q: "q \<in> set (db_records s')" "rc_table (rr_record q) \<noteq> t"
  shows "q \<in> set (db_records s)"
proof -
  have wrote: "q \<in> set (db_records s)"
    if l: "lockRecord t i s = Inr cur" and w: "write_record what f (rc_id cur) s = Inr (item, s1)" and f: "keeps_record f"
      and e: "db_records s' = db_records s1" for i cur what f item s1
  proof -
    obtain p where p: "p \<in> set (db_records s)" "rr_record p = cur" "rc_table cur = t" using lockRecord_Inr[OF l] by blast
    have "x = p" if "x \<in> set (db_records s)" "record_id x = rc_id cur" for x
      using key_unique[of record_id "db_records s" x p] k that p by (simp add: keys_ok_def)
    then have "q \<noteq> f x" if "x \<in> set (db_records s)" "record_id x = rc_id cur" for x
      using that q(2) f p(2,3) by auto
    moreover have "q \<in> set (update_where (\<lambda>r. record_id r = rc_id cur) f (db_records s))"
      using q(1) write_record_Inr[OF w] e by simp
    ultimately show ?thesis by (auto simp: set_update_where)
  qed
  have "q \<in> set (db_records s)" if a: "applyCreateRecord E H a t n c fs s = Inr (r, s')"
    using a q by (auto simp: applyCreateRecord_def run_simps draw_id_Inr dest!: insertRecord_Inr log_record_Inr)
  moreover have "q \<in> set (db_records s)" if a: "applyUpdateRecord E H a t key n c fs s = Inr (r, s')"
    using applyUpdateRecord_Inr[OF a] q log_record_Inr wrote
    by (elim exE conjE disjE) (simp, metis record_columns(1))
  moreover have "q \<in> set (db_records s)" if a: "applyRecordLifecycle E H a t key n c fs d s = Inr (r, s')" for d
  proof -
    obtain cur item s1 where "lockRecord t (cm_record c) s = Inr cur"
        "write_record ''update record lifecycle'' (deleted_columns d (db_now s)) (rc_id cur) s = Inr (item, s1)"
      and l: "log_record E H a fs n (if d then ''recordDeleted'' else ''recordRestored'') [] item s1 = Inr (r, s')"
      using a by (auto simp: applyRecordLifecycle_def setRecordDeleted_def run_simps split: if_splits)
    then show ?thesis using wrote log_record_Inr[OF l] by simp
  qed
  ultimately show ?thesis using c by (auto simp: applyCommand_def split: if_splits)
qed

lemma applyCommands_elsewhere:
  "applyCommands E H a t key fs n cs s = Inr (rs, s') \<Longrightarrow> keys_ok s \<Longrightarrow> u \<noteq> t \<Longrightarrow> rows_with L u gs s \<Longrightarrow> rows_with L u gs s'"
proof (induction cs arbitrary: n s rs)
  case Nil
  then show ?case by simp
next
  case (Cons c cs)
  obtain r s1 rs1 where c: "applyCommand E H a t key fs n c s = Inr (r, s1)"
    and cs: "applyCommands E H a t key fs (Suc n) cs s1 = Inr (rs1, s')"
    using Cons.prems(1) by (auto simp: run_simps)
  have "rows_with L u gs s1"
    using Cons.prems(3,4) applyCommand_elsewhere[OF Cons.prems(2) c] by (auto simp: rows_with_def)
  then show ?case
    using Cons.IH[OF cs db_steps_keys[OF applyCommand_steps[OF c] Cons.prems(2)] Cons.prems(3)] by blast
qed

lemma mutation_work_stored:
  assumes "mutation_work E H a t key h input s = Inr (m, s')"
  shows "\<exists>cs fs ds s1 rs s2. prepare_mutation E a t key input s = Inr ((cs, fs, ds), s1)
    \<and> applyCommands E H a t key fs 0 cs s1 = Inr (rs, s2)
    \<and> db_records s' = db_records s2 \<and> db_fields s' = db_fields s2 \<and> stored_ok L s' = stored_ok L s2"
proof -
  obtain cs fs ds s1 rs s2 s3 s4 u rc where p: "prepare_mutation E a t key input s = Inr ((cs, fs, ds), s1)"
    and r: "applyCommands E H a t key fs 0 cs s1 = Inr (rs, s2)"
    and v: "invalidate_selections E a t (changed_ids rs) s2 = Inr s3"
    and g: "(if has_choices input then save_guard a key h s3 else Inr ((), s3)) = Inr (u, s4)"
    and z: "save_idempotent a key h rc s4 = Inr ((), s')"
    using assms unfolding mutation_work_def run_simps by auto
  have i: "\<exists>x. s3 = s2\<lparr>db_scopes := x\<rparr>"
    using invalidate_each_Inr[OF v[unfolded invalidate_selections_def]] by blast
  have "db_records s' = db_records s2 \<and> db_fields s' = db_fields s2"
    using g z i by (auto simp: save_guard_Inr save_idempotent_Inr split: if_splits)
  moreover have "stored_ok L s' = stored_ok L s2"
    using g part_stored(5)[OF z] part_stored(7)[OF v] part_stored(6)[of a key h s3 u s4] by (auto split: if_splits)
  ultimately show ?thesis using p r by blast
qed

lemma mutation_work_keeps:
  assumes L: "lib_ok L" "en_lib E = L" and st: "stored_ok L s" and k: "keys_ok s"
    and f: "fresh_source (en_ids E) used" "\<forall>r \<in> set (db_fields s). config_ids (fd_config (fr_field r)) \<subseteq> used"
    and v: "\<forall>c \<in> set input. list_all (choice_ok L) (cm_choices c)"
    and w: "mutation_work E H a t key h input s = Inr (m, s')"
  shows "stored_ok L s' \<and> (records_ok L s \<longrightarrow> records_ok L s')"
proof -
  obtain cs fs ds s1 rs s2 where p: "prepare_mutation E a t key input s = Inr ((cs, fs, ds), s1)"
    and r: "applyCommands E H a t key fs 0 cs s1 = Inr (rs, s2)"
    and s': "db_records s' = db_records s2" "db_fields s' = db_fields s2" "stored_ok L s' = stored_ok L s2"
    using mutation_work_stored[OF w] by blast
  note d = prepare_mutation_definitions[OF L st k f v p]
  have recs: "db_records s1 = db_records s" using prepare_mutation_changes[OF p] by simp
  have k1: "keys_ok s1" using db_steps_keys[OF prepare_mutation_steps[OF p] k] .
  have f2: "loadFieldDefinitions u s2 = loadFieldDefinitions u s1" for u
    using definitions_cong[OF applyCommands_fields[OF r]] .
  have "records_ok L s2" if ok: "records_ok L s"
    unfolding records_ok_tables
  proof
    fix u
    have u: "rows_with L u (loadFieldDefinitions u s) s1"
      using ok recs by (simp add: records_ok_tables rows_with_def)
    show "rows_with L u (loadFieldDefinitions u s2) s2"
    proof (cases "u = t")
      case True
      then have "rows_with L t (loadFieldDefinitions t s1) s1" using u d wider_rows_with by blast
      then have "rows_with L t fs s1" using same_wider(2) d wider_rows_with by blast
      then have "rows_with L t fs s2" by (rule applyCommands_rows[OF L r k1])
      then have "rows_with L t (loadFieldDefinitions t s1) s2" using same_wider(1) d wider_rows_with by blast
      then show ?thesis using True by (simp add: f2)
    next
      case False
      then have "rows_with L u (loadFieldDefinitions u s2) s1" using u d by (simp add: f2)
      then show ?thesis using applyCommands_elsewhere[OF r k1 False] by blast
    qed
  qed
  then show ?thesis using d applyCommands_stored[OF r] s' records_ok_cong[OF s'(1,2)] by blast
qed

section \<open>Runs of Record requests\<close>

definition option_ids :: "db \<Rightarrow> string set" where
  "option_ids s = (\<Union>r \<in> set (db_fields s). config_ids (fd_config (fr_field r)))"

definition env_ok :: "lib \<Rightarrow> env \<Rightarrow> db \<Rightarrow> bool" where
  "env_ok L E s \<longleftrightarrow> en_lib E = L \<and> fresh_source (en_ids E) (option_ids s)"

lemma stored_draws: "stored_ok L (s\<lparr>db_draws := n, db_operation := i\<rparr>) = stored_ok L s"
  by simp

lemma MutateRecords_keeps:
  assumes L: "lib_ok L" and E: "env_ok L E s" and st: "stored_ok L s" and k: "keys_ok s"
    and v: "\<forall>c \<in> set input. list_all (choice_ok L) (cm_choices c)"
    and m: "MutateRecords E H a t key h input s = Inr (m, s')"
  shows "stored_ok L s' \<and> (records_ok L s \<longrightarrow> records_ok L s')"
proof -
  obtain i where i: "s' = s\<lparr>db_draws := db_draws s + 1, db_operation := i\<rparr>
      \<or> mutation_work E H a t key h input (s\<lparr>db_draws := db_draws s + 1, db_operation := i\<rparr>) = Inr (m, s')"
    using m by (auto simp: MutateRecords_def idempotent_Inr Let_def)
  let ?s = "s\<lparr>db_draws := db_draws s + 1, db_operation := i\<rparr>"
  have same: "records_ok L ?s = records_ok L s" by (rule records_ok_cong) simp_all
  from i show ?thesis
  proof
    assume "s' = ?s"
    then show ?thesis using same st by simp
  next
    assume w: "mutation_work E H a t key h input ?s = Inr (m, s')"
    have "fresh_source (en_ids E) (option_ids s)" "en_lib E = L" using E by (simp_all add: env_ok_def)
    from mutation_work_keeps[OF L this(2) _ _ this(1) _ v w] show ?thesis
      using st k same by (auto simp: option_ids_def keys_ok_def)
  qed
qed

lemma rows_cong:
  assumes "\<forall>r \<in> set (db_records s'). \<exists>q \<in> set (db_records s). rc_table (rr_record r) = rc_table (rr_record q)
      \<and> rc_values (rr_record r) = rc_values (rr_record q) \<and> rr_query r = rr_query q \<and> rr_search r = rr_search q"
    and "db_fields s' = db_fields s" "records_ok L s"
  shows "records_ok L s'"
  unfolding records_ok_def
proof
  fix r assume "r \<in> set (db_records s')"
  then obtain q where q: "q \<in> set (db_records s)" "rc_table (rr_record r) = rc_table (rr_record q)"
    "rc_values (rr_record r) = rc_values (rr_record q)" "rr_query r = rr_query q" "rr_search r = rr_search q"
    using assms(1) by blast
  have "row_ok L (loadFieldDefinitions (rc_table (rr_record q)) s) q" using assms(3) q(1) by (simp add: records_ok_def)
  then show "row_ok L (loadFieldDefinitions (rc_table (rr_record r)) s') r"
    using q definitions_cong[OF assms(2)] by (simp add: row_ok_def)
qed

lemma MoveRecord_keeps:
  assumes m: "MoveRecord E H a t i before after s = Inr (x, s')"
  shows "stored_ok L s' = stored_ok L s \<and> (records_ok L s \<longrightarrow> records_ok L s')"
proof -
  obtain p item s1 s2 where a: "begin_audit E a s = Inr ((), s1)"
    and w: "write_record ''move record'' (position_columns p (db_now s1)) i s1 = Inr (item, s2)"
    and c: "insertRecordChange E a item ''recordMoved'' []
      (primaryFieldText H (rc_values item) (loadFieldDefinitions t s2)) s2 = Inr ((), s')"
    using m by (auto simp: MoveRecord_def finishRecordOrderChange_def run_simps)
  have s': "db_records s' = db_records s2" "db_fields s' = db_fields s2" "stored_ok L s' = stored_ok L s2"
    using c part_stored(2) by (auto simp: insertRecordChange_def insert_change_Inr)
  have s2: "db_records s2 = update_where (\<lambda>r. record_id r = i) (position_columns p (db_now s1)) (db_records s)"
    "db_fields s2 = db_fields s" "stored_ok L s2 = stored_ok L s"
    using a write_record_Inr[OF w] by (auto simp: begin_audit_Inr stored_ok_def)
  have "records_ok L s'" if ok: "records_ok L s"
    by (rule rows_cong[OF _ _ ok]) (use s' s2 in \<open>auto simp: set_update_where position_columns_def\<close>)
  then show ?thesis using s' s2 by simp
qed

lemma DuplicateRecord_keeps:
  assumes L: "lib_ok L" "en_lib E = L" and m: "DuplicateRecord E H a t i s = Inr (x, s')"
  shows "stored_ok L s' = stored_ok L s \<and> (records_ok L s \<longrightarrow> records_ok L s')"
proof -
  obtain cur :: rec and vs q found j created s1 s2 s3 s4 where a: "begin_audit E a s = Inr ((), s1)"
    and n: "NormalizeCreateValues L (rc_values cur) (loadFieldDefinitions t s1) = Inr (Some (vs, q, found))"
    and d: "draw_id E ''generate record ID'' RecordPrefix s1 = Inr (j, s2)"
    and ins: "insertRecord H j t vs q found s2 = Inr (created, s3)"
    and c: "insertRecordChange E a created ''recordCreated'' []
      (primaryFieldText H (rc_values created) (loadFieldDefinitions t s1)) s3 = Inr ((), s4)"
    and v: "invalidate_selections E a t [rc_id created] s4 = Inr s'"
    using m L(2) by (auto simp: DuplicateRecord_def finishRecordOrderChange_def run_simps)
  have s': "db_records s' = db_records s3" "db_fields s' = db_fields s3" "stored_ok L s' = stored_ok L s3"
    using c part_stored(2) part_stored(7)[OF v] invalidate_each_Inr[OF v[unfolded invalidate_selections_def]]
    by (auto simp: insertRecordChange_def insert_change_Inr)
  have s2: "db_records s2 = db_records s" "db_fields s2 = db_fields s" "stored_ok L s2 = stored_ok L s"
    using a d by (auto simp: begin_audit_Inr draw_id_Inr)
  have s3: "db_fields s3 = db_fields s" "stored_ok L s3 = stored_ok L s"
    using insertRecord_Inr[OF ins] s2 by (auto simp: stored_ok_def)
  have defs: "loadFieldDefinitions u s1 = loadFieldDefinitions u s" "loadFieldDefinitions u s3 = loadFieldDefinitions u s" for u
    using a definitions_cong[OF s3(1)] by (auto simp: begin_audit_Inr loadFieldDefinitions_def table_fields_def)
  have "records_ok L s'" if ok: "records_ok L s"
  proof -
    have "rows_with L u (loadFieldDefinitions u s) s2" for u
      using ok s2(1) by (simp add: records_ok_tables rows_with_def)
    then have "rows_with L u (loadFieldDefinitions u s) s3" for u
      by (rule insertRecord_rows[OF ins]) (use create_values_row[OF L(1) n] defs in simp)
    then have "records_ok L s3" by (simp add: records_ok_tables defs)
    then show ?thesis using records_ok_cong[OF s'(1,2)] by simp
  qed
  then show ?thesis using s' s3 by simp
qed

text \<open>A request that the service lets through, or time that passes.\<close>

inductive record_step :: "lib \<Rightarrow> db \<Rightarrow> db \<Rightarrow> bool" for L where
  mutate: "env_ok L E s \<Longrightarrow> Record_Mutate E H J C key0 actor t key cs s = (x, s') \<Longrightarrow> record_step L s s'"
| move: "env_ok L E s \<Longrightarrow> Record_Move E H C key0 actor t i r s = (y, s') \<Longrightarrow> record_step L s s'"
| duplicate: "env_ok L E s \<Longrightarrow> Record_Duplicate E H C key0 actor t i s = (y, s') \<Longrightarrow> record_step L s s'"
| time_passes: "db_now s \<le> now \<Longrightarrow> record_step L s (s\<lparr>db_now := now\<rparr>)"

abbreviation record_run :: "lib \<Rightarrow> db \<Rightarrow> db \<Rightarrow> bool" where
  "record_run L \<equiv> (record_step L)\<^sup>*\<^sup>*"

lemma answer_state: "answer r f s = (x, s') \<Longrightarrow> s' = s \<or> (\<exists>y. r = Inr (y, s'))"
  by (auto simp: answer_def split: sum.splits)

lemma Record_Mutate_state:
  "Record_Mutate E H J C key0 a t key cs s = (x, s') \<Longrightarrow>
     s' = s \<or> (\<exists>h m. validate_commands (en_lib E) cs = Inr () \<and> MutateRecords E H a t key h cs s = Inr (m, s'))"
  by (auto simp: Record_Mutate_def mutate_checks_def run_simps split: sum.splits dest!: answer_state)

lemma Record_Move_state:
  "Record_Move E H C key0 a t i r s = (x, s') \<Longrightarrow> s' = s \<or> (\<exists>b c m. MoveRecord E H a t i b c s = Inr (m, s'))"
  by (auto simp: Record_Move_def split: sum.splits if_splits dest!: answer_state)

lemma Record_Duplicate_state:
  "Record_Duplicate E H C key0 a t i s = (x, s') \<Longrightarrow> s' = s \<or> (\<exists>m. DuplicateRecord E H a t i s = Inr (m, s'))"
  by (auto simp: Record_Duplicate_def split: sum.splits dest!: answer_state)

lemma validated_choices: "validate_commands L cs = Inr () \<Longrightarrow> \<forall>c \<in> set cs. list_all (choice_ok L) (cm_choices c)"
  by (auto simp: validate_commands_def Let_def validate_choices_Nil_iff choices_ok_def list_all_iff)

lemma record_step_steps: "record_step L s s' \<Longrightarrow> db_steps s s'"
  by (induction rule: record_step.induct)
    (auto dest!: Record_Mutate_state Record_Move_state Record_Duplicate_state
      intro: MutateRecords_steps MoveRecord_steps DuplicateRecord_steps one_step clock)

lemma record_step_keeps:
  assumes "record_step L s s'" "lib_ok L" "keys_ok s" "stored_ok L s"
  shows "stored_ok L s' \<and> (records_ok L s \<longrightarrow> records_ok L s')"
  using assms
proof (induction rule: record_step.induct)
  case (mutate E s H J C key0 actor t key cs x s')
  then show ?case
    using MutateRecords_keeps[OF mutate.prems(1) mutate.hyps(1) mutate.prems(3,2) validated_choices]
      Record_Mutate_state[OF mutate.hyps(2)] by (auto simp: env_ok_def)
next
  case (move E s H C key0 actor t i r y s')
  then show ?case using MoveRecord_keeps Record_Move_state[OF move.hyps(2)] by blast
next
  case (duplicate E s H C key0 actor t i y s')
  then show ?case using DuplicateRecord_keeps Record_Duplicate_state[OF duplicate.hyps(2)] by (auto simp: env_ok_def)
next
  case (time_passes s now)
  have "records_ok L (s\<lparr>db_now := now\<rparr>) = records_ok L s" by (rule records_ok_cong) simp_all
  then show ?case using time_passes by simp
qed

text \<open>C3: along every run of Record requests, of whatever Actors and Tables, every Record keeps values that are well
  formed for the active Fields of its Table, its query columns and its search text are exactly the
  projection of those values, and the catalog and the log keep their invariants; the Options that the requests
  create leave every Field with a configuration its type allows.\<close>

theorem record_requests_invariant:
  assumes "lib_ok L" "catalog_ok s" "log_ok s" "stored_ok L s" "records_ok L s" "record_run L s s'"
  shows "catalog_ok s' \<and> log_ok s' \<and> stored_ok L s' \<and> records_ok L s'"
  using assms(6,2-5)
proof (induction rule: rtranclp_induct)
  case base
  then show ?case by simp
next
  case (step y z)
  then have y: "catalog_ok y" "log_ok y" "stored_ok L y" "records_ok L y" by auto
  have z: "db_steps y z" using record_step_steps[OF step.hyps(2)] .
  have "log_ok z" using z y(2) by (induction rule: rtranclp_induct) (auto intro: db_step_log)
  then show ?case
    using db_steps_catalog[OF z y(1)] record_step_keeps[OF step.hyps(2) assms(1) catalog_ok_parts(1)[OF y(1)] y(3)] y(4)
    by blast
qed

end
