(* ===== verification/RecordFacts.thy ===== *)
theory RecordFacts
  imports RecordValid
begin

text \<open>
  Where a moved Record comes to stand, what a duplicate holds, what the selection scopes of a Table see of the
  writes, and what the projection of a Record misses after its Field was restored.
\<close>

section \<open>Moving\<close>

text \<open>IEEE arithmetic, as far as \<open>order.go\<close> relies on it: rounding is monotone, and exact on the numbers \<open>F\<close> that a
  column holds, on their doubles and on their neighbours at distance 1024.\<close>

definition rounds :: "host \<Rightarrow> rat set \<Rightarrow> bool" where
  "rounds H F \<longleftrightarrow> mono (ho_round H) \<and> (\<forall>x \<in> F. ho_round H x = x \<and> ho_round H (2 * x) = 2 * x)"

lemma midpoint_between:
  assumes "rounds H F" "a \<in> F" "b \<in> F" "a \<le> b"
  shows "a \<le> midpoint H a b \<and> midpoint H a b \<le> b"
proof -
  have m: "ho_round H x \<le> ho_round H y" if "x \<le> y" for x y
    using assms(1) that by (auto simp: rounds_def mono_def)
  have e: "ho_round H a = a" "ho_round H b = b" "ho_round H (2 * a) = 2 * a" "ho_round H (2 * b) = 2 * b"
    using assms(1-3) by (simp_all add: rounds_def)
  have "2 * a \<le> ho_round H (a + b)" "ho_round H (a + b) \<le> 2 * b"
    using m[of "2 * a" "a + b"] m[of "a + b" "2 * b"] e assms(4) by simp_all
  then have "a \<le> ho_round H (a + b) / 2" "ho_round H (a + b) / 2 \<le> b" by simp_all
  then show ?thesis using m[of a "ho_round H (a + b) / 2"] m[of "ho_round H (a + b) / 2" b] e(1,2)
    by (simp add: midpoint_def)
qed

text \<open>The positions of the other active Records of the Table.\<close>

definition other_positions :: "string \<Rightarrow> string \<Rightarrow> db \<Rightarrow> rat set" where
  "other_positions t i s = rr_position ` {r \<in> set (active_records t s). record_id r \<noteq> i}"

definition no_one_between :: "string \<Rightarrow> string \<Rightarrow> rat \<Rightarrow> rat \<Rightarrow> db \<Rightarrow> bool" where
  "no_one_between t i a b s \<longleftrightarrow> (\<forall>p \<in> other_positions t i s. p \<le> a \<or> b \<le> p)"

lemma set_neighbours: "set (neighbours t i P s) = {p \<in> other_positions t i s. P p}"
  by (auto simp: neighbours_def other_positions_def)

lemma position_before_ok:
  assumes r: "rounds H F" "other_positions t i s \<subseteq> F" "before \<in> F" "ho_round H (before - 1024) \<in> F"
  shows "position_before H t i before s \<le> before \<and> no_one_between t i (position_before H t i before s) before s"
proof -
  let ?prev = "neighbours t i (\<lambda>p. p < before) s"
  let ?low = "if ?prev = [] then ho_round H (before - 1024) else Max (set ?prev)"
  have low: "?low \<in> F \<and> ?low \<le> before \<and> (\<forall>p \<in> other_positions t i s. p < before \<longrightarrow> p \<le> ?low)"
  proof (cases "?prev = []")
    case True
    have "ho_round H (before - 1024) \<le> ho_round H before" using r(1) by (auto simp: rounds_def mono_def)
    then have "ho_round H (before - 1024) \<le> before" using r(1,3) by (simp add: rounds_def)
    moreover have "\<forall>p \<in> other_positions t i s. \<not> p < before" using True set_neighbours[of t i "\<lambda>p. p < before" s] by auto
    ultimately show ?thesis using True r(4) by auto
  next
    case False
    then have "Max (set ?prev) \<in> set ?prev" by (intro Max_in) auto
    then have "Max (set ?prev) \<in> other_positions t i s" "Max (set ?prev) < before"
      by (auto simp only: set_neighbours mem_Collect_eq)
    moreover have "\<forall>p \<in> other_positions t i s. p < before \<longrightarrow> p \<le> Max (set ?prev)"
      by (auto simp: set_neighbours intro!: Max_ge) (metis List.finite_set set_neighbours)
    ultimately show ?thesis using False r(2) by auto
  qed
  have m: "?low \<le> midpoint H ?low before" "midpoint H ?low before \<le> before"
    using midpoint_between[OF r(1) _ r(3), of ?low] low by blast+
  have e: "position_before H t i before s = midpoint H ?low before" by (simp add: position_before_def Let_def)
  have "p \<le> midpoint H ?low before \<or> before \<le> p" if "p \<in> other_positions t i s" for p
    using low that m(1) by (meson linorder_not_le order_trans)
  then show ?thesis using m(2) unfolding e no_one_between_def by blast
qed

lemma position_after_ok:
  assumes r: "rounds H F" "other_positions t i s \<subseteq> F" "after \<in> F" "ho_round H (after + 1024) \<in> F"
  shows "after \<le> position_after H t i after s \<and> no_one_between t i after (position_after H t i after s) s"
proof -
  let ?foll = "neighbours t i (\<lambda>p. p > after) s"
  let ?up = "if ?foll = [] then ho_round H (after + 1024) else Min (set ?foll)"
  have up: "?up \<in> F \<and> after \<le> ?up \<and> (\<forall>p \<in> other_positions t i s. after < p \<longrightarrow> ?up \<le> p)"
  proof (cases "?foll = []")
    case True
    have "ho_round H after \<le> ho_round H (after + 1024)" using r(1) by (auto simp: rounds_def mono_def)
    then have "after \<le> ho_round H (after + 1024)" using r(1,3) by (simp add: rounds_def)
    moreover have "\<forall>p \<in> other_positions t i s. \<not> p > after" using True set_neighbours[of t i "\<lambda>p. p > after" s] by auto
    ultimately show ?thesis using True r(4) by auto
  next
    case False
    then have "Min (set ?foll) \<in> set ?foll" by (intro Min_in) auto
    then have "Min (set ?foll) \<in> other_positions t i s" "after < Min (set ?foll)"
      by (auto simp only: set_neighbours mem_Collect_eq)
    moreover have "\<forall>p \<in> other_positions t i s. after < p \<longrightarrow> Min (set ?foll) \<le> p"
      by (auto simp: set_neighbours intro!: Min_le) (metis List.finite_set set_neighbours)
    ultimately show ?thesis using False r(2) by auto
  qed
  have m: "after \<le> midpoint H after ?up" "midpoint H after ?up \<le> ?up"
    using midpoint_between[OF r(1,3), of ?up] up by blast+
  have e: "position_after H t i after s = midpoint H after ?up" by (simp add: position_after_def Let_def)
  have "p \<le> after \<or> midpoint H after ?up \<le> p" if "p \<in> other_positions t i s" for p
    using up that m(2) by (meson linorder_not_le order_trans)
  then show ?thesis using m(1) unfolding e no_one_between_def by blast
qed

definition position_of :: "string \<Rightarrow> string \<Rightarrow> db \<Rightarrow> rat option" where
  "position_of t i s = map_option rr_position (find (\<lambda>r. record_id r = i) (active_records t s))"

lemma anchor_position_Inr: "anchor_position t p i s = Inr x \<longleftrightarrow> position_of t i s = Some x"
  by (auto simp: anchor_position_def position_of_def case_option_Inr)

lemma position_of_member: "position_of t i s = Some x \<Longrightarrow> x \<in> rr_position ` set (active_records t s)"
  by (auto simp: position_of_def dest: find_SomeD)

definition lands :: "string \<Rightarrow> string \<Rightarrow> string option \<Rightarrow> string option \<Rightarrow> rat \<Rightarrow> db \<Rightarrow> bool" where
  "lands t i before after p s =
     (case (before, after) of
        (None, None) \<Rightarrow> \<forall>q \<in> other_positions t i s. q \<le> p
      | (Some b, None) \<Rightarrow> \<exists>x. position_of t b s = Some x \<and> p \<le> x \<and> no_one_between t i p x s
      | (None, Some a) \<Rightarrow> \<exists>y. position_of t a s = Some y \<and> y \<le> p \<and> no_one_between t i y p s
      | (Some b, Some a) \<Rightarrow> \<exists>x y. position_of t b s = Some x \<and> position_of t a s = Some y \<and> y < x \<and> y \<le> p \<and> p \<le> x)"

lemma active_positions:
  "rr_position ` set (db_records s) \<subseteq> F \<Longrightarrow> rr_position ` set (active_records t s) \<subseteq> F"
  by (auto simp: active_records_def)

lemma moveTargetPosition_lands:
  assumes r: "rounds H F" "rr_position ` set (db_records s) \<subseteq> F"
    and step: "\<forall>x \<in> F. ho_round H (x - 1024) \<in> F \<and> ho_round H (x + 1024) \<in> F"
    and m: "moveTargetPosition H t i before after s = Inr p"
  shows "lands t i before after p s"
proof -
  have act: "rr_position ` set (active_records t s) \<subseteq> F" using active_positions[OF r(2)] .
  have others: "other_positions t i s \<subseteq> F" using act by (auto simp: other_positions_def)
  show ?thesis
  proof (cases before)
    case None
    show ?thesis
    proof (cases after)
      case None
      have "q \<le> p" if q: "q \<in> other_positions t i s" for q
      proof -
        let ?M = "Max (set (map rr_position (active_records t s)))"
        have ne: "active_records t s \<noteq> []" using q by (auto simp: other_positions_def)
        have "q \<in> set (map rr_position (active_records t s))" using q by (auto simp: other_positions_def)
        then have "q \<le> ?M" by (rule Max_ge[OF List.finite_set])
        moreover have "?M \<in> F" using Max_in[of "set (map rr_position (active_records t s))"] ne act by auto
        moreover have "ho_round H ?M \<le> ho_round H (?M + 1024)"
          using r(1) monoD[of "ho_round H" ?M "?M + 1024"] by (simp add: rounds_def)
        ultimately have "q \<le> ho_round H (?M + 1024)" using r(1) by (simp add: rounds_def)
        then show ?thesis using m \<open>before = None\<close> None ne by (simp add: moveTargetPosition_def last_position_def)
      qed
      then show ?thesis by (simp add: lands_def \<open>before = None\<close> None)
    next
      case (Some a)
      then obtain y where y: "position_of t a s = Some y" "p = position_after H t i y s"
        using m None by (auto simp: moveTargetPosition_def ok_then_eq_Inr anchor_position_Inr)
      have f: "y \<in> F" using position_of_member[OF y(1)] act by blast
      show ?thesis using position_after_ok[OF r(1) others f] step f y by (simp add: lands_def None Some)
    qed
  next
    case (Some b)
    show ?thesis
    proof (cases after)
      case None
      then obtain x where x: "position_of t b s = Some x" "p = position_before H t i x s"
        using m Some by (auto simp: moveTargetPosition_def ok_then_eq_Inr anchor_position_Inr)
      have f: "x \<in> F" using position_of_member[OF x(1)] act by blast
      show ?thesis using position_before_ok[OF r(1) others f] step f x by (simp add: lands_def None Some)
    next
      case (Some a)
      then obtain x y where xy: "position_of t b s = Some x" "position_of t a s = Some y" "y < x" "p = midpoint H y x"
        using m \<open>before = Some b\<close>
        by (auto simp: moveTargetPosition_def ok_then_eq_Inr anchor_position_Inr between_positions_def)
      have "x \<in> F" "y \<in> F" using position_of_member[OF xy(1)] position_of_member[OF xy(2)] act by blast+
      from midpoint_between[OF r(1) this(2,1)] xy show ?thesis by (simp add: lands_def Some \<open>before = Some b\<close>)
    qed
  qed
qed

lemma active_records_draws: "active_records t (s\<lparr>db_draws := n, db_operation := j\<rparr>) = active_records t s"
  by (simp add: active_records_def)

lemma db_steps_log: "db_steps s s' \<Longrightarrow> log_ok s \<Longrightarrow> log_ok s'"
  by (induction rule: rtranclp_induct) (auto intro: db_step_log)

text \<open>C14: a move puts its Record where it was asked to: next to the active Record it names before or after it, with
  no other active Record in between; between the two it names; or behind all others. Rounding may let
  it share the position of a neighbour, never pass it. Nothing else moves, no value and no revision changes, and
  the log gets one \<open>recordMoved\<close>.\<close>

theorem move_lands:
  assumes "catalog_ok s" "log_ok s" "rounds H F" "rr_position ` set (db_records s) \<subseteq> F"
    and "\<forall>x \<in> F. ho_round H (x - 1024) \<in> F \<and> ho_round H (x + 1024) \<in> F"
    and "MoveRecord E H actor t i before after s = Inr ((item, n), s')"
  shows "\<exists>r p. r \<in> set (db_records s) \<and> record_id r = i \<and> rc_deleted_at (rr_record r) = None
    \<and> lands t i before after p s \<and> contents item = contents (rr_record r)
    \<and> db_records s' = update_where (\<lambda>q. record_id q = i) (position_columns p (db_now s)) (db_records s)
    \<and> (\<exists>c. db_changes s' = db_changes s @ [c] \<and> summary c = (''recordMoved'', actor, t, i, rc_revision item) \<and> n = ch_sequence c)"
proof -
  obtain s1 cur p s2 where a: "begin_audit E actor s = Inr ((), s1)" and l: "lockRecord t i s1 = Inr cur" "rc_deleted_at cur = None"
    and m: "moveTargetPosition H t i before after s1 = Inr p"
    and w: "write_record ''move record'' (position_columns p (db_now s1)) i s1 = Inr (item, s2)"
    and c: "insertRecordChange E actor item ''recordMoved'' []
      (primaryFieldText H (rc_values item) (loadFieldDefinitions t s2)) s2 = Inr ((), s')" and n: "n = change_tail t s'"
    using assms(6) by (auto simp: MoveRecord_def finishRecordOrderChange_def lock_movable_def run_simps)
  obtain j where s1: "s1 = s\<lparr>db_draws := db_draws s + 1, db_operation := j\<rparr>" using a by (auto simp: begin_audit_Inr)
  obtain r where r: "r \<in> set (db_records s1)" "rr_record r = cur" "rc_id cur = i" "rc_table cur = t"
    using lockRecord_Inr[OF l(1)] by blast
  note wi = write_record_Inr[OF w]
  obtain q where q: "find (\<lambda>r. record_id r = i) (db_records s2) = Some q" "item = rr_record q" using wi by blast
  have "find (\<lambda>r. record_id r = i) (db_records s) = Some r"
    using find_key[of record_id "db_records s" r] catalog_ok_parts(1)[OF assms(1)] r s1 by (simp add: keys_ok_def)
  then have "q = position_columns p (db_now s) r"
    using q(1) wi r(2,3) find_update_where[of "\<lambda>r. record_id r = i" "\<lambda>r. record_id r = i" "position_columns p (db_now s)" "db_records s"]
    by (simp add: s1)
  then have item: "contents item = contents cur" using q(2) r(2) by (simp add: position_columns_def contents_def)
  have lands: "lands t i before after p s"
    using moveTargetPosition_lands[OF assms(3) _ assms(5) m] assms(4)
    by (simp add: s1 lands_def position_of_def other_positions_def no_one_between_def active_records_draws split: option.splits)
  have ids: "rc_id item = i" "rc_table item = t"
    using contents_sel(1,3)[of item] contents_sel(1,3)[of cur] r(3,4) unfolding item by simp_all
  obtain ch where ch: "db_changes s' = db_changes s @ [ch]" "summary ch = (''recordMoved'', actor, t, i, rc_revision item)"
      "ch_sequence ch = db_sequence s + 1" "db_records s' = db_records s2"
    using c wi ids by (auto simp: insertRecordChange_def insert_change_Inr summary_def s1)
  have log: "log_ok s'" using db_steps_log[OF MoveRecord_steps[OF assms(6)] assms(2)] .
  have "ch_sequence ch \<le> n" using change_tail_ge[of ch s' t] ch(1,2) n by (simp add: summary_def)
  moreover have "n \<le> db_sequence s'" using change_tail_le[OF log] n by simp
  moreover have "db_sequence s' = db_sequence s + 1"
    using c wi by (auto simp: insertRecordChange_def insert_change_Inr s1)
  ultimately have "n = ch_sequence ch" using ch(3) by simp
  moreover have "db_records s' = update_where (\<lambda>q. record_id q = i) (position_columns p (db_now s)) (db_records s)"
    using ch(4) wi by (simp add: s1)
  moreover have "r \<in> set (db_records s)" "record_id r = i" "rc_deleted_at (rr_record r) = None" using r l(2) by (simp_all add: s1)
  ultimately show ?thesis using ch(1,2) lands item r(2) by blast
qed

section \<open>Duplicating\<close>

lemma values_accepted:
  assumes "NormalizeCreateValues L vs fds = Inr r" "k \<in> fset (fmdom vs)"
  shows "\<exists>f. fmlookup fds k = Some f \<and> fe_deleted_at f = None"
proof -
  let ?st = "write_values L ''/values/'' vs fmempty fds (fm_keys vs) (fmempty, [])"
  have none: "snd ?st = []" using assms(1) by (auto simp: NormalizeCreateValues_def finish_values_def)
  obtain w where "written L ''/values/'' vs fmempty fds k w"
    using conjunct1[OF write_values_ok[OF none distinct_fm_keys]] assms(2) by auto
  then show ?thesis by (auto simp: written_def writable_Some)
qed

lemma values_refused:
  "NormalizeCreateValues L vs fds = Inl e \<Longrightarrow> \<exists>iss. iss \<noteq> [] \<and> e = NewValidationError iss"
  by (auto simp: NormalizeCreateValues_def finish_values_def fail_if_eq_Inl)

text \<open>C17: a Record cannot be duplicated once one of the Fields it has a value for was deleted: the values are checked as
  if a client had sent them, so the answer is a validation error, although the Record is active, is read with that
  value, and deleting the Field leaves the value in place.\<close>

theorem duplicate_refused:
  assumes "catalog_ok s" "actor \<in> set (db_actors s)" "en_ids E (db_draws s) ''op_'' = Some j"
    and "GetRecord actor i s = Inr r" "rc_deleted_at r = None"
    and "k \<in> fset (fmdom (rc_values r))" "field_in (rc_table r) k s = Some f" "fd_deleted_at (fr_field f) = Some d"
  shows "\<exists>issues. DuplicateRecord E H actor (rc_table r) i s = Inl (Validation issues) \<and> issues \<noteq> []"
proof -
  let ?s = "s\<lparr>db_draws := db_draws s + 1, db_operation := j\<rparr>"
  let ?fs = "loadFieldDefinitions (rc_table r) ?s"
  obtain row where row: "row \<in> set (db_records s)" "rr_record row = r" "rc_id r = i" and v: "active_table_visible actor (rc_table r) s"
    using assms(4) by (auto simp: GetRecord_def case_option_Inr dest!: find_SomeD)
  have "distinct (map record_id (db_records s))" using catalog_ok_parts(1)[OF assms(1)] by (simp add: keys_ok_def)
  then have "find (\<lambda>q. record_id q = i \<and> rc_table (rr_record q) = rc_table r) (db_records s) = Some row"
    by (rule find_unique[where key = record_id]) (use row in simp_all)
  then have lock: "lock_movable actor (rc_table r) i ''duplicate'' ?s = Inr r"
    using v assms(2,5) row
    by (simp add: lock_movable_def lockRecord_def lock_actor_def lock_active_table_def active_table_visible_def
        find_active_table_def find_base_def find_workspace_def)
  have "fmlookup ?fs k = Some (definition_of f)" using assms(7) by (simp add: lookup_definitions field_in_def)
  moreover have "fe_deleted_at (definition_of f) \<noteq> None" using assms(8) by (simp add: definition_of_def field_definition_def)
  ultimately have "NormalizeCreateValues (en_lib E) (rc_values r) ?fs \<noteq> Inr x" for x
    using values_accepted[OF _ assms(6), of "en_lib E" ?fs x] by auto
  then obtain e where e: "NormalizeCreateValues (en_lib E) (rc_values r) ?fs = Inl e"
    by (cases "NormalizeCreateValues (en_lib E) (rc_values r) ?fs") auto
  obtain iss where "iss \<noteq> []" "e = NewValidationError iss" using values_refused[OF e] by blast
  moreover have "begin_audit E actor s = Inr ((), ?s)" using assms(3) by (simp add: begin_audit_Inr)
  then have "DuplicateRecord E H actor (rc_table r) i s = Inl e"
    unfolding DuplicateRecord_def using lock e by simp
  moreover have "sort_issues iss \<noteq> []" using \<open>iss \<noteq> []\<close> set_sort_issues[of iss] by fastforce
  ultimately show ?thesis by (auto simp: NewValidationError_def)
qed

section \<open>Restoring a Field\<close>

lemma project_loop_keys:
  "project_loop L fs vs keys = Some (m, ts) \<Longrightarrow>
     fmlookup m k \<noteq> None \<longleftrightarrow> k \<in> set keys \<and> (\<exists>f. fmlookup fs k = Some f \<and> fe_deleted_at f = None)"
proof (induction keys arbitrary: m ts)
  case Nil
  then show ?case by auto
next
  case (Cons key keys)
  then show ?case
    by (cases "fmlookup fs key") (fastforce split: option.splits prod.splits if_splits)+
qed

lemma projection_keys:
  "build_query_projection L vs fs = Some (q, x) \<Longrightarrow>
     fmlookup q k \<noteq> None \<longleftrightarrow> k \<in> fset (fmdom vs) \<and> (\<exists>f. fmlookup fs k = Some f \<and> fe_deleted_at f = None)"
proof -
  assume "build_query_projection L vs fs = Some (q, x)"
  then obtain ts where "project_loop L fs vs (fm_keys vs) = Some (q, ts)" by (auto simp: build_query_projection_def)
  from project_loop_keys[OF this, of k] show ?thesis by simp
qed

lemma restore_field_effect:
  assumes r: "RestoreField E actor k expected s = Inr (g, s')" and f: "field_in t k s = Some f"
  shows "db_records s' = db_records s \<and> (\<exists>f'. field_in t k s' = Some f' \<and> fd_deleted_at (fr_field f') = None)"
proof -
  obtain s1 u where s1: "s1 = s\<lparr>db_draws := db_draws s + 1, db_operation := u\<rparr>"
    and w: "write_field E actor (fd_deleted_at_update (\<lambda>_. None)) k s1 = Inr (g, s')"
    using r by (auto simp: RestoreField_def begin_audit_Inr run_simps)
  have "db_records s' = db_records s1 \<and> db_fields s' = revise_fields (fd_deleted_at_update (\<lambda>_. None)) k (db_fields s1)"
    using w by (auto simp: write_field_def revise_fields_def insert_metadata_change_def insert_change_Inr run_simps
        invalidate_selections_def dest!: invalidate_each_Inr)
  moreover have "find (\<lambda>r. field_id r = k \<and> fd_table (fr_field r) = t) (revise_fields h k (db_fields s))
      = map_option (\<lambda>r. if field_id r = k then r\<lparr>fr_field := revise_field h (fr_field r)\<rparr> else r) (field_in t k s)"
    if "keeps_field h" for h
    unfolding revise_fields_def field_in_def by (rule find_update_where) (use that in simp)
  ultimately show ?thesis using f field_in_id[OF f] by (simp add: field_in_def s1)
qed

text \<open>One update, without choices.\<close>

lemma single_update:
  assumes k: "keys_ok s" "find_receipt actor key s = None"
    and m: "MutateRecords E H actor t key h [c] s = Inr (m, s')"
    and c: "cm_kind c = ''updateRecord''" "cm_choices c = []" "cr_status (mr_results m ! 0) = ''applied''"
  shows "\<exists>q vs. q \<in> set (db_records s') \<and> rr_record q = cr_record (mr_results m ! 0)
    \<and> NormalizeUpdatedValues (en_lib E) vs (nil_map (cm_set c)) (cm_unset c) (loadFieldDefinitions t s)
        = Inr (Some (rc_values (rr_record q), rr_query q, rr_search q)) \<and> db_fields s' = db_fields s
    \<and> rc_table (rr_record q) = t"
proof -
  obtain s0 i where s0: "db_steps s s0" and w: "mutation_work E H actor t key h [c] s0 = Inr (m, s')"
    and e: "s0 = s\<lparr>db_draws := db_draws s + 1, db_operation := i\<rparr>"
    using MutateRecords_fresh[OF m k(2)] by blast
  let ?fs = "loadFieldDefinitions t s0"
  have none: "\<not> has_choices [c]" using c(2) by (simp add: has_choices_def)
  obtain s2 where r: "applyCommands E H actor t key ?fs 0 [c] s0 = Inr (mr_results m, s2)"
    and s': "db_records s' = db_records s2" "db_fields s' = db_fields s2"
    using mutation_work_end[OF w] none by (auto simp: prepare_mutation_def)
  obtain res where a: "applyUpdateRecord E H actor t key 0 c ?fs s0 = Inr (res, s2)" and res: "mr_results m = [res]"
    using r c(1) by (auto simp: run_simps applyCommand_def)
  obtain cur vs q x where cur: "lockRecord t (cm_record c) s0 = Inr cur"
    and n: "NormalizeUpdatedValues (en_lib E) (rc_values cur) (nil_map (cm_set c)) (cm_unset c) ?fs = Inr (Some (vs, q, x))"
    and u: "vs = rc_values cur \<and> res = \<lparr>cr_index = 0, cr_status = ''unchanged'', cr_record = cur\<rparr> \<and> s2 = s0
      \<or> (\<exists>diff item s1. write_record ''update record values'' (value_columns vs q x (db_now s0)) (rc_id cur) s0 = Inr (item, s1)
          \<and> log_record E H actor ?fs 0 ''recordUpdated'' diff item s1 = Inr (res, s2))"
    using applyUpdateRecord_Inr[OF a] by blast
  obtain diff item s1 where wr: "write_record ''update record values'' (value_columns vs q x (db_now s0)) (rc_id cur) s0 = Inr (item, s1)"
    and l: "log_record E H actor ?fs 0 ''recordUpdated'' diff item s1 = Inr (res, s2)"
    using u c(3) res by auto
  have k0: "keys_ok s0" using db_steps_keys[OF s0 k(1)] .
  obtain p where p: "item = rr_record (value_columns vs q x (db_now s0) p)" "value_columns vs q x (db_now s0) p \<in> set (db_records s1)"
    "rc_table (rr_record p) = t"
    using write_locked[OF k0 cur _ wr] by auto
  have "db_records s2 = db_records s1" "cr_record res = item" using log_record_Inr[OF l] by auto
  moreover have "db_fields s2 = db_fields s0" using applyCommands_fields[OF r] .
  moreover have "?fs = loadFieldDefinitions t s" using e by (simp add: loadFieldDefinitions_def table_fields_def)
  ultimately show ?thesis using p n s' res e
    by (intro exI[of _ "value_columns vs q x (db_now s0) p"] exI[of _ "rc_values cur"]) (simp add: value_columns_def)
qed

text \<open>C16: restoring a Field does not bring its values back into the queries. A Record that was updated while the Field
  was deleted keeps its value of the Field, and once the Field is restored it is read with that value; but its
  query columns were rebuilt without it, and restoring the Field does not write them, so that a filter on the
  Field takes the value for empty.\<close>

theorem restored_field_not_projected:
  assumes "catalog_ok s" "find_receipt actor key s = None"
    and "field_in t k s = Some f" "fd_deleted_at (fr_field f) = Some d"
    and "MutateRecords E H actor t key h [c] s = Inr (m, s1)" "cm_kind c = ''updateRecord''" "cm_choices c = []"
    and "cr_status (mr_results m ! 0) = ''applied''" "k \<in> fset (fmdom (rc_values (cr_record (mr_results m ! 0))))"
    and "RestoreField E' actor k expected s1 = Inr (g, s2)"
  shows "(\<exists>f'. field_in t k s2 = Some f' \<and> fd_deleted_at (fr_field f') = None)
    \<and> (\<exists>q \<in> set (db_records s2). rr_record q = cr_record (mr_results m ! 0)
        \<and> cond_eval E'' q (TextEmpty k) = Some True \<and> cond_eval E'' q (JsonEmpty k) = Some True)
    \<and> \<not> records_ok L s2"
proof -
  obtain q vs where q: "q \<in> set (db_records s1)" "rr_record q = cr_record (mr_results m ! 0)"
    and n: "NormalizeUpdatedValues (en_lib E) vs (nil_map (cm_set c)) (cm_unset c) (loadFieldDefinitions t s)
        = Inr (Some (rc_values (rr_record q), rr_query q, rr_search q))" and fs: "db_fields s1 = db_fields s"
    and t: "rc_table (rr_record q) = t"
    using single_update[OF catalog_ok_parts(1)[OF assms(1)] assms(2,5-8)] by blast
  have b: "build_query_projection (en_lib E) (rc_values (rr_record q)) (loadFieldDefinitions t s) = Some (rr_query q, rr_search q)"
    using n by (auto simp: NormalizeUpdatedValues_def finish_values_def split: prod.splits)
  have "fmlookup (loadFieldDefinitions t s) k = Some (definition_of f)" by (simp add: lookup_definitions assms(3))
  then have missing: "fmlookup (rr_query q) k = None"
    using projection_keys[OF b, of k] assms(4) by (simp add: definition_of_def field_definition_def)
  have "field_in t k s1 = Some f" using assms(3) fs by (simp add: field_in_def)
  note r = restore_field_effect[OF assms(10) this]
  then obtain f' where f': "field_in t k s2 = Some f'" "fd_deleted_at (fr_field f') = None" by blast
  have q2: "q \<in> set (db_records s2)" using q(1) r by simp
  have "\<not> row_ok L (loadFieldDefinitions t s2) q"
  proof
    assume "row_ok L (loadFieldDefinitions t s2) q"
    then have "build_query_projection L (rc_values (rr_record q)) (loadFieldDefinitions t s2) = Some (rr_query q, rr_search q)"
      by (simp add: row_ok_def)
    from projection_keys[OF this, of k] missing f' assms(9) q(2) show False
      by (simp add: lookup_definitions definition_of_def field_definition_def)
  qed
  then have "\<not> records_ok L s2" using q2 t by (auto simp: records_ok_def)
  moreover have "cond_eval E'' q (TextEmpty k) = Some True" "cond_eval E'' q (JsonEmpty k) = Some True"
    using missing by (simp_all add: value_text_def query_value_def)
  ultimately show ?thesis using f' q2 q(2) by blast
qed

section \<open>Selection scopes\<close>

text \<open>What a scope depends on.\<close>

definition same_scopes :: "db \<Rightarrow> db \<Rightarrow> bool" where
  "same_scopes s s' \<longleftrightarrow> db_workspaces s' = db_workspaces s \<and> db_bases s' = db_bases s \<and> db_tables s' = db_tables s
     \<and> db_fields s' = db_fields s \<and> db_views s' = db_views s \<and> db_records s' = db_records s
     \<and> db_scopes s' = db_scopes s \<and> db_now s' = db_now s"

lemma same_scopes_current: "same_scopes s s' \<Longrightarrow> scopes_current E t s' = scopes_current E t s"
proof -
  assume a: "same_scopes s s'"
  have c: "find_active_table actor tid s' = find_active_table actor tid s"
    "active_table_visible actor tid s' = active_table_visible actor tid s"
    "table_fields tid s' = table_fields tid s" "find_view actor vid s' = find_view actor vid s" for actor tid vid
    using a by (simp_all add: same_scopes_def find_workspace_def find_base_def find_active_table_def
        active_table_visible_def table_fields_def find_view_def)
  have n: "normalize_selection_context E actor t q s' = normalize_selection_context E actor t q s" for actor q
    unfolding normalize_selection_context_def resolve_query_metadata_def c by (rule refl)
  have i: "selected_ids E w s' = selected_ids E w s" for w using a by (simp add: selected_ids_def same_scopes_def)
  have "scope_current E t s' c = scope_current E t s c" for c unfolding scope_current_def n i by (rule refl)
  then show ?thesis using a by (simp add: scopes_current_def scope_live_def same_scopes_def)
qed

definition same_rows :: "string set \<Rightarrow> db \<Rightarrow> db \<Rightarrow> bool" where
  "same_rows changed s s' \<longleftrightarrow> (\<forall>i. i \<notin> changed \<longrightarrow>
     filter (\<lambda>r. record_id r = i) (db_records s') = filter (\<lambda>r. record_id r = i) (db_records s))"

lemma same_rows_trans: "same_rows A s s1 \<Longrightarrow> same_rows B s1 s2 \<Longrightarrow> same_rows (A \<union> B) s s2"
  by (simp add: same_rows_def)

lemma filter_update_other:
  "keeps_record f \<Longrightarrow> i \<noteq> j \<Longrightarrow>
     filter (\<lambda>r. record_id r = i) (update_where (\<lambda>r. record_id r = j) f rows) = filter (\<lambda>r. record_id r = i) rows"
  by (induction rows) (auto simp: update_where_def)

lemma applyCommand_same_rows:
  assumes k: "keys_ok s" and c: "applyCommand E H a t key fs n c s = Inr (r, s')"
  shows "same_rows (set (changed_ids [r])) s s' \<and> db_scopes s' = db_scopes s \<and> db_now s' = db_now s"
proof -
  have life: "same_rows (set (changed_ids [r])) s s'" if u: "applyRecordLifecycle E H a t key n c fs d s = Inr (r, s')" for d
  proof -
    obtain cur item s1 where cur: "lockRecord t (cm_record c) s = Inr cur"
      and wr: "write_record ''update record lifecycle'' (deleted_columns d (db_now s)) (rc_id cur) s = Inr (item, s1)"
      and l: "log_record E H a fs n (if d then ''recordDeleted'' else ''recordRestored'') [] item s1 = Inr (r, s')"
      using u by (auto simp: applyRecordLifecycle_def setRecordDeleted_def run_simps split: if_splits)
    obtain p where "item = rr_record (deleted_columns d (db_now s) p)" "rc_id cur = rc_id (rr_record p)"
      using write_locked[OF k cur _ wr] by auto
    then show ?thesis using log_record_Inr[OF l] write_record_Inr[OF wr]
      by (simp add: same_rows_def filter_update_other deleted_columns_def)
  qed
  have update: "same_rows (set (changed_ids [r])) s s'" if u: "applyUpdateRecord E H a t key n c fs s = Inr (r, s')"
  proof -
    obtain cur vs q x where cur: "lockRecord t (cm_record c) s = Inr cur"
      and w: "r = \<lparr>cr_index = n, cr_status = ''unchanged'', cr_record = cur\<rparr> \<and> s' = s
        \<or> (\<exists>diff item s1. write_record ''update record values'' (value_columns vs q x (db_now s)) (rc_id cur) s = Inr (item, s1)
          \<and> log_record E H a fs n ''recordUpdated'' diff item s1 = Inr (r, s'))"
      using applyUpdateRecord_Inr[OF u] by blast
    show ?thesis using w
    proof (elim disjE exE conjE)
      fix diff item s1
      assume wr: "write_record ''update record values'' (value_columns vs q x (db_now s)) (rc_id cur) s = Inr (item, s1)"
        and l: "log_record E H a fs n ''recordUpdated'' diff item s1 = Inr (r, s')"
      obtain p where "item = rr_record (value_columns vs q x (db_now s) p)" "rc_id cur = rc_id (rr_record p)"
        using write_locked[OF k cur _ wr] by auto
      then show ?thesis using log_record_Inr[OF l] write_record_Inr[OF wr]
        by (simp add: same_rows_def filter_update_other value_columns_def)
    qed (simp add: same_rows_def)
  qed
  have create: "same_rows (set (changed_ids [r])) s s'" if u: "applyCreateRecord E H a t n c fs s = Inr (r, s')"
    using u by (auto simp: applyCreateRecord_def run_simps draw_id_Inr same_rows_def dest!: insertRecord_Inr log_record_Inr)
  have "db_scopes s' = db_scopes s \<and> db_now s' = db_now s"
    using c
    by (auto simp: applyCommand_def applyCreateRecord_def applyUpdateRecord_def applyRecordLifecycle_def log_record_def
        applied_def updateRecordValues_def setRecordDeleted_def insertRecordChange_def insert_change_Inr draw_id_Inr
        run_simps split: if_splits dest!: insertRecord_Inr write_record_Inr)
  then show ?thesis using c life update create by (auto simp: applyCommand_def split: if_splits)
qed

lemma applyCommands_same_rows:
  "applyCommands E H a t key fs n cs s = Inr (rs, s') \<Longrightarrow> keys_ok s \<Longrightarrow>
     same_rows (set (changed_ids rs)) s s' \<and> db_scopes s' = db_scopes s \<and> db_now s' = db_now s"
proof (induction cs arbitrary: n s rs)
  case Nil
  then show ?case by (simp add: same_rows_def)
next
  case (Cons c cs)
  obtain r s1 rs1 where c: "applyCommand E H a t key fs n c s = Inr (r, s1)"
    and cs: "applyCommands E H a t key fs (Suc n) cs s1 = Inr (rs1, s')" and rs: "rs = r # rs1"
    using Cons.prems(1) by (auto simp: run_simps)
  note one = applyCommand_same_rows[OF Cons.prems(2) c]
  note more = Cons.IH[OF cs db_steps_keys[OF applyCommand_steps[OF c] Cons.prems(2)]]
  have "same_rows (set (changed_ids rs)) s s'"
    unfolding rs by (subst changed_ids_Cons, rule same_rows_trans) (use one more in blast)+
  then show ?case using one more by simp
qed

lemma prepare_mutation_frame:
  "prepare_mutation E a t key cs s = Inr (r, s') \<Longrightarrow> db_scopes s' = db_scopes s \<and> db_now s' = db_now s"
proof -
  have save: "save_choice_fields E a t st is fs s = Inr (r, s') \<Longrightarrow> db_scopes s' = db_scopes s \<and> db_now s' = db_now s"
    for st "is" fs s r s'
  proof (induction "is" arbitrary: fs s r)
    case Nil
    then show ?case by simp
  next
    case (Cons i rest)
    obtain z s1 config d fs' w where z: "save_choice_field E a t i config d s = Inr (z, s1)"
      and w: "save_choice_fields E a t st rest fs' s1 = Inr (w, s')"
      using Cons.prems by (fastforce simp: run_simps split: option.splits)
    have "db_scopes s1 = db_scopes s \<and> db_now s1 = db_now s"
      using z by (auto simp: save_choice_field_def insert_metadata_change_def insert_change_Inr run_simps split: if_splits)
    then show ?case using Cons.IH[OF w] by simp
  qed
  show "prepare_mutation E a t key cs s = Inr (r, s') \<Longrightarrow> db_scopes s' = db_scopes s \<and> db_now s' = db_now s"
    by (auto simp: prepare_mutation_def prepareChoiceMutation_def run_simps only_draws_def split: if_splits
        dest!: resolve_commands_draws save)
qed


end
