(* ===== verification/Service_Runs.thy ===== *)
theory Service_Runs
  imports RecordValid
begin

text \<open>
  Runs of the handlers of the catalog and of the Records.  \<open>service_step\<close> is one request; time may pass in between.
  Three things hold: what is stored stays well formed (\<open>service_invariant\<close>); \<open>UpdateField\<close>, which reads
  before its transaction, acts as if it had read inside of it (\<open>update_field_atomic\<close>); a creating
  request that is sent again gets its first answer (\<open>create_request_retried\<close>), which fails for
  \<open>CreateView\<close> (\<open>create_view_retry_refused\<close>).
\<close>

section \<open>Requests as steps\<close>

inductive service_step :: "lib \<Rightarrow> db \<Rightarrow> db \<Rightarrow> bool" for L where
  create_workspace: "env_ok L E s \<Longrightarrow> Service_CreateWorkspace E J actor key name s = Inr (x, s') \<Longrightarrow> service_step L s s'"
| update_workspace: "env_ok L E s \<Longrightarrow> Service_UpdateWorkspace E actor i expected name s = Inr (x, s') \<Longrightarrow> service_step L s s'"
| create_base: "env_ok L E s \<Longrightarrow> Service_CreateBase E J actor key i name s = Inr (y, s') \<Longrightarrow> service_step L s s'"
| update_base: "env_ok L E s \<Longrightarrow> Service_UpdateBase E actor i expected name s = Inr (y, s') \<Longrightarrow> service_step L s s'"
| create_table: "env_ok L E s \<Longrightarrow> Service_CreateTable E J actor key i name pn vn s = Inr (z, s') \<Longrightarrow> service_step L s s'"
| update_table: "env_ok L E s \<Longrightarrow> Service_UpdateTable E actor i expected name s = Inr (t, s') \<Longrightarrow> service_step L s s'"
| delete_table: "env_ok L E s \<Longrightarrow> Service_DeleteTable E actor i expected s = Inr (u, s') \<Longrightarrow> service_step L s s'"
| restore_table: "env_ok L E s \<Longrightarrow> Service_RestoreTable E actor i expected s = Inr (t, s') \<Longrightarrow> service_step L s s'"
| create_field: "env_ok L E s \<Longrightarrow> Service_CreateField E J actor key i input s = Inr (f, s') \<Longrightarrow> service_step L s s'"
| update_field: "env_ok L E s \<Longrightarrow> Service_UpdateField E actor i fu s = Inr (f, s') \<Longrightarrow> service_step L s s'"
| delete_field: "env_ok L E s \<Longrightarrow> Service_DeleteField E actor i expected s = Inr (u, s') \<Longrightarrow> service_step L s s'"
| restore_field: "env_ok L E s \<Longrightarrow> Service_RestoreField E actor i expected s = Inr (f, s') \<Longrightarrow> service_step L s s'"
| create_view: "env_ok L E s \<Longrightarrow> Service_CreateView E J actor key i vi s = Inr (v, s') \<Longrightarrow> service_step L s s'"
| update_view: "env_ok L E s \<Longrightarrow> Service_UpdateView E same actor i vu s = Inr (v, s') \<Longrightarrow> service_step L s s'"
| delete_view: "env_ok L E s \<Longrightarrow> Service_DeleteView E actor i expected s = Inr (u, s') \<Longrightarrow> service_step L s s'"
| restore_view: "env_ok L E s \<Longrightarrow> Service_RestoreView E actor i expected s = Inr (v, s') \<Longrightarrow> service_step L s s'"
| set_default_view: "env_ok L E s \<Longrightarrow> Service_SetDefaultView E actor i expected s = Inr (v, s') \<Longrightarrow> service_step L s s'"
| reorder_views: "env_ok L E s \<Longrightarrow> Service_ReorderViews E J actor key i expected ids s = Inr (w, s') \<Longrightarrow> service_step L s s'"
| records: "record_step L s s' \<Longrightarrow> service_step L s s'"
| time_passes: "db_now s \<le> t \<Longrightarrow> service_step L s (s\<lparr>db_now := t\<rparr>)"

abbreviation service_run :: "lib \<Rightarrow> db \<Rightarrow> db \<Rightarrow> bool" where
  "service_run L \<equiv> (service_step L)\<^sup>*\<^sup>*"

section \<open>Every handler is a sequence of effects\<close>

text \<open>IDs that a handler draws before its transaction.\<close>

lemma draws_step: "db_step s (s\<lparr>db_draws := n\<rparr>)"
  using tick[of s "db_operation s" n] by simp

lemma drawn_steps: "db_steps (s\<lparr>db_draws := n\<rparr>) s' \<Longrightarrow> db_steps s s'"
  by (rule step_then[OF draws_step])

lemma draws_keys [simp]: "keys_ok (s\<lparr>db_draws := n\<rparr>) = keys_ok s"
  "orders_distinct (s\<lparr>db_draws := n\<rparr>) = orders_distinct s"
  by (simp_all add: keys_ok_def orders_distinct_def)

lemma table_proposal_proposed [simp]: "table_proposal_ok (table_proposal tid fid vid bid n p v)"
  by (simp add: table_proposal_ok_def table_proposal_def)

lemmas drawn_refines = CreateWorkspace_steps[THEN drawn_steps] CreateBase_steps[THEN drawn_steps]
  CreateTable_steps[THEN drawn_steps] CreateField_steps[THEN drawn_steps] UpdateField_steps[THEN drawn_steps]
  CreateView_steps[THEN drawn_steps]

lemma service_step_steps: "service_step L s s' \<Longrightarrow> catalog_ok s \<Longrightarrow> db_steps s s'"
proof (induction rule: service_step.induct)
  case (records s s')
  then show ?case using record_step_steps by blast
next
  case (time_passes s t)
  then show ?case by (blast intro: one_step clock)
qed (frule catalog_ok_parts(1), drule catalog_ok_parts(2),
     (auto simp: Service_CreateWorkspace_def Service_UpdateWorkspace_def Service_CreateBase_def Service_UpdateBase_def
        Service_CreateTable_def Service_UpdateTable_def Service_DeleteTable_def Service_RestoreTable_def
        Service_CreateField_def Service_UpdateField_def Service_DeleteField_def Service_RestoreField_def
        Service_CreateView_def Service_UpdateView_def Service_DeleteView_def Service_RestoreView_def
        Service_SetDefaultView_def Service_ReorderViews_def run_simps draw_id_Inr draw_more_def
        elim: refines drawn_refines)[1])+

section \<open>Every handler keeps what is stored\<close>

lemma fresh_mono: "fresh_source gen used \<Longrightarrow> used' \<subseteq> used \<Longrightarrow> fresh_source gen used'"
  unfolding fresh_source_def by blast

lemma stored_field: "stored_ok L s \<Longrightarrow> find_field actor i s = Some r \<Longrightarrow> field_ok L (fr_field r)"
  by (auto simp: stored_ok_def list_all_iff dest!: find_field_id)

lemma stored_view: "stored_ok L s \<Longrightarrow> find_view actor i s = Some v \<Longrightarrow> view_ok L v"
  by (auto simp: stored_ok_def list_all_iff dest!: find_view_id)

lemma GetField_stored:
  assumes "stored_ok L s" "GetField actor i s = Inr f"
  shows "field_ok L f" "config_ids (fd_config f) \<subseteq> option_ids s"
proof -
  obtain r where r: "find_field actor i s = Some r" "scanField (fr_field r) = Inr f"
    using assms(2) by (auto simp: GetField_def split: option.splits)
  have ok: "field_ok L (fr_field r)" using stored_field[OF assms(1) r(1)] .
  then have "f = fr_field r" using scanField_ok[OF ok] r(2) by simp
  then show "field_ok L f" "config_ids (fd_config f) \<subseteq> option_ids s"
    using ok find_field_id[OF r(1)] by (auto simp: option_ids_def)
qed

lemma GetView_stored: "stored_ok L s \<Longrightarrow> GetView actor i s = Inr v \<Longrightarrow> view_ok L v"
  by (auto simp: GetView_def scanView_stored dest: stored_view split: option.splits)

lemma table_proposal_stored:
  assumes "nfc_ok L" "name_ok L p" "name_ok L v"
  shows "field_ok L (ct_field (table_proposal tid fid vid bid n p v))" "view_ok L (ct_view (table_proposal tid fid vid bid n p v))"
  using assms
  by (simp_all add: table_proposal_def field_ok_def view_ok_def description_ok_def field_config_ok_simps plain_type_def
      grid_bounds_ok_def)

lemma updated_field_ok:
  assumes L: "lib_ok L" and f: "field_ok L f" and fresh: "fresh_source gen (config_ids (fd_config f))"
    and u: "updated_field L gen draws now fid u f = Inr target"
  shows "field_ok L target"
proof -
  obtain name config description where p: "updated_name L (fu_name u) (fd_name f) = Inr name"
    "(if fu_config u = RawNil then Inr (fd_config f)
      else normalize_updated_field_config L gen draws now f (fu_config u)) = Inr config"
    "updated_description L u (fd_description f) = Inr description"
    and t: "target = f\<lparr>fd_name := name, fd_config := config, fd_description := description\<rparr>"
    using u by (auto simp: updated_field_def run_simps)
  have "field_config_ok L (fd_type f) config"
    using p(2) updated_config_ok[OF L _ fresh] f by (auto simp: field_ok_def split: if_splits)
  then show ?thesis
    using updated_name_ok[OF L _ p(1)] updated_description_ok[OF L _ p(3)] f by (simp add: t field_ok_def)
qed

lemma updated_view_ok:
  assumes "lib_ok L" "view_ok L v" "updated_view L vid u listed v = Inr target"
  shows "view_ok L target"
proof -
  obtain name config fs where p: "updated_name L (vu_name u) (vw_name v) = Inr name"
    "normalize_view_config L (vw_type v) (vu_config u) fs = Inr config"
    and t: "target = v\<lparr>vw_name := name, vw_config := config\<rparr>"
    using assms(3) by (auto simp: updated_view_def run_simps)
  have "name_ok L name" using updated_name_ok[OF assms(1) _ p(1)] assms(2) by (simp add: view_ok_def)
  then show ?thesis using view_config_bounds[OF p(2)] by (cases config) (simp_all add: t view_ok_def)
qed

lemmas service_defs = Service_CreateWorkspace_def Service_UpdateWorkspace_def Service_CreateBase_def
  Service_UpdateBase_def Service_UpdateTable_def Service_DeleteTable_def Service_RestoreTable_def
  Service_DeleteField_def Service_RestoreField_def Service_DeleteView_def Service_RestoreView_def
  Service_SetDefaultView_def Service_ReorderViews_def

lemma Service_CreateTable_stored:
  assumes L: "nfc_ok L" and E: "en_lib E = L" and s: "stored_ok L s"
    and c: "Service_CreateTable E J actor key i name pn vn s = Inr (x, s')"
  shows "stored_ok L s'"
proof -
  have lib: "lib_ok L" using L by (simp add: nfc_ok_def)
  obtain n p v tid fid vid h where r: "NormalizeResourceName L ''/name'' name = Inr n"
    "name_or L ''/primaryFieldName'' ''Name'' pn = Inr p" "name_or L ''/initialViewName'' ''Grid'' vn = Inr v"
    and w: "CreateTable E actor key h (table_proposal tid fid vid i n p v) (s\<lparr>db_draws := db_draws s + 3\<rparr>) = Inr (x, s')"
    using c by (auto simp: Service_CreateTable_def E run_simps draw_id_Inr eval_nat_numeral)
  have names: "name_ok L n" "name_ok L p" "name_ok L v"
    using resource_name_ok[OF lib r(1)] name_or_ok[OF lib _ r(2)] name_or_ok[OF lib _ r(3)] default_names_ok[OF L] by auto
  show ?thesis
    by (rule CreateTable_stored[OF w]) (use names s table_proposal_stored[OF L] in \<open>simp_all add: table_proposal_def\<close>)
qed

lemma Service_CreateField_stored:
  assumes lib: "lib_ok L" and E: "env_ok L E s" and s: "stored_ok L s"
    and c: "Service_CreateField E J actor key i input s = Inr (x, s')"
  shows "stored_ok L s'"
proof -
  have e: "en_lib E = L" "fresh_source (en_ids E) {}"
    using E fresh_mono by (auto simp: env_ok_def)
  obtain n config fp d fd fid h where r: "NormalizeResourceName L ''/name'' (fi_name input) = Inr n"
    "normalize_new_field_config L (en_ids E) (db_draws s) (fi_type input) (fi_config input) = Inr (config, fp)"
    "new_description L (fi_description input) = Inr (d, fd)"
    and w: "CreateField E actor key h \<lparr>fd_id = fid, fd_table = i, fd_name = n, fd_description = d, fd_position = 0,
        fd_schema_version = 1, fd_revision = 1, fd_type = fi_type input, fd_config = config,
        fd_deleted_at = None\<rparr> (s\<lparr>db_draws := Suc (db_draws s + new_options (fi_config input))\<rparr>) = Inr (x, s')"
    using c by (auto simp: Service_CreateField_def e(1) run_simps draw_id_Inr draw_more_def)
  show ?thesis
    by (rule CreateField_stored[OF w])
      (use s resource_name_ok[OF lib r(1)] new_config_ok[OF lib e(2) r(2)] new_description_stored[OF lib r(3)]
        in \<open>simp_all add: field_ok_def\<close>)
qed

lemma Service_UpdateField_stored:
  assumes lib: "lib_ok L" and E: "env_ok L E s" and s: "stored_ok L s" and k: "keys_ok s"
    and c: "Service_UpdateField E actor i u s = Inr (x, s')"
  shows "stored_ok L s'"
proof -
  obtain f target where g: "GetField actor i s = Inr f"
    and t: "updated_field L (en_ids E) (db_draws s) (db_now s) i u f = Inr target"
    and w: "UpdateField E actor i (fu_expected u) target (draw_more (new_options (fu_config u)) s) = Inr (x, s')"
    using c E by (auto simp: Service_UpdateField_def env_ok_def run_simps)
  have "fresh_source (en_ids E) (config_ids (fd_config f))"
    using E GetField_stored(2)[OF s g] fresh_mono by (auto simp: env_ok_def)
  from updated_field_ok[OF lib GetField_stored(1)[OF s g] this t] show ?thesis
    by (rule UpdateField_stored[OF w, rotated -1]) (use s k in \<open>simp_all add: draw_more_def\<close>)
qed

lemma Service_CreateView_stored:
  assumes lib: "lib_ok L" and E: "en_lib E = L" and s: "stored_ok L s"
    and c: "Service_CreateView E J actor key i input s = Inr (x, s')"
  shows "stored_ok L s'"
proof -
  obtain n config fs vid h where r: "NormalizeResourceName L ''/name'' (vn_name input) = Inr n"
    "normalize_view_config L (vn_type input) (vn_config input) fs = Inr config"
    and w: "CreateView E actor key h \<lparr>vw_id = vid, vw_table = i, vw_name = n, vw_type = vn_type input, vw_config = config,
        vw_default = False, vw_revision = 1, vw_created_at = 0, vw_updated_at = 0, vw_deleted_at = None\<rparr>
        (s\<lparr>db_draws := db_draws s + 1\<rparr>) = Inr (x, s')"
    using c by (auto simp: Service_CreateView_def E run_simps draw_id_Inr)
  show ?thesis
    by (rule CreateView_stored[OF w])
      (use s in simp, use resource_name_ok[OF lib r(1)] view_config_bounds[OF r(2)] in \<open>cases config; simp add: view_ok_def\<close>)
qed

lemma Service_UpdateView_stored:
  assumes lib: "lib_ok L" and E: "en_lib E = L" and s: "stored_ok L s" and k: "keys_ok s"
    and c: "Service_UpdateView E same actor i u s = Inr (x, s')"
  shows "stored_ok L s'"
proof -
  obtain v target where g: "GetView actor i s = Inr v"
    and t: "updated_view L i u (\<lambda>tid. ListFields actor tid ''all'' s) v = Inr target"
    and w: "UpdateView E same actor i (vu_expected u) target s = Inr (x, s')"
    using c E by (auto simp: Service_UpdateView_def run_simps)
  from updated_view_ok[OF lib GetView_stored[OF s g] t] show ?thesis
    by (rule UpdateView_stored[OF w s k])
qed

lemma service_step_stored:
  assumes "service_step L s s'" and L: "nfc_ok L" "lib_ok L" and k: "keys_ok s" and s: "stored_ok L s"
  shows "stored_ok L s'"
  using assms(1) k s
proof (induction rule: service_step.induct)
  case (create_table E s J actor key i name pn vn z s')
  then show ?case using Service_CreateTable_stored[OF L(1)] by (auto simp: env_ok_def)
next
  case (create_field E s J actor key i input f s')
  then show ?case using Service_CreateField_stored[OF L(2)] by blast
next
  case (update_field E s actor i fu f s')
  then show ?case using Service_UpdateField_stored[OF L(2)] by blast
next
  case (create_view E s J actor key i vi v s')
  then show ?case using Service_CreateView_stored[OF L(2)] by (auto simp: env_ok_def)
next
  case (update_view E s same actor i vu v s')
  then show ?case using Service_UpdateView_stored[OF L(2)] by (auto simp: env_ok_def)
next
  case (records s s')
  then show ?case using record_step_keeps[OF _ L(2)] by blast
qed ((insert L(2), clarsimp simp: service_defs env_ok_def run_simps draw_id_Inr, erule stores;
        (auto intro: resource_name_ok)[1])
      | simp)+

lemma service_run_ok:
  assumes L: "nfc_ok L"
  shows "service_run L s s' \<Longrightarrow> catalog_ok s \<Longrightarrow> stored_ok L s \<Longrightarrow> db_steps s s' \<and> catalog_ok s' \<and> stored_ok L s'"
proof (induction rule: rtranclp_induct)
  case base
  then show ?case by simp
next
  case (step y z)
  then have y: "db_steps s y" "catalog_ok y" "stored_ok L y" by auto
  have lib: "lib_ok L" using L by (simp add: nfc_ok_def)
  have z: "db_steps y z" using service_step_steps[OF step.hyps(2) y(2)] .
  show ?case
    using rtranclp_trans[OF y(1) z] db_steps_catalog[OF z y(2)]
      service_step_stored[OF step.hyps(2) L lib catalog_ok_parts(1)[OF y(2)] y(3)] by simp
qed

section \<open>Reading before the transaction\<close>

lemma find_field_written:
  assumes k: "keys_ok s" and f: "find_field actor i s = Some r" and g: "keeps_field g"
    and s': "db_fields s' = revise_fields g i (db_fields s)" "db_tables s' = db_tables s" "db_bases s' = db_bases s"
      "db_workspaces s' = db_workspaces s"
  shows "find_field actor i s' = Some (r\<lparr>fr_field := revise_field g (fr_field r)\<rparr>)"
proof -
  have v: "active_table_visible actor t s' = active_table_visible actor t s" for t
    using s'(2-4) by (simp add: active_table_visible_def find_active_table_def find_base_def find_workspace_def)
  have "find (\<lambda>r. field_id r = i \<and> active_table_visible actor (fd_table (fr_field r)) s) (revise_fields g i (db_fields s))
     = map_option (\<lambda>r. if field_id r = i then r\<lparr>fr_field := revise_field g (fr_field r)\<rparr> else r)
        (find (\<lambda>r. field_id r = i \<and> active_table_visible actor (fd_table (fr_field r)) s) (db_fields s))"
    unfolding revise_fields_def by (rule find_update_where) (use g in \<open>simp add: keeps_field_def revise_field_def\<close>)
  then show ?thesis using f find_field_id[OF f] by (simp add: find_field_def v s'(1))
qed

lemma UpdateField_stored_result:
  assumes k: "keys_ok s" and st: "stored_ok L s" and g: "GetField actor i s = Inr current"
    and t: "field_ok L target" "target = current\<lparr>fd_name := n, fd_config := c, fd_description := d\<rparr>"
    and w: "UpdateField E actor i expected target s = Inr (f, s')"
  shows "f = (if target = current then current else target\<lparr>fd_revision := fd_revision current + 1\<rparr>)
    \<and> GetField actor i s' = Inr f"
proof -
  obtain s1 u b cur where a: "begin_audit E actor s = Inr (u, s1)" and l: "lockAccessibleField actor i s1 = Inr (cur, b)"
    and w: "if fd_name cur = fd_name target \<and> fd_description cur = fd_description target \<and> fd_config cur = fd_config target
       then f = cur \<and> s' = s1 else write_field E actor (field_columns target) i s1 = Inr (f, s')"
    using w unfolding UpdateField_def by (auto simp: run_simps split: if_splits)
  obtain r where r: "find_field actor i s1 = Some r" "scanField (fr_field r) = Inr cur"
    using lockAccessibleField_Inr[OF l] by blast
  have s1: "find_field actor i s1 = find_field actor i s" "keys_ok s1" "stored_ok L s1"
    using a begin_audit_keys[OF a k] part_stored(1)[OF a] st by (auto simp: begin_audit_Inr)
  have cur: "cur = current" using g r s1(1) by (simp add: GetField_def)
  have ok: "field_ok L (fr_field r)" using stored_field[OF s1(3) r(1)] .
  have row: "fr_field r = current" using scanField_ok[OF ok] r(2) cur by simp
  show ?thesis
  proof (cases "target = current")
    case True
    then have "f = current" "s' = s1" using w cur by auto
    then show ?thesis using True g s1(1) by (simp add: GetField_def)
  next
    case False
    then have "\<not> (fd_name cur = fd_name target \<and> fd_description cur = fd_description target \<and> fd_config cur = fd_config target)"
      using t(2) cur by auto
    then have wf: "write_field E actor (field_columns target) i s1 = Inr (f, s')" using w by simp
    let ?rows = "revise_fields (field_columns target) i (db_fields s1)"
    let ?new = "target\<lparr>fd_revision := fd_revision current + 1\<rparr>"
    have new: "revise_field (field_columns target) (fr_field r) = ?new"
      by (simp add: row revise_field_def field_columns_def t(2))
    have cols: "keeps_field (field_columns target)" by (simp add: keeps_field_def field_columns_def)
    have found: "find (\<lambda>x. field_id x = i) ?rows = Some (r\<lparr>fr_field := ?new\<rparr>)"
    proof -
      have "find (\<lambda>x. field_id x = i) (db_fields s1) = Some r"
        using find_key[of field_id "db_fields s1" r] find_field_id[OF r(1)] s1(2) by (simp add: keys_ok_def)
      moreover have "find (\<lambda>x. field_id x = i) ?rows = map_option
          (\<lambda>x. if field_id x = i then x\<lparr>fr_field := revise_field (field_columns target) (fr_field x)\<rparr> else x)
          (find (\<lambda>x. field_id x = i) (db_fields s1))"
        unfolding revise_fields_def by (rule find_update_where) (use cols in \<open>simp add: keeps_field_def revise_field_def\<close>)
      ultimately show ?thesis using find_field_id[OF r(1)] new by simp
    qed
    have scan: "scanField ?new = Inr ?new" by (rule scanField_ok[where L = L]) (use t(1) in simp)
    have "f = ?new \<and> (\<exists>s2. insert_metadata_change E actor ''schemaChanged'' (fd_table target) (fd_id target)
        (fd_revision current + 1) (s1\<lparr>db_fields := ?rows\<rparr>) = Inr ((), s2)
        \<and> invalidate_selections E actor (fd_table target) [] s2 = Inr s')"
      using wf found scan by (auto simp: write_field_def revise_fields_def[symmetric] run_simps)
    then obtain s2 where f: "f = ?new"
      and m: "insert_metadata_change E actor ''schemaChanged'' (fd_table target) (fd_id target)
        (fd_revision current + 1) (s1\<lparr>db_fields := ?rows\<rparr>) = Inr ((), s2)"
      and inv: "invalidate_selections E actor (fd_table target) [] s2 = Inr s'"
      by blast
    have same: "same_contents (s1\<lparr>db_fields := ?rows\<rparr>) s2" "same_contents s2 s'"
      using part_same_contents(3)[OF m] part_same_contents(7)[OF inv] by blast+
    have tables: "db_tables s2 = db_tables s1" "db_tables s' = db_tables s2"
      using part_same_tables(2)[OF m] part_same_tables(5)[OF inv] by (simp_all add: same_tables_def)
    have "find_field actor i s' = Some (r\<lparr>fr_field := revise_field (field_columns target) (fr_field r)\<rparr>)"
      by (rule find_field_written[OF s1(2) r(1) cols]) (use same tables in \<open>simp_all add: same_contents_def\<close>)
    then show ?thesis using False f new scan by (simp add: GetField_def)
  qed
qed

lemma updated_field_columns:
  "updated_field L gen draws now i u f = Inr target \<Longrightarrow>
     fu_expected u = fd_revision f \<and> (\<exists>n c d. target = f\<lparr>fd_name := n, fd_config := c, fd_description := d\<rparr>)"
  by (auto simp: updated_field_def run_simps)

section \<open>Sending a creating request again\<close>

definition ids_available :: "env \<Rightarrow> bool" where
  "ids_available E \<longleftrightarrow> (\<forall>n p. en_ids E n p \<noteq> None)"

text \<open>The loop over the options of a new Field, whatever IDs it draws.\<close>

definition same_options :: "select_state \<Rightarrow> select_state \<Rightarrow> bool" where
  "same_options st st' \<longleftrightarrow> ss_names st = ss_names st' \<and> ss_issues st = ss_issues st'
     \<and> map (\<lambda>x. (so_name x, so_color x)) (ss_active st) = map (\<lambda>x. (so_name x, so_color x)) (ss_active st')"

lemma option_checks_same: "same_options st st' \<Longrightarrow> option_checks L p opt st = option_checks L p opt st'"
  by (auto simp: option_checks_def same_options_def split: sum.split)

lemma new_options_loop_same:
  assumes "\<forall>n. gen' n OptionPrefix \<noteq> None"
  shows "new_options_loop L gen i input st = Inr r \<Longrightarrow> same_options st st' \<Longrightarrow>
    \<exists>r'. new_options_loop L gen' i input st' = Inr r' \<and> same_options r r'"
proof (induction L gen i input st arbitrary: st' rule: new_options_loop.induct)
  case (1 L gen i st)
  then show ?case by auto
next
  case (2 L gen i opt rest st)
  let ?p = "''/config/options/'' @ show_nat i"
  show ?case
  proof (cases "oi_id opt")
    case (Some x)
    let ?is = "[Issue (?p @ ''/id'') ''invalidReference'' ''an option ID cannot be supplied when creating a Field'']"
    have "same_options (select_issues ?is st) (select_issues ?is st')"
      using 2(5) by (simp add: same_options_def select_issues_def)
    then show ?thesis using 2 Some by (auto simp: Let_def)
  next
    case None
    show ?thesis
    proof (cases "option_checks L ?p opt st")
      case (Inl issues)
      then have "option_checks L ?p opt st' = Inl issues" using option_checks_same[OF 2(5)] by simp
      moreover have "same_options (select_issues issues st) (select_issues issues st')"
        using 2(5) by (simp add: same_options_def select_issues_def)
      ultimately show ?thesis using 2 None Inl by (auto simp: Let_def)
    next
      case (Inr name)
      then have c: "option_checks L ?p opt st' = Inr name" using option_checks_same[OF 2(5)] by simp
      let ?n = "\<lambda>st. st\<lparr>ss_names := FoldKey L name # ss_names st\<rparr>"
      obtain x sa where d: "draw_option gen (?n st) = Inr (x, sa)"
        and r: "new_options_loop L gen (Suc i) rest (keep_option x name (oi_color opt) sa) = Inr r"
        using 2(4) None Inr by (auto simp: Let_def ok_then_eq_Inr)
      obtain x' sb where d': "draw_option gen' (?n st') = Inr (x', sb)"
        using assms[rule_format, of "ss_draws st'"]
        by (cases "gen' (ss_draws st') OptionPrefix") (auto simp: draw_option_def)
      have "same_options (keep_option x name (oi_color opt) sa) (keep_option x' name (oi_color opt) sb)"
        using 2(5) d d' by (auto simp: same_options_def draw_option_def keep_option_def split: option.splits)
      then show ?thesis using 2(3)[OF refl _ Inr r] d c d' None by (auto simp: Let_def)
    qed
  qed
qed

lemma normalize_new_field_config_same:
  assumes "normalize_new_field_config L gen draws t raw = Inr (c, fp)" "\<forall>n. gen' n OptionPrefix \<noteq> None"
  shows "\<exists>c'. normalize_new_field_config L gen' draws' t raw = Inr (c', fp)"
proof (cases "t = ''number'' \<or> plain_type t \<or> t = ''attachment''")
  case True
  then show ?thesis using assms(1)
    by (auto simp: normalize_new_field_config_def split: if_splits)
next
  case False
  then obtain input n where i: "select_type t" "raw = RawSelect input" "fp = RawSelect n"
    and s: "normalize_new_select_config L gen draws input = Inr (c, n)"
    using assms(1) by (auto simp: normalize_new_field_config_def ok_then_eq_Inr split: if_splits raw_config.splits)
  obtain st where l: "length input \<le> max_active_options" "ss_issues st = []"
    "new_options_loop L gen 0 input (select_start draws) = Inr st"
    "n = map (\<lambda>c. \<lparr>oi_id = None, oi_name = so_name c, oi_color = so_color c\<rparr>) (ss_active st)"
    using s by (auto simp: normalize_new_select_config_def ok_then_eq_Inr not_less)
  have "same_options (select_start draws) (select_start draws')" by (simp add: same_options_def select_start_def)
  from new_options_loop_same[of gen', OF assms(2) l(3) this] obtain st' where
    l': "new_options_loop L gen' 0 input (select_start draws') = Inr st'" "same_options st st'" by blast
  have "map (\<lambda>c. \<lparr>oi_id = None, oi_name = so_name c, oi_color = so_color c\<rparr>) (ss_active st') = n"
  proof -
    let ?g = "\<lambda>p. \<lparr>oi_id = None, oi_name = fst p, oi_color = snd p\<rparr>"
    have m: "map (\<lambda>x. (so_name x, so_color x)) (ss_active st') = map (\<lambda>x. (so_name x, so_color x)) (ss_active st)"
      using l'(2) by (simp add: same_options_def)
    show ?thesis using arg_cong[OF m, of "map ?g"] by (simp add: l(4) comp_def)
  qed
  moreover have "ss_issues st' = []" using l'(2) l(2) by (simp add: same_options_def)
  ultimately have "\<exists>c'. normalize_new_select_config L gen' draws' input = Inr (c', n)"
    using l(1) l'(1) by (simp add: normalize_new_select_config_def)
  then show ?thesis using i False by (auto simp: normalize_new_field_config_def)
qed

definition same_request_env :: "env \<Rightarrow> env \<Rightarrow> bool" where
  "same_request_env E E' \<longleftrightarrow> en_lib E' = en_lib E \<and> en_hash E' = en_hash E \<and> ids_available E'"

lemma same_fingerprint: "same_request_env E E' \<Longrightarrow> requestFingerprint E' J m p body = requestFingerprint E J m p body"
  by (cases "J m p body") (simp_all add: requestFingerprint_def same_request_env_def)

lemma draw_available: "ids_available E \<Longrightarrow> \<exists>i. en_ids E n p = Some i"
  by (auto simp: ids_available_def)

lemma draw_id_available: "ids_available E \<Longrightarrow> \<exists>i. draw_id E what p s = Inr (i, s\<lparr>db_draws := db_draws s + 1\<rparr>)"
  using draw_available[of E "db_draws s" p] by (auto simp: draw_id_Inr)

text \<open>The second answer, with the bookkeeping it leaves behind.\<close>

definition answered :: "('a \<times> db) res \<Rightarrow> 'a \<Rightarrow> db \<Rightarrow> bool" where
  "answered r x s \<longleftrightarrow> (\<exists>n i. r = Inr (x, s\<lparr>db_draws := n, db_operation := i\<rparr>))"

context receipted begin

text \<open>The store's answer to a request that was sent before, after the IDs the handler draws.\<close>

lemma answered_again:
  assumes "create E actor key h p s = Inr (x, s1)" "db_steps s1 s2" "ids_available E'"
  shows "answered (create E' actor key h q (s2\<lparr>db_draws := n\<rparr>)) x s2"
proof -
  obtain i where i: "en_ids E' (db_draws (s2\<lparr>db_draws := n\<rparr>)) ''op_'' = Some i"
    using draw_available[OF assms(3)] by blast
  have "db_steps s1 (s2\<lparr>db_draws := n\<rparr>)" using assms(2) by (rule steps_snoc) (rule draws_step)
  from sent_again[OF assms(1) this i] show ?thesis by (auto simp: answered_def)
qed

end

lemma request_passed [simp]:
  "Valid prefix v \<Longrightarrow> validateID p prefix v = Inr ()" "Valid MutationPrefix key \<Longrightarrow> validate_key key = Inr ()"
  by simp_all

lemma Service_CreateWorkspace_again:
  assumes e: "same_request_env E E'" and r: "Service_CreateWorkspace E J actor key name s = Inr (x, s1)" and st: "db_steps s1 s2"
  shows "answered (Service_CreateWorkspace E' J actor key name s2) x s2"
proof -
  have a: "ids_available E'" "en_lib E' = en_lib E" using e by (simp_all add: same_request_env_def)
  obtain i where i: "en_ids E' (db_draws s2) WorkspacePrefix = Some i" using draw_available[OF a(1)] by blast
  show ?thesis using r i
    by (auto simp: Service_CreateWorkspace_def a(2) run_simps draw_id_Inr same_fingerprint[OF e] draw_id_def
        intro!: create_workspace.answered_again[OF _ st a(1)])
qed

lemma Service_CreateBase_again:
  assumes e: "same_request_env E E'" and r: "Service_CreateBase E J actor key wid name s = Inr (x, s1)" and st: "db_steps s1 s2"
  shows "answered (Service_CreateBase E' J actor key wid name s2) x s2"
proof -
  have a: "ids_available E'" "en_lib E' = en_lib E" using e by (simp_all add: same_request_env_def)
  obtain i where i: "en_ids E' (db_draws s2) BasePrefix = Some i" using draw_available[OF a(1)] by blast
  show ?thesis using r i
    by (auto simp: Service_CreateBase_def a(2) run_simps draw_id_Inr same_fingerprint[OF e] draw_id_def
        intro!: create_base.answered_again[OF _ st a(1)])
qed

lemma Service_CreateTable_again:
  assumes e: "same_request_env E E'" and r: "Service_CreateTable E J actor key bid name pn vn s = Inr (x, s1)" and st: "db_steps s1 s2"
  shows "answered (Service_CreateTable E' J actor key bid name pn vn s2) x s2"
proof -
  have a: "ids_available E'" "en_lib E' = en_lib E" using e by (simp_all add: same_request_env_def)
  obtain i j k where i: "en_ids E' (db_draws s2) TablePrefix = Some i" "en_ids E' (Suc (db_draws s2)) FieldPrefix = Some j"
    "en_ids E' (Suc (Suc (db_draws s2))) ViewPrefix = Some k"
    using draw_available[OF a(1)] by metis
  show ?thesis using r i
    by (auto simp: Service_CreateTable_def a(2) run_simps draw_id_Inr same_fingerprint[OF e] draw_id_def
        intro!: create_table.answered_again[OF _ st a(1)])
qed

lemma Service_CreateField_again:
  assumes e: "same_request_env E E'" and r: "Service_CreateField E J actor key tid input s = Inr (x, s1)" and st: "db_steps s1 s2"
  shows "answered (Service_CreateField E' J actor key tid input s2) x s2"
proof -
  have a: "ids_available E'" "en_lib E' = en_lib E" using e by (simp_all add: same_request_env_def)
  obtain i where i: "en_ids E' (db_draws s2 + new_options (fi_config input)) FieldPrefix = Some i"
    using draw_available[OF a(1)] by blast
  obtain c fp where c: "normalize_new_field_config (en_lib E) (en_ids E) (db_draws s) (fi_type input) (fi_config input) = Inr (c, fp)"
    using r by (auto simp: Service_CreateField_def run_simps)
  have "\<forall>n. en_ids E' n OptionPrefix \<noteq> None" using a(1) unfolding ids_available_def by blast
  then obtain c' where c': "normalize_new_field_config (en_lib E) (en_ids E') (db_draws s2) (fi_type input) (fi_config input) = Inr (c', fp)"
    using normalize_new_field_config_same[OF c, of "en_ids E'"] by blast
  show ?thesis using r i c c'
    by (auto simp: Service_CreateField_def a(2) run_simps draw_id_Inr same_fingerprint[OF e] draw_id_def draw_more_def
        intro!: create_field.answered_again[OF _ st a(1)])
qed

lemma Service_ReorderViews_again:
  assumes e: "same_request_env E E'" and r: "Service_ReorderViews E J actor key tid expected ids s = Inr (x, s1)" and st: "db_steps s1 s2"
  shows "answered (Service_ReorderViews E' J actor key tid expected ids s2) x s2"
proof -
  have a: "ids_available E'" using e by (simp add: same_request_env_def)
  have again: "answered (ReorderViews E' actor key tid h input s2) x s2" if "ReorderViews E actor key tid h input s = Inr (x, s1)" for h input
    using reorder_views.answered_again[of E actor key h "(tid, input)" s x s1 s2 E' "(tid, input)" "db_draws s2"] that st a
    by (simp add: reorder_request_def)
  show ?thesis using r
    by (auto simp: Service_ReorderViews_def run_simps same_fingerprint[OF e] intro!: again)
qed

section \<open>Properties\<close>


text \<open>C38: \<open>UpdateField\<close> reads the Field before its transaction, and any requests may run in between; when the
  transaction succeeds the Field is still the one that was read, the answer is the Field with exactly the
  requested changes and the next revision (the Field as it is when they change nothing), and that answer is
  what is read from then on.\<close>

theorem update_field_atomic:
  assumes "nfc_ok L" "catalog_ok s0" "stored_ok L s0" "env_ok L E s0" "service_run L s0 s"
    and "GetField actor i s0 = Inr current"
    and "updated_field L (en_ids E) draws now i u current = Inr target"
    and "UpdateField E actor i (fu_expected u) target s = Inr (f, s')"
  shows "GetField actor i s = Inr current
    \<and> f = (if target = current then current else target\<lparr>fd_revision := fd_revision current + 1\<rparr>)
    \<and> GetField actor i s' = Inr f"
proof -
  have r: "db_steps s0 s" "catalog_ok s" "stored_ok L s" using service_run_ok[OF assms(1,5,2,3)] by auto
  obtain n c d where t: "target = current\<lparr>fd_name := n, fd_config := c, fd_description := d\<rparr>"
    and e: "fu_expected u = fd_revision current"
    using updated_field_columns[OF assms(7)] by blast
  have "field_write E actor i (fd_revision current) target s"
    using assms(8) e by (auto simp: field_write_def)
  then have g: "GetField actor i s = Inr current"
    by (rule field_write_unchanged[OF catalog_ok_parts(1)[OF assms(2)] r(1) assms(6)])
  have fresh: "fresh_source (en_ids E) (config_ids (fd_config current))"
    using assms(4) GetField_stored(2)[OF assms(3,6)] fresh_mono by (auto simp: env_ok_def)
  have "field_ok L target"
    using updated_field_ok[OF _ GetField_stored(1)[OF assms(3,6)] fresh assms(7)] assms(1) by (simp add: nfc_ok_def)
  from UpdateField_stored_result[OF catalog_ok_parts(1)[OF r(2)] r(3) g this t assms(8)] show ?thesis using g by simp
qed

text \<open>C39: a request that creates a Workspace, a Base, a Table or a Field, or that orders the Views, and that is
  sent again with its key gets the answer it got the first time, whatever requests ran since, and leaves
  the catalog as it is; the new IDs that the handler draws for it are dropped.\<close>

theorem create_request_retried:
  assumes "same_request_env E E'" "catalog_ok s1" "nfc_ok L" "stored_ok L s1" "service_run L s1 s2"
  shows "(Service_CreateWorkspace E J actor key name s = Inr (w, s1) \<longrightarrow>
        answered (Service_CreateWorkspace E' J actor key name s2) w s2)
    \<and> (Service_CreateBase E J actor key i name s = Inr (b, s1) \<longrightarrow>
        answered (Service_CreateBase E' J actor key i name s2) b s2)
    \<and> (Service_CreateTable E J actor key i name pn vn s = Inr (t, s1) \<longrightarrow>
        answered (Service_CreateTable E' J actor key i name pn vn s2) t s2)
    \<and> (Service_CreateField E J actor key i input s = Inr (f, s1) \<longrightarrow>
        answered (Service_CreateField E' J actor key i input s2) f s2)
    \<and> (Service_ReorderViews E J actor key i expected ids s = Inr (v, s1) \<longrightarrow>
        answered (Service_ReorderViews E' J actor key i expected ids s2) v s2)"
proof -
  have st: "db_steps s1 s2" using service_run_ok[OF assms(3,5,2,4)] by simp
  show ?thesis
    by (intro conjI impI)
      (erule Service_CreateWorkspace_again[OF assms(1) _ st] Service_CreateBase_again[OF assms(1) _ st]
        Service_CreateTable_again[OF assms(1) _ st] Service_CreateField_again[OF assms(1) _ st]
        Service_ReorderViews_again[OF assms(1) _ st])+
qed

text \<open>C40: \<open>CreateView\<close> does not keep that promise: it reads the Fields of the Table before the receipt is looked
  up, so once the Table is deleted the request that created a View is answered \<open>NotFound\<close>, although
  the receipt with its first answer is still there.\<close>

theorem create_view_retry_refused:
  assumes "Service_CreateView E J actor key tid input s = Inr (v, s1)" "db_steps s1 s2"
    and "\<not> active_table_visible actor tid s2"
  shows "Service_CreateView E J actor key tid input s2 = Inl NotFound
    \<and> (\<exists>r. find_receipt actor key s2 = Some r \<and> as_view (ir_response r) = Some v)"
proof
  show "Service_CreateView E J actor key tid input s2 = Inl NotFound"
    using assms(1,3) by (auto simp: Service_CreateView_def ListFields_def lifecycle_condition_def run_simps)
  obtain h p m where w: "CreateView E actor key h p (s\<lparr>db_draws := m\<rparr>) = Inr (v, s1)"
    using assms(1) by (auto simp: Service_CreateView_def run_simps draw_id_Inr)
  obtain r where "find_receipt actor key s1 = Some r" "as_view (ir_response r) = Some v"
    using create_view.saves[OF w] by blast
  then show "\<exists>r. find_receipt actor key s2 = Some r \<and> as_view (ir_response r) = Some v"
    using db_steps_receipt[OF assms(2)] by blast
qed

section \<open>A run of requests\<close>

text \<open>An Actor adds a select Field and then a View to the Table of \<open>sample_db\<close>, and deletes the Table.\<close>

definition few_ids :: id_source where
  "few_ids n prefix = (if n < 20 then numbered_ids n prefix else None)"

definition few_env :: env where "few_env = sample_env\<lparr>en_ids := few_ids\<rparr>"

definition sample_json :: request_json where "sample_json method p body = Some (method @ p)"

definition sample_key :: "char \<Rightarrow> string" where "sample_key c = sample_id ''mut_'' c"

definition status_input :: field_input where
  "status_input = \<lparr>fi_name = '' Status'', fi_type = ''select'',
     fi_config = RawSelect [\<lparr>oi_id = None, oi_name = ''Open'', oi_color = ''red''\<rparr>], fi_description = None\<rparr>"

definition status_request :: "env \<Rightarrow> field tx" where
  "status_request E = Service_CreateField E sample_json sample_actor (sample_key (CHR ''1'')) sample_table status_input"

definition fielded :: "(field \<times> db) res" where "fielded = status_request few_env sample_db"

definition fielded_db :: db where
  "fielded_db = (case fielded of Inl e \<Rightarrow> sample_db | Inr (f, s) \<Rightarrow> s)"

lemma fielded_Inr: "\<exists>f. fielded = Inr (f, fielded_db)"
proof -
  have "case fielded of Inl e \<Rightarrow> False | Inr y \<Rightarrow> True" by code_simp
  from case_InrD[OF this] obtain f s where y: "fielded = Inr (f, s)" by auto
  have "fielded_db = s" unfolding fielded_db_def y by simp
  then show ?thesis using y by blast
qed

lemma few_ids_fresh: "fresh_source few_ids {}"
proof -
  let ?i = "\<lambda>n. the (numbered_ids n OptionPrefix)"
  have v: "list_all (\<lambda>n. Valid OptionPrefix (?i n)) [0..<20]" by code_simp
  have d: "distinct (map ?i [0..<20])" by code_simp
  have few: "n \<in> set [0..<20] \<and> x = ?i n" if "few_ids n OptionPrefix = Some x" for n x
    using that by (auto simp: few_ids_def split: if_splits)
  show ?thesis unfolding fresh_source_def
  proof (intro conjI allI impI)
    fix n x assume "few_ids n OptionPrefix = Some x"
    from few[OF this] have n: "n \<in> set [0..<20]" "x = ?i n" by blast+
    show "Valid OptionPrefix x" unfolding n(2) by (rule bspec[OF v[unfolded list_all_iff] n(1)])
    show "x \<notin> {}" by simp
  next
    fix n m x assume "few_ids n OptionPrefix = Some x" "few_ids m OptionPrefix = Some x"
    note a = few[OF this(1)] and b = few[OF this(2)]
    note n = conjunct1[OF a] conjunct1[OF b] conjunct2[OF a, symmetric, THEN trans, OF conjunct2[OF b]]
    have "inj_on ?i (set [0..<20])" using d unfolding distinct_map by blast
    from inj_onD[OF this n(3,1,2)] show "n = m" .
  qed
qed

lemma few_env_ok: "option_ids s = {} \<Longrightarrow> env_ok ascii_lib few_env s"
  by (simp add: env_ok_def few_env_def sample_env_def few_ids_fresh)

lemma ascii_nfc_ok: "nfc_ok ascii_lib"
  by (simp add: nfc_ok_def) (simp add: ascii_lib_def)

lemma sample_db_stored: "stored_ok ascii_lib sample_db"
proof -
  have "list_all (\<lambda>n. \<not> contains_control n \<and> rune_count n \<le> 200 \<and> trim_unicode_space n = n)
      [''Home'', ''Work'', ''Tasks'']"
    by code_simp
  then have n: "name_ok ascii_lib ''Home''" "name_ok ascii_lib ''Work''" "name_ok ascii_lib ''Tasks''"
    "name_ok ascii_lib ''Name''" "name_ok ascii_lib ''Grid''"
    using default_names_ok[OF ascii_nfc_ok] by (simp_all add: name_ok_def ResourceNameMaxCodePoints_def ascii_lib_def)
  have "view_ok ascii_lib sample_view"
    using n by (simp add: view_ok_def sample_view_def grid_bounds_ok_def)
  then show ?thesis using n
    by (simp add: stored_ok_def sample_db_def sample_tbl_def field_ok_def description_ok_def field_config_ok_simps
        plain_type_def)
qed

lemma sample_options: "option_ids sample_db = {}"
  by (simp add: option_ids_def sample_db_def config_ids_def)

lemma fielded_run: "service_run ascii_lib sample_db fielded_db"
  using fielded_Inr few_env_ok[OF sample_options] unfolding fielded_def status_request_def
  by (auto intro: create_field)


definition rename_request :: field_update where
  "rename_request = \<lparr>fu_name = Some ''Title'', fu_type = ''text'', fu_config = RawNil, fu_description = None,
     fu_description_present = False, fu_expected = 1\<rparr>"

theorem update_field_atomic_witness:
  "\<exists>current s'. GetField sample_actor sample_field sample_db = Inr current
     \<and> UpdateField few_env sample_actor sample_field 1 (current\<lparr>fd_name := ''Title''\<rparr>) fielded_db
         = Inr (current\<lparr>fd_name := ''Title'', fd_revision := 2\<rparr>, s')
     \<and> GetField sample_actor sample_field s' = Inr (current\<lparr>fd_name := ''Title'', fd_revision := 2\<rparr>)"
proof -
  have "case GetField sample_actor sample_field sample_db of Inl e \<Rightarrow> False | Inr f \<Rightarrow>
      (fd_revision f = 1 \<and> fd_name f = ''Name'' \<and> fd_type f = ''text'' \<and> fd_deleted_at f = None) \<and>
      (case UpdateField few_env sample_actor sample_field 1 (f\<lparr>fd_name := ''Title''\<rparr>) fielded_db of
         Inl e \<Rightarrow> False | Inr x \<Rightarrow> True)"
    by code_simp
  then obtain f where f: "GetField sample_actor sample_field sample_db = Inr f"
    and g: "fd_revision f = 1" "fd_name f = ''Name''" "fd_type f = ''text''" "fd_deleted_at f = None"
    and u: "case UpdateField few_env sample_actor sample_field 1 (f\<lparr>fd_name := ''Title''\<rparr>) fielded_db of
         Inl e \<Rightarrow> False | Inr x \<Rightarrow> True"
    by (auto dest: case_InrD)
  obtain y s' where y: "UpdateField few_env sample_actor sample_field 1 (f\<lparr>fd_name := ''Title''\<rparr>) fielded_db = Inr (y, s')"
    using case_InrD[OF u] by auto
  have "trim_unicode_space ''Title'' = ''Title''" "\<not> contains_control ''Title''" "rune_count ''Title'' \<le> 200"
    by code_simp+
  then have title: "NormalizeResourceName ascii_lib ''/name'' ''Title'' = Inr ''Title''"
    by (simp add: NormalizeResourceName_def normalize_name_cases ResourceNameMaxCodePoints_def ascii_lib_def)
  have t: "updated_field ascii_lib (en_ids few_env) 0 0 sample_field rename_request f = Inr (f\<lparr>fd_name := ''Title''\<rparr>)"
    using g title
    by (simp add: updated_field_def rename_request_def check_revision_def updated_name_def updated_description_def)
  have e: "fu_expected rename_request = 1" by (simp add: rename_request_def)
  have "f\<lparr>fd_name := ''Title''\<rparr> \<noteq> f"
  proof
    assume "f\<lparr>fd_name := ''Title''\<rparr> = f"
    from arg_cong[OF this, of fd_name] g(2) show False by simp
  qed
  then have "y = f\<lparr>fd_name := ''Title'', fd_revision := 2\<rparr> \<and> GetField sample_actor sample_field s' = Inr y"
    using update_field_atomic[OF ascii_nfc_ok sample_db_catalog sample_db_stored few_env_ok[OF sample_options]
        fielded_run f t y[folded e]] g(1) by simp
  then show ?thesis using f y by blast
qed

lemma sample_same_env: "same_request_env few_env sample_env"
  by (simp add: same_request_env_def few_env_def ids_available_def sample_env_def numbered_ids_def)

theorem create_request_retried_witness:
  "\<exists>f. status_request few_env sample_db = Inr (f, fielded_db) \<and> answered (status_request sample_env fielded_db) f fielded_db"
proof -
  obtain f where f: "status_request few_env sample_db = Inr (f, fielded_db)"
    using fielded_Inr unfolding fielded_def by blast
  have ok: "catalog_ok fielded_db \<and> stored_ok ascii_lib fielded_db"
    using service_run_ok[OF ascii_nfc_ok fielded_run sample_db_catalog sample_db_stored] by blast
  have "answered (status_request sample_env fielded_db) f fielded_db"
    using create_request_retried[OF sample_same_env conjunct1[OF ok] ascii_nfc_ok conjunct2[OF ok] rtranclp.rtrancl_refl]
      f unfolding status_request_def by blast
  then show ?thesis using f by blast
qed

definition board_request :: "env \<Rightarrow> view tx" where
  "board_request E = Service_CreateView E sample_json sample_actor (sample_key (CHR ''2'')) sample_table
     \<lparr>vn_name = ''Board'', vn_type = ''grid'', vn_config = RawGrid \<lparr>gc_projection = [], gc_column_order = [],
        gc_column_widths = fmempty, gc_frozen = [], gc_row_height = ''standard'', gc_filter = None, gc_sort = [],
        gc_manual_sort = False\<rparr>\<rparr>"

definition boarded :: "(view \<times> db) res" where "boarded = board_request few_env sample_db"

definition deleted :: "view \<times> db \<Rightarrow> (unit \<times> db) res" where
  "deleted p = Service_DeleteTable few_env sample_actor sample_table 1 (snd p)"

theorem create_view_retry_refused_witness:
  "\<exists>v s1 s2. board_request few_env sample_db = Inr (v, s1)
     \<and> Service_DeleteTable few_env sample_actor sample_table 1 s1 = Inr ((), s2)
     \<and> board_request few_env s2 = Inl NotFound"
proof -
  have "case boarded of Inl e \<Rightarrow> False | Inr p \<Rightarrow> (case deleted p of Inl e \<Rightarrow> False | Inr q \<Rightarrow>
      \<not> active_table_visible sample_actor sample_table (snd q))"
    by code_simp
  then obtain v s1 where b: "boarded = Inr (v, s1)" and d: "case deleted (v, s1) of Inl e \<Rightarrow> False | Inr q \<Rightarrow>
      \<not> active_table_visible sample_actor sample_table (snd q)"
    by (auto dest: case_InrD)
  obtain s2 where s2: "Service_DeleteTable few_env sample_actor sample_table 1 s1 = Inr ((), s2)"
    "\<not> active_table_visible sample_actor sample_table s2"
    using case_InrD[OF d] by (auto simp: deleted_def)
  have st: "db_steps s1 s2" using s2(1) by (auto simp: Service_DeleteTable_def run_simps elim: refines)
  have "board_request few_env s2 = Inl NotFound"
    using create_view_retry_refused[OF b[unfolded boarded_def board_request_def] st s2(2)]
    by (simp add: board_request_def)
  then show ?thesis using b s2 by (auto simp: boarded_def)
qed

end
