(* ===== verification/RecordSamples.thy ===== *)
theory RecordSamples
  imports RecordFacts Service_Runs
begin

text \<open>
  Requests on the Records of small Tables: the properties of \<open>RecordResults\<close>, \<open>RecordValid\<close> and \<open>RecordFacts\<close> at
  concrete inputs.
\<close>

section \<open>A process and commands\<close>

definition sample_host :: host where
  "sample_host = \<lparr>ho_json = (\<lambda>v. []), ho_round = (\<lambda>x. x)\<rparr>"

lemma sample_host_rounds: "rounds sample_host UNIV"
  by (simp add: rounds_def sample_host_def mono_def)

definition row_id :: "char \<Rightarrow> string" where "row_id c = sample_id ''rec_'' c"

definition write_command :: "string \<Rightarrow> string \<Rightarrow> int \<Rightarrow> vals \<Rightarrow> command" where
  "write_command kind i expected vs =
     \<lparr>cm_kind = kind, cm_record = i, cm_expected = expected,
      cm_values = (if kind = ''createRecord'' then Some vs else None),
      cm_set = (if kind = ''updateRecord'' then Some vs else None),
      cm_unset = [], cm_choices = [], cm_values_present = (kind = ''createRecord''),
      cm_set_present = (kind = ''updateRecord''), cm_unset_present = False, cm_choices_present = False\<rparr>"

definition named :: "string \<Rightarrow> vals" where "named x = fmap_of_list [(sample_field, JStr x)]"

definition three_commands :: "command list" where
  "three_commands =
     [write_command ''createRecord'' [] 0 (named ''new''), write_command ''updateRecord'' (row_id (CHR ''1'')) 1 (named ''b''),
      write_command ''deleteRecord'' (row_id (CHR ''2'')) 1 fmempty]"

definition written :: "env \<Rightarrow> db \<Rightarrow> (mutation_result \<times> db) res" where
  "written E s = MutateRecords E sample_host sample_actor sample_table (sample_key (CHR ''1'')) ''h'' three_commands s"

lemma tx_InrD: "(case r of Inl e \<Rightarrow> False | Inr (x, s) \<Rightarrow> P x s) \<Longrightarrow> \<exists>x s. r = Inr (x, s) \<and> P x s"
  by (auto split: sum.splits)

section \<open>Three commands on two Records\<close>

lemma same_catalog: "catalog_ok s \<Longrightarrow> distinct (map record_id rs) \<Longrightarrow> catalog_ok (s\<lparr>db_records := rs\<rparr>)"
  by (simp add: catalog_ok_def keys_ok_def parents_ok_def limits_ok_def order_ok_def default_ok_def primary_ok_def)

lemma selection_db_catalog: "catalog_ok selection_db"
  unfolding selection_db_def
  by (rule same_catalog[OF sample_db_catalog]) (simp add: selection_row_def name_row_def sample_id_def Let_def)

lemma selection_db_log: "log_ok selection_db"
  using sample_db_log by (simp add: selection_db_def log_ok_def watermark_def)

theorem mutation_effect_witness:
  "\<exists>m s'. written sample_env selection_db = Inr (m, s') \<and> length (mr_results m) = length three_commands
     \<and> settled three_commands (mr_results m) s' \<and> change_tail sample_table s' = 3"
proof -
  have "case written sample_env selection_db of Inl e \<Rightarrow> False | Inr (m, s') \<Rightarrow> mr_sequence m = 3" by code_simp
  then obtain m s' where w: "written sample_env selection_db = Inr (m, s')" "mr_sequence m = 3" by (auto dest: tx_InrD)
  have "find_receipt sample_actor (sample_key (CHR ''1'')) selection_db = None"
    by (simp add: find_receipt_def selection_db_def sample_db_def)
  then show ?thesis using mutation_effect[OF selection_db_catalog _ w(1)[unfolded written_def]] w by auto
qed

theorem record_requests_invariant_witness:
  "\<exists>x s'. record_run ascii_lib sample_db s' \<and> records_ok ascii_lib s' \<and> length (db_records s') = 1"
proof -
  let ?r = "Record_Mutate few_env sample_host (\<lambda>m k cs. Some k) (unary_codec sample_actor sample_table) Feed.sample_key
    sample_actor sample_table (sample_key (CHR ''1'')) [hd three_commands] sample_db"
  obtain x s' where r: "?r = (x, s')" by (cases ?r) auto
  have "length (db_records (snd ?r)) = 1" by code_simp
  then have n: "length (db_records s') = 1" unfolding r by simp
  have run: "record_run ascii_lib sample_db s'"
    by (rule r_into_rtranclp, rule mutate[OF few_env_ok[OF sample_options] r])
  have "records_ok ascii_lib sample_db" by (simp add: records_ok_def sample_db_def)
  then show ?thesis
    using record_requests_invariant[OF lib_ok_ascii sample_db_catalog sample_db_log sample_db_stored _ run] run n by blast
qed

theorem move_lands_witness:
  "\<exists>x s' p. MoveRecord sample_env sample_host sample_actor sample_table (row_id (CHR ''2'')) (Some (row_id (CHR ''1''))) None
       selection_db = Inr (x, s')
     \<and> lands sample_table (row_id (CHR ''2'')) (Some (row_id (CHR ''1''))) None p selection_db
     \<and> map rr_position (db_records s') = [1, p, 1] \<and> p < 1"
proof -
  have "case MoveRecord sample_env sample_host sample_actor sample_table (row_id (CHR ''2'')) (Some (row_id (CHR ''1''))) None
      selection_db of Inl e \<Rightarrow> False | Inr (x, s') \<Rightarrow> rr_position (db_records s' ! 1) < 1" by code_simp
  then obtain x s' where m: "MoveRecord sample_env sample_host sample_actor sample_table (row_id (CHR ''2''))
      (Some (row_id (CHR ''1''))) None selection_db = Inr (x, s')" and l: "rr_position (db_records s' ! 1) < 1"
    by (auto dest: tx_InrD)
  obtain item n where x: "x = (item, n)" by (cases x)
  obtain p where p: "lands sample_table (row_id (CHR ''2'')) (Some (row_id (CHR ''1''))) None p selection_db"
    "db_records s' = update_where (\<lambda>q. record_id q = row_id (CHR ''2'')) (position_columns p (db_now selection_db))
      (db_records selection_db)"
    using move_lands[OF selection_db_catalog selection_db_log sample_host_rounds subset_UNIV _ m[unfolded x]] by auto
  have "map rr_position (db_records s') = [1, p, 1]"
    unfolding p(2) by (simp add: update_where_def selection_db_def selection_row_def name_row_def Let_def row_id_def
        sample_id_def position_columns_def)
  then show ?thesis using m p(1) l by (cases "db_records s'") auto
qed

section \<open>A deleted Field\<close>

definition note_field :: field where
  "note_field = \<lparr>fd_id = sample_id ''fld_'' (CHR ''N''), fd_table = sample_table, fd_name = ''Note'', fd_description = [],
     fd_position = 1, fd_schema_version = 1, fd_revision = 2, fd_type = ''text'', fd_config = EmptyConfig,
     fd_deleted_at = Some 5\<rparr>"

definition noted_row :: record_row where
  "noted_row =
     \<lparr>rr_record = \<lparr>rc_id = row_id (CHR ''1''), rc_table = sample_table, rc_revision = 1,
        rc_values = fmupd (fd_id note_field) (JStr ''x'') (named ''a''), rc_created_at = 0, rc_updated_at = 0,
        rc_deleted_at = None\<rparr>,
      rr_position = 1024, rr_query = named ''a'', rr_search = ''a''\<rparr>"

definition noted_db :: db where
  "noted_db = sample_db\<lparr>db_fields := db_fields sample_db @ [\<lparr>fr_field = note_field, fr_primary = False\<rparr>],
     db_records := [noted_row]\<rparr>"

lemma noted_db_catalog: "catalog_ok noted_db"
proof -
  have s: "keys_ok sample_db" "parents_ok sample_db" "limits_ok sample_db" "order_ok sample_db" "default_ok sample_db"
    "primary_ok sample_db"
    using sample_db_catalog by (simp_all add: catalog_ok_def)
  have "keys_ok noted_db" by (simp add: keys_ok_def noted_db_def sample_db_def note_field_def sample_id_def)
  moreover have "parents_ok noted_db"
    using s(2) by (auto simp: parents_ok_def noted_db_def sample_db_def note_field_def sample_tbl_def)
  moreover have "limits_ok noted_db"
    using s(3) by (simp add: limits_ok_def noted_db_def sample_db_def count_rows_def FieldLimitPerTable_def)
  moreover have "order_ok noted_db" "default_ok noted_db"
    using s(4,5) by (simp_all add: order_ok_def default_ok_def noted_db_def)
  moreover have "primary_ok noted_db" using s(6) by (simp add: primary_ok_def noted_db_def)
  ultimately show ?thesis by (simp add: catalog_ok_def)
qed

lemma note_in: "field_in sample_table (fd_id note_field) noted_db = Some \<lparr>fr_field = note_field, fr_primary = False\<rparr>"
  by (simp add: field_in_def noted_db_def sample_db_def note_field_def sample_id_def)

lemma note_kept: "fd_id note_field \<in> fset (fmdom (rc_values (rr_record noted_row)))"
  by (simp add: noted_row_def)

theorem duplicate_refused_witness:
  "\<exists>issues. GetRecord sample_actor (row_id (CHR ''1'')) noted_db = Inr (rr_record noted_row)
     \<and> DuplicateRecord sample_env sample_host sample_actor sample_table (row_id (CHR ''1'')) noted_db = Inl (Validation issues)
     \<and> issues \<noteq> []"
proof -
  have "active_table_visible sample_actor sample_table noted_db" by code_simp
  then have g: "GetRecord sample_actor (row_id (CHR ''1'')) noted_db = Inr (rr_record noted_row)"
    by (simp add: GetRecord_def noted_db_def noted_row_def)
  have t: "rc_table (rr_record noted_row) = sample_table" "rc_deleted_at (rr_record noted_row) = None"
    by (simp_all add: noted_row_def)
  have a: "sample_actor \<in> set (db_actors noted_db)" by (simp add: noted_db_def sample_db_def)
  obtain j where j: "en_ids sample_env (db_draws noted_db) ''op_'' = Some j" by (simp add: sample_env_def numbered_ids_def)
  have d: "fd_deleted_at (fr_field \<lparr>fr_field = note_field, fr_primary = False\<rparr>) = Some 5" by (simp add: note_field_def)
  show ?thesis
    using duplicate_refused[OF noted_db_catalog a j g t(2) note_kept note_in[folded t(1)] d, of sample_host] g unfolding t(1) by blast
qed

theorem restored_field_not_projected_witness:
  "\<exists>m s1 g s2. MutateRecords sample_env sample_host sample_actor sample_table (sample_key (CHR ''1'')) ''h'' [three_commands ! 1]
       noted_db = Inr (m, s1)
     \<and> RestoreField sample_env sample_actor (fd_id note_field) 2 s1 = Inr (g, s2)
     \<and> (\<exists>q \<in> set (db_records s2). fmlookup (rc_values (rr_record q)) (fd_id note_field) = Some (JStr ''x'')
          \<and> cond_eval sample_env q (TextEmpty (fd_id note_field)) = Some True)
     \<and> \<not> records_ok ascii_lib s2"
proof -
  let ?c = "three_commands ! 1"
  have "case MutateRecords sample_env sample_host sample_actor sample_table (sample_key (CHR ''1'')) ''h'' [?c] noted_db of
      Inl e \<Rightarrow> False | Inr (m, s1) \<Rightarrow> cr_status (mr_results m ! 0) = ''applied''
        \<and> fmlookup (rc_values (cr_record (mr_results m ! 0))) (fd_id note_field) = Some (JStr ''x'')
        \<and> (case RestoreField sample_env sample_actor (fd_id note_field) 2 s1 of Inl e \<Rightarrow> False | Inr (g, s2) \<Rightarrow> True)"
    by code_simp
  then obtain m s1 where m: "MutateRecords sample_env sample_host sample_actor sample_table (sample_key (CHR ''1'')) ''h'' [?c]
      noted_db = Inr (m, s1)"
    and a: "cr_status (mr_results m ! 0) = ''applied''"
      "fmlookup (rc_values (cr_record (mr_results m ! 0))) (fd_id note_field) = Some (JStr ''x'')"
    and g: "case RestoreField sample_env sample_actor (fd_id note_field) 2 s1 of Inl e \<Rightarrow> False | Inr (g, s2) \<Rightarrow> True"
    by (auto dest!: tx_InrD)
  obtain f s2 where r: "RestoreField sample_env sample_actor (fd_id note_field) 2 s1 = Inr (f, s2)"
    using tx_InrD[OF g] by blast
  have "find_receipt sample_actor (sample_key (CHR ''1'')) noted_db = None"
    by (simp add: find_receipt_def noted_db_def sample_db_def)
  moreover have "fd_deleted_at (fr_field \<lparr>fr_field = note_field, fr_primary = False\<rparr>) = Some 5" by (simp add: note_field_def)
  moreover have "cm_kind ?c = ''updateRecord''" "cm_choices ?c = []" by (simp_all add: three_commands_def write_command_def)
  moreover have "fd_id note_field \<in> fset (fmdom (rc_values (cr_record (mr_results m ! 0))))" using a(2) by (simp add: fmdomI)
  ultimately obtain q where q: "q \<in> set (db_records s2)" "rr_record q = cr_record (mr_results m ! 0)"
    "cond_eval sample_env q (TextEmpty (fd_id note_field)) = Some True" "\<not> records_ok ascii_lib s2"
    using restored_field_not_projected[OF noted_db_catalog _ note_in _ m _ _ a(1) _ r] by blast
  have "fmlookup (rc_values (rr_record q)) (fd_id note_field) = Some (JStr ''x'')" unfolding q(2) by (rule a(2))
  then show ?thesis using m r q by blast
qed

section \<open>A live selection\<close>

lemma acquired_db_catalog: "catalog_ok acquired_db"
proof -
  obtain r where r: "AcquireSelection selection_env sample_actor sample_table ''req_1'' whole_table selection_db
      = Inr (r, acquired_db)"
    using acquired_Inr unfolding acquired_def by blast
  have same: "catalog_ok (s\<lparr>db_draws := i, db_scopes := cs\<rparr>) = catalog_ok s" for s :: db and i cs
    by (simp add: catalog_ok_def keys_ok_def parents_ok_def limits_ok_def order_ok_def default_ok_def primary_ok_def)
  show ?thesis using r
  proof (cases rule: AcquireSelection_cases)
    case (replayed c)
    then show ?thesis using selection_db_catalog by simp
  next
    case (frozen plan fp schema i c0 c)
    obtain cs where e: "acquired_db = selection_db\<lparr>db_draws := i, db_scopes := cs\<rparr>"
      using freeze_scope_Inr[OF frozen(3)] by (auto simp: reclaim_scopes_def)
    show ?thesis unfolding e same by (rule selection_db_catalog)
  qed
qed


end
