(* ===== verification/Spec2Isabelle.thy ===== *)
theory Spec2Isabelle
  imports Mutation Values Cursor Query Config Feed RecordRead RecordSamples
begin

text \<open>
  LoomTable-Server: a table server whose records, Fields and Views are kept in PostgreSQL.

  The theories follow the program's packages:

  \<^item> \<open>Prelude\<close>: results, indexed loops, Go maps, strings.
  \<^item> \<open>GoString\<close>: UTF-8 decoding and trimming (the library functions used, and
    \<open>trimUnicodeSpace\<close> of internal/domain/name.go).
  \<^item> \<open>Ids\<close>: internal/id/id.go.
  \<^item> \<open>Domain\<close>: internal/domain and the data types of internal/record/model.go.
  \<^item> \<open>Mutation\<close>: validation of mutation requests and description of changes.
  \<^item> \<open>Values\<close>: internal/record/value.go.
\<close>

end
